(* ===== verification/Jaunder_Prelude.thy ===== *)
theory Jaunder_Prelude
  imports Main
begin

section \<open>Shared vocabulary of the development\<close>

text \<open>
  Strings, instants and SQL tables as every component of the model uses them, with the
  lemmas and the named collections the component theories share.

  \<^item> A Rust \<^verbatim>\<open>str\<close> is the list of its Unicode scalar values (\<open>ustr\<close>), so
    \<^verbatim>\<open>chars().count()\<close> is \<^const>\<open>length\<close>; \<open>lit\<close> spells an ASCII literal.
  \<^item> A \<^verbatim>\<open>UtcInstant\<close> is the integer number of nanoseconds since the epoch. The limits of
    \<^verbatim>\<open>jiff::Timestamp\<close> are the fields of a parameter (\<open>timestamp_range\<close>).
  \<^item> A SQL table is the list of its rows; \<open>update_where\<close> and \<open>delete_where\<close> are the
    \<^verbatim>\<open>UPDATE\<close> and \<^verbatim>\<open>DELETE\<close> statements.
\<close>

named_theorems tx_simps \<open>facts that unfold a transaction\<close>
named_theorems tx_frame \<open>operations that leave the committed database alone\<close>
named_theorems table_simps \<open>facts on rows, keys and statements\<close>

subsection \<open>Strings\<close>

type_synonym ustr = "nat list"

abbreviation lit :: "string \<Rightarrow> ustr" where
  "lit s \<equiv> map of_char s"

definition is_ascii_lower :: "nat \<Rightarrow> bool" where
  "is_ascii_lower c \<longleftrightarrow> 97 \<le> c \<and> c \<le> 122"

definition is_ascii_upper :: "nat \<Rightarrow> bool" where
  "is_ascii_upper c \<longleftrightarrow> 65 \<le> c \<and> c \<le> 90"

definition is_ascii_digit :: "nat \<Rightarrow> bool" where
  "is_ascii_digit c \<longleftrightarrow> 48 \<le> c \<and> c \<le> 57"

definition is_ascii_alphanumeric :: "nat \<Rightarrow> bool" where
  "is_ascii_alphanumeric c \<longleftrightarrow> is_ascii_lower c \<or> is_ascii_upper c \<or> is_ascii_digit c"

definition to_ascii_lower :: "nat \<Rightarrow> nat" where
  "to_ascii_lower c = (if is_ascii_upper c then c + 32 else c)"

lemmas ascii_defs = is_ascii_lower_def is_ascii_upper_def is_ascii_digit_def
  is_ascii_alphanumeric_def to_ascii_lower_def

fun strip_prefix :: "ustr \<Rightarrow> ustr \<Rightarrow> ustr option" where
  "strip_prefix [] s = Some s"
| "strip_prefix (p # ps) [] = None"
| "strip_prefix (p # ps) (c # cs) = (if p = c then strip_prefix ps cs else None)"

definition strip_suffix :: "ustr \<Rightarrow> ustr \<Rightarrow> ustr option" where
  "strip_suffix p s = map_option rev (strip_prefix (rev p) (rev s))"

text \<open>\<^verbatim>\<open>split_once\<close> cuts at the first occurrence of the pattern.\<close>

fun split_once :: "ustr \<Rightarrow> ustr \<Rightarrow> (ustr \<times> ustr) option" where
  "split_once p [] = (if p = [] then Some ([], []) else None)"
| "split_once p (c # cs) =
     (case strip_prefix p (c # cs) of
        Some rest \<Rightarrow> Some ([], rest)
      | None \<Rightarrow> map_option (\<lambda>(a, b). (c # a, b)) (split_once p cs))"

text \<open>\<^verbatim>\<open>rsplit_once\<close> on one character cuts at its last occurrence.\<close>

definition rsplit_once_char :: "nat \<Rightarrow> ustr \<Rightarrow> (ustr \<times> ustr) option" where
  "rsplit_once_char c s =
     map_option (\<lambda>(b, a). (rev a, rev b)) (split_once [c] (rev s))"

lemma strip_prefix_append [simp]: "strip_prefix p (p @ s) = Some s"
  by (induction p) auto

lemma strip_prefix_Some_iff: "strip_prefix p s = Some r \<longleftrightarrow> s = p @ r"
  by (induction p s rule: strip_prefix.induct) auto

lemma strip_suffix_append [simp]: "strip_suffix p (s @ p) = Some s"
  by (simp add: strip_suffix_def)

lemma strip_suffix_Some_iff: "strip_suffix p s = Some r \<longleftrightarrow> s = r @ p"
  by (auto simp: strip_suffix_def strip_prefix_Some_iff) (metis rev_append rev_rev_ident)

lemma split_once_None_char: "c \<notin> set s \<Longrightarrow> split_once [c] s = None"
  by (induction s) auto

lemma split_once_skip:
  "p \<notin> set a \<Longrightarrow> split_once (p # ps) (a @ p # ps @ b) = Some (a, b)"
proof (induction a)
  case Nil
  then show ?case by simp
next
  case (Cons c a)
  then show ?case by simp
qed

lemma split_once_Some_append: "split_once p s = Some (a, b) \<Longrightarrow> s = a @ p @ b"
  by (induction p s arbitrary: a rule: split_once.induct)
    (auto simp: strip_prefix_Some_iff split: option.splits if_splits)

lemma rsplit_once_char_skip: "c \<notin> set b \<Longrightarrow> rsplit_once_char c (a @ c # b) = Some (a, b)"
  using split_once_skip [of c "rev b" "[]" "rev a"] by (simp add: rsplit_once_char_def)

subsection \<open>Instants\<close>

type_synonym instant = int

record timestamp_range =
  ts_min :: instant
  ts_max :: instant

abbreviation seconds :: "int \<Rightarrow> int" where
  "seconds n \<equiv> n * 1000000000"

text \<open>
  \<^verbatim>\<open>saturating_sub\<close> clamps at the lower limit; \<^verbatim>\<open>checked_add\<close> and
  \<^verbatim>\<open>checked_sub\<close> report an unrepresentable result, on which the \<^verbatim>\<open>-\<close> operator panics.
  Durations are not negative.
\<close>

definition saturating_sub :: "timestamp_range \<Rightarrow> instant \<Rightarrow> int \<Rightarrow> instant" where
  "saturating_sub b t d = max (ts_min b) (t - d)"

definition checked_sub :: "timestamp_range \<Rightarrow> instant \<Rightarrow> int \<Rightarrow> instant option" where
  "checked_sub b t d = (if ts_min b \<le> t - d then Some (t - d) else None)"

definition checked_add :: "timestamp_range \<Rightarrow> instant \<Rightarrow> int \<Rightarrow> instant option" where
  "checked_add b t d = (if t + d \<le> ts_max b then Some (t + d) else None)"

lemma saturating_sub_le: "0 \<le> d \<Longrightarrow> ts_min b \<le> t \<Longrightarrow> saturating_sub b t d \<le> t"
  by (simp add: saturating_sub_def)

subsection \<open>Tables\<close>

definition update_where :: "('r \<Rightarrow> bool) \<Rightarrow> ('r \<Rightarrow> 'r) \<Rightarrow> 'r list \<Rightarrow> 'r list" where
  "update_where p f rs = map (\<lambda>r. if p r then f r else r) rs"

definition delete_where :: "('r \<Rightarrow> bool) \<Rightarrow> 'r list \<Rightarrow> 'r list" where
  "delete_where p rs = filter (\<lambda>r. \<not> p r) rs"

definition count_where :: "('r \<Rightarrow> bool) \<Rightarrow> 'r list \<Rightarrow> nat" where
  "count_where p rs = length (filter p rs)"

text \<open>\<^verbatim>\<open>ORDER BY key LIMIT n\<close>; equal keys keep the order of the table.\<close>

definition top_by :: "('r \<Rightarrow> 'k::linorder) \<Rightarrow> nat \<Rightarrow> 'r list \<Rightarrow> 'r list" where
  "top_by k n rs = take n (sort_key k rs)"

lemma length_update_where [simp]: "length (update_where p f rs) = length rs"
  by (simp add: update_where_def)

lemma set_update_where:
  "set (update_where p f rs) = f ` {r \<in> set rs. p r} \<union> {r \<in> set rs. \<not> p r}"
  by (auto simp: update_where_def)

lemma map_update_where [table_simps]:
  "(\<And>r. p r \<Longrightarrow> k (f r) = k r) \<Longrightarrow> map k (update_where p f rs) = map k rs"
  by (auto simp: update_where_def)

lemma update_where_False [simp]: "(\<And>r. r \<in> set rs \<Longrightarrow> \<not> p r) \<Longrightarrow> update_where p f rs = rs"
  by (auto simp: update_where_def intro: map_idI)

lemma find_map_key:
  "(\<And>r. P (f r) = P r) \<Longrightarrow> find P (map f rs) = map_option f (find P rs)"
  by (induction rs) auto

lemma find_Some_memD: "find P rs = Some r \<Longrightarrow> r \<in> set rs \<and> P r"
  by (auto simp: find_Some_iff)

lemma find_append: "find P (xs @ ys) = (case find P xs of None \<Rightarrow> find P ys | Some x \<Rightarrow> Some x)"
  by (induction xs) auto

lemma find_key_unique:
  "distinct (map k rs) \<Longrightarrow> r \<in> set rs \<Longrightarrow> find (\<lambda>x. k x = k r) rs = Some r"
  by (induction rs) (auto simp: rev_image_eqI)

lemma filter_key_found:
  "distinct (map k rs) \<Longrightarrow> find (\<lambda>x. k x = key) rs = Some r \<Longrightarrow>
     filter (\<lambda>x. k x = key \<and> q x) rs = (if q r then [r] else [])"
proof (induction rs)
  case Nil
  then show ?case by simp
next
  case (Cons a rs)
  show ?case
  proof (cases "k a = key")
    case True
    with Cons.prems(1) have "k x \<noteq> key" if "x \<in> set rs" for x
      using that by auto (metis imageI)
    then have "filter (\<lambda>x. k x = key \<and> q x) rs = []"
      by (auto simp: filter_empty_conv)
    with True Cons.prems(2) show ?thesis by simp
  next
    case False
    with Cons show ?thesis by simp
  qed
qed

lemma distinct_map_delete_where:
  "distinct (map k rs) \<Longrightarrow> distinct (map k (delete_where p rs))"
  by (simp add: delete_where_def distinct_map_filter)

lemma set_delete_where [table_simps]: "set (delete_where p rs) = {r \<in> set rs. \<not> p r}"
  by (auto simp: delete_where_def)

lemma delete_where_delete_where:
  "delete_where p (delete_where q rs) = delete_where (\<lambda>r. q r \<or> p r) rs"
  by (auto simp: delete_where_def intro: filter_cong)

lemma length_delete_where: "length (delete_where p rs) + count_where p rs = length rs"
  using sum_length_filter_compl [of p rs] by (simp add: delete_where_def count_where_def)

lemma set_top_by_subset: "set (top_by k n rs) \<subseteq> set rs"
  using set_take_subset [of n "sort_key k rs"] by (simp add: top_by_def)

lemma length_top_by: "length (top_by k n rs) = min n (length rs)"
  by (simp add: top_by_def)

lemma distinct_top_by: "distinct (map h rs) \<Longrightarrow> distinct (map h (top_by k n rs))"
  by (metis distinct_take distinct_map distinct_sort inj_on_subset set_sort set_take_subset
      take_map top_by_def)

end
