(* ===== verification/Write_Scope.thy ===== *)
theory Write_Scope
  imports Jaunder_Prelude
begin

section \<open>Write scopes and transactions\<close>

text \<open>
  \<^verbatim>\<open>storage/src/write_scope.rs\<close>, \<^verbatim>\<open>storage/src/backend.rs\<close> and
  \<^verbatim>\<open>common/src/mutation.rs\<close>. A storage operation runs on a connection: the database as
  it is committed (what a statement executed on the pool reads), the working copy of the open
  transaction, and a schedule that says for each further statement whether the driver fails it.
  An operation is a function of the connection that returns its result or its error with the
  new connection; every statement consumes one entry of the schedule, and an exhausted schedule
  means no further failure. \<open>run\<close> is \<^verbatim>\<open>WriteScope::run\<close>: begin, callback,
  one commit attempt, with the begin and commit results given by the environment.
\<close>

datatype backend = Sqlite | Postgres

datatype sql_error =
    DriverError
  | RowNotFound
  | IoError
  | Protocol
  | ColumnDecode
  | Decode
  | UniqueViolation
  | ForeignKeyViolation
  | CheckViolation

record 'db connection =
  held :: backend
  committed :: 'db
  working :: 'db
  faults :: "bool list"

type_synonym ('db, 'e, 'a) tx = "'db connection \<Rightarrow> ('e + 'a) \<times> 'db connection"

subsection \<open>The operations of a transaction\<close>

definition tx_return :: "'a \<Rightarrow> ('db, 'e, 'a) tx" where
  "tx_return a c = (Inr a, c)"

definition tx_throw :: "'e \<Rightarrow> ('db, 'e, 'a) tx" where
  "tx_throw e c = (Inl e, c)"

definition tx_bind :: "('db, 'e, 'a) tx \<Rightarrow> ('a \<Rightarrow> ('db, 'e, 'b) tx) \<Rightarrow> ('db, 'e, 'b) tx" where
  "tx_bind m k c = (case m c of (Inl e, c') \<Rightarrow> (Inl e, c') | (Inr a, c') \<Rightarrow> k a c')"

definition tx_map_err :: "('e \<Rightarrow> 'f) \<Rightarrow> ('db, 'e, 'a) tx \<Rightarrow> ('db, 'f, 'a) tx" where
  "tx_map_err g m c = (case m c of (Inl e, c') \<Rightarrow> (Inl (g e), c') | (Inr a, c') \<Rightarrow> (Inr a, c'))"

definition next_fault :: "'db connection \<Rightarrow> bool" where
  "next_fault c = (case faults c of [] \<Rightarrow> False | b # _ \<Rightarrow> b)"

definition spend_fault :: "'db connection \<Rightarrow> 'db connection" where
  "spend_fault c = c\<lparr>faults := tl (faults c)\<rparr>"

text \<open>A statement of the open transaction, and a read executed on the pool.\<close>

definition statement :: "('db \<Rightarrow> (sql_error + 'a) \<times> 'db) \<Rightarrow> ('db, sql_error, 'a) tx" where
  "statement f c =
     (if next_fault c then (Inl DriverError, spend_fault c)
      else (case f (working c) of (r, d) \<Rightarrow> (r, (spend_fault c)\<lparr>working := d\<rparr>)))"

definition pool_query :: "('db \<Rightarrow> 'a) \<Rightarrow> ('db, sql_error, 'a) tx" where
  "pool_query q c =
     (if next_fault c then (Inl DriverError, spend_fault c)
      else (Inr (q (committed c)), spend_fault c))"

abbreviation query :: "('db \<Rightarrow> 'a) \<Rightarrow> ('db, sql_error, 'a) tx" where
  "query q \<equiv> statement (\<lambda>d. (Inr (q d), d))"

abbreviation execute :: "('db \<Rightarrow> 'db) \<Rightarrow> ('db, sql_error, unit) tx" where
  "execute f \<equiv> statement (\<lambda>d. (Inr (), f d))"

text \<open>
  \<^verbatim>\<open>Backend::write_connection\<close>: a store of one backend refuses the transaction of the
  other.
\<close>

definition write_connection :: "backend \<Rightarrow> ('db, sql_error, unit) tx" where
  "write_connection b c = (if held c = b then (Inr (), c) else (Inl Protocol, c))"

subsection \<open>Reasoning about transactions\<close>

lemma tx_return_ok_iff [tx_simps]: "tx_return a c = (Inr b, c') \<longleftrightarrow> b = a \<and> c' = c"
  by (auto simp: tx_return_def)

lemma tx_throw_ok_iff [tx_simps]: "tx_throw e c = (Inr b, c') \<longleftrightarrow> False"
  by (simp add: tx_throw_def)

lemma tx_bind_ok_iff [tx_simps]:
  "tx_bind m k c = (Inr b, c'') \<longleftrightarrow> (\<exists>a c'. m c = (Inr a, c') \<and> k a c' = (Inr b, c''))"
  by (cases "m c") (auto simp: tx_bind_def split: sum.splits)

lemma tx_map_err_ok_iff [tx_simps]:
  "tx_map_err g m c = (Inr a, c') \<longleftrightarrow> m c = (Inr a, c')"
  by (cases "m c") (auto simp: tx_map_err_def split: sum.splits)

lemma statement_ok_iff [tx_simps]:
  "statement f c = (Inr a, c') \<longleftrightarrow>
     \<not> next_fault c \<and>
     (\<exists>d. f (working c) = (Inr a, d) \<and> c' = (spend_fault c)\<lparr>working := d\<rparr>)"
  by (auto simp: statement_def split: prod.splits)

lemma pool_query_ok_iff [tx_simps]:
  "pool_query q c = (Inr a, c') \<longleftrightarrow>
     \<not> next_fault c \<and> a = q (committed c) \<and> c' = spend_fault c"
  by (auto simp: pool_query_def)

lemma write_connection_ok_iff [tx_simps]:
  "write_connection b c = (Inr a, c') \<longleftrightarrow> held c = b \<and> c' = c"
  by (auto simp: write_connection_def)

text \<open>Branches of an operation.\<close>

lemma tx_case_option_ok_iff [tx_simps]:
  "case_option m k x c = (Inr a, c') \<longleftrightarrow>
     (x = None \<and> m c = (Inr a, c')) \<or> (\<exists>y. x = Some y \<and> k y c = (Inr a, c'))"
  by (cases x) auto

lemma tx_case_prod_ok_iff [tx_simps]:
  "case_prod k x c = (Inr a, c') \<longleftrightarrow> k (fst x) (snd x) c = (Inr a, c')"
  by (cases x) auto

lemma tx_case_sum_ok_iff [tx_simps]:
  "case_sum f g x c = (Inr a, c') \<longleftrightarrow>
     (\<exists>y. x = Inl y \<and> f y c = (Inr a, c')) \<or> (\<exists>y. x = Inr y \<and> g y c = (Inr a, c'))"
  by (cases x) auto

lemma tx_if_ok_iff [tx_simps]:
  "(if b then m else m') c = (Inr a, c') \<longleftrightarrow> (if b then m c = (Inr a, c') else m' c = (Inr a, c'))"
  by simp

lemma spend_fault_sel [simp]:
  "working (spend_fault c) = working c"
  "committed (spend_fault c) = committed c"
  "held (spend_fault c) = held c"
  "faults (spend_fault c) = tl (faults c)"
  by (simp_all add: spend_fault_def)

text \<open>With an exhausted schedule the operations simply compute.\<close>

lemma no_faults [simp]: "faults c = [] \<Longrightarrow> \<not> next_fault c"
  by (simp add: next_fault_def)

lemma spend_fault_none: "faults c = [] \<Longrightarrow> spend_fault c = c"
  by (cases c) (simp add: spend_fault_def)

lemmas tx_eval = tx_return_def tx_throw_def tx_bind_def tx_map_err_def statement_def
  pool_query_def write_connection_def spend_fault_def next_fault_def

text \<open>
  The frame of a transaction: no operation on it changes the committed database or the backend.
\<close>

definition frames :: "('db, 'e, 'a) tx \<Rightarrow> bool" where
  "frames m \<longleftrightarrow>
     (\<forall>c. committed (snd (m c)) = committed c \<and> held (snd (m c)) = held c)"

lemma framesD: "frames m \<Longrightarrow> m c = (r, c') \<Longrightarrow> committed c' = committed c \<and> held c' = held c"
  by (metis frames_def snd_conv)

lemma frames_return [tx_frame]: "frames (tx_return a)"
  by (simp add: frames_def tx_return_def)

lemma frames_throw [tx_frame]: "frames (tx_throw e)"
  by (simp add: frames_def tx_throw_def)

lemma frames_bind [tx_frame]: "frames m \<Longrightarrow> (\<And>a. frames (k a)) \<Longrightarrow> frames (tx_bind m k)"
  by (auto simp: frames_def tx_bind_def split: prod.splits sum.splits) (metis sndI)+

lemma frames_map_err [tx_frame]: "frames m \<Longrightarrow> frames (tx_map_err g m)"
  by (auto simp: frames_def tx_map_err_def split: prod.splits sum.splits) (metis sndI)+

lemma frames_statement [tx_frame]: "frames (statement f)"
  by (auto simp: frames_def statement_def split: prod.splits)

lemma frames_pool_query [tx_frame]: "frames (pool_query q)"
  by (auto simp: frames_def pool_query_def)

lemma frames_write_connection [tx_frame]: "frames (write_connection b)"
  by (auto simp: frames_def write_connection_def)

subsection \<open>The scope\<close>

datatype 'a mutation_outcome = Confirmed 'a | CommitIndeterminate 'a

fun map_outcome :: "('a \<Rightarrow> 'b) \<Rightarrow> 'a mutation_outcome \<Rightarrow> 'b mutation_outcome" where
  "map_outcome f (Confirmed v) = Confirmed (f v)"
| "map_outcome f (CommitIndeterminate v) = CommitIndeterminate (f v)"

fun outcome_value :: "'a mutation_outcome \<Rightarrow> 'a" where
  "outcome_value (Confirmed v) = v"
| "outcome_value (CommitIndeterminate v) = v"

datatype 'e write_scope_error = Operation 'e | Begin sql_error

text \<open>
  What the database does with the one commit attempt: it acknowledges it, or the
  acknowledgement fails, and then the commit may or may not be durable.
\<close>

datatype commit_result = CommitOk | CommitFailed bool

definition classify_commit_result :: "commit_result \<Rightarrow> 'a \<Rightarrow> 'a mutation_outcome" where
  "classify_commit_result r v =
     (case r of CommitOk \<Rightarrow> Confirmed v | CommitFailed _ \<Rightarrow> CommitIndeterminate v)"

fun durable :: "commit_result \<Rightarrow> bool" where
  "durable CommitOk = True"
| "durable (CommitFailed d) = d"

record scope_env =
  begin_error :: "sql_error option"
  statement_faults :: "bool list"
  commit_result :: commit_result

definition clean_env :: scope_env where
  "clean_env = \<lparr>begin_error = None, statement_faults = [], commit_result = CommitOk\<rparr>"

definition open_connection :: "backend \<Rightarrow> scope_env \<Rightarrow> 'db \<Rightarrow> 'db connection" where
  "open_connection b env db =
     \<lparr>held = b, committed = db, working = db, faults = statement_faults env\<rparr>"

definition run :: "backend \<Rightarrow> scope_env \<Rightarrow> ('db, 'e, 'a) tx \<Rightarrow> 'db \<Rightarrow>
    ('e write_scope_error + 'a mutation_outcome) \<times> 'db" where
  "run b env callback db =
     (case begin_error env of
        Some e \<Rightarrow> (Inl (Begin e), db)
      | None \<Rightarrow>
          (case callback (open_connection b env db) of
             (Inl e, c) \<Rightarrow> (Inl (Operation e), db)
           | (Inr v, c) \<Rightarrow>
               (Inr (classify_commit_result (commit_result env) v),
                if durable (commit_result env) then working c else db)))"

lemma open_connection_sel [simp]:
  "held (open_connection b env db) = b"
  "committed (open_connection b env db) = db"
  "working (open_connection b env db) = db"
  "faults (open_connection b env db) = statement_faults env"
  by (simp_all add: open_connection_def)

lemma clean_env_sel [simp]:
  "begin_error clean_env = None"
  "statement_faults clean_env = []"
  "commit_result clean_env = CommitOk"
  by (simp_all add: clean_env_def)

lemma run_confirmedD:
  assumes "run b env m db = (Inr (Confirmed v), db')"
  shows "\<exists>c. m (open_connection b env db) = (Inr v, c) \<and> db' = working c"
  using assms
  by (auto simp: run_def classify_commit_result_def split: option.splits prod.splits sum.splits
      commit_result.splits)

lemma run_changedD:
  assumes "run b env m db = (r, db')" and "db' \<noteq> db"
  shows "\<exists>v c. m (open_connection b env db) = (Inr v, c) \<and> db' = working c"
  using assms
  by (auto simp: run_def split: option.splits prod.splits sum.splits if_splits)

lemma run_errorD: "run b env m db = (Inl e, db') \<Longrightarrow> db' = db"
  by (auto simp: run_def split: option.splits prod.splits sum.splits)

lemma run_preserves:
  assumes "run b env m db = (r, db')" and "P db"
    and "\<And>v c. m (open_connection b env db) = (Inr v, c) \<Longrightarrow> P (working c)"
  shows "P db'"
  using assms run_changedD [of b env m db r db'] by (cases "db' = db") auto

lemma run_result:
  "run b env m db = (r, db') \<Longrightarrow>
     (\<exists>e. r = Inl e \<and> db' = db) \<or>
     (\<exists>v c. m (open_connection b env db) = (Inr v, c) \<and>
        ((r = Inr (Confirmed v) \<and> db' = working c) \<or>
         (r = Inr (CommitIndeterminate v) \<and> (db' = db \<or> db' = working c))))"
  by (auto simp: run_def classify_commit_result_def
      split: option.splits prod.splits sum.splits commit_result.splits if_splits)

text \<open>
  C1: a write scope is atomic. If the scope reports an error, nothing was committed; if it
  confirms, exactly the callback's working copy is the new database; if the acknowledgement was
  lost, the new database is the old one or that working copy, never anything in between.
\<close>

theorem run_atomic:
  "case run b env m db of
     (Inl e, db') \<Rightarrow> db' = db
   | (Inr (Confirmed v), db') \<Rightarrow>
       \<exists>c. m (open_connection b env db) = (Inr v, c) \<and> db' = working c
   | (Inr (CommitIndeterminate v), db') \<Rightarrow>
       \<exists>c. m (open_connection b env db) = (Inr v, c) \<and> (db' = db \<or> db' = working c)"
  by (auto simp: run_def classify_commit_result_def
      split: option.splits prod.splits sum.splits commit_result.splits)

subsection \<open>Successive scopes\<close>

text \<open>
  Scopes that run one after the other, as the writers of one database do: each sees what the
  ones before it committed.
\<close>

fun run_all :: "backend \<Rightarrow> (scope_env \<times> ('db, 'e, 'a) tx) list \<Rightarrow> 'db \<Rightarrow>
    ('e write_scope_error + 'a mutation_outcome) list \<times> 'db" where
  "run_all b [] db = ([], db)"
| "run_all b ((env, m) # ms) db =
     (case run b env m db of (r, db') \<Rightarrow>
        (case run_all b ms db' of (rs, db'') \<Rightarrow> (r # rs, db'')))"

fun is_granted :: "('a \<Rightarrow> bool) \<Rightarrow> ('e write_scope_error + 'a mutation_outcome) \<Rightarrow> bool" where
  "is_granted g (Inr (Confirmed v)) = g v"
| "is_granted g _ = False"

definition is_confirmed :: "('e write_scope_error + 'a mutation_outcome) \<Rightarrow> bool" where
  "is_confirmed = is_granted (\<lambda>_. True)"

lemma is_granted_iff: "is_granted g r \<longleftrightarrow> (\<exists>v. r = Inr (Confirmed v) \<and> g v)"
  by (cases "(g, r)" rule: is_granted.cases) auto

lemma is_confirmed_iff: "is_confirmed r \<longleftrightarrow> (\<exists>v. r = Inr (Confirmed v))"
  by (simp add: is_confirmed_def is_granted_iff)

lemma is_confirmed_simps [simp]:
  "is_confirmed (Inr (Confirmed v))" "\<not> is_confirmed (Inr (CommitIndeterminate v))"
  "\<not> is_confirmed (Inl e)"
  by (simp_all add: is_confirmed_def)

text \<open>
  How many of the requests that satisfy a predicate were confirmed, with a value that satisfies
  another.
\<close>

definition granted_count ::
  "('a \<Rightarrow> bool) \<Rightarrow> ('q \<Rightarrow> bool) \<Rightarrow> 'q list \<Rightarrow> ('e write_scope_error + 'a mutation_outcome) list \<Rightarrow> nat" where
  "granted_count g p qs rs = length (filter (\<lambda>(q, r). p q \<and> is_granted g r) (zip qs rs))"

definition confirmed_count ::
  "('q \<Rightarrow> bool) \<Rightarrow> 'q list \<Rightarrow> ('e write_scope_error + 'a mutation_outcome) list \<Rightarrow> nat" where
  "confirmed_count = granted_count (\<lambda>_. True)"

lemma granted_count_simps [simp]:
  "granted_count g p [] rs = 0"
  "granted_count g p (q # qs) (r # rs) =
     (if p q \<and> is_granted g r then 1 else 0) + granted_count g p qs rs"
  by (simp_all add: granted_count_def)

lemma confirmed_count_simps [simp]:
  "confirmed_count p [] rs = 0"
  "confirmed_count p (q # qs) (r # rs) =
     (if p q \<and> is_confirmed r then 1 else 0) + confirmed_count p qs rs"
  by (simp_all add: confirmed_count_def is_confirmed_def)

text \<open>
  What every successful operation of a sequence keeps, the whole sequence of scopes keeps.
\<close>

lemma run_all_invariant:
  assumes "P db" and "\<And>env q. (env, q) \<in> set qs \<Longrightarrow> ok q"
    and "\<And>q c a c'. ok q \<Longrightarrow> P (working c) \<Longrightarrow> step q c = (Inr a, c') \<Longrightarrow> P (working c')"
  shows "P (snd (run_all b (map (\<lambda>(env, q). (env, step q)) qs) db))"
  using assms(1,2)
proof (induction qs arbitrary: db)
  case (Cons eq qs)
  obtain env q where eq: "eq = (env, q)" by (cases eq)
  obtain r db' where r: "run b env (step q) db = (r, db')" by fastforce
  have "ok q" using Cons.prems(2) [of env q] by (simp add: eq)
  have "P db'"
  proof (rule run_preserves [where P = P, OF r Cons.prems(1)])
    fix v c
    assume "step q (open_connection b env db) = (Inr v, c)"
    from assms(3) [OF \<open>ok q\<close> _ this] Cons.prems(1) show "P (working c)" by simp
  qed
  have "P (snd (run_all b (map (\<lambda>(env, q). (env, step q)) qs) db'))"
    by (rule Cons.IH [OF \<open>P db'\<close>]) (use Cons.prems(2) in auto)
  then show ?case by (simp add: eq r case_prod_unfold)
qed simp

subsection \<open>The contract of a store\<close>

text \<open>
  A store serves requests; each of them, when it succeeds in a transaction, keeps a well-formedness
  condition of the database. Then every sequence of write scopes does, however they fail.
\<close>

locale invariant_store =
  fixes step :: "'q \<Rightarrow> ('db, 'e, 'a) tx"
    and wf :: "'db \<Rightarrow> bool"
  assumes step_keeps_wf:
    "wf (working c) \<Longrightarrow> step q c = (Inr a, c') \<Longrightarrow> wf (working c')"
begin

abbreviation scopes :: "(scope_env \<times> 'q) list \<Rightarrow> (scope_env \<times> ('db, 'e, 'a) tx) list" where
  "scopes \<equiv> map (\<lambda>(env, q). (env, step q))"

lemma run_keeps_wf: "wf db \<Longrightarrow> run b env (step q) db = (r, db') \<Longrightarrow> wf db'"
  by (erule run_preserves) (auto dest: step_keeps_wf [rotated])

lemma run_all_keeps_wf: "wf db \<Longrightarrow> wf (snd (run_all b (scopes qs) db))"
  by (rule run_all_invariant [where ok = "\<lambda>_. True"]) (auto dest: step_keeps_wf [rotated])

end

subsection \<open>The contract of a single-use capability\<close>

text \<open>
  What the claims of invites, tokens and ceremonies have in common: a request names a key, an
  operation that grants it needs the key unused and leaves it used, and no operation makes a used
  key usable again. Then, however the scopes fail and whatever the clocks say, at most one request
  for a key is confirmed with a grant.
\<close>

locale single_grant = invariant_store claim wf
  for claim :: "'q \<Rightarrow> ('db, 'e, 'a) tx" and wf :: "'db \<Rightarrow> bool" +
  fixes key_of :: "'q \<Rightarrow> 'k option"
    and unused :: "'k \<Rightarrow> 'db \<Rightarrow> bool"
    and granted :: "'a \<Rightarrow> bool"
  assumes grant_needs_unused:
      "wf (working c) \<Longrightarrow> claim q c = (Inr a, c') \<Longrightarrow> granted a \<Longrightarrow> key_of q = Some k \<Longrightarrow>
        unused k (working c)"
    and grant_uses:
      "wf (working c) \<Longrightarrow> claim q c = (Inr a, c') \<Longrightarrow> granted a \<Longrightarrow> key_of q = Some k \<Longrightarrow>
        \<not> unused k (working c')"
    and keeps_used:
      "wf (working c) \<Longrightarrow> claim q c = (Inr a, c') \<Longrightarrow> \<not> unused k (working c) \<Longrightarrow>
        \<not> unused k (working c')"
begin

lemma run_keeps_used:
  "wf db \<Longrightarrow> run b env (claim q) db = (r, db') \<Longrightarrow> \<not> unused k db \<Longrightarrow> \<not> unused k db'"
  by (erule run_preserves) (auto dest: keeps_used [rotated])

lemma run_granted_uses:
  assumes "wf db" and "run b env (claim q) db = (r, db')" and "is_granted granted r"
    and "key_of q = Some k"
  shows "unused k db \<and> \<not> unused k db'"
proof -
  from assms(3) obtain v where "r = Inr (Confirmed v)" and g: "granted v"
    by (auto simp: is_granted_iff)
  with assms(2) obtain c where "claim q (open_connection b env db) = (Inr v, c)" "db' = working c"
    by (auto dest: run_confirmedD)
  with assms(1,4) g grant_needs_unused [of "open_connection b env db" q v c k]
    grant_uses [of "open_connection b env db" q v c k]
  show ?thesis by simp
qed

lemma used_never_granted:
  "wf db \<Longrightarrow> \<not> unused k db \<Longrightarrow>
     granted_count granted (\<lambda>(env, q). key_of q = Some k) qs (fst (run_all b (scopes qs) db)) = 0"
proof (induction qs arbitrary: db)
  case Nil
  then show ?case by simp
next
  case (Cons eq qs)
  obtain env q where eq: "eq = (env, q)" by (cases eq)
  obtain r db' where r: "run b env (claim q) db = (r, db')" by fastforce
  have "\<not> (key_of q = Some k \<and> is_granted granted r)"
    using Cons.prems r run_granted_uses by blast
  moreover have "wf db'" "\<not> unused k db'"
    using Cons.prems r run_keeps_wf run_keeps_used by blast+
  ultimately show ?case
    using Cons.IH [of db'] by (auto simp: eq r case_prod_unfold)
qed

lemma granted_at_most_once:
  "wf db \<Longrightarrow>
     granted_count granted (\<lambda>(env, q). key_of q = Some k) qs (fst (run_all b (scopes qs) db)) \<le> 1"
proof (induction qs arbitrary: db)
  case Nil
  then show ?case by simp
next
  case (Cons eq qs)
  obtain env q where eq: "eq = (env, q)" by (cases eq)
  obtain r db' where r: "run b env (claim q) db = (r, db')" by fastforce
  have wf: "wf db'" using Cons.prems r run_keeps_wf by blast
  show ?case
  proof (cases "key_of q = Some k \<and> is_granted granted r")
    case True
    then have "\<not> unused k db'" using Cons.prems r run_granted_uses by blast
    with wf used_never_granted [of db' k qs b] True show ?thesis
      by (auto simp: eq r case_prod_unfold)
  next
    case False
    with Cons.IH [OF wf] show ?thesis by (auto simp: eq r case_prod_unfold)
  qed
qed

end

text \<open>A claim that grants whenever it succeeds.\<close>

locale single_use = invariant_store claim wf
  for claim :: "'q \<Rightarrow> ('db, 'e, 'a) tx" and wf :: "'db \<Rightarrow> bool" +
  fixes key_of :: "'q \<Rightarrow> 'k option"
    and unused :: "'k \<Rightarrow> 'db \<Rightarrow> bool"
  assumes claim_needs_unused:
      "wf (working c) \<Longrightarrow> claim q c = (Inr a, c') \<Longrightarrow> key_of q = Some k \<Longrightarrow> unused k (working c)"
    and claim_uses:
      "wf (working c) \<Longrightarrow> claim q c = (Inr a, c') \<Longrightarrow> key_of q = Some k \<Longrightarrow> \<not> unused k (working c')"
    and claim_keeps_used:
      "wf (working c) \<Longrightarrow> claim q c = (Inr a, c') \<Longrightarrow> \<not> unused k (working c) \<Longrightarrow>
        \<not> unused k (working c')"

sublocale single_use < grant: single_grant claim wf key_of unused "\<lambda>_. True"
  by unfold_locales (erule (2) claim_needs_unused, erule (2) claim_uses, erule (2) claim_keeps_used)

context single_use begin

lemma confirmed_at_most_once:
  "wf db \<Longrightarrow>
     confirmed_count (\<lambda>(env, q). key_of q = Some k) qs (fst (run_all b (scopes qs) db)) \<le> 1"
  unfolding confirmed_count_def by (rule grant.granted_at_most_once)

end

subsection \<open>The contract of a refinement\<close>

text \<open>
  A specification says which answer a request may have and how it changes an abstract state. It
  explains a sequence of scopes when the abstract state moves with every scope that confirms, stays
  for every scope that reports an error, and does one or the other where the acknowledgement was
  lost.
\<close>

inductive explains :: "('q \<Rightarrow> 'a \<Rightarrow> 's \<Rightarrow> 's \<Rightarrow> bool) \<Rightarrow> 'q list \<Rightarrow>
    ('e write_scope_error + 'a mutation_outcome) list \<Rightarrow> 's \<Rightarrow> 's \<Rightarrow> bool"
  for spec where
  explains_nil: "explains spec [] [] s s"
| explains_error: "explains spec qs rs s s' \<Longrightarrow> explains spec (q # qs) (Inl e # rs) s s'"
| explains_confirmed: "spec q a s s1 \<Longrightarrow> explains spec qs rs s1 s' \<Longrightarrow>
    explains spec (q # qs) (Inr (Confirmed a) # rs) s s'"
| explains_lost: "explains spec qs rs s s' \<Longrightarrow> explains spec (q # qs) (Inr (CommitIndeterminate a) # rs) s s'"
| explains_kept: "spec q a s s1 \<Longrightarrow> explains spec qs rs s1 s' \<Longrightarrow>
    explains spec (q # qs) (Inr (CommitIndeterminate a) # rs) s s'"

inductive_simps explains_nil_iff [simp]: "explains spec [] rs s s'"
inductive_simps explains_error_iff [simp]: "explains spec (q # qs) (Inl e # rs) s s'"
inductive_simps explains_confirmed_iff [simp]: "explains spec (q # qs) (Inr (Confirmed a) # rs) s s'"

text \<open>What every step of the specification keeps, an explained sequence keeps.\<close>

lemma explains_rel:
  assumes "explains spec qs rs s s'" and "\<And>s. R s s" and "\<And>s s1 s2. R s s1 \<Longrightarrow> R s1 s2 \<Longrightarrow> R s s2"
    and "\<And>q a s s1. spec q a s s1 \<Longrightarrow> R s s1"
  shows "R s s'"
  using assms(1) by (induction rule: explains.induct) (auto intro: assms(2) assms(3) [OF assms(4)])

locale refining_store =
  fixes step :: "'q \<Rightarrow> ('db, 'e, 'a) tx"
    and wf :: "'db \<Rightarrow> bool"
    and ok :: "'q \<Rightarrow> bool"
    and abs :: "'db \<Rightarrow> 's"
    and spec :: "'q \<Rightarrow> 'a \<Rightarrow> 's \<Rightarrow> 's \<Rightarrow> bool"
  assumes ok_step_keeps_wf:
      "ok q \<Longrightarrow> wf (working c) \<Longrightarrow> step q c = (Inr a, c') \<Longrightarrow> wf (working c')"
    and step_refines:
      "ok q \<Longrightarrow> wf (working c) \<Longrightarrow> step q c = (Inr a, c') \<Longrightarrow>
        spec q a (abs (working c)) (abs (working c'))"
begin

lemma run_all_refines:
  "wf db \<Longrightarrow> list_all (\<lambda>(env, q). ok q) qs \<Longrightarrow>
     run_all b (map (\<lambda>(env, q). (env, step q)) qs) db = (rs, db') \<Longrightarrow>
     wf db' \<and> explains spec (map snd qs) rs (abs db) (abs db')"
proof (induction qs arbitrary: db rs)
  case Nil
  then show ?case by simp
next
  case (Cons eq qs)
  obtain env q where eq: "eq = (env, q)" by (cases eq)
  obtain r db1 where r: "run b env (step q) db = (r, db1)" by fastforce
  obtain rs1 where rest: "run_all b (map (\<lambda>(env, q). (env, step q)) qs) db1 = (rs1, db')" and rs: "rs = r # rs1"
    using Cons.prems(3) by (auto simp: eq r split: prod.splits)
  have ok: "ok q" "list_all (\<lambda>(env, q). ok q) qs" using Cons.prems(2) by (auto simp: eq)
  note IH = Cons.IH [OF _ ok(2) rest]
  from run_result [OF r] show ?case
  proof (elim disjE exE conjE)
    fix e
    assume "r = Inl e" "db1 = db"
    with IH Cons.prems(1) show ?thesis by (simp add: eq rs explains_error)
  next
    fix v c
    assume step: "step q (open_connection b env db) = (Inr v, c)" and "r = Inr (Confirmed v)" "db1 = working c"
    with IH ok_step_keeps_wf [OF ok(1) _ step] step_refines [OF ok(1) _ step] Cons.prems(1)
    show ?thesis by (auto simp: eq rs intro: explains_confirmed)
  next
    fix v c
    assume "r = Inr (CommitIndeterminate v)" "db1 = db"
    with IH Cons.prems(1) show ?thesis by (simp add: eq rs explains_lost)
  next
    fix v c
    assume step: "step q (open_connection b env db) = (Inr v, c)" and "r = Inr (CommitIndeterminate v)" "db1 = working c"
    with IH ok_step_keeps_wf [OF ok(1) _ step] step_refines [OF ok(1) _ step] Cons.prems(1)
    show ?thesis by (auto simp: eq rs intro: explains_kept)
  qed
qed

end

end
