(* ===== verification/Schema.thy ===== *)
theory Schema
  imports Write_Scope
begin

section \<open>The tables\<close>

text \<open>
  The rows of the tables the modelled stores read and write, as the migrations under
  \<^verbatim>\<open>storage/migrations\<close> leave them, and the database that holds them. A nullable column
  is an option. The components own their tables: a theory reads and writes only the fields named
  after it, except where the code itself joins or references another table.
\<close>

subsection \<open>Accounts and credentials\<close>

record user_row =
  user_id :: int
  user_username :: ustr
  user_password_hash :: ustr
  user_display_name :: "ustr option"
  user_bio :: "ustr option"
  user_created_at :: instant
  user_last_authenticated_at :: "instant option"
  user_email :: "ustr option"
  user_email_verified :: bool
  user_is_operator :: bool

datatype session_kind = Browser | Machine | Unknown

record session_row =
  session_token_hash :: ustr
  session_user_id :: int
  session_label :: ustr
  session_created_at :: instant
  session_last_used_at :: instant
  session_kind :: session_kind

record invite_row =
  invite_code :: ustr
  invite_created_at :: instant
  invite_expires_at :: instant
  invite_used_at :: "instant option"
  invite_used_by :: "int option"

record password_reset_row =
  reset_token_hash :: ustr
  reset_user_id :: int
  reset_created_at :: instant
  reset_expires_at :: instant
  reset_used_at :: "instant option"

record email_verification_row =
  verification_token_hash :: ustr
  verification_user_id :: int
  verification_email :: ustr
  verification_created_at :: instant
  verification_expires_at :: instant
  verification_used_at :: "instant option"

text \<open>
  The \<^verbatim>\<open>purpose\<close> column of the two ceremony tables is pinned by their
  \<^verbatim>\<open>CHECK\<close> constraints and is left out.
\<close>

record passkey_credential_row =
  pc_credential_id :: ustr
  pc_user_id :: int
  pc_label :: ustr
  pc_credential :: ustr
  pc_created_at :: instant
  pc_last_used_at :: "instant option"

record registration_ceremony_row =
  rc_handle_hash :: ustr
  rc_user_id :: int
  rc_session_token_hash :: ustr
  rc_label :: ustr
  rc_origin :: ustr
  rc_rp_id :: ustr
  rc_state :: ustr
  rc_expires_at :: instant
  rc_claimed_at :: "instant option"

record authentication_ceremony_row =
  ac_handle_hash :: ustr
  ac_origin :: ustr
  ac_rp_id :: ustr
  ac_state :: ustr
  ac_expires_at :: instant
  ac_claimed_at :: "instant option"

subsection \<open>Subscriptions and audiences\<close>

datatype subscription_status = Active | Pending | Blocked

record subscription_row =
  subscription_id :: int
  subscription_author :: int
  subscription_channel :: int
  subscription_ref :: ustr
  subscription_status :: subscription_status
  subscription_created_at :: instant

record audience_row =
  audience_id :: int
  audience_author :: int
  audience_name :: ustr
  audience_created_at :: instant

record audience_member_row =
  member_audience :: int
  member_subscription :: int
  member_author :: int

datatype target_kind = Public_Target | Subscribers_Target | Named_Target

record post_audience_row =
  pa_post :: int
  pa_kind :: target_kind
  pa_audience :: "int option"

subsection \<open>Posts\<close>

text \<open>
  A revision copies the columns of \<open>post_state\<close>; the search projection and the mutation version
  belong to the current row only. A row of \<^verbatim>\<open>post_media\<close> belongs to the current post or to one
  of its revisions.
\<close>

datatype post_format = Markdown | Org | Html

record post_state =
  post_id :: int
  post_user :: int
  post_title :: "ustr option"
  post_rendered_title :: "ustr option"
  post_slug :: ustr
  post_body :: ustr
  post_format :: post_format
  post_rendered_html :: ustr
  post_summary :: "ustr option"
  post_created_at :: instant
  post_updated_at :: instant
  post_published_at :: "instant option"
  post_deleted_at :: "instant option"

record post_row = post_state +
  post_search_text :: "ustr option"
  post_mutation_version :: int

record post_revision_row =
  revision_id :: int
  revision_state :: post_state
  revision_captured_at :: instant

record tag_row =
  tag_id :: int
  tag_slug :: ustr

record post_tag_row =
  pt_post :: int
  pt_tag :: int
  pt_display :: ustr

record post_revision_tag_row =
  rt_revision :: int
  rt_slug :: ustr
  rt_display :: ustr

record post_revision_audience_row =
  ra_revision :: int
  ra_kind :: target_kind
  ra_audience :: "int option"

datatype media_source = Upload | Cached

datatype media_reference_kind = Local_Reference | Absolute_Reference | SchemeRelative_Reference

record media_reference =
  mr_source :: media_source
  mr_sha256 :: ustr
  mr_filename :: ustr
  mr_kind :: media_reference_kind
  mr_form :: ustr

datatype media_subject = Current_Media | Revision_Media int

record post_media_row =
  pm_post :: int
  pm_subject :: media_subject
  pm_reference :: media_reference

record idempotency_key_row =
  ik_user :: int
  ik_key :: ustr
  ik_post :: int
  ik_created_at :: instant

record post_permalink_alias_row =
  alias_post :: int
  alias_user :: int
  alias_date :: ustr
  alias_slug :: ustr

subsection \<open>Feeds\<close>

datatype feed_event_status = FE_Pending | FE_Claimed | FE_Done | FE_Failed

datatype feed_event_phase = Regeneration | Publication

record feed_event_row =
  fe_id :: int
  fe_feed_url :: ustr
  fe_status :: feed_event_status
  fe_phase :: feed_event_phase
  fe_regeneration_attempts :: int
  fe_publication_attempts :: int
  fe_regeneration_diagnostic :: "ustr option"
  fe_publication_diagnostic :: "ustr option"
  fe_next_attempt_at :: instant
  fe_claimed_at :: "instant option"
  fe_terminal_at :: "instant option"
  fe_created_at :: instant
  fe_regenerated_at :: "instant option"
  fe_pinged_at :: "instant option"

record stored_feed_cache_row =
  fc_feed_url :: ustr
  fc_body :: ustr
  fc_etag :: ustr
  fc_content_type :: ustr
  fc_representation_modified_at :: instant
  fc_generated_at :: instant
  fc_semantic_fingerprint :: ustr

datatype site_config_key =
    BackupDestinationPath
  | BackupSchedule
  | BackupRetentionCount
  | BackupMode
  | FeedsMinItems
  | FeedsMinDays
  | FeedsWebsubHubUrl
  | PostsDefaultAudience
  | SiteRegistrationPolicy
  | SiteTitle
  | SiteTagline
  | SiteBaseUrl
  | MediaUploadsEnabled
  | MediaMaxFileSizeBytes
  | MediaUserQuotaBytes
  | SmtpHost
  | SmtpPort
  | SmtpTlsMode
  | SmtpSender
  | SmtpUsername
  | SmtpPassword

datatype user_config_key = DefaultPostFormat | DefaultAudience | ContentLicense

subsection \<open>The database\<close>

record database =
  users :: "user_row list"
  next_user_id :: int
  passkey_user_handles :: "(int \<times> ustr) list"
  passkey_credentials :: "passkey_credential_row list"
  sessions :: "session_row list"
  registration_ceremonies :: "registration_ceremony_row list"
  authentication_ceremonies :: "authentication_ceremony_row list"
  invites :: "invite_row list"
  password_resets :: "password_reset_row list"
  email_verifications :: "email_verification_row list"
  channels :: "(int \<times> ustr) list"
  subscriptions :: "subscription_row list"
  next_subscription_id :: int
  audiences :: "audience_row list"
  next_audience_id :: int
  audience_members :: "audience_member_row list"
  posts :: "post_row list"
  last_post_id :: int
  post_audiences :: "post_audience_row list"
  stored_tags :: "tag_row list"
  next_tag_id :: int
  post_tags :: "post_tag_row list"
  post_media :: "post_media_row list"
  post_revisions :: "post_revision_row list"
  next_revision_id :: int
  post_revision_tags :: "post_revision_tag_row list"
  post_revision_audiences :: "post_revision_audience_row list"
  idempotency_keys :: "idempotency_key_row list"
  post_permalink_aliases :: "post_permalink_alias_row list"
  feed_events :: "feed_event_row list"
  next_feed_event_id :: int
  feed_cache :: "stored_feed_cache_row list"
  site_config :: "site_config_key \<rightharpoonup> ustr"
  publisher_generation :: int
  user_config :: "int \<times> user_config_key \<rightharpoonup> ustr"

definition empty_database :: database where
  "empty_database = \<lparr>
     users = [], next_user_id = 1, passkey_user_handles = [], passkey_credentials = [],
     sessions = [], registration_ceremonies = [], authentication_ceremonies = [], invites = [],
     password_resets = [], email_verifications = [], channels = [(1, lit ''local'')], subscriptions = [],
     next_subscription_id = 1, audiences = [], next_audience_id = 1, audience_members = [],
     posts = [], last_post_id = 0, post_audiences = [], stored_tags = [], next_tag_id = 1,
     post_tags = [], post_media = [], post_revisions = [], next_revision_id = 1,
     post_revision_tags = [], post_revision_audiences = [], idempotency_keys = [],
     post_permalink_aliases = [], feed_events = [], next_feed_event_id = 1,
     feed_cache = [], site_config = Map.empty, publisher_generation = 0,
     user_config = Map.empty\<rparr>"

definition user_exists :: "int \<Rightarrow> database \<Rightarrow> bool" where
  "user_exists uid d \<longleftrightarrow> (\<exists>u \<in> set (users d). user_id u = uid)"

text \<open>
  Deleting a session cascades to the registration ceremonies that were opened in it
  (\<^verbatim>\<open>ON DELETE CASCADE\<close>): the ones left reference a session that is left.
\<close>

definition keep_sessions :: "session_row list \<Rightarrow> database \<Rightarrow> database" where
  "keep_sessions rows d = d\<lparr>sessions := rows,
     registration_ceremonies := delete_where
       (\<lambda>r. rc_session_token_hash r \<notin> session_token_hash ` set rows) (registration_ceremonies d)\<rparr>"

definition delete_sessions :: "(session_row \<Rightarrow> bool) \<Rightarrow> database \<Rightarrow> database" where
  "delete_sessions p d = keep_sessions (delete_where p (sessions d)) d"

lemma keep_sessions_sel [simp]:
  "sessions (keep_sessions rows d) = rows"
  "sessions (delete_sessions p d) = delete_where p (sessions d)"
  by (simp_all add: keep_sessions_def delete_sessions_def)

lemma keep_sessions_frame [simp]:
  "users (keep_sessions rows d) = users d" "users (delete_sessions p d) = users d"
  "password_resets (keep_sessions rows d) = password_resets d"
  "password_resets (delete_sessions p d) = password_resets d"
  "invites (keep_sessions rows d) = invites d" "invites (delete_sessions p d) = invites d"
  by (simp_all add: keep_sessions_def delete_sessions_def)

end
