(* ===== verification/Retention.thy ===== *)
theory Retention
  imports Schema "HOL-Library.List_Lexorder" "HOL-Library.Option_ord"
begin

section \<open>Draining retained rows in bounded batches\<close>

text \<open>
  The loop that \<^verbatim>\<open>prune_invites\<close>, \<^verbatim>\<open>prune_password_resets\<close>,
  \<^verbatim>\<open>prune_email_verifications\<close>, \<^verbatim>\<open>prune_expired_browser_sessions\<close> and
  \<^verbatim>\<open>prune_terminal_events\<close> share: delete at most \<open>n\<close> eligible rows per statement,
  executed on the pool so that every statement commits by itself, until a batch is empty (or, for
  feed events, shorter than its limit). A statement that fails ends the loop with the rows of the
  earlier batches gone. The loop always ends: a batch that continues it removed a row.
\<close>

definition delete_batch ::
  "('r \<Rightarrow> 'i) \<Rightarrow> ('r \<Rightarrow> 'k::linorder) \<Rightarrow> ('r \<Rightarrow> bool) \<Rightarrow> nat \<Rightarrow> 'r list \<Rightarrow> nat \<times> 'r list" where
  "delete_batch ident ord p n rs =
     (let chosen = map ident (top_by ord n (filter p rs))
      in (count_where (\<lambda>r. ident r \<in> set chosen) rs,
          delete_where (\<lambda>r. ident r \<in> set chosen) rs))"

lemma delete_batch_shrinks:
  "delete_batch ident ord p n rs = (batch, rs') \<Longrightarrow> batch \<noteq> 0 \<Longrightarrow> length rs' < length rs"
  using length_delete_where [of "\<lambda>r. ident r \<in> set (map ident (top_by ord n (filter p rs)))" rs]
  by (simp add: delete_batch_def Let_def)

function drain ::
  "('r \<Rightarrow> 'i) \<Rightarrow> ('r \<Rightarrow> 'k::linorder) \<Rightarrow> ('r \<Rightarrow> bool) \<Rightarrow> nat \<Rightarrow> nat \<Rightarrow> bool list \<Rightarrow> nat \<Rightarrow> 'r list \<Rightarrow>
     (sql_error + nat) \<times> 'r list" where
  "drain ident ord p n stop_below fs deleted rs =
     (if fs \<noteq> [] \<and> hd fs then (Inl DriverError, rs)
      else (case delete_batch ident ord p n rs of (batch, rs') \<Rightarrow>
              if batch = 0 \<or> batch < stop_below then (Inr (deleted + batch), rs')
              else drain ident ord p n stop_below (tl fs) (deleted + batch) rs'))"
  by pat_completeness auto
termination
  by (relation "measure (\<lambda>(ident, ord, p, n, stop_below, fs, deleted, rs). length rs)")
    (auto dest!: delete_batch_shrinks [OF sym])

declare drain.simps [simp del]

lemma chosen_iff:
  assumes "distinct (map ident rs)" and "r \<in> set rs"
  shows "ident r \<in> set (map ident (top_by ord n (filter p rs))) \<longleftrightarrow> r \<in> set (top_by ord n (filter p rs))"
proof -
  have "set (top_by ord n (filter p rs)) \<subseteq> set rs"
    using set_top_by_subset [of ord n "filter p rs"] by auto
  moreover have "inj_on ident (set rs)" using assms(1) by (simp add: distinct_map)
  ultimately show ?thesis using assms(2) by (auto simp: inj_on_def)
qed

lemma delete_batch_rows:
  assumes "distinct (map ident rs)"
  shows "snd (delete_batch ident ord p n rs) =
    delete_where (\<lambda>r. r \<in> set (top_by ord n (filter p rs))) rs"
  using chosen_iff [OF assms, of _ ord n p]
  by (auto simp: delete_batch_def Let_def delete_where_def intro: filter_cong)

lemma delete_batch_count:
  assumes "distinct (map ident rs)"
  shows "fst (delete_batch ident ord p n rs) = min n (count_where p rs)"
proof -
  let ?top = "top_by ord n (filter p rs)"
  have d: "distinct rs" using assms by (simp add: distinct_map)
  have top: "distinct ?top" using d distinct_top_by [of id "filter p rs" ord n] by simp
  have sub: "set ?top \<subseteq> set rs" using set_top_by_subset [of ord n "filter p rs"] by auto
  have "fst (delete_batch ident ord p n rs) = length (filter (\<lambda>r. r \<in> set ?top) rs)"
    using chosen_iff [OF assms, of _ ord n p]
    by (auto simp: delete_batch_def Let_def count_where_def intro!: arg_cong [of _ _ length] filter_cong)
  also have "\<dots> = card (set rs \<inter> set ?top)"
    using d by (simp add: distinct_length_filter Int_commute)
  also have "\<dots> = length ?top"
    using sub top by (simp add: Int_absorb1 distinct_card)
  finally show ?thesis by (simp add: length_top_by count_where_def)
qed

lemma delete_batch_sound:
  "delete_batch ident ord p n rs = (batch, rs') \<Longrightarrow> distinct (map ident rs) \<Longrightarrow>
     set rs' \<subseteq> set rs \<and> {r \<in> set rs. \<not> p r} \<subseteq> set rs' \<and> distinct (map ident rs')"
  using delete_batch_rows [of ident rs ord p n] set_top_by_subset [of ord n "filter p rs"]
  by (auto simp: table_simps distinct_map_delete_where)

lemma delete_where_after_batch:
  assumes "distinct (map ident rs)" and "delete_batch ident ord p n rs = (batch, rs')"
  shows "delete_where p rs' = delete_where p rs" and "batch + count_where p rs' = count_where p rs"
proof -
  have rs': "rs' = delete_where (\<lambda>r. r \<in> set (top_by ord n (filter p rs))) rs"
    using delete_batch_rows [OF assms(1), of ord p n] assms(2) by simp
  show dw: "delete_where p rs' = delete_where p rs"
    using set_top_by_subset [of ord n "filter p rs"]
    by (auto simp: rs' delete_where_def intro: filter_cong)
  have "length rs' + batch = length rs"
    using assms(2) length_delete_where by (auto simp: delete_batch_def Let_def)
  with length_delete_where [of p rs'] length_delete_where [of p rs]
  show "batch + count_where p rs' = count_where p rs" unfolding dw by linarith
qed

text \<open>
  Whatever fails, an ineligible row is never deleted, and a successful return means that no
  eligible row is left.
\<close>

lemma drain_sound:
  assumes "distinct (map ident rs)" and "drain ident ord p n stop_below fs deleted rs = (res, rs')"
  shows "set rs' \<subseteq> set rs \<and> {r \<in> set rs. \<not> p r} \<subseteq> set rs' \<and> distinct (map ident rs')"
  using assms
proof (induction ident ord p n stop_below fs deleted rs rule: drain.induct)
  case (1 ident ord p n stop_below fs deleted rs)
  obtain batch rs1 where b: "delete_batch ident ord p n rs = (batch, rs1)" by fastforce
  note sound = delete_batch_sound [OF b "1.prems"(1)]
  show ?case
  proof (cases "\<not> (fs \<noteq> [] \<and> hd fs) \<and> \<not> (batch = 0 \<or> batch < stop_below)")
    case True
    then have rec: "drain ident ord p n stop_below (tl fs) (deleted + batch) rs1 = (res, rs')"
      using "1.prems"(2) b by (auto simp: drain.simps [of _ _ _ _ _ fs])
    have "set rs' \<subseteq> set rs1 \<and> {r \<in> set rs1. \<not> p r} \<subseteq> set rs' \<and> distinct (map ident rs')"
      using "1.IH" [OF _ b [symmetric] _ _ rec] True sound by blast
    with sound show ?thesis by blast
  next
    case False
    then have "rs' = rs \<or> rs' = rs1"
      using "1.prems"(2) b by (auto simp: drain.simps [of _ _ _ _ _ fs] split: if_splits)
    with sound "1.prems"(1) show ?thesis by blast
  qed
qed

lemma drain_keeps:
  "distinct (map ident rs) \<Longrightarrow> r \<in> set rs \<Longrightarrow> \<not> p r \<Longrightarrow>
     r \<in> set (snd (drain ident ord p n stop_below fs deleted rs))"
  using drain_sound [OF _ surjective_pairing, of ident rs ord p n stop_below fs deleted] by blast

lemma drain_complete:
  assumes "distinct (map ident rs)" and "0 < n" and "stop_below \<le> n" and "True \<notin> set fs"
  shows "drain ident ord p n stop_below fs deleted rs =
    (Inr (deleted + count_where p rs), delete_where p rs)"
  using assms
proof (induction ident ord p n stop_below fs deleted rs rule: drain.induct)
  case (1 ident ord p n stop_below fs deleted rs)
  obtain batch rs1 where b: "delete_batch ident ord p n rs = (batch, rs1)" by fastforce
  have fs: "\<not> (fs \<noteq> [] \<and> hd fs)" "True \<notin> set (tl fs)"
    using "1.prems"(4) by (cases fs; auto)+
  note after = delete_where_after_batch [OF "1.prems"(1) b]
  show ?case
  proof (cases "batch = 0 \<or> batch < stop_below")
    case True
    then have "batch < n" using "1.prems"(2,3) by auto
    then have "batch = count_where p rs"
      using delete_batch_count [OF "1.prems"(1), of ord p n] b by simp
    then have "count_where p rs1 = 0" using after(2) by simp
    then have "delete_where p rs1 = rs1"
      by (auto simp: count_where_def delete_where_def filter_empty_conv intro: filter_True)
    with True after(1) b fs(1) \<open>batch = count_where p rs\<close> show ?thesis
      by (simp add: drain.simps [of _ _ _ _ _ fs])
  next
    case False
    have "drain ident ord p n stop_below (tl fs) (deleted + batch) rs1 =
        (Inr (deleted + batch + count_where p rs1), delete_where p rs1)"
      using "1.IH" [OF fs(1) b [symmetric] False] delete_batch_sound [OF b "1.prems"(1)]
        "1.prems"(2,3) fs(2) by blast
    with False b fs(1) after show ?thesis
      by (simp add: drain.simps [of _ _ _ _ _ fs])
  qed
qed

end
