(* ===== verification/Credentials.thy ===== *)
theory Credentials
  imports Retention
begin

section \<open>Single-use capabilities: invites, password resets, e-mail verifications\<close>

text \<open>
  \<^verbatim>\<open>storage/src/invites.rs\<close>, \<^verbatim>\<open>storage/src/password.rs\<close>,
  \<^verbatim>\<open>storage/src/email.rs\<close> and the classification they share in
  \<^verbatim>\<open>storage/src/helpers.rs\<close>. The instants a function reads from the clock are
  arguments, as are the generated codes and tokens; \<^verbatim>\<open>host::token::hash\<close> (base64url
  decoding and SHA-256, third-party) is the parameter \<open>hash\<close>, with \<^const>\<open>None\<close> for an
  undecodable token.
\<close>

subsection \<open>Classifying a token row\<close>

type_synonym token_state_row = "instant option \<times> instant"

datatype token_state = Missing | AlreadyUsed | Expired | Claimable

definition classify_token_state :: "token_state_row option \<Rightarrow> instant \<Rightarrow> token_state" where
  "classify_token_state row now =
     (case row of
        None \<Rightarrow> Missing
      | Some (Some _, _) \<Rightarrow> AlreadyUsed
      | Some (None, expires_at) \<Rightarrow> if expires_at \<le> now then Expired else Claimable)"

lemma tx_case_token_state_ok_iff [tx_simps]:
  "case_token_state m u e k s c = (Inr a, c') \<longleftrightarrow>
     (s = Missing \<and> m c = (Inr a, c')) \<or> (s = AlreadyUsed \<and> u c = (Inr a, c')) \<or>
     (s = Expired \<and> e c = (Inr a, c')) \<or> (s = Claimable \<and> k c = (Inr a, c'))"
  by (cases s) auto

datatype use_invite_error =
  Invite_NotFound | Invite_Expired | Invite_AlreadyUsed | Invite_Internal sql_error

datatype use_password_reset_error =
  Reset_NotFound | Reset_Expired | Reset_AlreadyUsed | Reset_Internal sql_error

datatype use_email_verification_error =
    Verification_NotFound
  | Verification_Expired
  | Verification_AlreadyUsed
  | Verification_Internal sql_error

definition email_verification_claim_error ::
  "token_state_row option \<Rightarrow> instant \<Rightarrow> use_email_verification_error" where
  "email_verification_claim_error row now =
     (case classify_token_state row now of
        Missing \<Rightarrow> Verification_NotFound
      | AlreadyUsed \<Rightarrow> Verification_AlreadyUsed
      | Expired \<Rightarrow> Verification_Expired
      | Claimable \<Rightarrow> Verification_Expired)"

definition password_reset_claim_error ::
  "token_state_row option \<Rightarrow> instant \<Rightarrow> use_password_reset_error" where
  "password_reset_claim_error row now =
     (case classify_token_state row now of
        Missing \<Rightarrow> Reset_NotFound
      | AlreadyUsed \<Rightarrow> Reset_AlreadyUsed
      | Expired \<Rightarrow> Reset_Expired
      | Claimable \<Rightarrow> Reset_Expired)"

subsection \<open>Invites\<close>

definition create_invite :: "backend \<Rightarrow> ustr \<Rightarrow> instant \<Rightarrow> instant \<Rightarrow> (database, sql_error, ustr) tx" where
  "create_invite db code now expires_at =
     tx_bind (write_connection db) (\<lambda>_.
     tx_bind (statement (\<lambda>d.
         if \<exists>r \<in> set (invites d). invite_code r = code then (Inl UniqueViolation, d)
         else (Inr (), d\<lparr>invites := invites d @
           [\<lparr>invite_code = code, invite_created_at = now, invite_expires_at = expires_at,
             invite_used_at = None, invite_used_by = None\<rparr>]\<rparr>))) (\<lambda>_.
     tx_return code))"

definition invite_state :: "ustr \<Rightarrow> database \<Rightarrow> token_state_row option" where
  "invite_state code d =
     map_option (\<lambda>r. (invite_used_at r, invite_expires_at r))
       (find (\<lambda>r. invite_code r = code) (invites d))"

definition precheck_invite :: "ustr \<Rightarrow> instant \<Rightarrow> (database, use_invite_error, unit) tx" where
  "precheck_invite code now =
     tx_bind (tx_map_err Invite_Internal (pool_query (invite_state code))) (\<lambda>row.
       case classify_token_state row now of
         Missing \<Rightarrow> tx_throw Invite_NotFound
       | AlreadyUsed \<Rightarrow> tx_throw Invite_AlreadyUsed
       | Expired \<Rightarrow> tx_throw Invite_Expired
       | Claimable \<Rightarrow> tx_return ())"

definition invite_claimable :: "ustr \<Rightarrow> instant \<Rightarrow> invite_row \<Rightarrow> bool" where
  "invite_claimable code now r \<longleftrightarrow>
     invite_code r = code \<and> invite_used_at r = None \<and> now < invite_expires_at r"

definition invite_claim_update ::
  "ustr \<Rightarrow> instant \<Rightarrow> int \<Rightarrow> database \<Rightarrow> (sql_error + token_state_row option) \<times> database" where
  "invite_claim_update code now uid d =
     (case filter (invite_claimable code now) (invites d) of
        [] \<Rightarrow> (Inr None, d)
      | r # _ \<Rightarrow>
          if \<not> user_exists uid d then (Inl ForeignKeyViolation, d)
          else (Inr (Some (Some now, invite_expires_at r)),
                d\<lparr>invites := update_where (invite_claimable code now)
                    (\<lambda>r. r\<lparr>invite_used_at := Some now, invite_used_by := Some uid\<rparr>) (invites d)\<rparr>))"

definition claim_invite ::
  "backend \<Rightarrow> instant \<Rightarrow> ustr \<Rightarrow> int \<Rightarrow> (database, use_invite_error, unit) tx" where
  "claim_invite db now code uid =
     tx_bind (tx_map_err Invite_Internal (write_connection db)) (\<lambda>_.
     tx_bind (tx_map_err Invite_Internal (statement (invite_claim_update code now uid))) (\<lambda>claimed.
       case claimed of
         Some _ \<Rightarrow> tx_return ()
       | None \<Rightarrow>
           tx_bind (tx_map_err Invite_Internal (query (invite_state code))) (\<lambda>row.
             case classify_token_state row now of
               Missing \<Rightarrow> tx_throw Invite_NotFound
             | Expired \<Rightarrow> tx_throw Invite_Expired
             | AlreadyUsed \<Rightarrow> tx_throw Invite_AlreadyUsed
             | Claimable \<Rightarrow> tx_throw Invite_AlreadyUsed)))"

definition list_invites :: "(database, sql_error, invite_row list) tx" where
  "list_invites = pool_query invites"

text \<open>\<^verbatim>\<open>24.hours()\<close>, and the eligibility the three retention statements share.\<close>

definition unused_cutoff :: "timestamp_range \<Rightarrow> instant \<Rightarrow> instant" where
  "unused_cutoff b now = saturating_sub b now (seconds 86400)"

definition retained_past :: "instant \<Rightarrow> instant \<Rightarrow> instant option \<Rightarrow> instant \<Rightarrow> bool" where
  "retained_past now cutoff used_at expires_at \<longleftrightarrow>
     (case used_at of None \<Rightarrow> False | Some u \<Rightarrow> u \<le> now) \<or> expires_at \<le> cutoff"

definition prune_invites ::
  "timestamp_range \<Rightarrow> instant \<Rightarrow> bool list \<Rightarrow> database \<Rightarrow> (sql_error + nat) \<times> database" where
  "prune_invites b now fs d =
     (case drain invite_code invite_code
        (\<lambda>r. retained_past now (unused_cutoff b now) (invite_used_at r) (invite_expires_at r))
        100 1 fs 0 (invites d) of (res, rs) \<Rightarrow> (res, d\<lparr>invites := rs\<rparr>))"

subsection \<open>Password resets\<close>

definition create_password_reset :: "backend \<Rightarrow> (ustr \<times> ustr) \<Rightarrow> instant \<Rightarrow> int \<Rightarrow> instant \<Rightarrow>
    (database, sql_error, ustr) tx" where
  "create_password_reset db generated now uid expires_at =
     tx_bind (write_connection db) (\<lambda>_.
     tx_bind (statement (\<lambda>d.
         if \<exists>r \<in> set (password_resets d). reset_token_hash r = snd generated
         then (Inl UniqueViolation, d)
         else if \<not> user_exists uid d then (Inl ForeignKeyViolation, d)
         else (Inr (), d\<lparr>password_resets := password_resets d @
           [\<lparr>reset_token_hash = snd generated, reset_user_id = uid, reset_created_at = now,
             reset_expires_at = expires_at, reset_used_at = None\<rparr>]\<rparr>))) (\<lambda>_.
     tx_return (fst generated)))"

definition reset_claimable :: "ustr \<Rightarrow> instant \<Rightarrow> password_reset_row \<Rightarrow> bool" where
  "reset_claimable h now r \<longleftrightarrow>
     reset_token_hash r = h \<and> reset_used_at r = None \<and> now < reset_expires_at r"

definition reset_claim_update ::
  "ustr \<Rightarrow> instant \<Rightarrow> database \<Rightarrow> (sql_error + int option) \<times> database" where
  "reset_claim_update h now d =
     (case filter (reset_claimable h now) (password_resets d) of
        [] \<Rightarrow> (Inr None, d)
      | r # _ \<Rightarrow> (Inr (Some (reset_user_id r)),
          d\<lparr>password_resets := update_where (reset_claimable h now)
              (\<lambda>r. r\<lparr>reset_used_at := Some now\<rparr>) (password_resets d)\<rparr>))"

definition reset_state :: "ustr \<Rightarrow> database \<Rightarrow> token_state_row option" where
  "reset_state h d =
     map_option (\<lambda>r. (reset_used_at r, reset_expires_at r))
       (find (\<lambda>r. reset_token_hash r = h) (password_resets d))"

definition use_password_reset :: "backend \<Rightarrow> (ustr \<Rightarrow> ustr option) \<Rightarrow> instant \<Rightarrow> ustr \<Rightarrow>
    (database, use_password_reset_error, int) tx" where
  "use_password_reset db hash now raw_token =
     (case hash raw_token of
        None \<Rightarrow> tx_throw Reset_NotFound
      | Some h \<Rightarrow>
          tx_bind (tx_map_err Reset_Internal (write_connection db)) (\<lambda>_.
          tx_bind (tx_map_err Reset_Internal (statement (reset_claim_update h now))) (\<lambda>claimed.
            case claimed of
              Some uid \<Rightarrow> tx_return uid
            | None \<Rightarrow>
                tx_bind (tx_map_err Reset_Internal (query (reset_state h))) (\<lambda>row.
                  tx_throw (password_reset_claim_error row now)))))"

definition prune_password_resets ::
  "timestamp_range \<Rightarrow> instant \<Rightarrow> bool list \<Rightarrow> database \<Rightarrow> (sql_error + nat) \<times> database" where
  "prune_password_resets b now fs d =
     (case drain reset_token_hash reset_token_hash
        (\<lambda>r. retained_past now (unused_cutoff b now) (reset_used_at r) (reset_expires_at r))
        100 1 fs 0 (password_resets d) of (res, rs) \<Rightarrow> (res, d\<lparr>password_resets := rs\<rparr>))"

subsection \<open>E-mail verifications\<close>

text \<open>Creating a verification first expires the user's pending ones.\<close>

definition verification_pending :: "int \<Rightarrow> instant \<Rightarrow> email_verification_row \<Rightarrow> bool" where
  "verification_pending uid now r \<longleftrightarrow>
     verification_user_id r = uid \<and> verification_used_at r = None \<and> now < verification_expires_at r"

definition create_email_verification :: "backend \<Rightarrow> (ustr \<times> ustr) \<Rightarrow> instant \<Rightarrow> int \<Rightarrow> ustr \<Rightarrow>
    instant \<Rightarrow> (database, sql_error, ustr) tx" where
  "create_email_verification db generated now uid email expires_at =
     tx_bind (write_connection db) (\<lambda>_.
     tx_bind (execute (\<lambda>d. d\<lparr>email_verifications := update_where (verification_pending uid now)
         (\<lambda>r. r\<lparr>verification_expires_at := verification_created_at r\<rparr>) (email_verifications d)\<rparr>)) (\<lambda>_.
     tx_bind (statement (\<lambda>d.
         if \<exists>r \<in> set (email_verifications d). verification_token_hash r = snd generated
         then (Inl UniqueViolation, d)
         else if \<not> user_exists uid d then (Inl ForeignKeyViolation, d)
         else (Inr (), d\<lparr>email_verifications := email_verifications d @
           [\<lparr>verification_token_hash = snd generated, verification_user_id = uid,
             verification_email = email, verification_created_at = now,
             verification_expires_at = expires_at, verification_used_at = None\<rparr>]\<rparr>))) (\<lambda>_.
     tx_return (fst generated))))"

definition verification_claimable :: "ustr \<Rightarrow> instant \<Rightarrow> email_verification_row \<Rightarrow> bool" where
  "verification_claimable h now r \<longleftrightarrow>
     verification_token_hash r = h \<and> verification_used_at r = None \<and> now < verification_expires_at r"

definition verification_claim_update ::
  "ustr \<Rightarrow> instant \<Rightarrow> database \<Rightarrow> (sql_error + (int \<times> ustr) option) \<times> database" where
  "verification_claim_update h now d =
     (case filter (verification_claimable h now) (email_verifications d) of
        [] \<Rightarrow> (Inr None, d)
      | r # _ \<Rightarrow> (Inr (Some (verification_user_id r, verification_email r)),
          d\<lparr>email_verifications := update_where (verification_claimable h now)
              (\<lambda>r. r\<lparr>verification_used_at := Some now\<rparr>) (email_verifications d)\<rparr>))"

definition verification_state :: "ustr \<Rightarrow> database \<Rightarrow> token_state_row option" where
  "verification_state h d =
     map_option (\<lambda>r. (verification_used_at r, verification_expires_at r))
       (find (\<lambda>r. verification_token_hash r = h) (email_verifications d))"

text \<open>The miss is classified by a read on the pool, outside the transaction.\<close>

definition use_email_verification :: "backend \<Rightarrow> (ustr \<Rightarrow> ustr option) \<Rightarrow> instant \<Rightarrow> ustr \<Rightarrow>
    (database, use_email_verification_error, int \<times> ustr) tx" where
  "use_email_verification db hash now raw_token =
     (case hash raw_token of
        None \<Rightarrow> tx_throw Verification_NotFound
      | Some h \<Rightarrow>
          tx_bind (tx_map_err Verification_Internal (write_connection db)) (\<lambda>_.
          tx_bind (tx_map_err Verification_Internal (statement (verification_claim_update h now)))
            (\<lambda>claimed.
            case claimed of
              Some consumption \<Rightarrow> tx_return consumption
            | None \<Rightarrow>
                tx_bind (tx_map_err Verification_Internal (pool_query (verification_state h)))
                  (\<lambda>row. tx_throw (email_verification_claim_error row now)))))"

definition prune_email_verifications ::
  "timestamp_range \<Rightarrow> instant \<Rightarrow> bool list \<Rightarrow> database \<Rightarrow> (sql_error + nat) \<times> database" where
  "prune_email_verifications b now fs d =
     (case drain verification_token_hash verification_token_hash
        (\<lambda>r. retained_past now (unused_cutoff b now) (verification_used_at r)
           (verification_expires_at r))
        100 1 fs 0 (email_verifications d) of (res, rs) \<Rightarrow> (res, d\<lparr>email_verifications := rs\<rparr>))"

subsection \<open>Claims\<close>

lemmas claim_simps = invite_claim_update_def reset_claim_update_def verification_claim_update_def

lemma invite_claim_update_Some:
  "invite_claim_update code now uid d = (Inr (Some s), d') \<longleftrightarrow>
     (\<exists>r rest. filter (invite_claimable code now) (invites d) = r # rest \<and>
        s = (Some now, invite_expires_at r)) \<and> user_exists uid d \<and>
     d' = d\<lparr>invites := update_where (invite_claimable code now)
       (\<lambda>r. r\<lparr>invite_used_at := Some now, invite_used_by := Some uid\<rparr>) (invites d)\<rparr>"
  by (auto simp: invite_claim_update_def split: list.splits)

lemma reset_claim_update_Some:
  "reset_claim_update h now d = (Inr (Some uid), d') \<longleftrightarrow>
     (\<exists>r rest. filter (reset_claimable h now) (password_resets d) = r # rest \<and>
        uid = reset_user_id r) \<and>
     d' = d\<lparr>password_resets := update_where (reset_claimable h now)
       (\<lambda>r. r\<lparr>reset_used_at := Some now\<rparr>) (password_resets d)\<rparr>"
  by (auto simp: reset_claim_update_def split: list.splits)

lemma verification_claim_update_Some:
  "verification_claim_update h now d = (Inr (Some x), d') \<longleftrightarrow>
     (\<exists>r rest. filter (verification_claimable h now) (email_verifications d) = r # rest \<and>
        x = (verification_user_id r, verification_email r)) \<and>
     d' = d\<lparr>email_verifications := update_where (verification_claimable h now)
       (\<lambda>r. r\<lparr>verification_used_at := Some now\<rparr>) (email_verifications d)\<rparr>"
  by (auto simp: verification_claim_update_def split: list.splits)

text \<open>A successful claim is the successful conditional update, and nothing else.\<close>

lemma claim_invite_okD:
  assumes "claim_invite db now code uid c = (Inr u, c')"
  shows "\<exists>s. invite_claim_update code now uid (working c) = (Inr (Some s), working c')"
  using assms unfolding claim_invite_def by (clarsimp simp: tx_simps)

lemma use_password_reset_okD:
  assumes "use_password_reset db hash now raw c = (Inr uid, c')"
  shows "\<exists>h. hash raw = Some h \<and>
    reset_claim_update h now (working c) = (Inr (Some uid), working c')"
  using assms unfolding use_password_reset_def by (clarsimp simp: tx_simps)

lemma use_email_verification_okD:
  assumes "use_email_verification db hash now raw c = (Inr x, c')"
  shows "\<exists>h. hash raw = Some h \<and>
    verification_claim_update h now (working c) = (Inr (Some x), working c')"
  using assms unfolding use_email_verification_def by (clarsimp simp: tx_simps)

subsection \<open>The three stores keep the single-use contract\<close>

definition invite_unused :: "ustr \<Rightarrow> database \<Rightarrow> bool" where
  "invite_unused code d \<longleftrightarrow> (\<exists>r \<in> set (invites d). invite_code r = code \<and> invite_used_at r = None)"

definition reset_unused :: "ustr \<Rightarrow> database \<Rightarrow> bool" where
  "reset_unused h d \<longleftrightarrow>
     (\<exists>r \<in> set (password_resets d). reset_token_hash r = h \<and> reset_used_at r = None)"

definition verification_unused :: "ustr \<Rightarrow> database \<Rightarrow> bool" where
  "verification_unused h d \<longleftrightarrow>
     (\<exists>r \<in> set (email_verifications d). verification_token_hash r = h \<and> verification_used_at r = None)"

text \<open>
  A conditional update of the rows of one key: where keys are unique, a row that satisfies the
  condition is the only row of its key.
\<close>

lemma update_where_only_row:
  assumes "distinct (map k rs)" and "filter p rs = r # rest" and "\<And>x. p x \<Longrightarrow> k x = key"
    and "x \<in> set (update_where p f rs)" and "\<And>x. k (f x) = k x" and "k x = key"
  shows "x = f r"
proof -
  have r: "r \<in> set rs" "p r" using assms(2) by (metis filter_eq_ConsD in_set_conv_decomp)+
  obtain y where y: "y \<in> set rs" "x = (if p y then f y else y)"
    using assms(4) by (auto simp: update_where_def)
  then have "k y = key" using assms(5,6) by (auto split: if_splits)
  moreover have "k r = key" using r(2) assms(3) by simp
  ultimately have "y = r" using y(1) r(1) assms(1) by (metis distinct_map inj_onD)
  with y(2) r(2) show ?thesis by simp
qed

lemma filter_Cons_memD: "filter p rs = r # rest \<Longrightarrow> r \<in> set rs \<and> p r"
  by (metis filter_eq_ConsD in_set_conv_decomp)

interpretation invite_claims: single_use
  "\<lambda>(now, code, uid). claim_invite db now code uid"
  "\<lambda>d. distinct (map invite_code (invites d))" "\<lambda>(now, code, uid). Some code" invite_unused
proof unfold_locales
  fix c c' :: "database connection" and q k and a :: unit
  assume wf: "distinct (map invite_code (invites (working c)))"
    and ok: "(case q of (now, code, uid) \<Rightarrow> claim_invite db now code uid) c = (Inr a, c')"
  obtain now code uid where q: "q = (now, code, uid)" by (cases q)
  obtain s where "invite_claim_update code now uid (working c) = (Inr (Some s), working c')"
    using ok claim_invite_okD [of db now code uid c a c'] by (auto simp: q)
  then obtain r rest where r: "filter (invite_claimable code now) (invites (working c)) = r # rest"
    and c': "working c' = (working c)\<lparr>invites := update_where (invite_claimable code now)
       (\<lambda>r. r\<lparr>invite_used_at := Some now, invite_used_by := Some uid\<rparr>) (invites (working c))\<rparr>"
    by (auto simp: invite_claim_update_Some)
  note mem = filter_Cons_memD [OF r]
  show "distinct (map invite_code (invites (working c')))"
    using wf by (simp add: c' map_update_where)
  show "\<not> invite_unused k (working c')" if "\<not> invite_unused k (working c)"
    using that by (auto simp: c' invite_unused_def update_where_def)
  assume k: "(case q of (now, code, uid) \<Rightarrow> Some code) = Some k"
  show "invite_unused k (working c)"
    using mem k by (auto simp: q invite_unused_def invite_claimable_def)
  show "\<not> invite_unused k (working c')"
  proof -
    have key: "invite_code x = k" if "invite_claimable code now x" for x
      using that k by (simp add: q invite_claimable_def)
    have "invite_used_at x = Some now" if "x \<in> set (invites (working c'))" "invite_code x = k" for x
      using update_where_only_row [OF wf r key that(1) [unfolded c', simplified] _ that(2)] by simp
    then show ?thesis by (fastforce simp: invite_unused_def)
  qed
qed

interpretation reset_claims: single_use
  "\<lambda>(now, raw). use_password_reset db hash now raw"
  "\<lambda>d. distinct (map reset_token_hash (password_resets d))" "\<lambda>(now, raw). hash raw" reset_unused
proof unfold_locales
  fix c c' :: "database connection" and q k and a :: int
  assume wf: "distinct (map reset_token_hash (password_resets (working c)))"
    and ok: "(case q of (now, raw) \<Rightarrow> use_password_reset db hash now raw) c = (Inr a, c')"
  obtain now raw where q: "q = (now, raw)" by (cases q)
  obtain h where h: "hash raw = Some h"
    and "reset_claim_update h now (working c) = (Inr (Some a), working c')"
    using ok use_password_reset_okD [of db hash now raw c a c'] by (auto simp: q simp del: split_paired_Ex)
  then obtain r rest where r: "filter (reset_claimable h now) (password_resets (working c)) = r # rest"
    and c': "working c' = (working c)\<lparr>password_resets := update_where (reset_claimable h now)
       (\<lambda>r. r\<lparr>reset_used_at := Some now\<rparr>) (password_resets (working c))\<rparr>"
    by (auto simp: reset_claim_update_Some)
  note mem = filter_Cons_memD [OF r]
  show "distinct (map reset_token_hash (password_resets (working c')))"
    using wf by (simp add: c' map_update_where)
  show "\<not> reset_unused k (working c')" if "\<not> reset_unused k (working c)"
    using that by (auto simp: c' reset_unused_def update_where_def)
  assume k: "(case q of (now, raw) \<Rightarrow> hash raw) = Some k"
  show "reset_unused k (working c)"
    using mem k h by (auto simp: q reset_unused_def reset_claimable_def)
  show "\<not> reset_unused k (working c')"
  proof -
    have key: "reset_token_hash x = k" if "reset_claimable h now x" for x
      using that k h by (simp add: q reset_claimable_def)
    have "reset_used_at x = Some now" if "x \<in> set (password_resets (working c'))" "reset_token_hash x = k" for x
      using update_where_only_row [OF wf r key that(1) [unfolded c', simplified] _ that(2)] by simp
    then show ?thesis by (fastforce simp: reset_unused_def)
  qed
qed

interpretation verification_claims: single_use
  "\<lambda>(now, raw). use_email_verification db hash now raw"
  "\<lambda>d. distinct (map verification_token_hash (email_verifications d))"
  "\<lambda>(now, raw). hash raw" verification_unused
proof unfold_locales
  fix c c' :: "database connection" and q k and a :: "int \<times> ustr"
  assume wf: "distinct (map verification_token_hash (email_verifications (working c)))"
    and ok: "(case q of (now, raw) \<Rightarrow> use_email_verification db hash now raw) c = (Inr a, c')"
  obtain now raw where q: "q = (now, raw)" by (cases q)
  obtain h where h: "hash raw = Some h"
    and "verification_claim_update h now (working c) = (Inr (Some a), working c')"
    using ok use_email_verification_okD [of db hash now raw c a c'] by (auto simp: q simp del: split_paired_Ex)
  then obtain r rest where
    r: "filter (verification_claimable h now) (email_verifications (working c)) = r # rest"
    and c': "working c' = (working c)\<lparr>email_verifications := update_where (verification_claimable h now)
       (\<lambda>r. r\<lparr>verification_used_at := Some now\<rparr>) (email_verifications (working c))\<rparr>"
    by (auto simp: verification_claim_update_Some)
  note mem = filter_Cons_memD [OF r]
  show "distinct (map verification_token_hash (email_verifications (working c')))"
    using wf by (simp add: c' map_update_where)
  show "\<not> verification_unused k (working c')" if "\<not> verification_unused k (working c)"
    using that by (auto simp: c' verification_unused_def update_where_def)
  assume k: "(case q of (now, raw) \<Rightarrow> hash raw) = Some k"
  show "verification_unused k (working c)"
    using mem k h by (auto simp: q verification_unused_def verification_claimable_def)
  show "\<not> verification_unused k (working c')"
  proof -
    have key: "verification_token_hash x = k" if "verification_claimable h now x" for x
      using that k h by (simp add: q verification_claimable_def)
    have "verification_used_at x = Some now" if "x \<in> set (email_verifications (working c'))" "verification_token_hash x = k" for x
      using update_where_only_row [OF wf r key that(1) [unfolded c', simplified] _ that(2)] by simp
    then show ?thesis by (fastforce simp: verification_unused_def)
  qed
qed

subsection \<open>Properties\<close>

text \<open>
  C22: an invite is consumed at most once. Of any sequence of write scopes that claim invites, with
  whatever clock readings, users and driver, begin and commit failures, at most one claim of a
  given code is confirmed.
\<close>

theorem invite_claimed_at_most_once:
  assumes "distinct (map invite_code (invites db))"
  shows "confirmed_count (\<lambda>(env, now, code', uid). code' = code) claims
    (fst (run_all b (map (\<lambda>(env, now, code, uid). (env, claim_invite b now code uid)) claims) db)) \<le> 1"
  using invite_claims.confirmed_at_most_once [of db code claims b b] assms
  by (simp add: case_prod_unfold)

definition example_invite :: invite_row where
  "example_invite = \<lparr>invite_code = [7], invite_created_at = 0, invite_expires_at = 100,
     invite_used_at = None, invite_used_by = None\<rparr>"

definition example_user :: "int \<Rightarrow> user_row" where
  "example_user uid = \<lparr>user_id = uid, user_username = lit ''ada'', user_password_hash = [1],
     user_display_name = None, user_bio = None, user_created_at = 0,
     user_last_authenticated_at = None, user_email = None, user_email_verified = False,
     user_is_operator = False\<rparr>"

lemmas claim_eval = tx_eval run_def open_connection_def clean_env_def classify_commit_result_def
  classify_token_state_def update_where_def empty_database_def user_exists_def example_user_def

theorem invite_claimed_at_most_once_witness:
  "let db = empty_database\<lparr>invites := [example_invite], users := [example_user 1]\<rparr>;
       claims = [(clean_env, 5, [7], 1), (clean_env, 6, [7], 1)];
       results = fst (run_all Sqlite
         (map (\<lambda>(env, now, code, uid). (env, claim_invite Sqlite now code uid)) claims) db)
   in results = [Inr (Confirmed ()), Inl (Operation Invite_AlreadyUsed)] \<and>
      confirmed_count (\<lambda>(env, now, code', uid). code' = [7]) claims results \<le> 1"
  unfolding Let_def
proof (rule conjI)
  let ?db = "empty_database\<lparr>invites := [example_invite], users := [example_user 1]\<rparr>"
  show "fst (run_all Sqlite (map (\<lambda>(env, now, code, uid). (env, claim_invite Sqlite now code uid))
      [(clean_env, 5, [7], 1), (clean_env, 6, [7], 1)]) ?db) =
      [Inr (Confirmed ()), Inl (Operation Invite_AlreadyUsed)]"
    by (simp add: claim_eval claim_invite_def invite_claim_update_def invite_claimable_def
        invite_state_def example_invite_def)
qed (rule invite_claimed_at_most_once, simp add: empty_database_def)

text \<open>
  C23: a password-reset token is consumed at most once, whatever the clocks say and the driver
  fails, even if several raw tokens hash to the same stored one.
\<close>

theorem reset_token_used_at_most_once:
  assumes "distinct (map reset_token_hash (password_resets db))"
  shows "confirmed_count (\<lambda>(env, now, raw). hash raw = Some h) uses
    (fst (run_all b (map (\<lambda>(env, now, raw). (env, use_password_reset b hash now raw)) uses) db)) \<le> 1"
  using reset_claims.confirmed_at_most_once [of db hash h uses b b] assms
  by (simp add: case_prod_unfold)

definition example_reset :: "ustr \<Rightarrow> instant option \<Rightarrow> password_reset_row" where
  "example_reset h used = \<lparr>reset_token_hash = h, reset_user_id = 1, reset_created_at = 0,
     reset_expires_at = 100, reset_used_at = used\<rparr>"

theorem reset_token_used_at_most_once_witness:
  "let db = empty_database\<lparr>password_resets := [example_reset [7] None]\<rparr>;
       uses = [(clean_env, 5, [7]), (clean_env, 6, [7])];
       results = fst (run_all Postgres
         (map (\<lambda>(env, now, raw). (env, use_password_reset Postgres Some now raw)) uses) db)
   in results = [Inr (Confirmed 1), Inl (Operation Reset_AlreadyUsed)] \<and>
      confirmed_count (\<lambda>(env, now, raw). Some raw = Some [7]) uses results \<le> 1"
  unfolding Let_def
proof (rule conjI)
  let ?db = "empty_database\<lparr>password_resets := [example_reset [7] None]\<rparr>"
  show "fst (run_all Postgres
      (map (\<lambda>(env, now, raw). (env, use_password_reset Postgres Some now raw))
        [(clean_env, 5, [7]), (clean_env, 6, [7])]) ?db) =
      [Inr (Confirmed 1), Inl (Operation Reset_AlreadyUsed)]"
    by (simp add: claim_eval use_password_reset_def reset_claim_update_def reset_claimable_def
        reset_state_def password_reset_claim_error_def example_reset_def)
qed (rule reset_token_used_at_most_once, simp add: empty_database_def)

text \<open>
  An e-mail verification token is consumed at most once, under the same failures.
\<close>

theorem email_verification_used_at_most_once:
  assumes "distinct (map verification_token_hash (email_verifications db))"
  shows "confirmed_count (\<lambda>(env, now, raw). hash raw = Some h) uses
    (fst (run_all b (map (\<lambda>(env, now, raw). (env, use_email_verification b hash now raw)) uses) db)) \<le> 1"
  using verification_claims.confirmed_at_most_once [of db hash h uses b b] assms
  by (simp add: case_prod_unfold)

definition example_verification :: "ustr \<Rightarrow> instant \<Rightarrow> email_verification_row" where
  "example_verification h expires = \<lparr>verification_token_hash = h, verification_user_id = 1,
     verification_email = [9], verification_created_at = 2, verification_expires_at = expires,
     verification_used_at = None\<rparr>"

theorem email_verification_used_at_most_once_witness:
  "let db = empty_database\<lparr>email_verifications := [example_verification [7] 100]\<rparr>;
       uses = [(clean_env, 5, [7]), (clean_env, 6, [7])];
       results = fst (run_all Sqlite
         (map (\<lambda>(env, now, raw). (env, use_email_verification Sqlite Some now raw)) uses) db)
   in results = [Inr (Confirmed (1, [9])), Inl (Operation Verification_AlreadyUsed)] \<and>
      confirmed_count (\<lambda>(env, now, raw). Some raw = Some [7]) uses results \<le> 1"
  unfolding Let_def
proof (rule conjI)
  let ?db = "empty_database\<lparr>email_verifications := [example_verification [7] 100]\<rparr>"
  show "fst (run_all Sqlite
      (map (\<lambda>(env, now, raw). (env, use_email_verification Sqlite Some now raw))
        [(clean_env, 5, [7]), (clean_env, 6, [7])]) ?db) =
      [Inr (Confirmed (1, [9])), Inl (Operation Verification_AlreadyUsed)]"
    by (simp add: claim_eval use_email_verification_def verification_claim_update_def
        verification_claimable_def verification_state_def email_verification_claim_error_def
        example_verification_def)
qed (rule email_verification_used_at_most_once, simp add: empty_database_def)

text \<open>
  the outcome of a claim on every branch. On a healthy connection, a reset token whose hash is
  undecodable or unknown is refused as not found, a used one as used, an expired one as expired
  (at the expiry instant already), and any other one is consumed and answers its user.
\<close>

theorem use_password_reset_outcome:
  assumes "held c = b" and "faults c = []"
    and "distinct (map reset_token_hash (password_resets (working c)))"
  shows "fst (use_password_reset b hash now raw c) =
    (case hash raw of
       None \<Rightarrow> Inl Reset_NotFound
     | Some h \<Rightarrow>
         (case find (\<lambda>r. reset_token_hash r = h) (password_resets (working c)) of
            None \<Rightarrow> Inl Reset_NotFound
          | Some r \<Rightarrow>
              if reset_used_at r \<noteq> None then Inl Reset_AlreadyUsed
              else if reset_expires_at r \<le> now then Inl Reset_Expired
              else Inr (reset_user_id r)))"
proof (cases "hash raw")
  case None
  then show ?thesis by (simp add: use_password_reset_def tx_throw_def)
next
  case (Some h)
  let ?rs = "password_resets (working c)"
  show ?thesis
  proof (cases "find (\<lambda>r. reset_token_hash r = h) ?rs")
    case None
    then have "filter (reset_claimable h now) ?rs = []"
      by (auto simp: find_None_iff filter_empty_conv reset_claimable_def)
    with None Some assms(1,2) show ?thesis
      by (simp add: use_password_reset_def tx_eval reset_claim_update_def reset_state_def
          password_reset_claim_error_def classify_token_state_def)
  next
    case found: (Some r)
    have "filter (reset_claimable h now) ?rs = (if reset_claimable h now r then [r] else [])"
      using filter_key_found [OF assms(3) found] find_Some_memD [OF found]
      by (simp add: reset_claimable_def [abs_def])
    with found Some assms(1,2) find_Some_memD [OF found] show ?thesis
      by (auto simp: use_password_reset_def tx_eval reset_claim_update_def reset_state_def
          password_reset_claim_error_def classify_token_state_def reset_claimable_def)
  qed
qed

definition example_reset_connection :: "database connection" where
  "example_reset_connection = \<lparr>held = Sqlite, committed = empty_database,
     working = empty_database\<lparr>password_resets := [example_reset [7] None, example_reset [8] (Some 3)]\<rparr>,
     faults = []\<rparr>"

theorem use_password_reset_outcome_witness:
  "fst (use_password_reset Sqlite Some 5 [7] example_reset_connection) = Inr 1 \<and>
   fst (use_password_reset Sqlite Some 100 [7] example_reset_connection) = Inl Reset_Expired \<and>
   fst (use_password_reset Sqlite Some 5 [8] example_reset_connection) = Inl Reset_AlreadyUsed \<and>
   fst (use_password_reset Sqlite Some 5 [9] example_reset_connection) = Inl Reset_NotFound"
  using use_password_reset_outcome [of example_reset_connection Sqlite Some 5 "[7]"]
    use_password_reset_outcome [of example_reset_connection Sqlite Some 100 "[7]"]
    use_password_reset_outcome [of example_reset_connection Sqlite Some 5 "[8]"]
    use_password_reset_outcome [of example_reset_connection Sqlite Some 5 "[9]"]
  by (simp add: example_reset_connection_def example_reset_def)

text \<open>
  A new e-mail verification supersedes the earlier ones. Once its creation has run, at any
  later instant the only verification the user can still consume is the new one, and the rows of
  other users are as they were.
\<close>

theorem create_email_verification_supersedes:
  assumes "create_email_verification b (raw, h) now uid email expires_at c = (Inr t, c')"
    and "\<forall>r \<in> set (email_verifications (working c)). verification_created_at r \<le> now"
    and "now \<le> later" and "later < expires_at"
  shows "t = raw \<and>
    map verification_token_hash (filter (verification_pending uid later)
      (email_verifications (working c'))) = [h] \<and>
    filter (\<lambda>r. verification_user_id r \<noteq> uid) (email_verifications (working c')) =
      filter (\<lambda>r. verification_user_id r \<noteq> uid) (email_verifications (working c))"
proof -
  let ?expire = "\<lambda>r. r\<lparr>verification_expires_at := verification_created_at r\<rparr>"
  let ?old = "update_where (verification_pending uid now) ?expire (email_verifications (working c))"
  let ?new = "\<lparr>verification_token_hash = h, verification_user_id = uid, verification_email = email,
    verification_created_at = now, verification_expires_at = expires_at, verification_used_at = None\<rparr>"
  have "t = raw \<and> email_verifications (working c') = ?old @ [?new]"
    using assms(1) unfolding create_email_verification_def
    by (clarsimp simp: tx_simps split: if_split_asm)
  then have t: "t = raw" and rows: "email_verifications (working c') = ?old @ [?new]" by auto
  have "\<not> verification_pending uid later r'" if new: "r' \<in> set ?old" for r'
  proof -
    obtain r where r: "r \<in> set (email_verifications (working c))"
      "r' = (if verification_pending uid now r then ?expire r else r)"
      using new by (auto simp: update_where_def)
    with assms(2) have "verification_created_at r \<le> now" by blast
    with r(2) assms(3) show ?thesis by (auto simp: verification_pending_def)
  qed
  then have "filter (verification_pending uid later) ?old = []"
    by (simp add: filter_empty_conv)
  moreover have "filter (\<lambda>r. verification_user_id r \<noteq> uid) (update_where (verification_pending uid now) ?expire rs) =
      filter (\<lambda>r. verification_user_id r \<noteq> uid) rs" for rs
    by (induction rs) (auto simp: update_where_def verification_pending_def)
  ultimately show ?thesis
    using assms(4) by (simp add: t rows verification_pending_def)
qed

definition example_verification_connection :: "database connection" where
  "example_verification_connection = \<lparr>held = Sqlite, committed = empty_database,
     working = empty_database\<lparr>users := [example_user 1],
       email_verifications := [example_verification [7] 100]\<rparr>, faults = []\<rparr>"

theorem create_email_verification_supersedes_witness:
  "\<exists>t c'. create_email_verification Sqlite ([5], [8]) 10 1 [9] 110 example_verification_connection =
      (Inr t, c') \<and>
    map verification_token_hash (filter (verification_pending 1 20)
      (email_verifications (working c'))) = [[8]]"
proof -
  have "fst (create_email_verification Sqlite ([5], [8]) 10 1 [9] 110
      example_verification_connection) = Inr [5]"
    by (simp add: create_email_verification_def claim_eval example_verification_connection_def
        example_verification_def verification_pending_def)
  then obtain t c' where ok: "create_email_verification Sqlite ([5], [8]) 10 1 [9] 110
      example_verification_connection = (Inr t, c')"
    by (metis prod.collapse)
  then show ?thesis
    using create_email_verification_supersedes [OF ok, of 20]
    by (simp add: example_verification_connection_def example_verification_def empty_database_def)
qed

text \<open>
  Retention is exact. On a healthy pool each pruning loop deletes exactly the rows whose use
  lies in the past or whose expiry lies a day back, and counts them; when a statement fails, no
  other row has been deleted.
\<close>

theorem prune_keeps_live_credentials:
  assumes "distinct (map invite_code (invites db))"
    and "distinct (map reset_token_hash (password_resets db))"
    and "distinct (map verification_token_hash (email_verifications db))"
  shows "({r \<in> set (invites db). \<not> retained_past now (saturating_sub b now (seconds 86400)) (invite_used_at r) (invite_expires_at r)}
      \<subseteq> set (invites (snd (prune_invites b now fs db)))) \<and>
    ({r \<in> set (password_resets db). \<not> retained_past now (saturating_sub b now (seconds 86400)) (reset_used_at r) (reset_expires_at r)}
      \<subseteq> set (password_resets (snd (prune_password_resets b now fs db)))) \<and>
    ({r \<in> set (email_verifications db).
        \<not> retained_past now (saturating_sub b now (seconds 86400)) (verification_used_at r) (verification_expires_at r)}
      \<subseteq> set (email_verifications (snd (prune_email_verifications b now fs db)))) \<and>
    (True \<notin> set fs \<longrightarrow>
      prune_invites b now fs db =
        (Inr (count_where (\<lambda>r. retained_past now (saturating_sub b now (seconds 86400)) (invite_used_at r) (invite_expires_at r)) (invites db)),
         db\<lparr>invites := delete_where
           (\<lambda>r. retained_past now (saturating_sub b now (seconds 86400)) (invite_used_at r) (invite_expires_at r)) (invites db)\<rparr>) \<and>
      prune_password_resets b now fs db =
        (Inr (count_where (\<lambda>r. retained_past now (saturating_sub b now (seconds 86400)) (reset_used_at r) (reset_expires_at r)) (password_resets db)),
         db\<lparr>password_resets := delete_where
           (\<lambda>r. retained_past now (saturating_sub b now (seconds 86400)) (reset_used_at r) (reset_expires_at r)) (password_resets db)\<rparr>) \<and>
      prune_email_verifications b now fs db =
        (Inr (count_where (\<lambda>r. retained_past now (saturating_sub b now (seconds 86400)) (verification_used_at r) (verification_expires_at r))
            (email_verifications db)),
         db\<lparr>email_verifications := delete_where
           (\<lambda>r. retained_past now (saturating_sub b now (seconds 86400)) (verification_used_at r) (verification_expires_at r))
             (email_verifications db)\<rparr>))"
proof (intro conjI impI)
  show "{r \<in> set (invites db). \<not> retained_past now (saturating_sub b now (seconds 86400)) (invite_used_at r) (invite_expires_at r)}
      \<subseteq> set (invites (snd (prune_invites b now fs db)))"
    using drain_keeps [OF assms(1)]
    by (auto simp: prune_invites_def unused_cutoff_def case_prod_beta)
  show "{r \<in> set (password_resets db). \<not> retained_past now (saturating_sub b now (seconds 86400)) (reset_used_at r) (reset_expires_at r)}
      \<subseteq> set (password_resets (snd (prune_password_resets b now fs db)))"
    using drain_keeps [OF assms(2)]
    by (auto simp: prune_password_resets_def unused_cutoff_def case_prod_beta)
  show "{r \<in> set (email_verifications db).
        \<not> retained_past now (saturating_sub b now (seconds 86400)) (verification_used_at r) (verification_expires_at r)}
      \<subseteq> set (email_verifications (snd (prune_email_verifications b now fs db)))"
    using drain_keeps [OF assms(3)]
    by (auto simp: prune_email_verifications_def unused_cutoff_def case_prod_beta)
qed (simp_all add: prune_invites_def prune_password_resets_def prune_email_verifications_def
    unused_cutoff_def drain_complete [OF assms(1)] drain_complete [OF assms(2)]
    drain_complete [OF assms(3)])

theorem prune_keeps_live_credentials_witness:
  "example_invite \<in> set (invites (snd (prune_invites \<lparr>ts_min = - seconds 100000, ts_max = 1000\<rparr> 50
     [False, True] (empty_database\<lparr>invites := [example_invite]\<rparr>))))"
  using prune_keeps_live_credentials
    [of "empty_database\<lparr>invites := [example_invite]\<rparr>" 50 "\<lparr>ts_min = - seconds 100000, ts_max = 1000\<rparr>"
      "[False, True]"]
  by (auto simp: empty_database_def retained_past_def saturating_sub_def example_invite_def subset_iff)

end
