(* ===== verification/Text_Values.thy ===== *)
theory Text_Values
  imports Jaunder_Prelude
begin

section \<open>Validated text values\<close>

text \<open>
  The string newtypes of \<^verbatim>\<open>common/src\<close> that one pure parser guards: display names,
  biographies, usernames, session labels, post titles, bodies and summaries, audience names,
  idempotency keys, token shapes, content hashes, \<^verbatim>\<open>ETag\<close>s and root-relative URLs. A value
  is its inner string; \<^verbatim>\<open>FromStr\<close> is a partial function. The newtype trailer (serde, sqlx,
  \<^verbatim>\<open>TryFrom\<close>) re-runs \<^verbatim>\<open>FromStr\<close> on the stored spelling, so what a stored value
  needs is the contract \<open>stable_parser\<close>: a parsed value parses to itself.
\<close>

subsection \<open>Whitespace\<close>

text \<open>The scalars with the Unicode property \<^verbatim>\<open>White_Space\<close>, and the category \<^verbatim>\<open>Cc\<close>.\<close>

definition is_whitespace :: "nat \<Rightarrow> bool" where
  "is_whitespace c \<longleftrightarrow> (9 \<le> c \<and> c \<le> 13) \<or> c = 32 \<or> c = 0x85 \<or> c = 0xA0 \<or> c = 0x1680 \<or>
     (0x2000 \<le> c \<and> c \<le> 0x200A) \<or> c = 0x2028 \<or> c = 0x2029 \<or> c = 0x202F \<or> c = 0x205F \<or> c = 0x3000"

definition is_control :: "nat \<Rightarrow> bool" where
  "is_control c \<longleftrightarrow> c \<le> 0x1F \<or> (0x7F \<le> c \<and> c \<le> 0x9F)"

definition trim_start :: "ustr \<Rightarrow> ustr" where
  "trim_start s = dropWhile is_whitespace s"

definition trim_end :: "ustr \<Rightarrow> ustr" where
  "trim_end s = rev (dropWhile is_whitespace (rev s))"

definition trim :: "ustr \<Rightarrow> ustr" where
  "trim s = trim_end (trim_start s)"

text \<open>A string without surrounding whitespace.\<close>

definition trimmed :: "ustr \<Rightarrow> bool" where
  "trimmed s \<longleftrightarrow> s = [] \<or> (\<not> is_whitespace (hd s) \<and> \<not> is_whitespace (last s))"

lemma dropWhile_prefix: "\<exists>xs. s = xs @ dropWhile P s \<and> (\<forall>x \<in> set xs. P x)"
  by (rule exI [of _ "takeWhile P s"]) (auto dest: set_takeWhileD)

lemma trim_end_Nil_iff [simp]: "trim_end s = [] \<longleftrightarrow> (\<forall>c \<in> set s. is_whitespace c)"
  by (simp add: trim_end_def)

lemma trim_start_Nil_iff [simp]: "trim_start s = [] \<longleftrightarrow> (\<forall>c \<in> set s. is_whitespace c)"
  by (simp add: trim_start_def)

lemma last_trim_end: "trim_end s \<noteq> [] \<Longrightarrow> \<not> is_whitespace (last (trim_end s))"
proof -
  assume "trim_end s \<noteq> []"
  then have "dropWhile is_whitespace (rev s) \<noteq> []"
    by (simp only: trim_end_def rev_is_Nil_conv not_False_eq_True)
  from hd_dropWhile [OF this] show ?thesis unfolding trim_end_def last_rev .
qed

lemma trim_end_decomp: "\<exists>ws. s = trim_end s @ ws \<and> (\<forall>c \<in> set ws. is_whitespace c)"
proof -
  obtain xs where xs: "rev s = xs @ dropWhile is_whitespace (rev s)" "\<forall>x \<in> set xs. is_whitespace x"
    using dropWhile_prefix [of "rev s" is_whitespace] by (elim exE conjE)
  have e: "s = trim_end s @ rev xs"
    using arg_cong [OF xs(1), of rev] unfolding trim_end_def rev_rev_ident rev_append .
  have "\<forall>c \<in> set (rev xs). is_whitespace c" using xs(2) by simp
  with e show ?thesis by blast
qed

lemma length_trim_end: "length (trim_end s) \<le> length s"
  by (metis append_Nil2 length_append le_add1 trim_end_decomp)

lemma hd_trim_end: "trim_end s \<noteq> [] \<Longrightarrow> hd (trim_end s) = hd s"
  by (metis hd_append trim_end_decomp)

lemma trim_end_id: "s = [] \<or> \<not> is_whitespace (last s) \<Longrightarrow> trim_end s = s"
  by (cases s rule: rev_cases) (auto simp: trim_end_def)

lemma trim_start_id: "s = [] \<or> \<not> is_whitespace (hd s) \<Longrightarrow> trim_start s = s"
  by (cases s) (auto simp: trim_start_def)

lemma trim_id: "trimmed s \<Longrightarrow> trim s = s"
  by (auto simp: trimmed_def trim_def trim_start_id trim_end_id)

lemma hd_trim_start: "trim_start s \<noteq> [] \<Longrightarrow> \<not> is_whitespace (hd (trim_start s))"
  unfolding trim_start_def by (rule hd_dropWhile)

lemma trim_Nil_iff: "trim s = [] \<longleftrightarrow> (\<forall>c \<in> set s. is_whitespace c)"
proof
  assume "trim s = []"
  then have "\<forall>c \<in> set (trim_start s). is_whitespace c" by (simp only: trim_def trim_end_Nil_iff)
  then have "trim_start s = []" using hd_trim_start hd_in_set by blast
  then show "\<forall>c \<in> set s. is_whitespace c" by simp
next
  assume "\<forall>c \<in> set s. is_whitespace c"
  then have "trim_start s = []" by (simp only: trim_start_Nil_iff)
  then show "trim s = []" by (simp only: trim_def) (simp add: trim_end_def)
qed

lemma trimmed_trim: "trimmed (trim s)"
proof (cases "trim s = []")
  case False
  then have ne: "trim_end (trim_start s) \<noteq> []" by (simp only: trim_def not_False_eq_True)
  have "trim_start s \<noteq> []"
  proof
    assume "trim_start s = []"
    with ne show False by (simp only: trim_end_def) simp
  qed
  with ne show ?thesis
    using hd_trim_end [OF ne] hd_trim_start last_trim_end [OF ne]
    by (simp only: trimmed_def trim_def) simp
qed (simp only: trimmed_def simp_thms)

lemma trim_trim [simp]: "trim (trim s) = trim s"
  by (rule trim_id [OF trimmed_trim])

subsection \<open>The contract of a parser\<close>

locale stable_parser =
  fixes parse :: "ustr \<Rightarrow> ustr option"
  assumes stable: "parse s = Some v \<Longrightarrow> parse v = Some v"
begin

definition valid :: "ustr \<Rightarrow> bool" where
  "valid v \<longleftrightarrow> parse v = Some v"

lemma valid_iff: "valid v \<longleftrightarrow> (\<exists>s. parse s = Some v)"
  using stable by (auto simp: valid_def)

text \<open>A column written through the type decodes to the values written.\<close>

lemma column_roundtrip:
  "those (map parse ss) = Some vs \<Longrightarrow> those (map parse vs) = Some vs"
  by (induction ss arbitrary: vs) (auto split: option.splits simp: stable)

end

subsection \<open>Bounded, trimmed text\<close>

definition non_empty :: "ustr \<Rightarrow> ustr option" where
  "non_empty s = (if trim s \<noteq> [] then Some (trim s) else None)"

definition bounded_non_empty :: "nat \<Rightarrow> ustr \<Rightarrow> ustr option" where
  "bounded_non_empty max_chars s =
     (case non_empty s of
        None \<Rightarrow> None
      | Some t \<Rightarrow> if max_chars < length t then None else Some t)"

lemma bounded_non_empty_Some_iff:
  "bounded_non_empty n s = Some v \<longleftrightarrow> v = trim s \<and> v \<noteq> [] \<and> length v \<le> n"
  by (auto simp: bounded_non_empty_def non_empty_def)

definition parse_display_name :: "ustr \<Rightarrow> ustr option" where
  "parse_display_name s = bounded_non_empty 255 s"

definition parse_bio :: "ustr \<Rightarrow> ustr option" where
  "parse_bio s = bounded_non_empty 1000 s"

definition parse_post_summary :: "ustr \<Rightarrow> ustr option" where
  "parse_post_summary s = bounded_non_empty 500 s"

definition parse_audience_name :: "ustr \<Rightarrow> ustr option" where
  "parse_audience_name s = non_empty s"

definition parse_idempotency_key :: "ustr \<Rightarrow> ustr option" where
  "parse_idempotency_key s = (let t = trim s in if t = [] then None else Some t)"

definition parse_session_label :: "ustr \<Rightarrow> ustr option" where
  "parse_session_label s = (let t = trim s in if t = [] \<or> length t > 255 then None else Some t)"

definition session_label_from_lossy :: "ustr \<Rightarrow> ustr" where
  "session_label_from_lossy s =
     (let bounded = take 255 (trim s) in if bounded = [] then lit ''Unknown device'' else bounded)"

definition is_line_separator :: "nat \<Rightarrow> bool" where
  "is_line_separator c \<longleftrightarrow> c \<in> {10, 13, 0x0B, 0x0C, 0x85, 0x2028, 0x2029}"

definition parse_post_title :: "ustr \<Rightarrow> ustr option" where
  "parse_post_title s =
     (if list_ex is_line_separator s then None
      else let t = trim s in if t = [] then None else Some t)"

text \<open>A missing title, or a title that is refused, or the title.\<close>

definition parse_optional_post_title :: "ustr \<Rightarrow> (unit + ustr option)" where
  "parse_optional_post_title s =
     (if trim s = [] \<and> \<not> list_ex is_line_separator s then Inr None
      else case parse_post_title s of None \<Rightarrow> Inl () | Some t \<Rightarrow> Inr (Some t))"

text \<open>\<^verbatim>\<open>str::lines\<close>: cut at line feeds, one trailing carriage return of each line dropped.\<close>

definition strip_cr :: "ustr \<Rightarrow> ustr" where
  "strip_cr l = (if l \<noteq> [] \<and> last l = 13 then butlast l else l)"

fun lines_from :: "ustr \<Rightarrow> ustr \<Rightarrow> ustr list" where
  "lines_from acc [] = (if acc = [] then [] else [rev acc])"
| "lines_from acc (c # cs) =
     (if c = 10 then strip_cr (rev acc) # lines_from [] cs else lines_from (c # acc) cs)"

definition str_lines :: "ustr \<Rightarrow> ustr list" where
  "str_lines s = lines_from [] s"

definition parse_post_body :: "ustr \<Rightarrow> ustr option" where
  "parse_post_body s = (if list_all (\<lambda>l. trim l = []) (str_lines s) then None else Some s)"

subsection \<open>Identifiers\<close>

definition is_token_char :: "nat \<Rightarrow> bool" where
  "is_token_char c \<longleftrightarrow> is_ascii_alphanumeric c \<or> c = 45 \<or> c = 95"

definition parse_username :: "ustr \<Rightarrow> ustr option" where
  "parse_username s =
     (if s = [] \<or> \<not> list_all is_token_char s then None else Some (map to_ascii_lower s))"

definition validate_token_shape :: "ustr \<Rightarrow> ustr option" where
  "validate_token_shape s = (if s = [] \<or> \<not> list_all is_token_char s then None else Some s)"

definition is_valid_content_hash :: "ustr \<Rightarrow> bool" where
  "is_valid_content_hash s \<longleftrightarrow>
     length s = 64 \<and> list_all (\<lambda>b. is_ascii_digit b \<or> (97 \<le> b \<and> b \<le> 102)) s"

definition parse_content_hash :: "ustr \<Rightarrow> ustr option" where
  "parse_content_hash s = (if is_valid_content_hash s then Some s else None)"

definition is_etagc :: "nat \<Rightarrow> bool" where
  "is_etagc c \<longleftrightarrow> c = 0x21 \<or> (0x23 \<le> c \<and> c \<le> 0x7e) \<or> c \<ge> 0x80"

definition is_valid_etag :: "ustr \<Rightarrow> bool" where
  "is_valid_etag s \<longleftrightarrow> length s \<ge> 2 \<and> hd s = 34 \<and> last s = 34 \<and> list_all is_etagc (butlast (tl s))"

definition parse_etag :: "ustr \<Rightarrow> ustr option" where
  "parse_etag s = (if is_valid_etag s then Some s else None)"

definition is_root_relative :: "ustr \<Rightarrow> bool" where
  "is_root_relative s \<longleftrightarrow>
     strip_prefix [47] s \<noteq> None \<and> strip_prefix [47, 47] s = None \<and>
     \<not> list_ex (\<lambda>c. is_whitespace c \<or> is_control c) s"

definition parse_root_relative_url :: "ustr \<Rightarrow> ustr option" where
  "parse_root_relative_url s = (let t = trim s in if is_root_relative t then Some t else None)"

datatype invalid_password = PasswordTooShort | PasswordTooLong

definition validate_password_shape :: "ustr \<Rightarrow> invalid_password + unit" where
  "validate_password_shape s =
     (if length s < 8 then Inl PasswordTooShort
      else if length s > 512 then Inl PasswordTooLong
      else Inr ())"

lemmas parser_defs = parse_display_name_def parse_bio_def parse_post_summary_def
  parse_audience_name_def parse_idempotency_key_def parse_session_label_def parse_post_title_def
  parse_username_def validate_token_shape_def parse_content_hash_def parse_etag_def
  parse_root_relative_url_def parse_post_body_def

lemma is_token_char_lower [simp]: "is_token_char c \<Longrightarrow> is_token_char (to_ascii_lower c)"
  by (auto simp: is_token_char_def ascii_defs)

lemma to_ascii_lower_idem [simp]: "to_ascii_lower (to_ascii_lower c) = to_ascii_lower c"
  by (auto simp: ascii_defs)

lemma trim_subset: "set (trim s) \<subseteq> set s"
proof -
  have "set (dropWhile is_whitespace s') \<subseteq> set s'" for s'
    by (auto dest: set_dropWhileD)
  from this [of s] this [of "rev (trim_start s)"] show ?thesis
    by (simp add: trim_def trim_end_def trim_start_def)
qed

interpretation display_name: stable_parser parse_display_name
  by unfold_locales (auto simp: parser_defs bounded_non_empty_Some_iff)

interpretation bio: stable_parser parse_bio
  by unfold_locales (auto simp: parser_defs bounded_non_empty_Some_iff)

interpretation post_summary: stable_parser parse_post_summary
  by unfold_locales (auto simp: parser_defs bounded_non_empty_Some_iff)

interpretation audience_name: stable_parser parse_audience_name
  by unfold_locales (auto simp: parser_defs non_empty_def split: if_splits)

interpretation idempotency_key: stable_parser parse_idempotency_key
  by unfold_locales (auto simp: parser_defs Let_def split: if_splits)

interpretation session_label: stable_parser parse_session_label
  by unfold_locales (auto simp: parser_defs Let_def split: if_splits)

interpretation post_title: stable_parser parse_post_title
proof
  fix s v assume "parse_post_title s = Some v"
  then have "\<not> list_ex is_line_separator s" "v = trim s" "v \<noteq> []"
    by (auto simp: parse_post_title_def Let_def split: if_splits)
  moreover from this have "\<not> list_ex is_line_separator v"
    using trim_subset [of s] by (auto simp: list_ex_iff)
  ultimately show "parse_post_title v = Some v"
    by (simp add: parse_post_title_def)
qed

interpretation post_body: stable_parser parse_post_body
  by unfold_locales (auto simp: parser_defs split: if_splits)

interpretation username: stable_parser parse_username
  by unfold_locales (auto simp: parser_defs list_all_iff split: if_splits)

interpretation token_shape: stable_parser validate_token_shape
  by unfold_locales (auto simp: parser_defs split: if_splits)

interpretation content_hash: stable_parser parse_content_hash
  by unfold_locales (auto simp: parser_defs split: if_splits)

interpretation etag: stable_parser parse_etag
  by unfold_locales (auto simp: parser_defs split: if_splits)

interpretation root_relative_url: stable_parser parse_root_relative_url
  by unfold_locales (auto simp: parser_defs Let_def split: if_splits)

subsection \<open>Summaries derived from a title or a body\<close>

definition last_index :: "(nat \<Rightarrow> bool) \<Rightarrow> ustr \<Rightarrow> nat option" where
  "last_index p s =
     (if list_ex p s then Some (length (dropWhile (\<lambda>c. \<not> p c) (rev s)) - 1) else None)"

definition non_empty_trimmed_prefix :: "ustr \<Rightarrow> ustr option" where
  "non_empty_trimmed_prefix s = (let t = trim_end s in if t \<noteq> [] then Some t else None)"

definition is_terminator :: "nat \<Rightarrow> bool" where
  "is_terminator c \<longleftrightarrow> c = 46 \<or> c = 33 \<or> c = 63"

definition truncate_at_text_boundary :: "ustr \<Rightarrow> nat \<Rightarrow> ustr" where
  "truncate_at_text_boundary s n =
     (if length s \<le> n then s
      else
        let hard_cap = take n s;
            sentence = Option.bind (last_index is_terminator hard_cap)
              (\<lambda>i. non_empty_trimmed_prefix (take (i + 1) hard_cap));
            word = Option.bind (last_index is_whitespace hard_cap)
              (\<lambda>i. non_empty_trimmed_prefix (take i hard_cap))
        in case sentence of
             Some p \<Rightarrow> p
           | None \<Rightarrow> (case word of Some p \<Rightarrow> p | None \<Rightarrow> hard_cap))"

definition summary_from_title :: "ustr \<Rightarrow> ustr" where
  "summary_from_title title = truncate_at_text_boundary title 500"

definition summary_from_body_line :: "ustr \<Rightarrow> ustr" where
  "summary_from_body_line body =
     (let rest = trim_start body;
          line = (case split_once [10] rest of None \<Rightarrow> rest | Some (first, _) \<Rightarrow> first)
      in truncate_at_text_boundary (trim_end line) 100)"

lemma last_index_Some:
  assumes "last_index p s = Some i"
  shows "i < length s \<and> p (s ! i)"
proof -
  let ?d = "dropWhile (\<lambda>c. \<not> p c) (rev s)"
  have ex: "list_ex p s" and i: "i = length ?d - 1"
    using assms by (auto simp: last_index_def split: if_splits)
  then have ne: "?d \<noteq> []" by (auto simp: list_ex_iff)
  obtain xs where xs: "rev s = xs @ ?d"
    using dropWhile_prefix [of "rev s" "\<lambda>c. \<not> p c"] by (elim exE conjE)
  have s: "s = rev ?d @ rev xs" using arg_cong [OF xs, of rev] unfolding rev_rev_ident rev_append .
  have len: "length ?d \<le> length s" using arg_cong [OF xs, of length] by simp
  have "s ! i = hd ?d"
    using ne i arg_cong [OF s, of "\<lambda>l. l ! i"]
    by (simp add: nth_append rev_nth hd_conv_nth)
  with hd_dropWhile [OF ne] ne i len show ?thesis
    by (cases ?d) auto
qed

lemma non_empty_trimmed_prefix_Some:
  assumes "non_empty_trimmed_prefix s = Some t" and "s \<noteq> []" and "\<not> is_whitespace (hd s)"
  shows "trimmed t \<and> t \<noteq> [] \<and> length t \<le> length s"
proof -
  have t: "t = trim_end s" "trim_end s \<noteq> []"
    using assms(1) by (auto simp: non_empty_trimmed_prefix_def Let_def split: if_splits)
  then show ?thesis
    using hd_trim_end [OF t(2)] last_trim_end [OF t(2)] length_trim_end [of s] assms(3)
    by (simp add: trimmed_def)
qed

lemma truncate_at_text_boundary_trimmed:
  assumes "trimmed s" and "s \<noteq> []" and "0 < n"
  shows "trimmed (truncate_at_text_boundary s n) \<and> truncate_at_text_boundary s n \<noteq> [] \<and>
    length (truncate_at_text_boundary s n) \<le> n"
proof (cases "length s \<le> n")
  case True
  with assms show ?thesis by (simp add: truncate_at_text_boundary_def)
next
  case False
  let ?cap = "take n s"
  have hd: "\<not> is_whitespace (hd s)" using assms by (simp add: trimmed_def)
  have cap: "?cap \<noteq> []" "\<not> is_whitespace (hd ?cap)" "length ?cap = n"
    using assms False hd by simp_all
  have prefix: "trimmed t \<and> t \<noteq> [] \<and> length t \<le> n"
    if "non_empty_trimmed_prefix (take i ?cap) = Some t" for i t
  proof -
    have "take i ?cap \<noteq> []"
    proof
      assume "take i ?cap = []"
      with that show False by (simp only: non_empty_trimmed_prefix_def Let_def) (simp add: trim_end_def)
    qed
    then show ?thesis
      using non_empty_trimmed_prefix_Some [OF that] hd by (force simp: hd_take)
  qed
  have word: "last_index is_whitespace ?cap = None"
    if "Option.bind (last_index is_whitespace ?cap)
      (\<lambda>i. non_empty_trimmed_prefix (take i ?cap)) = None"
  proof (rule ccontr)
    assume "last_index is_whitespace ?cap \<noteq> None"
    then obtain i where i: "last_index is_whitespace ?cap = Some i" by blast
    from last_index_Some [OF this] cap have "0 < i"
      by (metis gr_zeroI hd_conv_nth)
    then have "hd s \<in> set (take i ?cap)"
      using cap(1) by (cases s; cases i; cases n) auto
    then have "trim_end (take i ?cap) \<noteq> []" using hd trim_end_Nil_iff by blast
    with i that show False by (simp add: non_empty_trimmed_prefix_def Let_def)
  qed
  have last: "trimmed ?cap" if "last_index is_whitespace ?cap = None"
    using that cap by (auto simp: trimmed_def last_index_def list_ex_iff split: if_splits)
  let ?sentence = "Option.bind (last_index is_terminator ?cap)
    (\<lambda>i. non_empty_trimmed_prefix (take (i + 1) ?cap))"
  let ?word = "Option.bind (last_index is_whitespace ?cap)
    (\<lambda>i. non_empty_trimmed_prefix (take i ?cap))"
  have result: "truncate_at_text_boundary s n =
      (case ?sentence of Some p \<Rightarrow> p | None \<Rightarrow> (case ?word of Some p \<Rightarrow> p | None \<Rightarrow> ?cap))"
    using False by (simp only: truncate_at_text_boundary_def Let_def if_False)
  have pre: "trimmed t \<and> t \<noteq> [] \<and> length t \<le> n"
    if "Option.bind x (\<lambda>i. non_empty_trimmed_prefix (take (f i) ?cap)) = Some t" for x f t
  proof (cases x)
    case None
    with that show ?thesis by simp
  next
    case (Some i)
    with that have "non_empty_trimmed_prefix (take (f i) ?cap) = Some t"
      by (simp only: bind.simps)
    then show ?thesis by (rule prefix)
  qed
  show ?thesis
  proof (cases ?sentence)
    case (Some t)
    from pre [OF this] Some show ?thesis unfolding result by simp
  next
    case no_sentence: None
    show ?thesis
    proof (cases ?word)
      case (Some t)
      from pre [OF this] Some no_sentence show ?thesis unfolding result by simp
    next
      case None
      from last [OF word [OF this]] cap None no_sentence show ?thesis unfolding result by simp
    qed
  qed
qed

lemma lines_from_blank:
  "list_all (\<lambda>l. trim l = []) (lines_from acc s) \<longleftrightarrow>
     (\<forall>c \<in> set acc \<union> set s. is_whitespace c)"
proof (induction acc s rule: lines_from.induct)
  case (1 acc)
  then show ?case by (auto simp: trim_Nil_iff)
next
  case (2 acc c cs)
  have cr: "(\<forall>x \<in> set (strip_cr l). is_whitespace x) \<longleftrightarrow> (\<forall>x \<in> set l. is_whitespace x)" for l
    by (cases l rule: rev_cases) (auto simp: strip_cr_def is_whitespace_def)
  show ?case
  proof (cases "c = 10")
    case True
    then have "is_whitespace c" by (simp add: is_whitespace_def)
    with True 2(1) [OF True] cr [of "rev acc"] show ?thesis by (auto simp: trim_Nil_iff)
  next
    case False
    with 2(2) [OF False] show ?thesis by auto
  qed
qed

lemma parse_post_body_Some_iff:
  "parse_post_body s = Some b \<longleftrightarrow> b = s \<and> (\<exists>c \<in> set s. \<not> is_whitespace c)"
  using lines_from_blank [of "[]" s] by (auto simp: parse_post_body_def str_lines_def)

text \<open>
  A derived summary is a summary. What \<^verbatim>\<open>PostSummary::from_title\<close> makes of a valid
  title, and \<^verbatim>\<open>PostSummary::from_body_line\<close> of a valid body, passes the validation of
  \<^verbatim>\<open>PostSummary\<close> unchanged, although neither of them validates.
\<close>

theorem derived_summary_valid:
  "(parse_post_title s = Some title \<longrightarrow>
      parse_post_summary (summary_from_title title) = Some (summary_from_title title)) \<and>
   (parse_post_body s' = Some body \<longrightarrow>
      parse_post_summary (summary_from_body_line body) = Some (summary_from_body_line body) \<and>
      length (summary_from_body_line body) \<le> 100)"
proof (intro conjI impI)
  assume "parse_post_title s = Some title"
  then have "title = trim s" "title \<noteq> []"
    by (auto simp: parse_post_title_def Let_def split: if_splits)
  then have "trimmed title" "title \<noteq> []" using trimmed_trim by simp_all
  from truncate_at_text_boundary_trimmed [OF this, of 500]
  show "parse_post_summary (summary_from_title title) = Some (summary_from_title title)"
    by (auto simp: parse_post_summary_def bounded_non_empty_Some_iff summary_from_title_def trim_id)
next
  assume "parse_post_body s' = Some body"
  then have ne: "trim_start body \<noteq> []"
    by (auto simp: parse_post_body_Some_iff)
  define line where "line = (case split_once [10] (trim_start body) of
    None \<Rightarrow> trim_start body | Some (first, _) \<Rightarrow> first)"
  have hd: "\<not> is_whitespace (hd (trim_start body))" by (rule hd_trim_start [OF ne])
  have line: "line \<noteq> [] \<and> hd line = hd (trim_start body)"
  proof (cases "split_once [10] (trim_start body)")
    case None
    then show ?thesis using ne by (simp add: line_def)
  next
    case (Some ab)
    then obtain a b where ab: "split_once [10] (trim_start body) = Some (a, b)" by (cases ab) simp
    from split_once_Some_append [OF this] have "trim_start body = a @ 10 # b" by simp
    moreover from this hd have "a \<noteq> []" by (auto simp: is_whitespace_def)
    ultimately show ?thesis unfolding line_def ab by simp
  qed
  then have "trim_end line \<noteq> []" using hd trim_end_Nil_iff hd_in_set by metis
  from this hd_trim_end [OF this] last_trim_end [OF this] line hd
  have "trimmed (trim_end line)" "trim_end line \<noteq> []" by (simp_all only: trimmed_def) auto
  from truncate_at_text_boundary_trimmed [OF this, of 100]
  have "trimmed (summary_from_body_line body) \<and> summary_from_body_line body \<noteq> [] \<and>
      length (summary_from_body_line body) \<le> 100"
    by (simp add: summary_from_body_line_def Let_def line_def)
  then show "parse_post_summary (summary_from_body_line body) = Some (summary_from_body_line body)"
    and "length (summary_from_body_line body) \<le> 100"
    by (auto simp: parse_post_summary_def bounded_non_empty_Some_iff trim_id)
qed

theorem derived_summary_valid_witness:
  "parse_post_summary (summary_from_title (lit ''On bees'')) = Some (lit ''On bees'') \<and>
   parse_post_summary (summary_from_body_line [10, 32, 104, 105, 32, 10, 120]) = Some [104, 105]"
proof -
  have title: "parse_post_title (lit ''On bees'') = Some (lit ''On bees'')"
    by (simp add: parse_post_title_def is_line_separator_def trim_def trim_start_def trim_end_def
        is_whitespace_def)
  have body: "parse_post_body [10, 32, 104, 105, 32, 10, 120] = Some [10, 32, 104, 105, 32, 10, 120]"
    by (simp add: parse_post_body_Some_iff is_whitespace_def)
  have "summary_from_title (lit ''On bees'') = lit ''On bees''"
    "summary_from_body_line [10, 32, 104, 105, 32, 10, 120] = [104, 105]"
    by (simp_all add: summary_from_title_def summary_from_body_line_def truncate_at_text_boundary_def
        trim_start_def trim_end_def is_whitespace_def)
  with derived_summary_valid [of "lit ''On bees''" "lit ''On bees''"
      "[10, 32, 104, 105, 32, 10, 120]" "[10, 32, 104, 105, 32, 10, 120]"] title body
  show ?thesis by simp
qed

subsection \<open>Stored spellings\<close>

text \<open>
  whatever a validated text type accepts, it accepts again, unchanged, when its stored spelling
  is decoded: writing a value and reading it back never fails and never changes it.
\<close>

theorem stored_text_stable:
  "parse \<in> {parse_display_name, parse_bio, parse_post_summary, parse_audience_name,
      parse_idempotency_key, parse_session_label, parse_post_title, parse_post_body, parse_username,
      validate_token_shape, parse_content_hash, parse_etag, parse_root_relative_url} \<Longrightarrow>
    those (map parse ss) = Some vs \<Longrightarrow> those (map parse vs) = Some vs"
  by (elim insertE emptyE; hypsubst;
      erule display_name.column_roundtrip bio.column_roundtrip post_summary.column_roundtrip
        audience_name.column_roundtrip idempotency_key.column_roundtrip
        session_label.column_roundtrip post_title.column_roundtrip post_body.column_roundtrip
        username.column_roundtrip token_shape.column_roundtrip content_hash.column_roundtrip
        etag.column_roundtrip root_relative_url.column_roundtrip)

theorem stored_text_stable_witness:
  "parse_username (lit ''Ada-1'') = Some (lit ''ada-1'') \<and>
   those (map parse_username [lit ''ada-1'']) = Some [lit ''ada-1'']"
proof (rule conjI)
  show user: "parse_username (lit ''Ada-1'') = Some (lit ''ada-1'')"
    by (simp add: parse_username_def is_token_char_def ascii_defs)
  show "those (map parse_username [lit ''ada-1'']) = Some [lit ''ada-1'']"
    by (rule stored_text_stable [where ss = "[lit ''Ada-1'']"]) (use user in simp_all)
qed

text \<open>
  The lossy session label is bounded and never empty, but it is not always a valid label: a
  label cut right after an inner space keeps that space, which the validating parser would have
  trimmed.
\<close>

theorem session_label_from_lossy_not_stable:
  "session_label_from_lossy s \<noteq> [] \<and> length (session_label_from_lossy s) \<le> 255 \<and>
   (\<exists>t. parse_session_label (session_label_from_lossy t) \<noteq> Some (session_label_from_lossy t))"
proof (intro conjI)
  show "session_label_from_lossy s \<noteq> []" "length (session_label_from_lossy s) \<le> 255"
    by (auto simp: session_label_from_lossy_def Let_def)
  define t :: ustr where "t = replicate 254 120 @ [32, 120]"
  have "trimmed t" by (simp add: t_def trimmed_def is_whitespace_def)
  then have label: "session_label_from_lossy t = replicate 254 120 @ [32]"
    by (simp add: t_def session_label_from_lossy_def trim_id)
  have refused: "parse_session_label u \<noteq> Some u" if "u \<noteq> []" "last u = 32" for u
    using that trimmed_trim [of u]
    by (auto simp: parse_session_label_def Let_def trimmed_def is_whitespace_def split: if_splits)
  from label obtain xs where "session_label_from_lossy t = xs @ [32]" by blast
  then have "parse_session_label (session_label_from_lossy t) \<noteq> Some (session_label_from_lossy t)"
    by (intro refused) simp_all
  then show "\<exists>t. parse_session_label (session_label_from_lossy t) \<noteq> Some (session_label_from_lossy t)" by blast
qed

end
