(* ===== verification/Sessions.thy ===== *)
theory Sessions
  imports Credentials Text_Values
begin

section \<open>Sessions\<close>

text \<open>
  \<^verbatim>\<open>storage/src/sessions.rs\<close> with its two dialects
  \<^verbatim>\<open>storage/src/sqlite/sessions.rs\<close> and \<^verbatim>\<open>storage/src/postgres/sessions.rs\<close>.
  The instant the session clock yields after the lock is taken is the argument \<open>now\<close>; the row
  lock itself is the serialization of the scopes. A row joined with its user, its label
  repaired by \<^verbatim>\<open>SessionLabel::from_lossy\<close>, is a \<open>session_record\<close>.
\<close>

record session_record =
  record_token_hash :: ustr
  record_user_id :: int
  record_username :: ustr
  record_label :: ustr
  record_kind :: session_kind
  record_created_at :: instant
  record_last_used_at :: instant

record session_authentication =
  auth_record :: session_record
  auth_touched :: bool

datatype session_auth_error = InvalidToken | SessionNotFound | Session_Internal sql_error

definition session_idle_cutoff :: "timestamp_range \<Rightarrow> instant \<Rightarrow> instant" where
  "session_idle_cutoff b now = saturating_sub b now (seconds 2592000)"

definition session_touch_cutoff :: "timestamp_range \<Rightarrow> instant \<Rightarrow> instant" where
  "session_touch_cutoff b now = saturating_sub b now (seconds 60)"

definition session_record_of :: "user_row \<Rightarrow> session_row \<Rightarrow> session_record" where
  "session_record_of u s = \<lparr>record_token_hash = session_token_hash s, record_user_id = session_user_id s,
     record_username = user_username u, record_label = session_label_from_lossy (session_label s),
     record_kind = session_row.session_kind s, record_created_at = session_created_at s,
     record_last_used_at = session_last_used_at s\<rparr>"

definition join_user :: "database \<Rightarrow> session_row \<Rightarrow> session_record list" where
  "join_user d s = map (\<lambda>u. session_record_of u s) (filter (\<lambda>u. user_id u = session_user_id s) (users d))"

definition first_row :: "'r list \<Rightarrow> 'r option" where
  "first_row rs = (case rs of [] \<Rightarrow> None | r # _ \<Rightarrow> Some r)"

text \<open>The joined \<^verbatim>\<open>SELECT\<close> by token hash, and the rows the touch updates.\<close>

definition load_session :: "ustr \<Rightarrow> database \<Rightarrow> session_record option" where
  "load_session h d =
     first_row (concat (map (join_user d) (filter (\<lambda>s. session_token_hash s = h) (sessions d))))"

definition touch_matches :: "ustr \<Rightarrow> instant \<Rightarrow> instant \<Rightarrow> session_row \<Rightarrow> bool" where
  "touch_matches h stale_before expired s \<longleftrightarrow>
     session_token_hash s = h \<and> session_last_used_at s \<le> stale_before \<and>
     (session_row.session_kind s \<noteq> Browser \<or> session_last_used_at s > expired)"

definition touch_rows :: "ustr \<Rightarrow> instant \<Rightarrow> instant \<Rightarrow> instant \<Rightarrow> database \<Rightarrow> database" where
  "touch_rows h now stale_before expired d =
     d\<lparr>sessions := update_where (touch_matches h stale_before expired)
         (\<lambda>s. s\<lparr>session_last_used_at := now\<rparr>) (sessions d)\<rparr>"

subsection \<open>The dialects\<close>

definition sqlite_touch_and_load :: "timestamp_range \<Rightarrow> ustr \<Rightarrow> instant \<Rightarrow>
    (database, sql_error, (session_record \<times> bool) option) tx" where
  "sqlite_touch_and_load b h now =
     tx_bind (write_connection Sqlite) (\<lambda>_.
     tx_bind (query (load_session h)) (\<lambda>row.
       case row of
         None \<Rightarrow> tx_return None
       | Some r \<Rightarrow>
           (let stale_before = session_touch_cutoff b now;
                expired = session_idle_cutoff b now
            in if record_kind r = Browser \<and> record_last_used_at r \<le> expired then tx_return None
               else if record_last_used_at r > stale_before then tx_return (Some (r, False))
               else
                 tx_bind (execute (touch_rows h now stale_before expired)) (\<lambda>_.
                 tx_bind (query (load_session h)) (\<lambda>row.
                   tx_return (map_option (\<lambda>r. (r, True)) row))))))"

text \<open>
  PostgreSQL updates and reads back in one statement: the \<^verbatim>\<open>RETURNING\<close> rows of the update,
  joined with the users.
\<close>

definition postgres_touch :: "ustr \<Rightarrow> instant \<Rightarrow> instant \<Rightarrow> instant \<Rightarrow> database \<Rightarrow>
    (sql_error + session_record option) \<times> database" where
  "postgres_touch h now stale_before expired d =
     (let updated = map (\<lambda>s. s\<lparr>session_last_used_at := now\<rparr>)
            (filter (touch_matches h stale_before expired) (sessions d))
      in (Inr (first_row (concat (map (join_user d) updated))),
          touch_rows h now stale_before expired d))"

definition postgres_touch_and_load :: "timestamp_range \<Rightarrow> ustr \<Rightarrow> instant \<Rightarrow>
    (database, sql_error, (session_record \<times> bool) option) tx" where
  "postgres_touch_and_load b h now =
     tx_bind (write_connection Postgres) (\<lambda>_.
     tx_bind (query (load_session h)) (\<lambda>row.
       case row of
         None \<Rightarrow> tx_return None
       | Some r \<Rightarrow>
           (let stale_before = session_touch_cutoff b now;
                expired = session_idle_cutoff b now
            in if record_kind r = Browser \<and> record_last_used_at r \<le> expired then tx_return None
               else if record_last_used_at r > stale_before then tx_return (Some (r, False))
               else
                 tx_bind (statement (postgres_touch h now stale_before expired)) (\<lambda>row.
                   tx_return (map_option (\<lambda>r. (r, True)) row)))))"

definition touch_and_load :: "backend \<Rightarrow> timestamp_range \<Rightarrow> ustr \<Rightarrow> instant \<Rightarrow>
    (database, sql_error, (session_record \<times> bool) option) tx" where
  "touch_and_load db =
     (case db of Sqlite \<Rightarrow> sqlite_touch_and_load | Postgres \<Rightarrow> postgres_touch_and_load)"

subsection \<open>The store\<close>

definition create_session :: "backend \<Rightarrow> (ustr \<times> ustr) \<Rightarrow> instant \<Rightarrow> int \<Rightarrow> ustr \<Rightarrow> session_kind \<Rightarrow>
    (database, sql_error, ustr) tx" where
  "create_session db generated now uid label kind =
     tx_bind (write_connection db) (\<lambda>_.
     tx_bind (statement (\<lambda>d.
         if \<exists>s \<in> set (sessions d). session_token_hash s = snd generated
         then (Inl UniqueViolation, d)
         else if \<not> user_exists uid d then (Inl ForeignKeyViolation, d)
         else (Inr (), d\<lparr>sessions := sessions d @
           [\<lparr>session_token_hash = snd generated, session_user_id = uid, session_label = label,
             session_created_at = now, session_last_used_at = now, session_kind = kind\<rparr>]\<rparr>))) (\<lambda>_.
     tx_return (fst generated)))"

definition authenticate :: "backend \<Rightarrow> timestamp_range \<Rightarrow> (ustr \<Rightarrow> ustr option) \<Rightarrow> ustr \<Rightarrow> instant \<Rightarrow>
    (database, session_auth_error, session_authentication) tx" where
  "authenticate db b hash raw_token now =
     (case hash raw_token of
        None \<Rightarrow> tx_throw InvalidToken
      | Some h \<Rightarrow>
          tx_bind (tx_map_err Session_Internal (touch_and_load db b h now)) (\<lambda>loaded.
            case loaded of
              None \<Rightarrow> tx_throw SessionNotFound
            | Some (r, touched) \<Rightarrow> tx_return \<lparr>auth_record = r, auth_touched = touched\<rparr>))"

definition revoke_session :: "backend \<Rightarrow> ustr \<Rightarrow> (database, sql_error, unit) tx" where
  "revoke_session db h =
     tx_bind (write_connection db) (\<lambda>_.
     execute (delete_sessions (\<lambda>s. session_token_hash s = h)))"

definition revoke_all_for_user :: "backend \<Rightarrow> int \<Rightarrow> (database, sql_error, unit) tx" where
  "revoke_all_for_user db uid =
     tx_bind (write_connection db) (\<lambda>_.
     execute (delete_sessions (\<lambda>s. session_user_id s = uid)))"

definition revoke_all_for_user_except ::
  "backend \<Rightarrow> int \<Rightarrow> ustr \<Rightarrow> (database, sql_error, unit) tx" where
  "revoke_all_for_user_except db uid current =
     tx_bind (write_connection db) (\<lambda>_.
     execute (delete_sessions (\<lambda>s. session_user_id s = uid \<and> session_token_hash s \<noteq> current)))"

definition browser_expired :: "instant \<Rightarrow> session_row \<Rightarrow> bool" where
  "browser_expired cutoff s \<longleftrightarrow> session_row.session_kind s = Browser \<and> session_last_used_at s \<le> cutoff"

definition prune_expired_browser_sessions ::
  "timestamp_range \<Rightarrow> instant \<Rightarrow> bool list \<Rightarrow> database \<Rightarrow> (sql_error + nat) \<times> database" where
  "prune_expired_browser_sessions b now fs d =
     (case drain session_token_hash session_token_hash (browser_expired (session_idle_cutoff b now))
        500 1 fs 0 (sessions d) of (res, rs) \<Rightarrow> (res, keep_sessions rs d))"

definition list_sessions :: "int \<Rightarrow> (database, sql_error, session_record list) tx" where
  "list_sessions uid = pool_query (\<lambda>d.
     concat (map (join_user d) (filter (\<lambda>s. session_user_id s = uid) (sessions d))))"

subsection \<open>Loading and touching\<close>

lemma filter_hash_unique:
  assumes "distinct (map session_token_hash ss)" and "s \<in> set ss" and "session_token_hash s = h"
  shows "filter (\<lambda>s. session_token_hash s = h) ss = [s]"
proof -
  have "find (\<lambda>x. session_token_hash x = h) ss = Some s"
    using find_key_unique [OF assms(1,2)] assms(3) by simp
  from filter_key_found [OF assms(1) this, of "\<lambda>_. True"] show ?thesis by simp
qed

lemma load_session_Some:
  assumes "load_session h d = Some r"
  shows "\<exists>s u. s \<in> set (sessions d) \<and> session_token_hash s = h \<and> u \<in> set (users d) \<and>
    user_id u = session_user_id s \<and> r = session_record_of u s"
proof -
  from assms obtain rest where
    "concat (map (join_user d) (filter (\<lambda>s. session_token_hash s = h) (sessions d))) = r # rest"
    by (auto simp: load_session_def first_row_def split: list.splits)
  then have "r \<in> set (concat (map (join_user d) (filter (\<lambda>s. session_token_hash s = h) (sessions d))))"
    by simp
  then show ?thesis by (auto simp: join_user_def)
qed

lemma load_session_unique:
  assumes "distinct (map session_token_hash (sessions d))" and "load_session h d = Some r"
  obtains s u us where "s \<in> set (sessions d)" "session_token_hash s = h"
    "filter (\<lambda>s. session_token_hash s = h) (sessions d) = [s]"
    "filter (\<lambda>u. user_id u = session_user_id s) (users d) = u # us" "r = session_record_of u s"
proof -
  obtain s where s: "s \<in> set (sessions d)" "session_token_hash s = h"
    using load_session_Some [OF assms(2)] by blast
  note f = filter_hash_unique [OF assms(1) s]
  have "first_row (join_user d s) = Some r"
    using assms(2) by (simp add: load_session_def f)
  then obtain u us where "filter (\<lambda>u. user_id u = session_user_id s) (users d) = u # us"
    "r = session_record_of u s"
    by (cases "filter (\<lambda>u. user_id u = session_user_id s) (users d)")
      (auto simp: join_user_def first_row_def)
  with that s f show thesis by blast
qed

text \<open>The touch of an eligible row, and what both dialects read back.\<close>

lemma touch_reads_back:
  assumes "distinct (map session_token_hash (sessions d))" and "load_session h d = Some r"
    and "record_last_used_at r \<le> stale" and "\<not> (record_kind r = Browser \<and> record_last_used_at r \<le> expired)"
  shows "load_session h (touch_rows h now stale expired d) = Some (r\<lparr>record_last_used_at := now\<rparr>)"
    and "postgres_touch h now stale expired d =
      (Inr (Some (r\<lparr>record_last_used_at := now\<rparr>)), touch_rows h now stale expired d)"
proof -
  obtain s u us where s: "s \<in> set (sessions d)" "session_token_hash s = h"
    "filter (\<lambda>s. session_token_hash s = h) (sessions d) = [s]"
    and u: "filter (\<lambda>u. user_id u = session_user_id s) (users d) = u # us" "r = session_record_of u s"
    by (rule load_session_unique [OF assms(1,2)])
  have m: "touch_matches h stale expired s"
    using assms(3,4) s(2) u(2) by (auto simp: touch_matches_def session_record_of_def)
  let ?f = "\<lambda>s. s\<lparr>session_last_used_at := now\<rparr>"
  have "filter (\<lambda>s. session_token_hash s = h) (update_where (touch_matches h stale expired) ?f ss) =
      update_where (touch_matches h stale expired) ?f (filter (\<lambda>s. session_token_hash s = h) ss)" for ss
    by (induction ss) (auto simp: update_where_def)
  with s(3) m have "filter (\<lambda>s. session_token_hash s = h) (sessions (touch_rows h now stale expired d)) = [?f s]"
    by (simp add: touch_rows_def) (simp add: update_where_def)
  then show "load_session h (touch_rows h now stale expired d) = Some (r\<lparr>record_last_used_at := now\<rparr>)"
    using u by (simp add: load_session_def join_user_def touch_rows_def first_row_def session_record_of_def)
  have "filter (touch_matches h stale expired) (sessions d) =
      filter (touch_matches h stale expired) (filter (\<lambda>s. session_token_hash s = h) (sessions d))"
    by (auto simp: touch_matches_def intro: filter_cong)
  then have "filter (touch_matches h stale expired) (sessions d) = [s]" using s(3) m by simp
  then show "postgres_touch h now stale expired d =
      (Inr (Some (r\<lparr>record_last_used_at := now\<rparr>)), touch_rows h now stale expired d)"
    using u by (simp add: postgres_touch_def join_user_def first_row_def session_record_of_def)
qed

text \<open>What both dialects compute, as one function of the database.\<close>

definition session_step :: "timestamp_range \<Rightarrow> ustr \<Rightarrow> instant \<Rightarrow> database \<Rightarrow>
    (session_record \<times> bool) option \<times> database" where
  "session_step b h now d =
     (case load_session h d of
        None \<Rightarrow> (None, d)
      | Some r \<Rightarrow>
          if record_kind r = Browser \<and> record_last_used_at r \<le> session_idle_cutoff b now then (None, d)
          else if session_touch_cutoff b now < record_last_used_at r then (Some (r, False), d)
          else (Some (r\<lparr>record_last_used_at := now\<rparr>, True),
                touch_rows h now (session_touch_cutoff b now) (session_idle_cutoff b now) d))"

lemma touch_and_load_step:
  assumes "distinct (map session_token_hash (sessions (working c)))"
    and "held c = db" and "faults c = []"
  shows "touch_and_load db b h now c =
    (Inr (fst (session_step b h now (working c))), c\<lparr>working := snd (session_step b h now (working c))\<rparr>)"
proof (cases "load_session h (working c)")
  case None
  with assms(2,3) show ?thesis
    by (cases db) (simp_all add: touch_and_load_def sqlite_touch_and_load_def
        postgres_touch_and_load_def session_step_def tx_eval)
next
  case (Some r)
  let ?stale = "session_touch_cutoff b now" and ?expired = "session_idle_cutoff b now"
  consider (gone) "record_kind r = Browser \<and> record_last_used_at r \<le> ?expired"
    | (fresh) "\<not> (record_kind r = Browser \<and> record_last_used_at r \<le> ?expired)" "?stale < record_last_used_at r"
    | (touch) "\<not> (record_kind r = Browser \<and> record_last_used_at r \<le> ?expired)" "record_last_used_at r \<le> ?stale"
    by linarith
  then show ?thesis
  proof cases
    case touch
    note reads = touch_reads_back [OF assms(1) Some touch(2) touch(1), of now]
    from touch have "\<not> ?stale < record_last_used_at r" by simp
    with touch(1) Some assms(2,3) reads show ?thesis
      by (cases db) (simp_all add: touch_and_load_def sqlite_touch_and_load_def
          postgres_touch_and_load_def session_step_def tx_eval Let_def del: not_less)
  qed (use Some assms(2,3) in \<open>cases db;
    simp add: touch_and_load_def sqlite_touch_and_load_def postgres_touch_and_load_def
      session_step_def tx_eval Let_def\<close>)+
qed

subsection \<open>Properties\<close>


definition example_session :: "ustr \<Rightarrow> session_kind \<Rightarrow> instant \<Rightarrow> session_row" where
  "example_session h kind used = \<lparr>session_token_hash = h, session_user_id = 1,
     session_label = lit ''Safari'', session_created_at = 0, session_last_used_at = used,
     session_kind = kind\<rparr>"

definition example_sessions_connection :: "backend \<Rightarrow> database connection" where
  "example_sessions_connection db = \<lparr>held = db, committed = empty_database,
     working = empty_database\<lparr>users := [example_user 1],
       sessions := [example_session [7] Browser 0, example_session [8] Machine 0]\<rparr>, faults = []\<rparr>"

definition example_range :: timestamp_range where
  "example_range = \<lparr>ts_min = - seconds 377705023201, ts_max = seconds 253402207200\<rparr>"

lemma example_load_session:
  "load_session [8] (working (example_sessions_connection db)) =
     Some (session_record_of (example_user 1) (example_session [8] Machine 0))"
  "load_session [7] (working (example_sessions_connection db)) =
     Some (session_record_of (example_user 1) (example_session [7] Browser 0))"
  by (simp_all add: load_session_def example_sessions_connection_def example_session_def
      example_user_def join_user_def first_row_def)


text \<open>
  An authentication that succeeds, on a healthy connection or not, loaded a row of that token.
\<close>

definition owned_by :: "ustr \<Rightarrow> int \<Rightarrow> database \<Rightarrow> bool" where
  "owned_by h uid d \<longleftrightarrow> (\<exists>s \<in> set (sessions d). session_token_hash s = h \<and> session_user_id s = uid)"

lemma load_session_owned: "load_session h d = Some r \<Longrightarrow> owned_by h (record_user_id r) d"
  using load_session_Some by (fastforce simp: owned_by_def session_record_of_def)

lemma touch_rows_owned: "owned_by h uid (touch_rows k now stale expired d) \<Longrightarrow> owned_by h uid d"
  by (auto simp: owned_by_def touch_rows_def update_where_def split: if_split_asm)

lemma first_row_Some: "first_row rs = Some r \<Longrightarrow> r \<in> set rs"
  by (cases rs) (simp_all add: first_row_def)

lemma postgres_touch_owned:
  assumes "postgres_touch h now stale expired d = (Inr (Some r), d')"
  shows "owned_by h (record_user_id r) d"
proof -
  let ?updated = "map (\<lambda>s. s\<lparr>session_last_used_at := now\<rparr>) (filter (touch_matches h stale expired) (sessions d))"
  have "first_row (concat (map (join_user d) ?updated)) = Some r"
    using assms by (simp only: postgres_touch_def Let_def prod.inject sum.inject)
  then have "r \<in> set (concat (map (join_user d) ?updated))" by (rule first_row_Some)
  then show ?thesis
    by (auto simp: owned_by_def join_user_def session_record_of_def touch_matches_def)
qed

lemma touch_and_load_owned:
  assumes "touch_and_load db b h now c = (Inr (Some (r, touched)), c')"
  shows "owned_by h (record_user_id r) (working c)"
proof (cases db)
  case Sqlite
  with assms show ?thesis
    by (auto simp: touch_and_load_def sqlite_touch_and_load_def tx_simps Let_def
        eq_commute [of "Some _" "map_option _ _"]
        dest!: load_session_owned touch_rows_owned split: if_split_asm)
next
  case Postgres
  with assms show ?thesis
    by (auto simp: touch_and_load_def postgres_touch_and_load_def tx_simps Let_def
        eq_commute [of "Some _" "map_option _ _"] dest: load_session_owned postgres_touch_owned split: if_split_asm)
qed

lemma authenticate_owned:
  assumes "authenticate db b hash raw now c = (Inr a, c')"
  shows "\<exists>h. hash raw = Some h \<and> owned_by h (record_user_id (auth_record a)) (working c)"
  using assms unfolding authenticate_def
  by (clarsimp simp: tx_simps) (metis touch_and_load_owned)



lemma touch_rows_forward:
  assumes "stale \<le> now"
  shows "touch_rows h now stale expired d = d\<lparr>sessions := sessions (touch_rows h now stale expired d)\<rparr>"
    and "list_all2 (\<lambda>s s'. session_last_used_at s \<le> session_last_used_at s' \<and>
      s' = s\<lparr>session_last_used_at := session_last_used_at s'\<rparr>)
      (sessions d) (sessions (touch_rows h now stale expired d))"
  using assms
  by (auto simp: touch_rows_def update_where_def touch_matches_def list_all2_conv_all_nth)

definition sessions_forward :: "database \<Rightarrow> database \<Rightarrow> bool" where
  "sessions_forward d d' \<longleftrightarrow> d' = d\<lparr>sessions := sessions d'\<rparr> \<and>
     list_all2 (\<lambda>s s'. session_last_used_at s \<le> session_last_used_at s' \<and>
       s' = s\<lparr>session_last_used_at := session_last_used_at s'\<rparr>) (sessions d) (sessions d')"

lemma sessions_forward_refl: "sessions_forward d d"
  by (simp add: sessions_forward_def list_all2_conv_all_nth)

lemma sessions_forward_touch: "stale \<le> now \<Longrightarrow> sessions_forward d (touch_rows h now stale expired d)"
  using touch_rows_forward by (simp add: sessions_forward_def)

lemma working_bind:
  "(\<And>r c1. m c = (r, c1) \<Longrightarrow> P (working c1)) \<Longrightarrow>
   (\<And>a c1. m c = (Inr a, c1) \<Longrightarrow> P (working (snd (k a c1)))) \<Longrightarrow>
   P (working (snd (tx_bind m k c)))"
  by (cases "m c"; cases "fst (m c)") (auto simp: tx_bind_def)

lemma touch_and_load_forward:
  assumes "session_touch_cutoff b now \<le> now"
  shows "sessions_forward (working c) (working (snd (touch_and_load db b h now c)))"
  using sessions_forward_touch [OF assms] sessions_forward_refl
  by (cases db)
    (auto simp: touch_and_load_def sqlite_touch_and_load_def postgres_touch_and_load_def
      postgres_touch_def tx_bind_def tx_return_def statement_def write_connection_def Let_def
      split: option.split prod.split sum.split)

text \<open>
  Activity never moves back. Whatever an authentication answers and wherever it fails, it
  changes at most the instants of last use, and each of them only forwards, even when the clock
  went backwards.
\<close>

theorem authenticate_activity_forward:
  assumes "ts_min b \<le> now"
  shows "sessions_forward (working c) (working (snd (authenticate db b hash raw now c)))"
proof (cases "hash raw")
  case None
  then show ?thesis by (simp add: authenticate_def tx_throw_def sessions_forward_refl)
next
  case (Some h)
  have "session_touch_cutoff b now \<le> now"
    using assms by (simp add: session_touch_cutoff_def saturating_sub_def)
  from touch_and_load_forward [OF this, of c db h] Some show ?thesis
    by (auto simp: authenticate_def tx_bind_def tx_map_err_def tx_throw_def tx_return_def
        split: option.split prod.split sum.split)
qed

theorem authenticate_activity_forward_witness:
  "sessions_forward (working (example_sessions_connection Sqlite))
     (working (snd (authenticate Sqlite example_range Some [7] (- 5) (example_sessions_connection Sqlite))))"
  by (rule authenticate_activity_forward) (simp add: example_range_def)

text \<open>
  Retention of sessions is exact. On a healthy pool exactly the browser sessions idle for 30
  days are deleted; whatever fails, no machine or legacy session and no session used since is.
\<close>

theorem prune_sessions_exact:
  assumes "distinct (map session_token_hash (sessions db))"
  shows "(True \<notin> set fs \<longrightarrow> prune_expired_browser_sessions b now fs db =
      (Inr (count_where (browser_expired (saturating_sub b now (seconds 2592000))) (sessions db)),
       delete_sessions (browser_expired (saturating_sub b now (seconds 2592000))) db)) \<and>
    {s \<in> set (sessions db). session_row.session_kind s \<noteq> Browser \<or>
        saturating_sub b now (seconds 2592000) < session_last_used_at s}
      \<subseteq> set (sessions (snd (prune_expired_browser_sessions b now fs db)))"
proof (intro conjI impI)
  show "{s \<in> set (sessions db). session_row.session_kind s \<noteq> Browser \<or>
        saturating_sub b now (seconds 2592000) < session_last_used_at s}
      \<subseteq> set (sessions (snd (prune_expired_browser_sessions b now fs db)))"
    using drain_keeps [OF assms, where ord = session_token_hash and p = "browser_expired (session_idle_cutoff b now)"]
    by (auto simp: prune_expired_browser_sessions_def case_prod_beta browser_expired_def
        session_idle_cutoff_def)
qed (simp add: prune_expired_browser_sessions_def drain_complete [OF assms] session_idle_cutoff_def
  delete_sessions_def)

theorem prune_sessions_exact_witness:
  "sessions (snd (prune_expired_browser_sessions example_range (seconds 2592000) []
     (working (example_sessions_connection Sqlite)))) = [example_session [8] Machine 0]"
proof -
  have "distinct (map session_token_hash (sessions (working (example_sessions_connection Sqlite))))"
    by (simp add: example_sessions_connection_def example_session_def)
  from prune_sessions_exact [OF this, of "[]" example_range "seconds 2592000"] show ?thesis
    by (simp add: example_sessions_connection_def example_session_def delete_where_def
        browser_expired_def saturating_sub_def example_range_def)
qed

end
