(* ===== verification/Accounts.thy ===== *)
theory Accounts
  imports Sessions
begin

section \<open>Accounts\<close>

text \<open>
  \<^verbatim>\<open>storage/src/users.rs\<close> and the account flows that span several stores in
  \<^verbatim>\<open>storage/src/account_mutations.rs\<close>. Argon2 is third-party: hashing a password is the
  parameter \<open>prepared\<close>, its result or its I/O failure, and verification the parameter
  \<open>verify\<close>. The generated passkey user handle is an argument. The next user id is the one the
  database assigns; a sequence may skip ids, which no operation observes.
\<close>

record user_record =
  ur_user_id :: int
  ur_username :: ustr
  ur_display_name :: "ustr option"
  ur_bio :: "ustr option"
  ur_created_at :: instant
  ur_last_authenticated_at :: "instant option"
  ur_email :: "ustr option"
  ur_email_verified :: bool
  ur_is_operator :: bool

definition user_record_of :: "user_row \<Rightarrow> user_record" where
  "user_record_of u = \<lparr>ur_user_id = user_id u, ur_username = user_username u,
     ur_display_name = user_display_name u, ur_bio = user_bio u, ur_created_at = user_created_at u,
     ur_last_authenticated_at = user_last_authenticated_at u, ur_email = user_email u,
     ur_email_verified = user_email_verified u, ur_is_operator = user_is_operator u\<rparr>"

datatype create_user_error = UsernameTaken | CreateUser_Internal sql_error

datatype user_auth_error = InvalidCredentials | UserAuth_Internal "sql_error"

subsection \<open>The user store\<close>

definition insert_user :: "ustr \<Rightarrow> ustr \<Rightarrow> ustr option \<Rightarrow> instant \<Rightarrow> bool \<Rightarrow> database \<Rightarrow>
    (sql_error + int) \<times> database" where
  "insert_user username password_hash display_name now is_operator d =
     (if \<exists>u \<in> set (users d). user_username u = username then (Inl UniqueViolation, d)
      else (Inr (next_user_id d), d\<lparr>
        users := users d @ [\<lparr>user_id = next_user_id d, user_username = username,
          user_password_hash = password_hash, user_display_name = display_name, user_bio = None,
          user_created_at = now, user_last_authenticated_at = None, user_email = None,
          user_email_verified = False, user_is_operator = is_operator\<rparr>],
        next_user_id := next_user_id d + 1\<rparr>))"

definition insert_passkey_user_handle :: "int \<Rightarrow> ustr \<Rightarrow> database \<Rightarrow> (sql_error + unit) \<times> database" where
  "insert_passkey_user_handle uid handle d =
     (if \<exists>(u, h) \<in> set (passkey_user_handles d). u = uid \<or> h = handle then (Inl UniqueViolation, d)
      else if \<not> user_exists uid d then (Inl ForeignKeyViolation, d)
      else (Inr (), d\<lparr>passkey_user_handles := passkey_user_handles d @ [(uid, handle)]\<rparr>))"

definition create_user_sql_error :: "sql_error \<Rightarrow> create_user_error" where
  "create_user_sql_error e = (if e = UniqueViolation then UsernameTaken else CreateUser_Internal e)"

definition create_user :: "backend \<Rightarrow> instant \<Rightarrow> ustr \<Rightarrow> ustr \<Rightarrow> ustr \<Rightarrow> ustr option \<Rightarrow> bool \<Rightarrow>
    (database, create_user_error, int) tx" where
  "create_user db now handle username password_hash display_name is_operator =
     tx_bind (tx_map_err CreateUser_Internal (write_connection db)) (\<lambda>_.
     tx_bind (tx_map_err create_user_sql_error
       (statement (insert_user username password_hash display_name now is_operator))) (\<lambda>uid.
     tx_bind (tx_map_err CreateUser_Internal
       (statement (insert_passkey_user_handle uid handle))) (\<lambda>_.
     tx_return uid)))"

text \<open>
  The lookup by username on the pool, then one verification; an unknown user costs a dummy
  verification whose result is discarded.
\<close>

definition prepare_authentication :: "(ustr \<Rightarrow> ustr \<Rightarrow> unit + bool) \<Rightarrow> ustr \<Rightarrow> ustr \<Rightarrow>
    (database, user_auth_error, user_record) tx" where
  "prepare_authentication verify username password =
     tx_bind (tx_map_err UserAuth_Internal
       (pool_query (\<lambda>d. find (\<lambda>u. user_username u = username) (users d)))) (\<lambda>row.
     case row of
       None \<Rightarrow> tx_throw InvalidCredentials
     | Some u \<Rightarrow>
         (case verify password (user_password_hash u) of
            Inl _ \<Rightarrow> tx_throw (UserAuth_Internal IoError)
          | Inr valid \<Rightarrow>
              if \<not> valid then tx_throw InvalidCredentials
              else tx_return ((user_record_of u)\<lparr>ur_last_authenticated_at := None\<rparr>)))"

definition authenticate_user :: "backend \<Rightarrow> instant \<Rightarrow> user_record \<Rightarrow>
    (database, user_auth_error, user_record) tx" where
  "authenticate_user db now authentication =
     tx_bind (tx_map_err UserAuth_Internal (write_connection db)) (\<lambda>_.
     tx_bind (tx_map_err UserAuth_Internal (execute (\<lambda>d. d\<lparr>users :=
       update_where (\<lambda>u. user_id u = ur_user_id authentication)
         (\<lambda>u. u\<lparr>user_last_authenticated_at := Some now\<rparr>) (users d)\<rparr>))) (\<lambda>_.
     tx_return (authentication\<lparr>ur_last_authenticated_at := Some now\<rparr>)))"

definition get_user :: "int \<Rightarrow> (database, sql_error, user_record option) tx" where
  "get_user uid = pool_query (\<lambda>d. map_option user_record_of (find (\<lambda>u. user_id u = uid) (users d)))"

definition get_user_for_update :: "backend \<Rightarrow> int \<Rightarrow> (database, sql_error, user_record option) tx" where
  "get_user_for_update db uid =
     tx_bind (write_connection db) (\<lambda>_.
     query (\<lambda>d. map_option user_record_of (find (\<lambda>u. user_id u = uid) (users d))))"

definition get_user_by_username :: "ustr \<Rightarrow> (database, sql_error, user_record option) tx" where
  "get_user_by_username username =
     pool_query (\<lambda>d. map_option user_record_of (find (\<lambda>u. user_username u = username) (users d)))"

definition get_users_by_email :: "ustr \<Rightarrow> (database, sql_error, user_record list) tx" where
  "get_users_by_email email =
     pool_query (\<lambda>d. map user_record_of (filter (\<lambda>u. user_email u = Some email) (users d)))"

definition update_user :: "backend \<Rightarrow> int \<Rightarrow> (user_row \<Rightarrow> user_row) \<Rightarrow> (database, sql_error, unit) tx" where
  "update_user db uid f =
     tx_bind (write_connection db) (\<lambda>_.
     execute (\<lambda>d. d\<lparr>users := update_where (\<lambda>u. user_id u = uid) f (users d)\<rparr>))"

definition update_profile :: "backend \<Rightarrow> int \<Rightarrow> ustr option \<Rightarrow> ustr option \<Rightarrow>
    (database, sql_error, unit) tx" where
  "update_profile db uid display_name bio =
     update_user db uid (\<lambda>u. u\<lparr>user_display_name := display_name, user_bio := bio\<rparr>)"

definition set_email :: "backend \<Rightarrow> int \<Rightarrow> ustr option \<Rightarrow> bool \<Rightarrow> (database, sql_error, unit) tx" where
  "set_email db uid email verified =
     update_user db uid (\<lambda>u. u\<lparr>user_email := email, user_email_verified := verified\<rparr>)"

definition set_password :: "backend \<Rightarrow> int \<Rightarrow> ustr \<Rightarrow> (database, sql_error, unit) tx" where
  "set_password db uid password_hash =
     update_user db uid (\<lambda>u. u\<lparr>user_password_hash := password_hash\<rparr>)"

subsection \<open>Registration with an invite\<close>

datatype register_error =
    Register_InviteNotFound
  | Register_InviteExpired
  | Register_InviteAlreadyUsed
  | Register_UsernameTaken
  | Register_Internal sql_error

fun register_of_invite :: "use_invite_error \<Rightarrow> register_error" where
  "register_of_invite Invite_NotFound = Register_InviteNotFound"
| "register_of_invite Invite_Expired = Register_InviteExpired"
| "register_of_invite Invite_AlreadyUsed = Register_InviteAlreadyUsed"
| "register_of_invite (Invite_Internal e) = Register_Internal e"

fun register_of_create :: "create_user_error \<Rightarrow> register_error" where
  "register_of_create UsernameTaken = Register_UsernameTaken"
| "register_of_create (CreateUser_Internal e) = Register_Internal e"

text \<open>The request, the clock readings of its three steps and what its environment answers.\<close>

record register_input =
  reg_username :: ustr
  reg_display_name :: "ustr option"
  reg_is_operator :: bool
  reg_invite_code :: ustr
  reg_prepared :: "unit + ustr"
  reg_handle :: ustr
  reg_precheck_now :: instant
  reg_create_now :: instant
  reg_claim_now :: instant

definition register_with_invite :: "backend \<Rightarrow> register_input \<Rightarrow> (database, register_error, int) tx" where
  "register_with_invite db input =
     tx_bind (tx_map_err register_of_invite
       (precheck_invite (reg_invite_code input) (reg_precheck_now input))) (\<lambda>_.
     case reg_prepared input of
       Inl _ \<Rightarrow> tx_throw (Register_Internal IoError)
     | Inr password_hash \<Rightarrow>
         tx_bind (tx_map_err register_of_create
           (create_user db (reg_create_now input) (reg_handle input) (reg_username input)
              password_hash (reg_display_name input) (reg_is_operator input))) (\<lambda>uid.
         tx_bind (tx_map_err register_of_invite
           (claim_invite db (reg_claim_now input) (reg_invite_code input) uid)) (\<lambda>_.
         tx_return uid)))"

subsection \<open>Confirming a password reset\<close>

datatype confirm_reset_error =
    ConfirmReset_NotFound
  | ConfirmReset_Expired
  | ConfirmReset_AlreadyUsed
  | ConfirmReset_Internal sql_error

fun confirm_of_use :: "use_password_reset_error \<Rightarrow> confirm_reset_error" where
  "confirm_of_use Reset_NotFound = ConfirmReset_NotFound"
| "confirm_of_use Reset_Expired = ConfirmReset_Expired"
| "confirm_of_use Reset_AlreadyUsed = ConfirmReset_AlreadyUsed"
| "confirm_of_use (Reset_Internal e) = ConfirmReset_Internal e"

definition confirm_password_reset :: "backend \<Rightarrow> (ustr \<Rightarrow> ustr option) \<Rightarrow> instant \<Rightarrow> ustr \<Rightarrow>
    (unit + ustr) \<Rightarrow> (database, confirm_reset_error, int) tx" where
  "confirm_password_reset db hash now raw_token prepared =
     tx_bind (tx_map_err confirm_of_use (use_password_reset db hash now raw_token)) (\<lambda>uid.
     case prepared of
       Inl _ \<Rightarrow> tx_throw (ConfirmReset_Internal IoError)
     | Inr password_hash \<Rightarrow>
         tx_bind (tx_map_err ConfirmReset_Internal (set_password db uid password_hash)) (\<lambda>_.
         tx_bind (tx_map_err ConfirmReset_Internal (revoke_all_for_user db uid)) (\<lambda>_.
         tx_return uid)))"

subsection \<open>What the flows do when they succeed\<close>

definition registered :: "register_input \<Rightarrow> ustr \<Rightarrow> database \<Rightarrow> database" where
  "registered i password_hash d = d\<lparr>
     users := users d @ [\<lparr>user_id = next_user_id d, user_username = reg_username i,
       user_password_hash = password_hash, user_display_name = reg_display_name i, user_bio = None,
       user_created_at = reg_create_now i, user_last_authenticated_at = None, user_email = None,
       user_email_verified = False, user_is_operator = reg_is_operator i\<rparr>],
     next_user_id := next_user_id d + 1,
     passkey_user_handles := passkey_user_handles d @ [(next_user_id d, reg_handle i)],
     invites := update_where (invite_claimable (reg_invite_code i) (reg_claim_now i))
       (\<lambda>r. r\<lparr>invite_used_at := Some (reg_claim_now i), invite_used_by := Some (next_user_id d)\<rparr>)
       (invites d)\<rparr>"

lemma insert_user_ok:
  "insert_user n ph dn now op d = (Inr uid, d') \<longleftrightarrow>
     (\<forall>u \<in> set (users d). user_username u \<noteq> n) \<and> uid = next_user_id d \<and>
     d' = snd (insert_user n ph dn now op d)"
  by (auto simp: insert_user_def)

lemma insert_passkey_user_handle_ok:
  "insert_passkey_user_handle uid h d = (Inr u, d') \<Longrightarrow>
     d' = d\<lparr>passkey_user_handles := passkey_user_handles d @ [(uid, h)]\<rparr>"
  by (auto simp: insert_passkey_user_handle_def split: if_split_asm)

lemma create_user_okD:
  assumes "create_user db now handle n ph dn op c = (Inr uid, c')"
  shows "(\<forall>u \<in> set (users (working c)). user_username u \<noteq> n) \<and> uid = next_user_id (working c) \<and>
    working c' = (snd (insert_user n ph dn now op (working c)))
      \<lparr>passkey_user_handles := passkey_user_handles (working c) @ [(uid, handle)]\<rparr>"
proof -
  from assms obtain d1 where d1: "insert_user n ph dn now op (working c) = (Inr uid, d1)"
    and h: "insert_passkey_user_handle uid handle d1 = (Inr (), working c')"
    unfolding create_user_def by (clarsimp simp: tx_simps)
  note free = d1 [unfolded insert_user_ok]
  then have "passkey_user_handles d1 = passkey_user_handles (working c)"
    by (auto simp: insert_user_def)
  with free insert_passkey_user_handle_ok [OF h] show ?thesis by simp
qed

lemma register_with_invite_okD:
  assumes "register_with_invite db i c = (Inr uid, c')"
  shows "uid = next_user_id (working c) \<and>
    (\<forall>u \<in> set (users (working c)). user_username u \<noteq> reg_username i) \<and>
    filter (invite_claimable (reg_invite_code i) (reg_claim_now i)) (invites (working c)) \<noteq> [] \<and>
    (\<exists>ph. reg_prepared i = Inr ph \<and> working c' = registered i ph (working c))"
proof -
  from assms obtain ph c2 where ph: "reg_prepared i = Inr ph"
    and cr: "create_user db (reg_create_now i) (reg_handle i) (reg_username i) ph
      (reg_display_name i) (reg_is_operator i) (spend_fault c) = (Inr uid, c2)"
    and cl: "claim_invite db (reg_claim_now i) (reg_invite_code i) uid c2 = (Inr (), c')"
    unfolding register_with_invite_def precheck_invite_def by (clarsimp simp: tx_simps)
  note created = create_user_okD [OF cr, unfolded spend_fault_sel]
  have "invites (working c2) = invites (working c)"
    using created by (simp add: insert_user_def)
  moreover obtain s where
    "invite_claim_update (reg_invite_code i) (reg_claim_now i) uid (working c2) = (Inr (Some s), working c')"
    using claim_invite_okD [OF cl] by blast
  ultimately show ?thesis
    using created ph by (auto simp: invite_claim_update_Some registered_def insert_user_def)
qed

text \<open>
  C5: registration with an invite is all or nothing. Wherever the driver, the commit, the password
  hashing, a taken username or the invite fails, the database is unchanged; otherwise it has
  gained exactly one user, of a username that was free, with its passkey handle, and the invite,
  still claimable, is marked as used by that very user.
\<close>

theorem register_all_or_nothing:
  "case run b env (register_with_invite b i) db of
     (Inl e, db') \<Rightarrow> db' = db
   | (Inr outcome, db') \<Rightarrow>
       outcome_value outcome = next_user_id db \<and>
       reg_username i \<notin> user_username ` set (users db) \<and>
       filter (invite_claimable (reg_invite_code i) (reg_claim_now i)) (invites db) \<noteq> [] \<and>
       (\<exists>ph. reg_prepared i = Inr ph \<and>
          (db' = registered i ph db \<or> (outcome = CommitIndeterminate (next_user_id db) \<and> db' = db)))"
proof -
  obtain r db' where r: "run b env (register_with_invite b i) db = (r, db')" by fastforce
  from run_result [OF r] show ?thesis
  proof (elim disjE exE conjE)
    fix v c
    assume "register_with_invite b i (open_connection b env db) = (Inr v, c)"
    from register_with_invite_okD [OF this]
    have ok: "v = next_user_id db" "reg_username i \<notin> user_username ` set (users db)"
      "filter (invite_claimable (reg_invite_code i) (reg_claim_now i)) (invites db) \<noteq> []"
      "\<exists>ph. reg_prepared i = Inr ph \<and> working c = registered i ph db"
      by auto
    {
      assume "r = Inr (Confirmed v)" "db' = working c"
      with ok r show ?thesis by auto
    next
      assume "r = Inr (CommitIndeterminate v)" "db' = db"
      with ok r show ?thesis by auto
    next
      assume "r = Inr (CommitIndeterminate v)" "db' = working c"
      with ok r show ?thesis by auto
    }
  qed (simp add: r)
qed

interpretation register_claims: single_use
  "register_with_invite db" "\<lambda>d. distinct (map invite_code (invites d))"
  "\<lambda>i. Some (reg_invite_code i)" invite_unused
proof unfold_locales
  fix c c' :: "database connection" and i k and a :: int
  assume wf: "distinct (map invite_code (invites (working c)))"
    and ok: "register_with_invite db i c = (Inr a, c')"
  note reg = register_with_invite_okD [OF ok]
  then have rows: "invites (working c') =
      update_where (invite_claimable (reg_invite_code i) (reg_claim_now i))
        (\<lambda>r. r\<lparr>invite_used_at := Some (reg_claim_now i), invite_used_by := Some a\<rparr>) (invites (working c))"
    by (auto simp: registered_def)
  obtain r rest where
    r: "filter (invite_claimable (reg_invite_code i) (reg_claim_now i)) (invites (working c)) = r # rest"
    using reg by (auto simp: neq_Nil_conv)
  show "distinct (map invite_code (invites (working c')))"
    using wf by (simp add: rows map_update_where)
  show "\<not> invite_unused k (working c')" if "\<not> invite_unused k (working c)"
    using that by (auto simp: rows invite_unused_def update_where_def)
  assume k: "Some (reg_invite_code i) = Some k"
  show "invite_unused k (working c)"
    using filter_Cons_memD [OF r] k by (auto simp: invite_unused_def invite_claimable_def)
  show "\<not> invite_unused k (working c')"
  proof -
    have key: "invite_code x = k" if "invite_claimable (reg_invite_code i) (reg_claim_now i) x" for x
      using that k by (simp add: invite_claimable_def)
    have "invite_used_at x = Some (reg_claim_now i)"
      if "x \<in> set (invites (working c'))" "invite_code x = k" for x
      using update_where_only_row [OF wf r key that(1) [unfolded rows] _ that(2)] by simp
    then show ?thesis by (fastforce simp: invite_unused_def)
  qed
qed

text \<open>
  one invite registers at most one account, however many registrations race for it one after
  the other and whatever fails in between.
\<close>

theorem one_registration_per_invite:
  assumes "distinct (map invite_code (invites db))"
  shows "confirmed_count (\<lambda>(env, i). reg_invite_code i = code) inputs
    (fst (run_all b (map (\<lambda>(env, i). (env, register_with_invite b i)) inputs) db)) \<le> 1"
  using register_claims.confirmed_at_most_once [of db code inputs b b] assms by simp

definition example_register :: "ustr \<Rightarrow> ustr \<Rightarrow> register_input" where
  "example_register name handle = \<lparr>reg_username = name, reg_display_name = None,
     reg_is_operator = False, reg_invite_code = [7], reg_prepared = Inr [1], reg_handle = handle,
     reg_precheck_now = 5, reg_create_now = 6, reg_claim_now = 7\<rparr>"

theorem one_registration_per_invite_witness:
  "let db = empty_database\<lparr>invites := [example_invite]\<rparr>;
       inputs = [(clean_env, example_register [97] [1]), (clean_env, example_register [98] [2])];
       results = fst (run_all Sqlite
         (map (\<lambda>(env, i). (env, register_with_invite Sqlite i)) inputs) db)
   in results = [Inr (Confirmed 1), Inl (Operation Register_InviteAlreadyUsed)] \<and>
      confirmed_count (\<lambda>(env, i). reg_invite_code i = [7]) inputs results \<le> 1"
  unfolding Let_def
proof (rule conjI)
  let ?db = "empty_database\<lparr>invites := [example_invite]\<rparr>"
  show "fst (run_all Sqlite (map (\<lambda>(env, i). (env, register_with_invite Sqlite i))
      [(clean_env, example_register [97] [1]), (clean_env, example_register [98] [2])]) ?db) =
      [Inr (Confirmed 1), Inl (Operation Register_InviteAlreadyUsed)]"
    by (simp add: claim_eval register_with_invite_def precheck_invite_def create_user_def
        insert_user_def insert_passkey_user_handle_def claim_invite_def invite_claim_update_def
        invite_claimable_def invite_state_def example_invite_def example_register_def)
qed (rule one_registration_per_invite, simp add: empty_database_def)

definition reset_confirmed :: "ustr \<Rightarrow> instant \<Rightarrow> int \<Rightarrow> ustr \<Rightarrow> database \<Rightarrow> database" where
  "reset_confirmed h now uid password_hash d = delete_sessions (\<lambda>s. session_user_id s = uid) (d\<lparr>
     password_resets := update_where (reset_claimable h now)
       (\<lambda>r. r\<lparr>reset_used_at := Some now\<rparr>) (password_resets d),
     users := update_where (\<lambda>u. user_id u = uid)
       (\<lambda>u. u\<lparr>user_password_hash := password_hash\<rparr>) (users d)\<rparr>)"

lemma confirm_password_reset_okD:
  assumes "confirm_password_reset db hash now raw prepared c = (Inr uid, c')"
  shows "\<exists>h ph. hash raw = Some h \<and> prepared = Inr ph \<and>
    uid \<in> reset_user_id ` {r \<in> set (password_resets (working c)). reset_claimable h now r} \<and>
    working c' = reset_confirmed h now uid ph (working c)"
proof -
  from assms obtain ph c1 where ph: "prepared = Inr ph"
    and u: "use_password_reset db hash now raw c = (Inr uid, c1)"
    and w: "working c' = delete_sessions (\<lambda>s. session_user_id s = uid)
       ((working c1)\<lparr>users := update_where (\<lambda>u. user_id u = uid)
       (\<lambda>u. u\<lparr>user_password_hash := ph\<rparr>) (users (working c1))\<rparr>)"
    unfolding confirm_password_reset_def set_password_def update_user_def revoke_all_for_user_def
    by (clarsimp simp: tx_simps)
  obtain h where h: "hash raw = Some h"
    "reset_claim_update h now (working c) = (Inr (Some uid), working c1)"
    using use_password_reset_okD [OF u] by blast
  obtain r rest where r: "filter (reset_claimable h now) (password_resets (working c)) = r # rest"
    "uid = reset_user_id r"
    using h(2) [unfolded reset_claim_update_Some] by blast
  have "working c' = reset_confirmed h now uid ph (working c)"
    using h(2) [unfolded reset_claim_update_Some] w by (simp add: reset_confirmed_def)
  with ph h(1) r(2) filter_Cons_memD [OF r(1)] show ?thesis by blast
qed

text \<open>
  C6: a password reset is all or nothing. If any step fails the token, the password and the
  sessions are as they were; otherwise the token, still claimable, is used, the password of the
  user it names is replaced, every session of that user is gone, and nothing else has changed.
\<close>

theorem confirm_reset_all_or_nothing:
  "case run b env (confirm_password_reset b hash now raw prepared) db of
     (Inl e, db') \<Rightarrow> db' = db
   | (Inr outcome, db') \<Rightarrow>
       (\<exists>h ph. hash raw = Some h \<and> prepared = Inr ph \<and>
          outcome_value outcome \<in>
            reset_user_id ` {r \<in> set (password_resets db). reset_claimable h now r} \<and>
          (db' = reset_confirmed h now (outcome_value outcome) ph db \<or>
           (outcome = CommitIndeterminate (outcome_value outcome) \<and> db' = db)))"
proof -
  obtain r db' where r: "run b env (confirm_password_reset b hash now raw prepared) db = (r, db')"
    by fastforce
  from run_result [OF r] show ?thesis
  proof (elim disjE exE conjE)
    fix v c
    assume "confirm_password_reset b hash now raw prepared (open_connection b env db) = (Inr v, c)"
    from confirm_password_reset_okD [OF this]
    have ok: "\<exists>h ph. hash raw = Some h \<and> prepared = Inr ph \<and>
        v \<in> reset_user_id ` {r \<in> set (password_resets db). reset_claimable h now r} \<and>
        working c = reset_confirmed h now v ph db"
      by simp
    {
      assume "r = Inr (Confirmed v)" "db' = working c"
      with ok r show ?thesis by (simp; blast)
    next
      assume "r = Inr (CommitIndeterminate v)" "db' = db"
      with ok r show ?thesis by (simp; blast)
    next
      assume "r = Inr (CommitIndeterminate v)" "db' = working c"
      with ok r show ?thesis by (simp; blast)
    }
  qed (simp add: r)
qed

end
