(* ===== verification/Feed_Paths.thy ===== *)
theory Feed_Paths
  imports Text_Values
begin

section \<open>Tags and feed paths\<close>

text \<open>
  \<^verbatim>\<open>common/src/tag.rs\<close>, \<^verbatim>\<open>common/src/feed/grammar.rs\<close> and
  \<^verbatim>\<open>host/src/feed/feed_path.rs\<close>. A tag is identified by its lower-case slug and shown
  by its label; a feed path is the canonical spelling of a surface and a format, and the key of
  the feed tables. A value of a validated type is its inner string, so a surface as the code can
  hold it satisfies \<open>surface_ok\<close>.
\<close>

subsection \<open>Tags\<close>

text \<open>
  \<^verbatim>\<open>str::to_lowercase\<close> as far as a tag can observe it: the ASCII letters, the Kelvin sign
  (the only other scalar whose lower case is ASCII) and the dotted capital I (the only scalar with
  a lower case of two scalars, the first of them ASCII). Every other non-ASCII scalar has a
  non-ASCII lower case, which the tag grammar refuses whatever it is; it is left as it is.
\<close>

definition lower_scalar :: "nat \<Rightarrow> ustr" where
  "lower_scalar c =
     (if is_ascii_upper c then [c + 32]
      else if c = 0x212A then [107]
      else if c = 0x130 then [105, 0x307]
      else [c])"

definition to_lowercase :: "ustr \<Rightarrow> ustr" where
  "to_lowercase s = concat (map lower_scalar s)"

definition is_tag_first :: "nat \<Rightarrow> bool" where
  "is_tag_first c \<longleftrightarrow> is_ascii_lower c \<or> is_ascii_digit c"

definition is_tag_rest :: "nat \<Rightarrow> bool" where
  "is_tag_rest c \<longleftrightarrow> is_ascii_lower c \<or> is_ascii_digit c \<or> c = 45"

definition parse_tag :: "ustr \<Rightarrow> ustr option" where
  "parse_tag s =
     (if s = [] then None
      else case to_lowercase s of
             [] \<Rightarrow> None
           | first # rest \<Rightarrow>
               if \<not> is_tag_first first then None
               else if \<not> list_all is_tag_rest rest then None
               else Some (first # rest))"

definition parse_tag_label :: "ustr \<Rightarrow> ustr option" where
  "parse_tag_label s =
     (let t = trim s in case parse_tag t of None \<Rightarrow> None | Some _ \<Rightarrow> Some t)"

definition label_slug :: "ustr \<Rightarrow> ustr" where
  "label_slug l = to_lowercase l"

definition is_ascii :: "ustr \<Rightarrow> bool" where
  "is_ascii s = list_all (\<lambda>c. c < 128) s"

definition is_ascii_punctuation :: "nat \<Rightarrow> bool" where
  "is_ascii_punctuation c \<longleftrightarrow> (33 \<le> c \<and> c \<le> 47) \<or> (58 \<le> c \<and> c \<le> 64) \<or> (91 \<le> c \<and> c \<le> 96) \<or>
     (123 \<le> c \<and> c \<le> 126)"

definition is_ascii_whitespace :: "nat \<Rightarrow> bool" where
  "is_ascii_whitespace c \<longleftrightarrow> c = 9 \<or> c = 10 \<or> c = 12 \<or> c = 13 \<or> c = 32"

definition hyphenate :: "ustr \<Rightarrow> nat \<Rightarrow> ustr" where
  "hyphenate normalized c =
     (if is_ascii_punctuation c \<or> is_ascii_whitespace c
      then if normalized \<noteq> [] \<and> last normalized = 45 then normalized else normalized @ [45]
      else normalized @ [to_ascii_lower c])"

definition trim_hyphens :: "ustr \<Rightarrow> ustr" where
  "trim_hyphens s = rev (dropWhile (\<lambda>c. c = 45) (rev (dropWhile (\<lambda>c. c = 45) s)))"

definition normalize_keyword :: "ustr \<Rightarrow> ustr option" where
  "normalize_keyword term =
     (case (if is_ascii (trim term) then parse_tag_label term else None) of
        Some l \<Rightarrow> Some l
      | None \<Rightarrow>
          if \<not> is_ascii term then None
          else parse_tag_label (trim_hyphens (foldl hyphenate [] (trim term))))"

text \<open>The loop of \<^verbatim>\<open>parse_and_validate_tags\<close>, with the set of slugs seen so far.\<close>

fun dedup_labels :: "ustr list \<Rightarrow> ustr list \<Rightarrow> ustr list" where
  "dedup_labels seen [] = []"
| "dedup_labels seen (l # ls) =
     (if label_slug l \<in> set seen then dedup_labels seen ls
      else l # dedup_labels (label_slug l # seen) ls)"

definition parse_and_validate_tags :: "ustr list \<Rightarrow> (nat \<times> nat) + ustr list" where
  "parse_and_validate_tags raw =
     (let out = dedup_labels [] raw
      in if length out > 256 then Inl (length out, 256) else Inr out)"

subsection \<open>The feed grammar\<close>

datatype feed_format = Rss | Atom | Json

datatype feed_surface = Site | SiteTag ustr | User ustr | UserTag ustr ustr

fun feed_ext :: "feed_format \<Rightarrow> ustr" where
  "feed_ext Rss = lit ''rss''"
| "feed_ext Atom = lit ''atom''"
| "feed_ext Json = lit ''json''"

definition parse_feed_format :: "ustr \<Rightarrow> feed_format option" where
  "parse_feed_format s =
     (if s = lit ''rss'' then Some Rss
      else if s = lit ''atom'' then Some Atom
      else if s = lit ''json'' then Some Json
      else None)"

fun feed_content_type :: "feed_format \<Rightarrow> ustr" where
  "feed_content_type Rss = lit ''application/rss+xml; charset=utf-8''"
| "feed_content_type Atom = lit ''application/atom+xml; charset=utf-8''"
| "feed_content_type Json = lit ''application/feed+json''"

fun discovery_path :: "feed_surface \<Rightarrow> ustr" where
  "discovery_path Site = lit ''/feeds''"
| "discovery_path (SiteTag tag) = lit ''/tags/'' @ tag @ lit ''/feeds''"
| "discovery_path (User u) = lit ''/~'' @ u @ lit ''/feeds''"
| "discovery_path (UserTag u tag) = lit ''/~'' @ u @ lit ''/tags/'' @ tag @ lit ''/feeds''"

fun canonicalize :: "feed_surface \<Rightarrow> feed_format \<Rightarrow> ustr" where
  "canonicalize Site f = lit ''/feed.'' @ feed_ext f"
| "canonicalize (SiteTag tag) f = lit ''/tags/'' @ tag @ lit ''/feed.'' @ feed_ext f"
| "canonicalize (User u) f = lit ''/~'' @ u @ lit ''/feed.'' @ feed_ext f"
| "canonicalize (UserTag u tag) f =
     lit ''/~'' @ u @ lit ''/tags/'' @ tag @ lit ''/feed.'' @ feed_ext f"

subsection \<open>Feed paths\<close>

definition parse_surface :: "ustr \<Rightarrow> feed_surface option" where
  "parse_surface part =
     (if part = [] then None
      else case strip_prefix (lit ''tags/'') part of
        Some tag \<Rightarrow> map_option SiteTag (parse_tag tag)
      | None \<Rightarrow>
          (case strip_prefix (lit ''~'') part of
             None \<Rightarrow> None
           | Some after_tilde \<Rightarrow>
               (case split_once (lit ''/tags/'') after_tilde of
                  Some (u, tag) \<Rightarrow>
                    Option.bind (parse_username u) (\<lambda>u. map_option (UserTag u) (parse_tag tag))
                | None \<Rightarrow> map_option User (parse_username after_tilde))))"

definition parse_feed_path :: "ustr \<Rightarrow> (feed_surface \<times> feed_format) option" where
  "parse_feed_path path =
     Option.bind (strip_prefix (lit ''/'') path) (\<lambda>rest.
     Option.bind (rsplit_once_char 46 rest) (\<lambda>(head, ext).
     Option.bind (parse_feed_format ext) (\<lambda>format.
       if head = lit ''feed'' then Some (Site, format)
       else Option.bind (strip_suffix (lit ''/feed'') head) (\<lambda>part.
         map_option (\<lambda>s. (s, format)) (parse_surface part)))))"

definition feed_path_from_str :: "ustr \<Rightarrow> ustr option" where
  "feed_path_from_str s = map_option (\<lambda>(surface, format). canonicalize surface format) (parse_feed_path s)"

definition affected_surfaces :: "ustr \<Rightarrow> ustr list \<Rightarrow> feed_surface list" where
  "affected_surfaces username tags =
     [Site, User username] @ concat (map (\<lambda>tag. [SiteTag tag, UserTag username tag]) tags)"

definition affected_feed_urls :: "ustr \<Rightarrow> ustr list \<Rightarrow> ustr list" where
  "affected_feed_urls username tags =
     concat (map (\<lambda>s. map (canonicalize s) [Rss, Atom, Json]) (affected_surfaces username tags))"

text \<open>The surfaces the code can hold: their segments went through their parsers.\<close>

definition tag_ok :: "ustr \<Rightarrow> bool" where
  "tag_ok t \<longleftrightarrow> t \<noteq> [] \<and> is_tag_first (hd t) \<and> list_all is_tag_rest t"

definition username_ok :: "ustr \<Rightarrow> bool" where
  "username_ok u \<longleftrightarrow> u \<noteq> [] \<and> list_all (\<lambda>c. is_token_char c \<and> \<not> is_ascii_upper c) u"

fun surface_ok :: "feed_surface \<Rightarrow> bool" where
  "surface_ok Site = True"
| "surface_ok (SiteTag tag) = tag_ok tag"
| "surface_ok (User u) = username_ok u"
| "surface_ok (UserTag u tag) = (username_ok u \<and> tag_ok tag)"

subsection \<open>Lemmas on tags and usernames\<close>

lemma to_lowercase_id: "list_all is_tag_rest t \<Longrightarrow> to_lowercase t = t"
  by (induction t) (auto simp: to_lowercase_def lower_scalar_def is_tag_rest_def ascii_defs)

lemma parse_tag_ok: "parse_tag s = Some t \<Longrightarrow> tag_ok t \<and> to_lowercase s = t"
proof -
  assume "parse_tag s = Some t"
  then obtain a cs where "to_lowercase s = a # cs" "is_tag_first a" "list_all is_tag_rest cs"
    "t = a # cs"
    unfolding parse_tag_def by (cases "to_lowercase s") (simp_all split: if_splits)
  then show ?thesis by (auto simp: tag_ok_def is_tag_first_def is_tag_rest_def)
qed

lemma parse_tag_id: "tag_ok t \<Longrightarrow> parse_tag t = Some t"
proof -
  assume ok: "tag_ok t"
  then obtain a cs where t: "t = a # cs" by (cases t) (auto simp: tag_ok_def)
  have "to_lowercase t = t" using ok by (intro to_lowercase_id) (simp add: tag_ok_def)
  then show ?thesis using ok unfolding parse_tag_def by (simp add: t tag_ok_def)
qed

lemma not_upper_to_ascii_lower [simp]: "\<not> is_ascii_upper (to_ascii_lower c)"
  by (auto simp: ascii_defs)

lemma parse_username_ok: "parse_username s = Some u \<Longrightarrow> username_ok u"
  by (auto simp: parse_username_def username_ok_def list_all_iff split: if_splits)

lemma parse_username_id: "username_ok u \<Longrightarrow> parse_username u = Some u"
  by (auto simp: parse_username_def username_ok_def list_all_iff to_ascii_lower_def intro: map_idI)

lemma tag_ok_chars: "tag_ok t \<Longrightarrow> c \<in> set t \<Longrightarrow> c \<noteq> 46 \<and> c \<noteq> 47 \<and> c \<noteq> 126"
  by (auto simp: tag_ok_def list_all_iff is_tag_rest_def ascii_defs)

lemma username_ok_chars: "username_ok u \<Longrightarrow> c \<in> set u \<Longrightarrow> c \<noteq> 46 \<and> c \<noteq> 47 \<and> c \<noteq> 126"
  by (auto simp: username_ok_def list_all_iff is_token_char_def ascii_defs)

interpretation tag: stable_parser parse_tag
  by unfold_locales (blast dest: parse_tag_ok intro: parse_tag_id)

interpretation tag_label: stable_parser parse_tag_label
  by unfold_locales (auto simp: parse_tag_label_def Let_def split: option.splits)

subsection \<open>Properties\<close>

lemma parse_surface_ok: "parse_surface part = Some s \<Longrightarrow> surface_ok s"
  by (auto simp: parse_surface_def dest!: parse_tag_ok parse_username_ok
      split: option.splits prod.splits if_splits bind_splits)

lemma parse_feed_path_ok: "parse_feed_path p = Some (s, f) \<Longrightarrow> surface_ok s"
  by (auto simp: parse_feed_path_def dest: parse_surface_ok split: bind_splits if_splits)

lemma parse_feed_format_ext [simp]: "parse_feed_format (feed_ext f) = Some f"
  by (cases f) (simp_all add: parse_feed_format_def)

lemma feed_ext_no_dot: "46 \<notin> set (feed_ext f)"
  by (cases f) auto

text \<open>The surface segment of a canonical path.\<close>

fun surface_part :: "feed_surface \<Rightarrow> ustr" where
  "surface_part Site = []"
| "surface_part (SiteTag tag) = lit ''tags/'' @ tag"
| "surface_part (User u) = lit ''~'' @ u"
| "surface_part (UserTag u tag) = lit ''~'' @ u @ lit ''/tags/'' @ tag"

lemma canonicalize_parts:
  "s \<noteq> Site \<Longrightarrow> canonicalize s f = 47 # (surface_part s @ lit ''/feed'') @ 46 # feed_ext f"
  by (cases s) simp_all

lemma parse_surface_part: "surface_ok s \<Longrightarrow> s \<noteq> Site \<Longrightarrow> parse_surface (surface_part s) = Some s"
proof (cases s)
  case (SiteTag tag)
  assume "surface_ok s"
  with SiteTag show ?thesis by (simp add: parse_surface_def parse_tag_id)
next
  case (User u)
  assume ok: "surface_ok s"
  with User have "47 \<notin> set u" using username_ok_chars by auto
  then have "split_once (lit ''/tags/'') u = None"
    by (induction u) auto
  with User ok show ?thesis by (simp add: parse_surface_def parse_username_id)
next
  case (UserTag u tag)
  assume ok: "surface_ok s"
  with UserTag have "47 \<notin> set u" using username_ok_chars by auto
  from split_once_skip [OF this, of "lit ''tags/''" tag] UserTag ok show ?thesis
    by (simp add: parse_surface_def parse_username_id parse_tag_id)
qed simp

lemma parse_canonicalize:
  assumes "surface_ok s"
  shows "parse_feed_path (canonicalize s f) = Some (s, f)"
proof (cases "s = Site")
  case True
  then show ?thesis
    using rsplit_once_char_skip [OF feed_ext_no_dot [of f], of "lit ''feed''"]
    by (simp add: parse_feed_path_def)
next
  case False
  have "rsplit_once_char 46 ((surface_part s @ lit ''/feed'') @ 46 # feed_ext f) =
      Some (surface_part s @ lit ''/feed'', feed_ext f)"
    by (rule rsplit_once_char_skip [OF feed_ext_no_dot])
  moreover have "surface_part s @ lit ''/feed'' \<noteq> lit ''feed''"
    by (rule notI, drule arg_cong [where f = length]) (use False in \<open>cases s; simp\<close>)
  moreover have "strip_suffix (lit ''/feed'') (surface_part s @ lit ''/feed'') = Some (surface_part s)"
    by (rule strip_suffix_append)
  ultimately show ?thesis
    using parse_surface_part [OF assms False] canonicalize_parts [OF False, of f]
    by (simp add: parse_feed_path_def del: append_assoc)
qed

text \<open>
  C35: \<^verbatim>\<open>parse\<close> inverts \<^verbatim>\<open>canonicalize\<close>: every surface whose segments are
  valid comes back from its path with its format, so distinct surfaces or formats have distinct
  paths; and a path that was accepted is stored in a form that is its own canonical form.
\<close>

theorem feed_path_roundtrip:
  "(surface_ok s \<longrightarrow> parse_feed_path (canonicalize s f) = Some (s, f)) \<and>
   (feed_path_from_str path = Some stored \<longrightarrow>
      feed_path_from_str stored = Some stored \<and> parse_feed_path stored = parse_feed_path path)"
proof (intro conjI impI)
  assume "surface_ok s"
  then show "parse_feed_path (canonicalize s f) = Some (s, f)" by (rule parse_canonicalize)
next
  assume "feed_path_from_str path = Some stored"
  then obtain s' f' where p: "parse_feed_path path = Some (s', f')" "stored = canonicalize s' f'"
    by (auto simp: feed_path_from_str_def)
  with parse_canonicalize [OF parse_feed_path_ok [OF p(1)], of f']
  show "feed_path_from_str stored = Some stored" "parse_feed_path stored = parse_feed_path path"
    by (simp_all add: feed_path_from_str_def)
qed

theorem feed_path_roundtrip_witness:
  "parse_feed_path (lit ''/~ada/tags/bees/feed.atom'') =
     Some (UserTag (lit ''ada'') (lit ''bees''), Atom)"
proof -
  have "surface_ok (UserTag (lit ''ada'') (lit ''bees''))"
    by (simp add: username_ok_def tag_ok_def is_token_char_def is_tag_first_def is_tag_rest_def ascii_defs)
  with feed_path_roundtrip [of "UserTag (lit ''ada'') (lit ''bees'')" Atom]
  show ?thesis by simp
qed

lemma hyphenate_ascii: "is_ascii acc \<Longrightarrow> is_ascii s \<Longrightarrow> is_ascii (foldl hyphenate acc s)"
  by (induction s arbitrary: acc) (auto simp: is_ascii_def hyphenate_def ascii_defs)

lemma is_ascii_subset: "set a \<subseteq> set b \<Longrightarrow> is_ascii b \<Longrightarrow> is_ascii a"
  by (auto simp: is_ascii_def list_all_iff)

lemma trim_hyphens_subset: "set (trim_hyphens s) \<subseteq> set s"
proof -
  have "set (dropWhile (\<lambda>c. c = 45) xs) \<subseteq> set xs" for xs :: ustr
    by (auto dest: set_dropWhileD)
  from this [of s] this [of "rev (dropWhile (\<lambda>c. c = 45) s)"] show ?thesis
    by (simp add: trim_hyphens_def)
qed

lemma parse_tag_label_Some:
  "parse_tag_label s = Some l \<Longrightarrow> l = trim s \<and> tag_ok (label_slug l) \<and> parse_tag_label l = Some l"
  by (auto simp: parse_tag_label_def Let_def label_slug_def dest: parse_tag_ok split: option.splits)

text \<open>
  The free-form ingress admits only ASCII labels. What \<^verbatim>\<open>normalize_keyword\<close> returns
  is ASCII, is a label the strict parser accepts unchanged, has a valid slug, and is kept as it is
  when it is normalised again.
\<close>

theorem normalize_keyword_strict:
  assumes "normalize_keyword term = Some l"
  shows "is_ascii l \<and> parse_tag_label l = Some l \<and> tag_ok (label_slug l) \<and>
    normalize_keyword l = Some l"
proof -
  have l: "is_ascii l \<and> (\<exists>s. parse_tag_label s = Some l)"
  proof (cases "is_ascii (trim term) \<and> parse_tag_label term \<noteq> None")
    case True
    then obtain l' where l': "parse_tag_label term = Some l'" by blast
    with True assms have "l = l'" by (simp add: normalize_keyword_def)
    with l' True parse_tag_label_Some [OF l'] show ?thesis by auto
  next
    case False
    let ?n = "trim_hyphens (foldl hyphenate [] (trim term))"
    have ascii: "is_ascii term" and l: "parse_tag_label ?n = Some l"
      using assms False by (auto simp: normalize_keyword_def split: if_splits)
    have "is_ascii (foldl hyphenate [] (trim term))"
      by (rule hyphenate_ascii [OF _ is_ascii_subset [OF trim_subset ascii]])
        (simp add: is_ascii_def)
    then have "is_ascii (trim ?n)"
      by (rule is_ascii_subset [OF subset_trans [OF trim_subset trim_hyphens_subset]])
    with l parse_tag_label_Some [OF l] show ?thesis by auto
  qed
  then obtain s where "parse_tag_label s = Some l" by blast
  from parse_tag_label_Some [OF this] l show ?thesis
    by (auto simp: normalize_keyword_def dest: parse_tag_label_Some)
qed

theorem normalize_keyword_strict_witness:
  "normalize_keyword (lit ''Hello, World!'') = Some (lit ''hello-world'') \<and>
   parse_tag_label (lit ''hello-world'') = Some (lit ''hello-world'')"
proof -
  have "normalize_keyword (lit ''Hello, World!'') = Some (lit ''hello-world'')"
    by (simp add: normalize_keyword_def parse_tag_label_def parse_tag_def to_lowercase_def
        lower_scalar_def trim_def trim_start_def trim_end_def is_whitespace_def is_ascii_def
        is_tag_first_def is_tag_rest_def ascii_defs hyphenate_def is_ascii_punctuation_def
        is_ascii_whitespace_def trim_hyphens_def)
  with normalize_keyword_strict [OF this] show ?thesis by blast
qed

lemma dedup_labels_slugs:
  "distinct (map label_slug (dedup_labels seen ls)) \<and>
   label_slug ` set (dedup_labels seen ls) = label_slug ` set ls - set seen"
  by (induction seen ls rule: dedup_labels.induct) auto

lemma dedup_labels_first:
  "l \<in> set (dedup_labels seen ls) \<Longrightarrow>
     find (\<lambda>x. label_slug x = label_slug l) ls = Some l \<and> label_slug l \<notin> set seen"
proof (induction seen ls rule: dedup_labels.induct)
  case (2 seen l0 ls)
  show ?case
  proof (cases "label_slug l0 \<in> set seen")
    case True
    with 2 have "find (\<lambda>x. label_slug x = label_slug l) ls = Some l" "label_slug l \<notin> set seen"
      by simp_all
    moreover from this True have "label_slug l0 \<noteq> label_slug l" by metis
    ultimately show ?thesis by simp
  next
    case False
    show ?thesis
    proof (cases "l = l0")
      case True
      with False show ?thesis by simp
    next
      case neq: False
      with False 2 have "find (\<lambda>x. label_slug x = label_slug l) ls = Some l"
        "label_slug l \<notin> set (label_slug l0 # seen)"
        by simp_all
      moreover from this(2) have "label_slug l0 \<noteq> label_slug l" by force
      ultimately show ?thesis by simp
    qed
  qed
qed simp

text \<open>
  Deduplication of a post's tags keeps, for every slug of the list, exactly the label it is
  first spelled with; the list is refused exactly when it has more than 256 distinct slugs, and
  the error reports how many.
\<close>

theorem parse_and_validate_tags_spec:
  "case parse_and_validate_tags raw of
     Inl (count, limit) \<Rightarrow> count = card (label_slug ` set raw) \<and> limit = 256 \<and> count > 256
   | Inr out \<Rightarrow>
       card (label_slug ` set raw) \<le> 256 \<and> distinct (map label_slug out) \<and>
       label_slug ` set out = label_slug ` set raw \<and>
       list_all (\<lambda>l. find (\<lambda>x. label_slug x = label_slug l) raw = Some l) out"
proof -
  let ?out = "dedup_labels [] raw"
  have slugs: "distinct (map label_slug ?out)" "label_slug ` set ?out = label_slug ` set raw"
    using dedup_labels_slugs [of "[]" raw] by simp_all
  then have "length ?out = card (label_slug ` set raw)"
    by (metis distinct_card length_map list.set_map)
  with slugs show ?thesis
    by (auto simp: parse_and_validate_tags_def Let_def list_all_iff dest: dedup_labels_first)
qed

lemma canonicalize_inject:
  "surface_ok s \<Longrightarrow> surface_ok s' \<Longrightarrow> canonicalize s f = canonicalize s' f' \<longleftrightarrow> s = s' \<and> f = f'"
  by (metis parse_canonicalize option.inject prod.inject)

lemma affected_surfaces_ok:
  "username_ok u \<Longrightarrow> list_all tag_ok tags \<Longrightarrow> s \<in> set (affected_surfaces u tags) \<Longrightarrow> surface_ok s"
  by (auto simp: affected_surfaces_def list_all_iff)

lemma distinct_affected_surfaces: "distinct tags \<Longrightarrow> distinct (affected_surfaces u tags)"
  by (induction tags) (auto simp: affected_surfaces_def)

lemma distinct_formats:
  "distinct ss \<Longrightarrow> list_all surface_ok ss \<Longrightarrow>
     distinct (concat (map (\<lambda>s. map (canonicalize s) [Rss, Atom, Json]) ss))"
proof (induction ss)
  case (Cons s ss)
  then have "distinct (map (canonicalize s) [Rss, Atom, Json])"
    by (simp add: canonicalize_inject)
  moreover have "canonicalize s f \<noteq> canonicalize s' f'" if "s' \<in> set ss" for s' f f'
    using that Cons.prems canonicalize_inject by (auto simp: list_all_iff)
  ultimately show ?case using Cons by auto
qed simp

text \<open>
  the fan-out of a post is complete and free of duplicates: with distinct valid tags, the
  affected paths are the six of the site and the author and six more for every tag, all different,
  all canonical, and each of them addresses one of the post's surfaces.
\<close>

theorem affected_feed_urls_exact:
  assumes "username_ok u" and "list_all tag_ok tags" and "distinct tags"
  shows "distinct (affected_feed_urls u tags) \<and>
    length (affected_feed_urls u tags) = 6 + 6 * length tags \<and>
    list_all (\<lambda>p. feed_path_from_str p = Some p) (affected_feed_urls u tags) \<and>
    set (map parse_feed_path (affected_feed_urls u tags)) =
      {Some (s, f) | s f. s \<in> {Site, User u} \<union> SiteTag ` set tags \<union> UserTag u ` set tags}"
proof -
  note ok = affected_surfaces_ok [OF assms(1,2)]
  have parse: "parse_feed_path (canonicalize s f) = Some (s, f)"
    if "s \<in> set (affected_surfaces u tags)" for s f
    using ok that by (simp add: parse_canonicalize)
  have "distinct (affected_feed_urls u tags)"
    unfolding affected_feed_urls_def
    by (rule distinct_formats [OF distinct_affected_surfaces [OF assms(3)]])
      (use ok in \<open>simp add: list_all_iff\<close>)
  moreover have "length (affected_feed_urls u tags) = 6 + 6 * length tags"
    by (simp add: affected_feed_urls_def affected_surfaces_def, induction tags) auto
  moreover have "list_all (\<lambda>p. feed_path_from_str p = Some p) (affected_feed_urls u tags)"
    using parse by (auto simp: list_all_iff affected_feed_urls_def feed_path_from_str_def)
  moreover have "set (map parse_feed_path (affected_feed_urls u tags)) =
      {Some (s, f) | s f. s \<in> set (affected_surfaces u tags)}"
  proof -
    have "(\<exists>f'\<in>{Rss, Atom, Json}. f' = f)" for f by (cases f) auto
    then show ?thesis using parse by (fastforce simp: affected_feed_urls_def image_iff)
  qed
  moreover have "set (affected_surfaces u tags) =
      {Site, User u} \<union> SiteTag ` set tags \<union> UserTag u ` set tags"
    by (auto simp: affected_surfaces_def)
  ultimately show ?thesis by simp
qed

theorem affected_feed_urls_exact_witness:
  "length (affected_feed_urls (lit ''ada'') [lit ''bees'']) = 12"
proof -
  have "username_ok (lit ''ada'')" "list_all tag_ok [lit ''bees'']" "distinct [lit ''bees'']"
    by (simp_all add: username_ok_def tag_ok_def is_token_char_def is_tag_first_def
        is_tag_rest_def ascii_defs)
  from affected_feed_urls_exact [OF this] show ?thesis by simp
qed

end
