(* ===== verification/Pagination.thy ===== *)
theory Pagination
  imports Main
begin

section \<open>Pages and row limits\<close>

text \<open>
  \<^verbatim>\<open>common/src/pagination.rs\<close>. A page size is between 1 and 50, a row limit is at least
  1. The values are small, so they are natural numbers and integers.
\<close>

definition page_size_of :: "nat \<Rightarrow> nat option" where
  "page_size_of n = (if 1 \<le> n \<and> n \<le> 50 then Some n else None)"

definition page_offset_of :: "int \<Rightarrow> int option" where
  "page_offset_of n = (if 0 \<le> n then Some n else None)"

definition row_limit_at_most :: "int \<Rightarrow> int" where
  "row_limit_at_most n = (if n < 1 then 1 else n)"

definition fetch_limit :: "nat \<Rightarrow> nat" where
  "fetch_limit page_size = page_size + 1"

definition exact_limit :: "nat \<Rightarrow> nat" where
  "exact_limit page_size = page_size"

definition page_len :: "nat \<Rightarrow> nat" where
  "page_len page_size = page_size"

definition has_more :: "nat \<Rightarrow> nat \<Rightarrow> bool" where
  "has_more page_size fetched \<longleftrightarrow> fetched > page_len page_size"

text \<open>
  The over-fetched row is exactly the probe for a next page: the page is the prefix of the listing,
  and more rows follow it if and only if the query answered one more row than the page holds.
\<close>

lemma page_of_over_fetch:
  "take (page_len n) (take (fetch_limit n) rows) = take n rows"
  "has_more n (length (take (fetch_limit n) rows)) \<longleftrightarrow> drop n rows \<noteq> []"
  by (auto simp: page_len_def fetch_limit_def has_more_def min_def)

end
