(* ===== verification/Feed_Events.thy ===== *)
theory Feed_Events
  imports Retention Feed_Paths Pagination "HOL-Library.Product_Lexorder"
begin

section \<open>The feed event queue\<close>

text \<open>
  \<^verbatim>\<open>storage/src/feed_events.rs\<close> and its dialects \<^verbatim>\<open>storage/src/sqlite/feed_events.rs\<close>
  and \<^verbatim>\<open>storage/src/postgres/feed_events.rs\<close>. An event waits as pending, is claimed under a
  lease, and ends done or failed; its phase says which of the two retry budgets, diagnostics and
  dead-letter categories it is in. The two dialects differ in how they hand identifiers to a
  statement and in the rows a claim may see: PostgreSQL skips the rows that another transaction
  has locked, which are the argument \<open>locked\<close>.
\<close>

datatype feed_event_error = FeedEvent_Db sql_error | FeedEvent_Panicked

datatype feed_event_dead_letter_error = DeadLetter_Db sql_error | DeadLetter_CorruptRow

datatype feed_event_redrive_error = Redrive_Db sql_error | Redrive_Rejected

record feed_event_record =
  fr_id :: int
  fr_feed_path :: ustr
  fr_status :: feed_event_status
  fr_phase :: feed_event_phase
  fr_regeneration_attempts :: int
  fr_publication_attempts :: int
  fr_regeneration_diagnostic :: "ustr option"
  fr_publication_diagnostic :: "ustr option"
  fr_next_attempt_at :: instant
  fr_claimed_at :: "instant option"
  fr_terminal_at :: "instant option"
  fr_created_at :: instant
  fr_regenerated_at :: "instant option"
  fr_pinged_at :: "instant option"

datatype claimed_row = Record feed_event_record | Corrupt int

text \<open>Diagnostics are cut to 1024 scalars, the last of them an ellipsis when something was cut.\<close>

definition bounded_diagnostic :: "ustr \<Rightarrow> ustr" where
  "bounded_diagnostic s = (if length s \<le> 1024 then s else take 1023 s @ [0x2026])"

definition claimed_row_of :: "feed_event_row \<Rightarrow> claimed_row" where
  "claimed_row_of r =
     (case feed_path_from_str (fe_feed_url r) of
        None \<Rightarrow> Corrupt (fe_id r)
      | Some path \<Rightarrow> Record
          \<lparr>fr_id = fe_id r, fr_feed_path = path, fr_status = fe_status r, fr_phase = fe_phase r,
           fr_regeneration_attempts = fe_regeneration_attempts r,
           fr_publication_attempts = fe_publication_attempts r,
           fr_regeneration_diagnostic = fe_regeneration_diagnostic r,
           fr_publication_diagnostic = fe_publication_diagnostic r,
           fr_next_attempt_at = fe_next_attempt_at r, fr_claimed_at = fe_claimed_at r,
           fr_terminal_at = fe_terminal_at r, fr_created_at = fe_created_at r,
           fr_regenerated_at = fe_regenerated_at r, fr_pinged_at = fe_pinged_at r\<rparr>)"

fun partition_claimed :: "claimed_row list \<Rightarrow> feed_event_record list \<times> int list" where
  "partition_claimed [] = ([], [])"
| "partition_claimed (Record r # rows) = (case partition_claimed rows of (rs, cs) \<Rightarrow> (r # rs, cs))"
| "partition_claimed (Corrupt i # rows) = (case partition_claimed rows of (rs, cs) \<Rightarrow> (rs, i # cs))"

subsection \<open>Enqueueing\<close>

text \<open>The defaults of the table; both timestamps default to the time of the statement.\<close>

definition new_feed_event :: "int \<Rightarrow> ustr \<Rightarrow> instant \<Rightarrow> feed_event_row" where
  "new_feed_event i url now = \<lparr>fe_id = i, fe_feed_url = url, fe_status = FE_Pending,
     fe_phase = Regeneration, fe_regeneration_attempts = 0, fe_publication_attempts = 0,
     fe_regeneration_diagnostic = None, fe_publication_diagnostic = None, fe_next_attempt_at = now,
     fe_claimed_at = None, fe_terminal_at = None, fe_created_at = now, fe_regenerated_at = None,
     fe_pinged_at = None\<rparr>"

definition insert_feed_event :: "instant \<Rightarrow> ustr \<Rightarrow> database \<Rightarrow> database" where
  "insert_feed_event now url d = d\<lparr>
     feed_events := feed_events d @ [new_feed_event (next_feed_event_id d) url now],
     next_feed_event_id := next_feed_event_id d + 1\<rparr>"

definition enqueue :: "backend \<Rightarrow> instant \<Rightarrow> ustr \<Rightarrow> (database, feed_event_error, int) tx" where
  "enqueue db now path =
     tx_map_err FeedEvent_Db
       (tx_bind (write_connection db) (\<lambda>_.
        statement (\<lambda>d. (Inr (next_feed_event_id d), insert_feed_event now path d))))"

text \<open>\<^verbatim>\<open>chunks(SET_OPERATION_BIND_BATCH)\<close>: one multi-row insert per chunk of 250 paths.\<close>

function chunks :: "nat \<Rightarrow> 'a list \<Rightarrow> 'a list list" where
  "chunks n xs = (if xs = [] \<or> n = 0 then [] else take n xs # chunks n (drop n xs))"
  by pat_completeness auto
termination
  by (relation "measure (\<lambda>(n, xs). length xs)") auto

declare chunks.simps [simp del]

fun insert_chunks :: "instant \<Rightarrow> ustr list list \<Rightarrow> (database, sql_error, unit) tx" where
  "insert_chunks now [] = tx_return ()"
| "insert_chunks now (paths # rest) =
     tx_bind (execute (fold (insert_feed_event now) paths)) (\<lambda>_. insert_chunks now rest)"

definition enqueue_many :: "backend \<Rightarrow> instant \<Rightarrow> ustr list \<Rightarrow> (database, feed_event_error, unit) tx" where
  "enqueue_many db now paths =
     tx_map_err FeedEvent_Db
       (tx_bind (write_connection db) (\<lambda>_. insert_chunks now (chunks 250 paths)))"

subsection \<open>Claiming\<close>

definition feed_event_claimable :: "instant \<Rightarrow> instant \<Rightarrow> feed_event_row \<Rightarrow> bool" where
  "feed_event_claimable now lease_cutoff r \<longleftrightarrow>
     (fe_status r = FE_Pending \<and> fe_next_attempt_at r \<le> now) \<or>
     (fe_status r = FE_Claimed \<and>
        (case fe_claimed_at r of None \<Rightarrow> False | Some t \<Rightarrow> t < lease_cutoff))"

definition mark_claimed :: "instant \<Rightarrow> feed_event_row \<Rightarrow> feed_event_row" where
  "mark_claimed now r = r\<lparr>fe_status := FE_Claimed, fe_claimed_at := Some now\<rparr>"

definition claim_rows :: "instant \<Rightarrow> instant \<Rightarrow> nat \<Rightarrow> int set \<Rightarrow> database \<Rightarrow>
    (sql_error + feed_event_row list) \<times> database" where
  "claim_rows now lease_cutoff limit locked d =
     (let eligible = top_by fe_next_attempt_at limit
            (filter (\<lambda>r. feed_event_claimable now lease_cutoff r \<and> fe_id r \<notin> locked) (feed_events d));
          chosen = set (map fe_id eligible)
      in (Inr (map (mark_claimed now) (filter (\<lambda>r. fe_id r \<in> chosen) (feed_events d))),
          d\<lparr>feed_events := update_where (\<lambda>r. fe_id r \<in> chosen) (mark_claimed now) (feed_events d)\<rparr>))"

text \<open>
  Purging rows whose stored path does not parse, under a savepoint; a failure of the purge is
  reported and swallowed by \<^verbatim>\<open>finish_corrupt_purge\<close>.
\<close>

definition tx_try :: "('db, 'e, 'a) tx \<Rightarrow> ('db, 'f, 'e + 'a) tx" where
  "tx_try m c = (case m c of (r, c') \<Rightarrow> (Inr r, c'))"

definition savepoint_scope :: "(database, sql_error, unit) tx \<Rightarrow> (database, sql_error, unit) tx" where
  "savepoint_scope body c =
     tx_bind (execute (\<lambda>d. d)) (\<lambda>_ c1.
       (case body c1 of
          (Inr _, c2) \<Rightarrow> execute (\<lambda>d. d) c2
        | (Inl e, c2) \<Rightarrow>
            tx_bind (execute (\<lambda>_. working c1)) (\<lambda>_.
            tx_bind (execute (\<lambda>d. d)) (\<lambda>_.
            tx_throw e)) c2)) c"

definition sqlite_purge_corrupt :: "int list \<Rightarrow> (database, sql_error, unit) tx" where
  "sqlite_purge_corrupt ids =
     (if ids = [] then tx_return ()
      else savepoint_scope (execute (\<lambda>d. d\<lparr>feed_events :=
        delete_where (\<lambda>r. list_ex (\<lambda>i. fe_id r = i) ids) (feed_events d)\<rparr>)))"

definition postgres_purge_corrupt :: "int list \<Rightarrow> (database, sql_error, unit) tx" where
  "postgres_purge_corrupt ids =
     (if ids = [] then tx_return ()
      else savepoint_scope (execute (\<lambda>d. d\<lparr>feed_events :=
        delete_where (\<lambda>r. fe_id r \<in> set ids) (feed_events d)\<rparr>)))"

definition finish_corrupt_purge ::
  "feed_event_record list \<Rightarrow> sql_error + unit \<Rightarrow> feed_event_record list" where
  "finish_corrupt_purge records purge = records"

definition sqlite_claim_pending_batch :: "instant \<Rightarrow> instant \<Rightarrow> nat \<Rightarrow>
    (database, feed_event_error, feed_event_record list) tx" where
  "sqlite_claim_pending_batch now lease_cutoff limit =
     tx_bind (tx_map_err FeedEvent_Db (statement (claim_rows now lease_cutoff limit {}))) (\<lambda>rows.
       case partition_claimed (map claimed_row_of rows) of (records, corrupt) \<Rightarrow>
         tx_bind (tx_try (sqlite_purge_corrupt corrupt)) (\<lambda>purge.
         tx_return (finish_corrupt_purge records purge)))"

definition postgres_claim_pending_batch :: "int set \<Rightarrow> instant \<Rightarrow> instant \<Rightarrow> nat \<Rightarrow>
    (database, feed_event_error, feed_event_record list) tx" where
  "postgres_claim_pending_batch locked now lease_cutoff limit =
     tx_bind (tx_map_err FeedEvent_Db (statement (claim_rows now lease_cutoff limit locked))) (\<lambda>rows.
       case partition_claimed (map claimed_row_of rows) of (records, corrupt) \<Rightarrow>
         tx_bind (tx_try (postgres_purge_corrupt corrupt)) (\<lambda>purge.
         tx_return (finish_corrupt_purge records purge)))"

text \<open>The claim limit saturates at the largest 64-bit integer; the subtraction may panic.\<close>

definition claim_limit_of :: "nat \<Rightarrow> nat" where
  "claim_limit_of limit = (if limit < 2 ^ 63 then limit else 2 ^ 63 - 1)"

definition claim_pending_batch :: "backend \<Rightarrow> timestamp_range \<Rightarrow> int set \<Rightarrow> instant \<Rightarrow> nat \<Rightarrow> int \<Rightarrow>
    (database, feed_event_error, feed_event_record list) tx" where
  "claim_pending_batch db b locked now limit lease_timeout =
     (case checked_sub b now lease_timeout of
        None \<Rightarrow> tx_throw FeedEvent_Panicked
      | Some lease_cutoff \<Rightarrow>
          tx_bind (tx_map_err FeedEvent_Db (write_connection db)) (\<lambda>_.
            case db of
              Sqlite \<Rightarrow> sqlite_claim_pending_batch now lease_cutoff (claim_limit_of limit)
            | Postgres \<Rightarrow> postgres_claim_pending_batch locked now lease_cutoff (claim_limit_of limit)))"

definition claimable_count :: "timestamp_range \<Rightarrow> instant \<Rightarrow> int \<Rightarrow>
    (database, feed_event_error, nat) tx" where
  "claimable_count b now lease_timeout =
     (case checked_sub b now lease_timeout of
        None \<Rightarrow> tx_throw FeedEvent_Panicked
      | Some lease_cutoff \<Rightarrow> tx_map_err FeedEvent_Db
          (pool_query (\<lambda>d. count_where (feed_event_claimable now lease_cutoff) (feed_events d))))"

subsection \<open>Dead letters\<close>

record dead_letter_cursor =
  dlc_terminal_at :: instant
  dlc_id :: int

record dead_letter_row =
  dlr_id :: int
  dlr_feed_url :: ustr
  dlr_phase :: feed_event_phase
  dlr_attempts :: int
  dlr_terminal_at :: instant
  dlr_diagnostic :: "ustr option"

record dead_letter =
  dl_id :: int
  dl_feed_path :: ustr
  dl_phase :: feed_event_phase
  dl_attempts :: int
  dl_terminal_at :: instant
  dl_diagnostic :: "ustr option"

record dead_letter_page =
  page_events :: "dead_letter list"
  page_next_cursor :: "dead_letter_cursor option"

definition dead_letter_into_record ::
  "dead_letter_row \<Rightarrow> feed_event_dead_letter_error + dead_letter" where
  "dead_letter_into_record r =
     (case feed_path_from_str (dlr_feed_url r) of
        None \<Rightarrow> Inl DeadLetter_CorruptRow
      | Some path \<Rightarrow> Inr \<lparr>dl_id = dlr_id r, dl_feed_path = path, dl_phase = dlr_phase r,
          dl_attempts = dlr_attempts r, dl_terminal_at = dlr_terminal_at r,
          dl_diagnostic = dlr_diagnostic r\<rparr>)"

text \<open>\<^verbatim>\<open>collect::<Result<Vec<_>, _>>\<close>: the first error, or all values.\<close>

fun collect_results :: "('e + 'a) list \<Rightarrow> 'e + 'a list" where
  "collect_results [] = Inr []"
| "collect_results (Inl e # rs) = Inl e"
| "collect_results (Inr a # rs) =
     (case collect_results rs of Inl e \<Rightarrow> Inl e | Inr as \<Rightarrow> Inr (a # as))"

text \<open>
  The keyset query. A \<^verbatim>\<open>NULL\<close> terminal time satisfies no comparison and does not decode
  into the row; no failed event has one.
\<close>

definition after_cursor :: "dead_letter_cursor option \<Rightarrow> feed_event_row \<Rightarrow> bool" where
  "after_cursor cursor r \<longleftrightarrow>
     (case cursor of
        None \<Rightarrow> True
      | Some c \<Rightarrow>
          (case fe_terminal_at r of
             None \<Rightarrow> False
           | Some t \<Rightarrow> t < dlc_terminal_at c \<or> (t = dlc_terminal_at c \<and> fe_id r < dlc_id c)))"

definition dead_letter_order :: "feed_event_row \<Rightarrow> int \<times> int" where
  "dead_letter_order r = (case fe_terminal_at r of None \<Rightarrow> 0 | Some t \<Rightarrow> - t, - fe_id r)"

definition dead_letter_row_of :: "feed_event_row \<Rightarrow> dead_letter_row option" where
  "dead_letter_row_of r =
     map_option (\<lambda>t. \<lparr>dlr_id = fe_id r, dlr_feed_url = fe_feed_url r, dlr_phase = fe_phase r,
       dlr_attempts = (if fe_phase r = Regeneration then fe_regeneration_attempts r
                       else fe_publication_attempts r),
       dlr_terminal_at = t,
       dlr_diagnostic = (if fe_phase r = Regeneration then fe_regeneration_diagnostic r
                         else fe_publication_diagnostic r)\<rparr>) (fe_terminal_at r)"

definition dead_letter_rows :: "feed_event_phase \<Rightarrow> dead_letter_cursor option \<Rightarrow> nat \<Rightarrow> database \<Rightarrow>
    dead_letter_row list option" where
  "dead_letter_rows phase cursor limit d =
     those (map dead_letter_row_of (top_by dead_letter_order limit
       (filter (\<lambda>r. fe_status r = FE_Failed \<and> fe_phase r = phase \<and> after_cursor cursor r)
         (feed_events d))))"

definition sqlite_dead_letters :: "feed_event_phase \<Rightarrow> dead_letter_cursor option \<Rightarrow> nat \<Rightarrow>
    (database, feed_event_dead_letter_error, dead_letter_row list) tx" where
  "sqlite_dead_letters phase cursor limit =
     tx_bind (tx_map_err DeadLetter_Db (pool_query (dead_letter_rows phase cursor limit))) (\<lambda>rows.
       case rows of None \<Rightarrow> tx_throw (DeadLetter_Db ColumnDecode) | Some rs \<Rightarrow> tx_return rs)"

definition postgres_dead_letters :: "feed_event_phase \<Rightarrow> dead_letter_cursor option \<Rightarrow> nat \<Rightarrow>
    (database, feed_event_dead_letter_error, dead_letter_row list) tx" where
  "postgres_dead_letters phase cursor limit =
     tx_bind (tx_map_err DeadLetter_Db (pool_query (dead_letter_rows phase cursor limit))) (\<lambda>rows.
       case rows of None \<Rightarrow> tx_throw (DeadLetter_Db ColumnDecode) | Some rs \<Rightarrow> tx_return rs)"

definition dead_letter_page_of :: "nat \<Rightarrow> dead_letter_row list \<Rightarrow>
    feed_event_dead_letter_error + dead_letter_page" where
  "dead_letter_page_of page_size rows =
     (let more = has_more page_size (length rows)
      in case collect_results (map dead_letter_into_record (take (page_len page_size) rows)) of
           Inl e \<Rightarrow> Inl e
         | Inr events \<Rightarrow> Inr
             \<lparr>page_events = events,
              page_next_cursor = (if more \<and> events \<noteq> []
                then Some \<lparr>dlc_terminal_at = dl_terminal_at (last events), dlc_id = dl_id (last events)\<rparr>
                else None)\<rparr>)"

definition dead_letters :: "backend \<Rightarrow> feed_event_phase \<Rightarrow> dead_letter_cursor option \<Rightarrow> nat \<Rightarrow>
    (database, feed_event_dead_letter_error, dead_letter_page) tx" where
  "dead_letters db phase cursor page_size =
     tx_bind (case db of
         Sqlite \<Rightarrow> sqlite_dead_letters phase cursor (fetch_limit page_size)
       | Postgres \<Rightarrow> postgres_dead_letters phase cursor (fetch_limit page_size)) (\<lambda>rows.
     case dead_letter_page_of page_size rows of
       Inl e \<Rightarrow> tx_throw e
     | Inr page \<Rightarrow> tx_return page)"

subsection \<open>Statements on a list of events\<close>

text \<open>
  SQLite writes one placeholder per identifier, PostgreSQL binds the identifiers as one array.
\<close>

definition sqlite_ids :: "int list \<Rightarrow> feed_event_row \<Rightarrow> bool" where
  "sqlite_ids ids r = list_ex (\<lambda>i. fe_id r = i) ids"

definition postgres_ids :: "int list \<Rightarrow> feed_event_row \<Rightarrow> bool" where
  "postgres_ids ids r = (fe_id r \<in> set ids)"

definition update_events :: "(feed_event_row \<Rightarrow> bool) \<Rightarrow> (feed_event_row \<Rightarrow> feed_event_row) \<Rightarrow>
    (database, sql_error, unit) tx" where
  "update_events p f = execute (\<lambda>d. d\<lparr>feed_events := update_where p f (feed_events d)\<rparr>)"

definition redrivable :: "instant \<Rightarrow> feed_event_row \<Rightarrow> bool" where
  "redrivable failed_cutoff r \<longleftrightarrow> fe_status r = FE_Failed \<and>
     (case fe_terminal_at r of None \<Rightarrow> False | Some t \<Rightarrow> failed_cutoff < t)"

definition redriven :: "instant \<Rightarrow> feed_event_row \<Rightarrow> feed_event_row" where
  "redriven now r = r\<lparr>fe_status := FE_Pending,
     fe_regeneration_attempts := (if fe_phase r = Regeneration then 0 else fe_regeneration_attempts r),
     fe_publication_attempts := (if fe_phase r = Publication then 0 else fe_publication_attempts r),
     fe_regeneration_diagnostic :=
       (if fe_phase r = Regeneration then None else fe_regeneration_diagnostic r),
     fe_publication_diagnostic :=
       (if fe_phase r = Publication then None else fe_publication_diagnostic r),
     fe_terminal_at := None, fe_claimed_at := None, fe_next_attempt_at := now\<rparr>"

definition sqlite_redrive_dead_letters :: "int list \<Rightarrow> instant \<Rightarrow> instant \<Rightarrow>
    (database, sql_error, bool) tx" where
  "sqlite_redrive_dead_letters ids now failed_cutoff =
     tx_bind (query (\<lambda>d. count_where (\<lambda>r. redrivable failed_cutoff r \<and> sqlite_ids ids r)
       (feed_events d))) (\<lambda>count.
     if count \<noteq> length ids then tx_return False
     else statement (\<lambda>d. (Inr (count_where (sqlite_ids ids) (feed_events d) = length ids),
       d\<lparr>feed_events := update_where (sqlite_ids ids) (redriven now) (feed_events d)\<rparr>)))"

definition postgres_redrive_dead_letters :: "int list \<Rightarrow> instant \<Rightarrow> instant \<Rightarrow>
    (database, sql_error, bool) tx" where
  "postgres_redrive_dead_letters ids now failed_cutoff =
     tx_bind (query (\<lambda>d. map fe_id (filter (\<lambda>r. redrivable failed_cutoff r \<and> postgres_ids ids r)
       (feed_events d)))) (\<lambda>selected.
     if length selected \<noteq> length ids then tx_return False
     else statement (\<lambda>d. (Inr (count_where (postgres_ids ids) (feed_events d) = length ids),
       d\<lparr>feed_events := update_where (postgres_ids ids) (redriven now) (feed_events d)\<rparr>)))"

definition failed_event_cutoff :: "timestamp_range \<Rightarrow> instant \<Rightarrow> instant" where
  "failed_event_cutoff b now = saturating_sub b now (seconds (168 * 3600))"

definition redrive_dead_letters :: "backend \<Rightarrow> timestamp_range \<Rightarrow> int list \<Rightarrow> instant \<Rightarrow>
    (database, feed_event_redrive_error, unit) tx" where
  "redrive_dead_letters db b ids now =
     (if ids = [] then tx_throw Redrive_Rejected
      else
        tx_bind (tx_map_err Redrive_Db (write_connection db)) (\<lambda>_.
        tx_bind (tx_map_err Redrive_Db (case db of
            Sqlite \<Rightarrow> sqlite_redrive_dead_letters ids now (failed_event_cutoff b now)
          | Postgres \<Rightarrow> postgres_redrive_dead_letters ids now (failed_event_cutoff b now))) (\<lambda>ok.
        if ok then tx_return () else tx_throw Redrive_Rejected)))"

subsection \<open>The outcomes of a claimed event\<close>

text \<open>
  What each outcome writes into its rows; the statement of both dialects is the same but for the
  identifiers. None of them checks the status of the row: the worker that holds the lease is
  trusted to call them.
\<close>

definition mark_regenerated_row :: "instant \<Rightarrow> feed_event_row \<Rightarrow> feed_event_row" where
  "mark_regenerated_row now r = r\<lparr>fe_regenerated_at := Some now, fe_phase := Publication\<rparr>"

definition sqlite_mark_regenerated :: "int list \<Rightarrow> instant \<Rightarrow> (database, sql_error, unit) tx" where
  "sqlite_mark_regenerated ids now = update_events (sqlite_ids ids) (mark_regenerated_row now)"

definition postgres_mark_regenerated :: "int list \<Rightarrow> instant \<Rightarrow> (database, sql_error, unit) tx" where
  "postgres_mark_regenerated ids now = update_events (postgres_ids ids) (mark_regenerated_row now)"

definition mark_regenerated :: "backend \<Rightarrow> int list \<Rightarrow> instant \<Rightarrow> (database, feed_event_error, unit) tx" where
  "mark_regenerated db ids now =
     (if ids = [] then tx_return ()
      else tx_map_err FeedEvent_Db
        (tx_bind (write_connection db) (\<lambda>_.
         case db of
           Sqlite \<Rightarrow> sqlite_mark_regenerated ids now
         | Postgres \<Rightarrow> postgres_mark_regenerated ids now)))"

definition mark_pinged_row :: "instant \<Rightarrow> feed_event_row \<Rightarrow> feed_event_row" where
  "mark_pinged_row now r = r\<lparr>fe_status := FE_Done, fe_pinged_at := Some now, fe_terminal_at := Some now\<rparr>"

definition sqlite_mark_pinged :: "int list \<Rightarrow> instant \<Rightarrow> (database, sql_error, unit) tx" where
  "sqlite_mark_pinged ids now = update_events (sqlite_ids ids) (mark_pinged_row now)"

definition postgres_mark_pinged :: "int list \<Rightarrow> instant \<Rightarrow> (database, sql_error, unit) tx" where
  "postgres_mark_pinged ids now = update_events (postgres_ids ids) (mark_pinged_row now)"

definition mark_pinged :: "backend \<Rightarrow> int list \<Rightarrow> instant \<Rightarrow> (database, feed_event_error, unit) tx" where
  "mark_pinged db ids now =
     (if ids = [] then tx_return ()
      else tx_map_err FeedEvent_Db
        (tx_bind (write_connection db) (\<lambda>_.
         case db of
           Sqlite \<Rightarrow> sqlite_mark_pinged ids now
         | Postgres \<Rightarrow> postgres_mark_pinged ids now)))"

definition retry_regeneration_row :: "ustr \<Rightarrow> instant \<Rightarrow> feed_event_row \<Rightarrow> feed_event_row" where
  "retry_regeneration_row error at r = r\<lparr>fe_status := FE_Pending, fe_phase := Regeneration,
     fe_regeneration_attempts := fe_regeneration_attempts r + 1,
     fe_regeneration_diagnostic := Some error, fe_terminal_at := None, fe_claimed_at := None,
     fe_next_attempt_at := at\<rparr>"

definition sqlite_retry_regeneration :: "int list \<Rightarrow> ustr \<Rightarrow> instant \<Rightarrow> (database, sql_error, unit) tx" where
  "sqlite_retry_regeneration ids error at = update_events (sqlite_ids ids) (retry_regeneration_row error at)"

definition postgres_retry_regeneration :: "int list \<Rightarrow> ustr \<Rightarrow> instant \<Rightarrow> (database, sql_error, unit) tx" where
  "postgres_retry_regeneration ids error at = update_events (postgres_ids ids) (retry_regeneration_row error at)"

definition retry_regeneration :: "backend \<Rightarrow> int list \<Rightarrow> ustr \<Rightarrow> instant \<Rightarrow> (database, feed_event_error, unit) tx" where
  "retry_regeneration db ids error at =
     (if ids = [] then tx_return ()
      else tx_map_err FeedEvent_Db
        (tx_bind (write_connection db) (\<lambda>_.
         case db of
           Sqlite \<Rightarrow> sqlite_retry_regeneration ids (bounded_diagnostic error) at
         | Postgres \<Rightarrow> postgres_retry_regeneration ids (bounded_diagnostic error) at)))"

definition dead_letter_regeneration_row :: "ustr \<Rightarrow> instant \<Rightarrow> feed_event_row \<Rightarrow> feed_event_row" where
  "dead_letter_regeneration_row error at r = r\<lparr>fe_status := FE_Failed, fe_phase := Regeneration,
     fe_regeneration_attempts := fe_regeneration_attempts r + 1,
     fe_regeneration_diagnostic := Some error, fe_terminal_at := Some at, fe_claimed_at := None\<rparr>"

definition sqlite_dead_letter_regeneration :: "int list \<Rightarrow> ustr \<Rightarrow> instant \<Rightarrow> (database, sql_error, unit) tx" where
  "sqlite_dead_letter_regeneration ids error at = update_events (sqlite_ids ids) (dead_letter_regeneration_row error at)"

definition postgres_dead_letter_regeneration :: "int list \<Rightarrow> ustr \<Rightarrow> instant \<Rightarrow> (database, sql_error, unit) tx" where
  "postgres_dead_letter_regeneration ids error at = update_events (postgres_ids ids) (dead_letter_regeneration_row error at)"

definition dead_letter_regeneration :: "backend \<Rightarrow> int list \<Rightarrow> ustr \<Rightarrow> instant \<Rightarrow> (database, feed_event_error, unit) tx" where
  "dead_letter_regeneration db ids error at =
     (if ids = [] then tx_return ()
      else tx_map_err FeedEvent_Db
        (tx_bind (write_connection db) (\<lambda>_.
         case db of
           Sqlite \<Rightarrow> sqlite_dead_letter_regeneration ids (bounded_diagnostic error) at
         | Postgres \<Rightarrow> postgres_dead_letter_regeneration ids (bounded_diagnostic error) at)))"

definition retry_publication_row :: "ustr \<Rightarrow> instant \<Rightarrow> feed_event_row \<Rightarrow> feed_event_row" where
  "retry_publication_row error at r = r\<lparr>fe_status := FE_Pending, fe_phase := Publication,
     fe_publication_attempts := fe_publication_attempts r + 1,
     fe_publication_diagnostic := Some error, fe_terminal_at := None, fe_claimed_at := None,
     fe_next_attempt_at := at\<rparr>"

definition sqlite_retry_publication :: "int list \<Rightarrow> ustr \<Rightarrow> instant \<Rightarrow> (database, sql_error, unit) tx" where
  "sqlite_retry_publication ids error at = update_events (sqlite_ids ids) (retry_publication_row error at)"

definition postgres_retry_publication :: "int list \<Rightarrow> ustr \<Rightarrow> instant \<Rightarrow> (database, sql_error, unit) tx" where
  "postgres_retry_publication ids error at = update_events (postgres_ids ids) (retry_publication_row error at)"

definition retry_publication :: "backend \<Rightarrow> int list \<Rightarrow> ustr \<Rightarrow> instant \<Rightarrow> (database, feed_event_error, unit) tx" where
  "retry_publication db ids error at =
     (if ids = [] then tx_return ()
      else tx_map_err FeedEvent_Db
        (tx_bind (write_connection db) (\<lambda>_.
         case db of
           Sqlite \<Rightarrow> sqlite_retry_publication ids (bounded_diagnostic error) at
         | Postgres \<Rightarrow> postgres_retry_publication ids (bounded_diagnostic error) at)))"

definition dead_letter_publication_row :: "ustr \<Rightarrow> instant \<Rightarrow> feed_event_row \<Rightarrow> feed_event_row" where
  "dead_letter_publication_row error at r = r\<lparr>fe_status := FE_Failed, fe_phase := Publication,
     fe_publication_attempts := fe_publication_attempts r + 1,
     fe_publication_diagnostic := Some error, fe_terminal_at := Some at, fe_claimed_at := None\<rparr>"

definition sqlite_dead_letter_publication :: "int list \<Rightarrow> ustr \<Rightarrow> instant \<Rightarrow> (database, sql_error, unit) tx" where
  "sqlite_dead_letter_publication ids error at = update_events (sqlite_ids ids) (dead_letter_publication_row error at)"

definition postgres_dead_letter_publication :: "int list \<Rightarrow> ustr \<Rightarrow> instant \<Rightarrow> (database, sql_error, unit) tx" where
  "postgres_dead_letter_publication ids error at = update_events (postgres_ids ids) (dead_letter_publication_row error at)"

definition dead_letter_publication :: "backend \<Rightarrow> int list \<Rightarrow> ustr \<Rightarrow> instant \<Rightarrow> (database, feed_event_error, unit) tx" where
  "dead_letter_publication db ids error at =
     (if ids = [] then tx_return ()
      else tx_map_err FeedEvent_Db
        (tx_bind (write_connection db) (\<lambda>_.
         case db of
           Sqlite \<Rightarrow> sqlite_dead_letter_publication ids (bounded_diagnostic error) at
         | Postgres \<Rightarrow> postgres_dead_letter_publication ids (bounded_diagnostic error) at)))"

definition restart_regeneration_row :: "instant \<Rightarrow> feed_event_row \<Rightarrow> feed_event_row" where
  "restart_regeneration_row now r = r\<lparr>fe_status := FE_Pending, fe_phase := Regeneration,
     fe_regeneration_attempts := 0, fe_regeneration_diagnostic := None, fe_terminal_at := None,
     fe_claimed_at := None, fe_next_attempt_at := now\<rparr>"

definition sqlite_restart_regeneration :: "int list \<Rightarrow> instant \<Rightarrow> (database, sql_error, unit) tx" where
  "sqlite_restart_regeneration ids now = update_events (sqlite_ids ids) (restart_regeneration_row now)"

definition postgres_restart_regeneration :: "int list \<Rightarrow> instant \<Rightarrow> (database, sql_error, unit) tx" where
  "postgres_restart_regeneration ids now = update_events (postgres_ids ids) (restart_regeneration_row now)"

definition restart_regeneration :: "backend \<Rightarrow> int list \<Rightarrow> instant \<Rightarrow> (database, feed_event_error, unit) tx" where
  "restart_regeneration db ids now =
     (if ids = [] then tx_return ()
      else tx_map_err FeedEvent_Db
        (tx_bind (write_connection db) (\<lambda>_.
         case db of
           Sqlite \<Rightarrow> sqlite_restart_regeneration ids now
         | Postgres \<Rightarrow> postgres_restart_regeneration ids now)))"

definition reset_regeneration_row :: "instant \<Rightarrow> feed_event_row \<Rightarrow> feed_event_row" where
  "reset_regeneration_row now r = r\<lparr>fe_status := FE_Pending, fe_phase := Regeneration,
     fe_regeneration_attempts := 0, fe_regeneration_diagnostic := None, fe_terminal_at := None,
     fe_claimed_at := None, fe_next_attempt_at := now\<rparr>"

definition sqlite_reset_regeneration :: "int list \<Rightarrow> instant \<Rightarrow> (database, sql_error, unit) tx" where
  "sqlite_reset_regeneration ids now = update_events (sqlite_ids ids) (reset_regeneration_row now)"

definition postgres_reset_regeneration :: "int list \<Rightarrow> instant \<Rightarrow> (database, sql_error, unit) tx" where
  "postgres_reset_regeneration ids now = update_events (postgres_ids ids) (reset_regeneration_row now)"

definition reset_regeneration :: "backend \<Rightarrow> int list \<Rightarrow> instant \<Rightarrow> (database, feed_event_error, unit) tx" where
  "reset_regeneration db ids now =
     (if ids = [] then tx_return ()
      else tx_map_err FeedEvent_Db
        (tx_bind (write_connection db) (\<lambda>_.
         case db of
           Sqlite \<Rightarrow> sqlite_reset_regeneration ids now
         | Postgres \<Rightarrow> postgres_reset_regeneration ids now)))"

subsection \<open>Retention\<close>

definition event_retained_past :: "instant \<Rightarrow> instant \<Rightarrow> feed_event_row \<Rightarrow> bool" where
  "event_retained_past now failed_cutoff r \<longleftrightarrow>
     (case fe_terminal_at r of
        None \<Rightarrow> False
      | Some t \<Rightarrow> (fe_status r = FE_Done \<and> t \<le> now) \<or> (fe_status r = FE_Failed \<and> t \<le> failed_cutoff))"

definition prune_terminal_events ::
  "timestamp_range \<Rightarrow> instant \<Rightarrow> bool list \<Rightarrow> database \<Rightarrow> (sql_error + nat) \<times> database" where
  "prune_terminal_events b now fs d =
     (case drain fe_id fe_terminal_at (event_retained_past now (failed_event_cutoff b now))
        200 200 fs 0 (feed_events d) of (res, rs) \<Rightarrow> (res, d\<lparr>feed_events := rs\<rparr>))"

subsection \<open>The life of a row\<close>

text \<open>
  A pending row is neither claimed nor terminal, a claimed one carries its claim time, a finished
  one its terminal time; the counters do not go negative and the diagnostics are bounded.
\<close>

definition diagnostic_ok :: "ustr option \<Rightarrow> bool" where
  "diagnostic_ok d \<longleftrightarrow> (case d of None \<Rightarrow> True | Some s \<Rightarrow> length s \<le> 1024)"

definition row_ok :: "feed_event_row \<Rightarrow> bool" where
  "row_ok r \<longleftrightarrow>
     (case fe_status r of
        FE_Pending \<Rightarrow> fe_claimed_at r = None \<and> fe_terminal_at r = None
      | FE_Claimed \<Rightarrow> fe_claimed_at r \<noteq> None \<and> fe_terminal_at r = None
      | FE_Done \<Rightarrow> fe_terminal_at r \<noteq> None
      | FE_Failed \<Rightarrow> fe_claimed_at r = None \<and> fe_terminal_at r \<noteq> None) \<and>
     0 \<le> fe_regeneration_attempts r \<and> 0 \<le> fe_publication_attempts r \<and>
     diagnostic_ok (fe_regeneration_diagnostic r) \<and> diagnostic_ok (fe_publication_diagnostic r)"

definition events_ok :: "database \<Rightarrow> bool" where
  "events_ok d \<longleftrightarrow> distinct (map fe_id (feed_events d)) \<and>
     list_all (\<lambda>r. fe_id r < next_feed_event_id d \<and> row_ok r) (feed_events d)"

lemmas outcome_row_defs = mark_regenerated_row_def mark_pinged_row_def
  retry_regeneration_row_def dead_letter_regeneration_row_def retry_publication_row_def
  dead_letter_publication_row_def restart_regeneration_row_def reset_regeneration_row_def

lemmas sqlite_outcome_defs = sqlite_mark_regenerated_def sqlite_mark_pinged_def
  sqlite_retry_regeneration_def sqlite_dead_letter_regeneration_def sqlite_retry_publication_def
  sqlite_dead_letter_publication_def sqlite_restart_regeneration_def
  sqlite_reset_regeneration_def

lemmas postgres_outcome_defs = postgres_mark_regenerated_def postgres_mark_pinged_def
  postgres_retry_regeneration_def postgres_dead_letter_regeneration_def
  postgres_retry_publication_def postgres_dead_letter_publication_def
  postgres_restart_regeneration_def postgres_reset_regeneration_def

lemmas outcome_defs = mark_regenerated_def mark_pinged_def retry_regeneration_def
  dead_letter_regeneration_def retry_publication_def dead_letter_publication_def
  restart_regeneration_def reset_regeneration_def

lemma length_bounded_diagnostic [simp]: "length (bounded_diagnostic s) \<le> 1024"
  by (simp add: bounded_diagnostic_def)

lemma row_ok_outcome:
  assumes "row_ok r"
  shows "fe_terminal_at r = None \<Longrightarrow> row_ok (mark_claimed now r)" "row_ok (redriven now r)"
    "row_ok (mark_regenerated_row now r)"
    "row_ok (mark_pinged_row now r)"
    "row_ok (retry_regeneration_row (bounded_diagnostic error) now r)"
    "row_ok (dead_letter_regeneration_row (bounded_diagnostic error) now r)"
    "row_ok (retry_publication_row (bounded_diagnostic error) now r)"
    "row_ok (dead_letter_publication_row (bounded_diagnostic error) now r)"
    "row_ok (restart_regeneration_row now r)" "row_ok (reset_regeneration_row now r)"
  using assms
  by (simp_all add: row_ok_def outcome_row_defs mark_claimed_def redriven_def diagnostic_ok_def
      split: feed_event_status.splits)

lemma outcome_keeps_id [simp]:
  "fe_id (mark_claimed now r) = fe_id r" "fe_id (redriven now r) = fe_id r"
  "fe_id (mark_regenerated_row now r) = fe_id r" "fe_id (mark_pinged_row now r) = fe_id r"
  "fe_id (retry_regeneration_row error now r) = fe_id r"
  "fe_id (dead_letter_regeneration_row error now r) = fe_id r"
  "fe_id (retry_publication_row error now r) = fe_id r"
  "fe_id (dead_letter_publication_row error now r) = fe_id r"
  "fe_id (restart_regeneration_row now r) = fe_id r" "fe_id (reset_regeneration_row now r) = fe_id r"
  by (simp_all add: outcome_row_defs mark_claimed_def redriven_def)

lemma events_ok_update:
  assumes "events_ok d" and "\<And>r. fe_id (f r) = fe_id r"
    and "\<And>r. r \<in> set (feed_events d) \<Longrightarrow> p r \<Longrightarrow> row_ok r \<Longrightarrow> row_ok (f r)"
  shows "events_ok (d\<lparr>feed_events := update_where p f (feed_events d)\<rparr>)"
  using assms by (auto simp: events_ok_def list_all_iff set_update_where map_update_where)

lemma events_ok_delete:
  "events_ok d \<Longrightarrow> events_ok (d\<lparr>feed_events := delete_where p (feed_events d)\<rparr>)"
  by (auto simp: events_ok_def list_all_iff table_simps distinct_map_delete_where)

lemma events_ok_insert: "events_ok d \<Longrightarrow> events_ok (insert_feed_event now url d)"
proof -
  assume ok: "events_ok d"
  then have "fe_id r < next_feed_event_id d" if "r \<in> set (feed_events d)" for r
    using that by (simp add: events_ok_def list_all_iff)
  then have "next_feed_event_id d \<notin> fe_id ` set (feed_events d)"
    "\<forall>r \<in> set (feed_events d). fe_id r < next_feed_event_id d + 1"
    by force+
  with ok show ?thesis
    by (simp add: events_ok_def insert_feed_event_def new_feed_event_def list_all_iff row_ok_def
        diagnostic_ok_def)
qed

lemma events_ok_insert_many: "events_ok d \<Longrightarrow> events_ok (fold (insert_feed_event now) urls d)"
  by (induction urls arbitrary: d) (simp_all add: events_ok_insert)

lemma insert_chunks_ok:
  "insert_chunks now cs c = (Inr u, c') \<Longrightarrow> events_ok (working c) \<Longrightarrow> events_ok (working c')"
proof (induction cs arbitrary: c)
  case (Cons paths rest)
  from Cons.prems(1) obtain c1 where c1: "execute (fold (insert_feed_event now) paths) c = (Inr (), c1)"
    and rest: "insert_chunks now rest c1 = (Inr u, c')"
    by (auto simp: tx_bind_ok_iff)
  from c1 have "working c1 = fold (insert_feed_event now) paths (working c)"
    by (auto simp: tx_simps)
  with Cons.prems(2) have "events_ok (working c1)" by (simp add: events_ok_insert_many)
  with Cons.IH [OF rest] show ?case by simp
qed (auto simp: tx_simps)

lemma execute_eq:
  "execute f c = (if next_fault c then (Inl DriverError, spend_fault c)
     else (Inr (), (spend_fault c)\<lparr>working := f (working c)\<rparr>))"
  by (simp add: statement_def)

lemma savepoint_working:
  "working (snd (savepoint_scope (execute f) c)) \<in> {working c, f (working c)}"
  unfolding savepoint_scope_def tx_bind_def tx_throw_def execute_eq by simp

lemma purge_working:
  "working (snd (sqlite_purge_corrupt ids c)) \<in>
     {working c, (working c)\<lparr>feed_events := delete_where (\<lambda>r. fe_id r \<in> set ids) (feed_events (working c))\<rparr>}"
  "working (snd (postgres_purge_corrupt ids c)) \<in>
     {working c, (working c)\<lparr>feed_events := delete_where (\<lambda>r. fe_id r \<in> set ids) (feed_events (working c))\<rparr>}"
proof -
  have e: "list_ex (\<lambda>i. fe_id r = i) ids \<longleftrightarrow> fe_id r \<in> set ids" for r
    by (auto simp: list_ex_iff)
  show "working (snd (sqlite_purge_corrupt ids c)) \<in>
     {working c, (working c)\<lparr>feed_events := delete_where (\<lambda>r. fe_id r \<in> set ids) (feed_events (working c))\<rparr>}"
    using savepoint_working [of "\<lambda>d. d\<lparr>feed_events := delete_where (\<lambda>r. fe_id r \<in> set ids) (feed_events d)\<rparr>" c]
    by (simp add: sqlite_purge_corrupt_def e tx_return_def)
  show "working (snd (postgres_purge_corrupt ids c)) \<in>
     {working c, (working c)\<lparr>feed_events := delete_where (\<lambda>r. fe_id r \<in> set ids) (feed_events (working c))\<rparr>}"
    using savepoint_working [of "\<lambda>d. d\<lparr>feed_events := delete_where (\<lambda>r. fe_id r \<in> set ids) (feed_events d)\<rparr>" c]
    by (simp add: postgres_purge_corrupt_def tx_return_def)
qed

text \<open>What a successful claim returned and left behind.\<close>

definition claimed_set :: "instant \<Rightarrow> instant \<Rightarrow> nat \<Rightarrow> int set \<Rightarrow> database \<Rightarrow> feed_event_row list" where
  "claimed_set now lease_cutoff limit locked d =
     top_by fe_next_attempt_at limit
       (filter (\<lambda>r. feed_event_claimable now lease_cutoff r \<and> fe_id r \<notin> locked) (feed_events d))"

definition claimed_database :: "instant \<Rightarrow> feed_event_row list \<Rightarrow> database \<Rightarrow> database" where
  "claimed_database now chosen d = d\<lparr>feed_events :=
     update_where (\<lambda>r. fe_id r \<in> set (map fe_id chosen)) (mark_claimed now) (feed_events d)\<rparr>"

lemma tx_try_ok_iff: "tx_try m c = (Inr r, c') \<longleftrightarrow> m c = (r, c')"
  by (auto simp: tx_try_def split: prod.splits)

definition claim_parts :: "instant \<Rightarrow> feed_event_row list \<Rightarrow> database \<Rightarrow>
    feed_event_record list \<times> int list" where
  "claim_parts now chosen d =
     partition_claimed (map (\<lambda>r. claimed_row_of (mark_claimed now r))
       (filter (\<lambda>r. fe_id r \<in> set (map fe_id chosen)) (feed_events d)))"

definition purged_database :: "int list \<Rightarrow> database \<Rightarrow> database" where
  "purged_database ids d =
     d\<lparr>feed_events := delete_where (\<lambda>r. fe_id r \<in> set ids) (feed_events d)\<rparr>"

lemma claim_rows_eq:
  "claim_rows now cutoff limit locked d =
    (let chosen = claimed_set now cutoff limit locked d
     in (Inr (map (mark_claimed now) (filter (\<lambda>r. fe_id r \<in> set (map fe_id chosen)) (feed_events d))),
         claimed_database now chosen d))"
  by (simp add: claim_rows_def claimed_set_def claimed_database_def Let_def)

lemma dialect_claim_okD:
  assumes "\<And>ids c. working (snd (purge ids c)) \<in> {working c, purged_database ids (working c)}"
    and "tx_bind (tx_map_err FeedEvent_Db (statement (claim_rows now cutoff limit locked))) (\<lambda>rows.
       case partition_claimed (map claimed_row_of rows) of (records, corrupt) \<Rightarrow>
         tx_bind (tx_try (purge corrupt)) (\<lambda>p. tx_return (finish_corrupt_purge records p))) c =
      (Inr records, c')"
  defines "chosen \<equiv> claimed_set now cutoff limit locked (working c)"
  shows "records = fst (claim_parts now chosen (working c)) \<and>
    working c' \<in> {claimed_database now chosen (working c),
      purged_database (snd (claim_parts now chosen (working c))) (claimed_database now chosen (working c))}"
proof -
  obtain rows d1 where rows: "claim_rows now cutoff limit locked (working c) = (Inr rows, d1)"
    and rest: "(case partition_claimed (map claimed_row_of rows) of (records, corrupt) \<Rightarrow>
         tx_bind (tx_try (purge corrupt)) (\<lambda>p. tx_return (finish_corrupt_purge records p)))
      ((spend_fault c)\<lparr>working := d1\<rparr>) =
      (Inr records :: feed_event_error + feed_event_record list, c')"
    using assms(2) unfolding tx_bind_ok_iff tx_map_err_ok_iff statement_ok_iff by blast
  have d1: "d1 = claimed_database now chosen (working c)"
    and parts: "partition_claimed (map claimed_row_of rows) = claim_parts now chosen (working c)"
    using rows by (auto simp: claim_rows_eq claim_parts_def chosen_def Let_def comp_def)
  obtain recs corrupt where rc: "claim_parts now chosen (working c) = (recs, corrupt)" by fastforce
  from rest have "records = recs" and c': "c' = snd (purge corrupt ((spend_fault c)\<lparr>working := d1\<rparr>))"
    by (auto simp: parts rc tx_simps tx_try_ok_iff finish_corrupt_purge_def)
  with assms(1) [of corrupt "(spend_fault c)\<lparr>working := d1\<rparr>"] show ?thesis
    by (simp add: rc d1)
qed

lemma claim_pending_batch_okD:
  assumes "claim_pending_batch db b locked now limit lease c = (Inr records, c')"
  obtains cutoff lk chosen where "checked_sub b now lease = Some cutoff"
    and "lk = (case db of Sqlite \<Rightarrow> {} | Postgres \<Rightarrow> locked)"
    and "chosen = claimed_set now cutoff (claim_limit_of limit) lk (working c)"
    and "records = fst (claim_parts now chosen (working c))"
    and "working c' \<in> {claimed_database now chosen (working c),
      purged_database (snd (claim_parts now chosen (working c))) (claimed_database now chosen (working c))}"
proof -
  obtain cutoff where cutoff: "checked_sub b now lease = Some cutoff"
    using assms by (auto simp: claim_pending_batch_def tx_throw_def split: option.splits)
  have "(case db of
      Sqlite \<Rightarrow> sqlite_claim_pending_batch now cutoff (claim_limit_of limit)
    | Postgres \<Rightarrow> postgres_claim_pending_batch locked now cutoff (claim_limit_of limit)) c =
      (Inr records, c')"
    using assms cutoff by (auto simp: claim_pending_batch_def tx_simps)
  then have "records = fst (claim_parts now (claimed_set now cutoff (claim_limit_of limit)
        (case db of Sqlite \<Rightarrow> {} | Postgres \<Rightarrow> locked) (working c)) (working c)) \<and>
    working c' \<in> {claimed_database now (claimed_set now cutoff (claim_limit_of limit)
        (case db of Sqlite \<Rightarrow> {} | Postgres \<Rightarrow> locked) (working c)) (working c),
      purged_database (snd (claim_parts now (claimed_set now cutoff (claim_limit_of limit)
        (case db of Sqlite \<Rightarrow> {} | Postgres \<Rightarrow> locked) (working c)) (working c)))
        (claimed_database now (claimed_set now cutoff (claim_limit_of limit)
          (case db of Sqlite \<Rightarrow> {} | Postgres \<Rightarrow> locked) (working c)) (working c))}"
    using dialect_claim_okD [of sqlite_purge_corrupt now cutoff "claim_limit_of limit" "{}" c records c']
      dialect_claim_okD [of postgres_purge_corrupt now cutoff "claim_limit_of limit" locked c records c']
      purge_working
    by (cases db) (simp_all only: purged_database_def sqlite_claim_pending_batch_def
        postgres_claim_pending_batch_def backend.case)
  with cutoff that show thesis by blast
qed

lemma chosen_claimable:
  assumes "distinct (map fe_id (feed_events d))" and "r \<in> set (feed_events d)"
    and "fe_id r \<in> set (map fe_id (claimed_set now cutoff limit locked d))"
  shows "feed_event_claimable now cutoff r" and "fe_id r \<notin> locked"
proof -
  obtain r' where r': "r' \<in> set (claimed_set now cutoff limit locked d)" "fe_id r' = fe_id r"
    using assms(3) by auto
  then have "r' \<in> set (filter (\<lambda>r. feed_event_claimable now cutoff r \<and> fe_id r \<notin> locked) (feed_events d))"
    using set_top_by_subset unfolding claimed_set_def by fast
  then have c: "r' \<in> set (feed_events d)" "feed_event_claimable now cutoff r'" "fe_id r' \<notin> locked"
    by simp_all
  then have "r' = r" using assms(1,2) r'(2) by (metis distinct_map inj_onD)
  with c show "feed_event_claimable now cutoff r" "fe_id r \<notin> locked" by simp_all
qed

lemma claimable_not_terminal:
  "feed_event_claimable now cutoff r \<Longrightarrow> row_ok r \<Longrightarrow> fe_terminal_at r = None"
  by (auto simp: feed_event_claimable_def row_ok_def split: feed_event_status.splits)

lemma claim_pending_batch_events_ok:
  assumes "claim_pending_batch db b locked now limit lease c = (Inr records, c')"
    and "events_ok (working c)"
  shows "events_ok (working c')"
proof -
  obtain cutoff lk chosen where chosen: "chosen = claimed_set now cutoff (claim_limit_of limit) lk (working c)"
    and w: "working c' \<in> {claimed_database now chosen (working c),
      purged_database (snd (claim_parts now chosen (working c))) (claimed_database now chosen (working c))}"
    by (rule claim_pending_batch_okD [OF assms(1)])
  have "distinct (map fe_id (feed_events (working c)))" using assms(2) by (simp add: events_ok_def)
  then have "events_ok (claimed_database now chosen (working c))"
    unfolding claimed_database_def
    by (intro events_ok_update [OF assms(2)])
      (simp, metis chosen row_ok_outcome(1) chosen_claimable(1) claimable_not_terminal)
  then show ?thesis
    using w unfolding purged_database_def by (elim insertE emptyE) (simp_all only: events_ok_delete)
qed

subsection \<open>The queue as a store\<close>

lemma sqlite_ids_eq: "sqlite_ids ids = postgres_ids ids"
  by (rule ext) (auto simp: sqlite_ids_def postgres_ids_def list_ex_iff)

lemma postgres_ids_eq: "postgres_ids ids = (\<lambda>r. fe_id r \<in> set ids)"
  by (rule ext) (simp add: postgres_ids_def)

datatype feed_request =
    Enqueue instant ustr
  | EnqueueMany instant "ustr list"
  | Claim timestamp_range "int set" instant nat int
  | Redrive timestamp_range "int list" instant
  | MarkRegenerated "int list" instant
  | MarkPinged "int list" instant
  | RetryRegeneration "int list" ustr instant
  | DeadLetterRegeneration "int list" ustr instant
  | RetryPublication "int list" ustr instant
  | DeadLetterPublication "int list" ustr instant
  | RestartRegeneration "int list" instant
  | ResetRegeneration "int list" instant

definition answer :: "(database, 'e, 'a) tx \<Rightarrow> (database, unit, unit) tx" where
  "answer m = tx_bind (tx_map_err (\<lambda>_. ()) m) (\<lambda>_. tx_return ())"

text \<open>Every write operation of the store, its result dropped.\<close>

fun feed_step :: "backend \<Rightarrow> feed_request \<Rightarrow> (database, unit, unit) tx" where
  "feed_step db (Enqueue now path) = answer (enqueue db now path)"
| "feed_step db (EnqueueMany now paths) = answer (enqueue_many db now paths)"
| "feed_step db (Claim b locked now limit lease) =
     answer (claim_pending_batch db b locked now limit lease)"
| "feed_step db (Redrive b ids now) = answer (redrive_dead_letters db b ids now)"
| "feed_step db (MarkRegenerated ids now) = answer (mark_regenerated db ids now)"
| "feed_step db (MarkPinged ids now) = answer (mark_pinged db ids now)"
| "feed_step db (RetryRegeneration ids error at) = answer (retry_regeneration db ids error at)"
| "feed_step db (DeadLetterRegeneration ids error at) = answer (dead_letter_regeneration db ids error at)"
| "feed_step db (RetryPublication ids error at) = answer (retry_publication db ids error at)"
| "feed_step db (DeadLetterPublication ids error at) = answer (dead_letter_publication db ids error at)"
| "feed_step db (RestartRegeneration ids now) = answer (restart_regeneration db ids now)"
| "feed_step db (ResetRegeneration ids now) = answer (reset_regeneration db ids now)"

lemma answer_okD: "answer m c = (Inr u, c') \<Longrightarrow> \<exists>a. m c = (Inr a, c')"
  by (auto simp: answer_def tx_simps)

lemma update_events_ok_iff:
  "update_events p f c = (Inr u, c') \<longleftrightarrow> \<not> next_fault c \<and>
     c' = (spend_fault c)\<lparr>working := (working c)\<lparr>feed_events := update_where p f (feed_events (working c))\<rparr>\<rparr>"
  by (auto simp: update_events_def tx_simps)

text \<open>Every outcome operation updates exactly its rows, with its row function.\<close>

definition events_updated :: "int list \<Rightarrow> (feed_event_row \<Rightarrow> feed_event_row) \<Rightarrow> database \<Rightarrow> database" where
  "events_updated ids f d = d\<lparr>feed_events := update_where (\<lambda>r. fe_id r \<in> set ids) f (feed_events d)\<rparr>"

lemma events_updated_Nil [simp]: "events_updated [] f d = d"
  by (simp add: events_updated_def)

lemma outcome_okD:
  "mark_regenerated db ids now c = (Inr u, c') \<Longrightarrow>
     working c' = events_updated ids (mark_regenerated_row now) (working c)"
  "mark_pinged db ids now c = (Inr u, c') \<Longrightarrow>
     working c' = events_updated ids (mark_pinged_row now) (working c)"
  "retry_regeneration db ids error at c = (Inr u, c') \<Longrightarrow>
     working c' = events_updated ids (retry_regeneration_row (bounded_diagnostic error) at) (working c)"
  "dead_letter_regeneration db ids error at c = (Inr u, c') \<Longrightarrow>
     working c' = events_updated ids (dead_letter_regeneration_row (bounded_diagnostic error) at) (working c)"
  "retry_publication db ids error at c = (Inr u, c') \<Longrightarrow>
     working c' = events_updated ids (retry_publication_row (bounded_diagnostic error) at) (working c)"
  "dead_letter_publication db ids error at c = (Inr u, c') \<Longrightarrow>
     working c' = events_updated ids (dead_letter_publication_row (bounded_diagnostic error) at) (working c)"
  "restart_regeneration db ids now c = (Inr u, c') \<Longrightarrow>
     working c' = events_updated ids (restart_regeneration_row now) (working c)"
  "reset_regeneration db ids now c = (Inr u, c') \<Longrightarrow>
     working c' = events_updated ids (reset_regeneration_row now) (working c)"
  by (cases db; cases "ids = []"; auto simp: outcome_defs sqlite_outcome_defs postgres_outcome_defs
      sqlite_ids_eq postgres_ids_eq events_updated_def tx_simps update_events_ok_iff)+

lemma redrive_okD:
  assumes "redrive_dead_letters db b ids now c = (Inr u, c')"
  shows "count_where (\<lambda>r. redrivable (failed_event_cutoff b now) r \<and> fe_id r \<in> set ids)
      (feed_events (working c)) = length ids \<and> ids \<noteq> [] \<and>
    working c' = events_updated ids (redriven now) (working c)"
  using assms
  by (cases db)
    (auto simp: redrive_dead_letters_def sqlite_redrive_dead_letters_def
      postgres_redrive_dead_letters_def sqlite_ids_eq postgres_ids_eq events_updated_def tx_simps
      count_where_def split: if_split_asm)

lemma events_ok_updated:
  "events_ok d \<Longrightarrow> (\<And>r. fe_id (f r) = fe_id r) \<Longrightarrow> (\<And>r. row_ok r \<Longrightarrow> row_ok (f r)) \<Longrightarrow>
     events_ok (events_updated ids f d)"
  unfolding events_updated_def by (rule events_ok_update)

interpretation feed_queue: invariant_store "feed_step db" events_ok
proof
  fix c c' :: "database connection" and q u
  assume ok: "events_ok (working c)" and step: "feed_step db q c = (Inr u, c')"
  show "events_ok (working c')"
  proof (cases q)
    case (Enqueue now path)
    with ok step show ?thesis
      by (auto simp: enqueue_def tx_simps events_ok_insert dest!: answer_okD)
  next
    case (EnqueueMany now paths)
    with ok step show ?thesis
      by (auto simp: enqueue_many_def tx_simps dest!: answer_okD insert_chunks_ok)
  next
    case (Claim b locked now limit lease)
    with ok step show ?thesis
      by (auto dest!: answer_okD intro: claim_pending_batch_events_ok)
  next
    case (Redrive b ids now)
    with ok step show ?thesis
      by (auto dest!: answer_okD redrive_okD intro!: events_ok_updated row_ok_outcome)
  qed (use ok step in \<open>auto dest!: answer_okD outcome_okD intro!: events_ok_updated row_ok_outcome\<close>)
qed

subsection \<open>Properties\<close>

text \<open>
  the life cycle of feed events. Whatever requests are served in whatever write scopes, with
  any clocks, locks and failures, the queue that results has distinct identifiers below the next
  one; its pending rows are neither claimed nor terminal, its claimed rows carry a claim time, its
  finished rows a terminal time; no attempt counter is negative and no diagnostic is longer than
  1024 scalars.
\<close>

theorem feed_event_life_cycle:
  "events_ok (snd (run_all db (map (\<lambda>(env, q). (env, feed_step db q)) requests) empty_database))"
  by (rule feed_queue.run_all_keeps_wf) (simp add: events_ok_def empty_database_def)

text \<open>
  the two dialects agree. Every statement of the SQLite dialect does what the PostgreSQL one
  does, a claim when no row is locked by another transaction.
\<close>

theorem feed_event_dialects_agree:
  "sqlite_claim_pending_batch now cutoff limit = postgres_claim_pending_batch {} now cutoff limit \<and>
   sqlite_dead_letters phase cursor n = postgres_dead_letters phase cursor n \<and>
   sqlite_redrive_dead_letters ids now cutoff = postgres_redrive_dead_letters ids now cutoff \<and>
   sqlite_mark_regenerated ids now = postgres_mark_regenerated ids now \<and>
   sqlite_mark_pinged ids now = postgres_mark_pinged ids now \<and>
   sqlite_retry_regeneration ids error now = postgres_retry_regeneration ids error now \<and>
   sqlite_dead_letter_regeneration ids error now = postgres_dead_letter_regeneration ids error now \<and>
   sqlite_retry_publication ids error now = postgres_retry_publication ids error now \<and>
   sqlite_dead_letter_publication ids error now = postgres_dead_letter_publication ids error now \<and>
   sqlite_restart_regeneration ids now = postgres_restart_regeneration ids now \<and>
   sqlite_reset_regeneration ids now = postgres_reset_regeneration ids now"
proof (intro conjI)
  have "sqlite_purge_corrupt ids = postgres_purge_corrupt ids" for ids
    by (simp add: sqlite_purge_corrupt_def postgres_purge_corrupt_def list_ex_iff)
  then show "sqlite_claim_pending_batch now cutoff limit = postgres_claim_pending_batch {} now cutoff limit"
    by (simp add: sqlite_claim_pending_batch_def postgres_claim_pending_batch_def)
  show "sqlite_redrive_dead_letters ids now cutoff = postgres_redrive_dead_letters ids now cutoff"
    by (rule ext) (simp add: sqlite_redrive_dead_letters_def postgres_redrive_dead_letters_def
        sqlite_ids_eq tx_bind_def statement_def count_where_def)
qed (simp_all add: sqlite_dead_letters_def postgres_dead_letters_def sqlite_outcome_defs
    postgres_outcome_defs sqlite_ids_eq)

lemma partition_claimed_records:
  "r \<in> set (fst (partition_claimed rows)) \<longleftrightarrow> Record r \<in> set rows"
  by (induction rows rule: partition_claimed.induct) (auto split: prod.splits)

lemma partition_claimed_corrupt:
  "i \<in> set (snd (partition_claimed rows)) \<longleftrightarrow> Corrupt i \<in> set rows"
  by (induction rows rule: partition_claimed.induct) (auto split: prod.splits)

lemma length_partition_claimed: "length (fst (partition_claimed rows)) \<le> length rows"
  by (induction rows rule: partition_claimed.induct) (auto split: prod.splits)

lemma claimed_row_of_Record:
  "claimed_row_of r = Record rec \<Longrightarrow>
     fr_id rec = fe_id r \<and> fr_status rec = fe_status r \<and> fr_claimed_at rec = fe_claimed_at r \<and>
     feed_path_from_str (fe_feed_url r) = Some (fr_feed_path rec)"
  by (auto simp: claimed_row_of_def split: option.splits)

lemma length_filter_ids:
  assumes "distinct (map fe_id rs)"
  shows "length (filter (\<lambda>r. fe_id r \<in> set ids) rs) \<le> length ids"
proof -
  have "length (filter (\<lambda>r. fe_id r \<in> set ids) rs) =
      card (fe_id ` set (filter (\<lambda>r. fe_id r \<in> set ids) rs))"
    using distinct_map_filter [OF assms, of "\<lambda>r. fe_id r \<in> set ids"]
    by (metis distinct_card length_map list.set_map)
  also have "\<dots> \<le> card (set ids)" by (rule card_mono) auto
  also have "\<dots> \<le> length ids" by (rule card_length)
  finally show ?thesis .
qed

lemma claim_record_row:
  assumes "events_ok d" and "rec \<in> set (fst (claim_parts now (claimed_set now cutoff limit locked d) d))"
  obtains r where "r \<in> set (feed_events d)" "fe_id r = fr_id rec" "feed_event_claimable now cutoff r"
    "fe_id r \<notin> locked" "fr_status rec = FE_Claimed" "fr_claimed_at rec = Some now"
    "fe_id r \<in> set (map fe_id (claimed_set now cutoff limit locked d))"
proof -
  obtain r where r: "r \<in> set (feed_events d)"
    "fe_id r \<in> set (map fe_id (claimed_set now cutoff limit locked d))"
    "claimed_row_of (mark_claimed now r) = Record rec"
    using assms(2) by (auto simp: claim_parts_def partition_claimed_records)
  from claimed_row_of_Record [OF r(3)]
  have "fe_id r = fr_id rec" "fr_status rec = FE_Claimed" "fr_claimed_at rec = Some now"
    by (simp_all add: mark_claimed_def)
  moreover have "distinct (map fe_id (feed_events d))" using assms(1) by (simp add: events_ok_def)
  ultimately show thesis using that r chosen_claimable by blast
qed

lemma claimed_row_after:
  assumes "r \<in> set (feed_events d1)"
    and "d1 \<in> {claimed_database now chosen d, purged_database ids (claimed_database now chosen d)}"
    and "fe_id r \<in> set (map fe_id chosen)"
  shows "fe_status r = FE_Claimed \<and> fe_claimed_at r = Some now"
  using assms
  by (auto simp: claimed_database_def purged_database_def table_simps update_where_def
      mark_claimed_def split: if_split_asm)


definition example_event :: "int \<Rightarrow> ustr \<Rightarrow> feed_event_row" where
  "example_event i url = new_feed_event i url 10"

definition example_queue :: "feed_event_row list \<Rightarrow> database connection" where
  "example_queue rs = \<lparr>held = Sqlite, committed = empty_database\<lparr>feed_events := rs\<rparr>,
     working = empty_database\<lparr>feed_events := rs, next_feed_event_id := 10\<rparr>, faults = []\<rparr>"

lemma parse_site_feed: "feed_path_from_str (lit ''/feed.rss'') = Some (lit ''/feed.rss'')"
  using parse_canonicalize [of Site Rss] by (simp add: feed_path_from_str_def)

definition wide_range :: timestamp_range where
  "wide_range = \<lparr>ts_min = - 1000000, ts_max = 1000000\<rparr>"

lemmas claim_eval_simps = claim_pending_batch_def sqlite_claim_pending_batch_def claim_rows_def
  top_by_def feed_event_claimable_def mark_claimed_def claimed_row_of_def sqlite_purge_corrupt_def
  finish_corrupt_purge_def tx_try_def example_queue_def example_event_def new_feed_event_def
  checked_sub_def wide_range_def claim_limit_of_def update_where_def
  parse_site_feed [simplified]


lemma count_ids:
  assumes "distinct (map fe_id rs)"
  shows "count_where (\<lambda>r. P r \<and> fe_id r \<in> set ids) rs =
    card {i \<in> set ids. \<exists>r \<in> set rs. fe_id r = i \<and> P r}"
proof -
  let ?f = "filter (\<lambda>r. P r \<and> fe_id r \<in> set ids) rs"
  have "count_where (\<lambda>r. P r \<and> fe_id r \<in> set ids) rs = card (fe_id ` set ?f)"
    using distinct_card [OF distinct_map_filter [OF assms, of "\<lambda>r. P r \<and> fe_id r \<in> set ids"]]
    by (simp add: count_where_def)
  also have "fe_id ` set ?f = {i \<in> set ids. \<exists>r \<in> set rs. fe_id r = i \<and> P r}" by auto
  finally show ?thesis .
qed

lemma count_ids_all:
  assumes "distinct (map fe_id rs)"
  shows "count_where (\<lambda>r. P r \<and> fe_id r \<in> set ids) rs = length ids \<longleftrightarrow>
    distinct ids \<and> list_all (\<lambda>i. \<exists>r \<in> set rs. fe_id r = i \<and> P r) ids"
proof -
  let ?S = "{i \<in> set ids. \<exists>r \<in> set rs. fe_id r = i \<and> P r}"
  have "card ?S \<le> card (set ids)" "card (set ids) \<le> length ids"
    by (auto intro: card_mono card_length)
  moreover have "card ?S = card (set ids) \<longleftrightarrow> ?S = set ids"
    using card_subset_eq [of "set ids" ?S] by auto
  ultimately have "card ?S = length ids \<longleftrightarrow> card (set ids) = length ids \<and> ?S = set ids"
    by auto
  also have "\<dots> \<longleftrightarrow> distinct ids \<and> list_all (\<lambda>i. \<exists>r \<in> set rs. fe_id r = i \<and> P r) ids"
    using card_distinct distinct_card by (auto simp: list_all_iff)
  finally show ?thesis unfolding count_ids [OF assms] .
qed

text \<open>
  Redriving dead letters is all or nothing. A batch is accepted exactly when it is not empty,
  names no event twice and names only events that failed within the last week; then each of them
  is pending again with the budget and the diagnostic of its own phase cleared, and no other event
  has changed. Every other batch is rejected and changes nothing.
\<close>

theorem redrive_all_or_nothing:
  assumes "events_ok (working c)" and "held c = db" and "faults c = []"
  shows "redrive_dead_letters db b ids now c =
    (if ids \<noteq> [] \<and> distinct ids \<and>
        list_all (\<lambda>i. \<exists>r \<in> set (feed_events (working c)). fe_id r = i \<and>
          redrivable (saturating_sub b now (seconds (168 * 3600))) r) ids
     then (Inr (), c\<lparr>working := events_updated ids (redriven now) (working c)\<rparr>)
     else (Inl Redrive_Rejected, c))"
proof -
  let ?rs = "feed_events (working c)" and ?cut = "failed_event_cutoff b now"
  have d: "distinct (map fe_id ?rs)" using assms(1) by (simp add: events_ok_def)
  note sel = count_ids_all [OF d, of "redrivable ?cut" ids]
  have upd: "count_where (\<lambda>r. fe_id r \<in> set ids) ?rs = length ids"
    if "distinct ids" "list_all (\<lambda>i. \<exists>r \<in> set ?rs. fe_id r = i \<and> redrivable ?cut r) ids"
    using count_ids_all [OF d, of "\<lambda>_. True" ids] that by (auto simp: list_all_iff)
  have cut: "?cut = saturating_sub b now (seconds (168 * 3600))"
    by (simp add: failed_event_cutoff_def)
  have pg: "redrive_dead_letters db b ids now c =
      (if ids = [] then (Inl Redrive_Rejected, c)
       else if count_where (\<lambda>r. redrivable ?cut r \<and> fe_id r \<in> set ids) ?rs \<noteq> length ids
       then (Inl Redrive_Rejected, c)
       else (if count_where (\<lambda>r. fe_id r \<in> set ids) ?rs = length ids then Inr () else Inl Redrive_Rejected,
         c\<lparr>working := events_updated ids (redriven now) (working c)\<rparr>))"
    using assms(2,3)
    by (cases db) (simp_all add: redrive_dead_letters_def sqlite_redrive_dead_letters_def
        postgres_redrive_dead_letters_def sqlite_ids_eq postgres_ids_eq events_updated_def tx_eval
        count_where_def)
  show ?thesis unfolding pg sel cut [symmetric] using upd by auto
qed

definition example_dead :: "int \<Rightarrow> ustr \<Rightarrow> instant \<Rightarrow> feed_event_row" where
  "example_dead i url t = (new_feed_event i url 0)\<lparr>fe_status := FE_Failed, fe_phase := Publication,
     fe_publication_attempts := 10, fe_terminal_at := Some t\<rparr>"

theorem redrive_all_or_nothing_witness:
  "fst (redrive_dead_letters Sqlite wide_range [1] 20
      (example_queue [example_dead 1 (lit ''/feed.rss'') 5, example_dead 2 [] 6])) = Inr () \<and>
   fst (redrive_dead_letters Sqlite wide_range [1, 1] 20
      (example_queue [example_dead 1 (lit ''/feed.rss'') 5, example_dead 2 [] 6])) = Inl Redrive_Rejected \<and>
   fst (redrive_dead_letters Sqlite wide_range [1, 3] 20
      (example_queue [example_dead 1 (lit ''/feed.rss'') 5, example_dead 2 [] 6])) = Inl Redrive_Rejected"
proof -
  let ?c = "example_queue [example_dead 1 (lit ''/feed.rss'') 5, example_dead 2 [] 6]"
  have c: "events_ok (working ?c)" "held ?c = Sqlite" "faults ?c = []"
    by (simp_all add: events_ok_def example_queue_def example_dead_def new_feed_event_def row_ok_def
        diagnostic_ok_def)
  note redrive = redrive_all_or_nothing [OF c, of wide_range]
  show ?thesis
    unfolding redrive
    by (simp add: example_queue_def example_dead_def new_feed_event_def redrivable_def
        saturating_sub_def wide_range_def)
qed

definition regeneration_budget :: "feed_event_row \<Rightarrow> int \<times> ustr option" where
  "regeneration_budget r = (fe_regeneration_attempts r, fe_regeneration_diagnostic r)"

definition publication_budget :: "feed_event_row \<Rightarrow> int \<times> ustr option" where
  "publication_budget r = (fe_publication_attempts r, fe_publication_diagnostic r)"

lemma events_updated_all2:
  "(\<And>r. P r (f r)) \<Longrightarrow> (\<And>r. r = r \<Longrightarrow> fe_id r \<notin> set ids \<Longrightarrow> P r r) \<Longrightarrow>
     list_all2 P (feed_events d) (feed_events (events_updated ids f d))"
  by (auto simp: events_updated_def update_where_def list_all2_conv_all_nth)

definition charged :: "int list \<Rightarrow> (feed_event_row \<Rightarrow> int) \<Rightarrow> (feed_event_row \<Rightarrow> int \<times> ustr option) \<Rightarrow>
    feed_event_row \<Rightarrow> feed_event_row \<Rightarrow> bool" where
  "charged ids attempts other r r' \<longleftrightarrow>
     (if fe_id r \<in> set ids then attempts r' = attempts r + 1 \<and> other r' = other r \<and> fe_id r' = fe_id r
      else r' = r)"

lemma charged_update:
  assumes "\<And>r. attempts (f r) = attempts r + 1" and "\<And>r. other (f r) = other r"
    and "\<And>r. fe_id (f r) = fe_id r"
  shows "list_all2 (charged ids attempts other) (feed_events d) (feed_events (events_updated ids f d))"
  using assms
  by (auto simp: events_updated_def update_where_def charged_def list_all2_conv_all_nth)

text \<open>
  the two phases have separate budgets. Retrying or dead-lettering a regeneration charges one
  attempt to the regeneration counter of the given events, and leaves their publication counter
  and diagnostic alone; for a publication it is the other way round. Events that are not named
  keep their row.
\<close>

theorem separate_budgets:
  "((retry_regeneration db ids error at c = (Inr (), c') \<or>
     dead_letter_regeneration db ids error at c = (Inr (), c')) \<longrightarrow>
      list_all2 (charged ids fe_regeneration_attempts publication_budget)
        (feed_events (working c)) (feed_events (working c'))) \<and>
   ((retry_publication db ids error at c = (Inr (), c') \<or>
     dead_letter_publication db ids error at c = (Inr (), c')) \<longrightarrow>
      list_all2 (charged ids fe_publication_attempts regeneration_budget)
        (feed_events (working c)) (feed_events (working c')))"
  by (auto dest!: outcome_okD intro!: charged_update
      simp: outcome_row_defs publication_budget_def regeneration_budget_def)

theorem separate_budgets_witness:
  "\<exists>c'. retry_publication Sqlite [1] [101] 50 (example_queue [example_event 1 []]) = (Inr (), c') \<and>
     list_all2 (charged [1] fe_publication_attempts regeneration_budget)
       (feed_events (working (example_queue [example_event 1 []]))) (feed_events (working c'))"
proof -
  have "fst (retry_publication Sqlite [1] [101] 50 (example_queue [example_event 1 []])) = Inr ()"
    by (simp add: retry_publication_def sqlite_retry_publication_def update_events_def tx_eval
        example_queue_def)
  then obtain c' where "retry_publication Sqlite [1] [101] 50 (example_queue [example_event 1 []]) = (Inr (), c')"
    by (metis prod.collapse)
  with separate_budgets show ?thesis by blast
qed

subsection \<open>Walking the dead letters\<close>

text \<open>
  A reader that follows the cursors: it asks for the page after the last cursor until there is none.
\<close>

fun walk_dead_letters :: "nat \<Rightarrow> backend \<Rightarrow> feed_event_phase \<Rightarrow> nat \<Rightarrow> dead_letter_cursor option \<Rightarrow>
    database connection \<Rightarrow> dead_letter list option" where
  "walk_dead_letters 0 db phase page_size cursor c = None"
| "walk_dead_letters (Suc fuel) db phase page_size cursor c =
     (case dead_letters db phase cursor page_size c of
        (Inl e, c') \<Rightarrow> None
      | (Inr page, c') \<Rightarrow>
          (case page_next_cursor page of
             None \<Rightarrow> Some (page_events page)
           | Some next \<Rightarrow> map_option (\<lambda>rest. page_events page @ rest)
               (walk_dead_letters fuel db phase page_size (Some next) c')))"

definition dead_of :: "feed_event_phase \<Rightarrow> feed_event_row list \<Rightarrow> feed_event_row list" where
  "dead_of phase rs =
     sort_key dead_letter_order (filter (\<lambda>r. fe_status r = FE_Failed \<and> fe_phase r = phase) rs)"

definition remaining :: "feed_event_phase \<Rightarrow> dead_letter_cursor option \<Rightarrow> feed_event_row list \<Rightarrow>
    feed_event_row list" where
  "remaining phase cursor rs = filter (after_cursor cursor) (dead_of phase rs)"

lemma dead_letter_rows_remaining:
  "dead_letter_rows phase cursor n d =
     those (map dead_letter_row_of (take n (remaining phase cursor (feed_events d))))"
proof -
  have "filter (\<lambda>r. fe_status r = FE_Failed \<and> fe_phase r = phase \<and> after_cursor cursor r) rs =
      filter (after_cursor cursor) (filter (\<lambda>r. fe_status r = FE_Failed \<and> fe_phase r = phase) rs)" for rs
    by (induction rs) auto
  then show ?thesis
    by (simp add: dead_letter_rows_def top_by_def remaining_def dead_of_def filter_sort)
qed

text \<open>A dead letter as the reader sees it.\<close>

definition reads_as :: "feed_event_row \<Rightarrow> dead_letter \<Rightarrow> bool" where
  "reads_as r l \<longleftrightarrow> dl_id l = fe_id r \<and> fe_terminal_at r = Some (dl_terminal_at l) \<and>
     feed_path_from_str (fe_feed_url r) = Some (dl_feed_path l)"

lemma reads_as_ids: "list_all2 reads_as rs ls \<Longrightarrow> map dl_id ls = map fe_id rs"
  by (induction rule: list_all2_induct) (simp_all add: reads_as_def)

definition readable :: "feed_event_row \<Rightarrow> bool" where
  "readable r \<longleftrightarrow> fe_terminal_at r \<noteq> None \<and> feed_path_from_str (fe_feed_url r) \<noteq> None"

lemma readable_rows:
  "list_all readable rs \<Longrightarrow> \<exists>rows ls. those (map dead_letter_row_of rs) = Some rows \<and>
     length rows = length rs \<and>
     (\<forall>n. collect_results (map dead_letter_into_record (take n rows)) = Inr (take n ls)) \<and>
     list_all2 reads_as rs ls"
proof (induction rs)
  case (Cons r rs)
  then obtain rows ls where IH: "those (map dead_letter_row_of rs) = Some rows"
    "length rows = length rs"
    "\<forall>n. collect_results (map dead_letter_into_record (take n rows)) = Inr (take n ls)"
    "list_all2 reads_as rs ls" by auto
  obtain t path where t: "fe_terminal_at r = Some t" and path: "feed_path_from_str (fe_feed_url r) = Some path"
    using Cons.prems by (auto simp: readable_def)
  obtain row where row: "dead_letter_row_of r = Some row" "dlr_id row = fe_id r"
    "dlr_terminal_at row = t" "dlr_feed_url row = fe_feed_url r"
    by (simp add: dead_letter_row_of_def t)
  obtain l where l: "dead_letter_into_record row = Inr l" "dl_id l = fe_id r" "dl_terminal_at l = t"
    "dl_feed_path l = path"
    by (simp add: dead_letter_into_record_def row path)
  have "collect_results (map dead_letter_into_record (take n (row # rows))) = Inr (take n (l # ls))" for n
    using IH(3) l(1) by (cases n) simp_all
  moreover have "reads_as r l" by (simp add: reads_as_def l t path)
  ultimately show ?case using IH row(1)
    by (intro exI [of _ "row # rows"] exI [of _ "l # ls"]) simp
qed simp

lemma filter_after_nth:
  fixes f :: "'a \<Rightarrow> 'k::linorder"
  assumes "sorted (map f S)" and "distinct (map f S)" and "m < length S"
  shows "filter (\<lambda>x. f (S ! m) < f x) S = drop (Suc m) S"
proof -
  have strict: "f (S ! i) < f (S ! j)" if "i < j" "j < length S" for i j
  proof -
    have "sorted_wrt (<) (map f S)" using assms(1,2) by (simp add: strict_sorted_iff)
    from sorted_wrt_nth_less [OF this that(1)] that show ?thesis by simp
  qed
  have "filter (\<lambda>x. f (S ! m) < f x) (take (Suc m) S) = []"
  proof -
    have "\<not> f (S ! m) < f x" if x: "x \<in> set (take (Suc m) S)" for x
    proof -
      obtain i where "i \<le> m" "x = S ! i"
        using x assms(3) by (auto simp: in_set_conv_nth less_Suc_eq_le)
      with strict [of i m] assms(3) show ?thesis
        by (cases "i = m") (auto simp: less_le_not_le order.asym)
    qed
    then show ?thesis by (simp add: filter_empty_conv)
  qed
  moreover have "filter (\<lambda>x. f (S ! m) < f x) (drop (Suc m) S) = drop (Suc m) S"
  proof (rule filter_True)
    show "\<forall>x \<in> set (drop (Suc m) S). f (S ! m) < f x"
      using strict by (auto simp: in_set_conv_nth)
  qed
  ultimately show ?thesis
    by (metis append_Nil append_take_drop_id filter_append)
qed

lemma dead_letter_order_less:
  assumes "fe_terminal_at r = Some t" and "fe_terminal_at r' = Some t'"
  shows "dead_letter_order r < dead_letter_order r' \<longleftrightarrow> t' < t \<or> (t' = t \<and> fe_id r' < fe_id r)"
  using assms by (auto simp: dead_letter_order_def less_prod_def)

lemma remaining_after:
  assumes "distinct (map fe_id rs)" and "list_all readable (dead_of phase rs)"
    and "m < length (dead_of phase rs)" and "reads_as (dead_of phase rs ! m) l"
  shows "remaining phase (Some \<lparr>dlc_terminal_at = dl_terminal_at l, dlc_id = dl_id l\<rparr>) rs =
    drop (Suc m) (dead_of phase rs)"
proof -
  let ?S = "dead_of phase rs"
  have terminal: "\<exists>t. fe_terminal_at r = Some t" if "r \<in> set ?S" for r
    using assms(2) that by (auto simp: list_all_iff readable_def)
  have ids: "distinct (map fe_id ?S)"
    unfolding dead_of_def
    by (metis (no_types) assms(1) distinct_map distinct_map_filter distinct_sort set_sort)
  have "inj_on dead_letter_order (set ?S)"
  proof (rule inj_onI)
    fix r r' assume r: "r \<in> set ?S" "r' \<in> set ?S" and eq: "dead_letter_order r = dead_letter_order r'"
    from terminal [OF r(1)] terminal [OF r(2)] eq have "fe_id r = fe_id r'"
      by (auto simp: dead_letter_order_def)
    with ids r show "r = r'" by (metis distinct_map inj_onD)
  qed
  moreover have "distinct ?S" using ids by (simp add: distinct_map)
  ultimately have distinct: "distinct (map dead_letter_order ?S)" by (simp add: distinct_map)
  have sorted: "sorted (map dead_letter_order ?S)" by (simp add: dead_of_def)
  have m: "?S ! m \<in> set ?S" using assms(3) by simp
  have "after_cursor (Some \<lparr>dlc_terminal_at = dl_terminal_at l, dlc_id = dl_id l\<rparr>) r \<longleftrightarrow>
      dead_letter_order (?S ! m) < dead_letter_order r" if "r \<in> set ?S" for r
    using terminal [OF that] assms(4) dead_letter_order_less [of "?S ! m" "dl_terminal_at l" r]
    by (auto simp: after_cursor_def reads_as_def)
  then have "remaining phase (Some \<lparr>dlc_terminal_at = dl_terminal_at l, dlc_id = dl_id l\<rparr>) rs =
      filter (\<lambda>r. dead_letter_order (?S ! m) < dead_letter_order r) ?S"
    unfolding remaining_def by (intro filter_cong) auto
  then show ?thesis using filter_after_nth [OF sorted distinct assms(3)] by simp
qed

lemma dead_letters_page:
  assumes "faults c = []" and "remaining phase cursor (feed_events (committed c)) = R"
    and "list_all readable R" and "1 \<le> page_size"
  shows "\<exists>ls. list_all2 reads_as (take page_size R) ls \<and>
    dead_letters db phase cursor page_size c = (Inr \<lparr>page_events = ls,
      page_next_cursor = (if page_size < length R
        then Some \<lparr>dlc_terminal_at = dl_terminal_at (last ls), dlc_id = dl_id (last ls)\<rparr>
        else None)\<rparr>, c)"
proof -
  have "list_all readable (take (fetch_limit page_size) R)"
    using assms(3) set_take_subset by (fastforce simp: list_all_iff)
  from readable_rows [OF this] obtain rows ls where
    rows: "those (map dead_letter_row_of (take (fetch_limit page_size) R)) = Some rows"
    "length rows = length (take (fetch_limit page_size) R)"
    "\<forall>n. collect_results (map dead_letter_into_record (take n rows)) = Inr (take n ls)"
    and ls: "list_all2 reads_as (take (fetch_limit page_size) R) ls"
    by blast
  have query: "dead_letter_rows phase cursor (fetch_limit page_size) (committed c) = Some rows"
    using rows(1) by (simp add: dead_letter_rows_remaining assms(2))
  have more: "has_more page_size (length rows) \<longleftrightarrow> page_size < length R"
    by (auto simp: rows(2) has_more_def page_len_def fetch_limit_def)
  have take: "list_all2 reads_as (take page_size R) (take page_size ls)"
    using list_all2_takeI [OF ls, of page_size] by (simp add: fetch_limit_def min_def)
  have "take page_size ls \<noteq> []" if "page_size < length R"
    using list_all2_lengthD [OF take] that assms(4) by (cases "take page_size ls") auto
  then have page: "dead_letter_page_of page_size rows = Inr \<lparr>page_events = take page_size ls,
      page_next_cursor = (if page_size < length R
        then Some \<lparr>dlc_terminal_at = dl_terminal_at (last (take page_size ls)),
          dlc_id = dl_id (last (take page_size ls))\<rparr> else None)\<rparr>"
    using rows(3) more by (simp add: dead_letter_page_of_def page_len_def del: take_eq_Nil)
  have "dead_letters db phase cursor page_size c = (case dead_letter_page_of page_size rows of
      Inl e \<Rightarrow> (Inl e, c) | Inr page \<Rightarrow> (Inr page, c))"
    using assms(1) query
    by (cases db) (simp_all add: dead_letters_def sqlite_dead_letters_def postgres_dead_letters_def
        tx_eval split: sum.split)
  with page take show ?thesis by auto
qed

lemma walk_from:
  assumes "faults c = []" and "distinct (map fe_id (feed_events (committed c)))"
    and "S = dead_of phase (feed_events (committed c))" and "list_all readable S" and "1 \<le> page_size"
  shows "remaining phase cursor (feed_events (committed c)) = drop k S \<Longrightarrow> length (drop k S) < fuel \<Longrightarrow>
    \<exists>ls. walk_dead_letters fuel db phase page_size cursor c = Some ls \<and> list_all2 reads_as (drop k S) ls"
proof (induction fuel arbitrary: cursor k)
  case (Suc fuel)
  have "list_all readable (drop k S)"
    using assms(4) set_drop_subset by (fastforce simp: list_all_iff)
  from dead_letters_page [OF assms(1) Suc.prems(1) this assms(5)] obtain ls where
    ls: "list_all2 reads_as (take page_size (drop k S)) ls" and
    page: "dead_letters db phase cursor page_size c = (Inr \<lparr>page_events = ls,
      page_next_cursor = (if page_size < length (drop k S)
        then Some \<lparr>dlc_terminal_at = dl_terminal_at (last ls), dlc_id = dl_id (last ls)\<rparr>
        else None)\<rparr>, c)" by blast
  show ?case
  proof (cases "page_size < length (drop k S)")
    case False
    with page ls show ?thesis by simp
  next
    case True
    let ?m = "k + page_size - 1"
    have len: "length ls = page_size" using list_all2_lengthD [OF ls] True by simp
    have m: "?m < length S" "Suc ?m = k + page_size" using True assms(5) by auto
    have "reads_as (take page_size (drop k S) ! (page_size - 1)) (ls ! (page_size - 1))"
      by (rule list_all2_nthD2 [OF ls]) (use len assms(5) in simp)
    moreover have "ls ! (page_size - 1) = last ls"
      using len assms(5) by (cases ls) (auto simp: last_conv_nth)
    moreover have "take page_size (drop k S) ! (page_size - 1) = S ! ?m"
      using True assms(5) by simp
    ultimately have "reads_as (dead_of phase (feed_events (committed c)) ! ?m) (last ls)"
      by (simp add: assms(3))
    from remaining_after [OF assms(2) assms(4) [unfolded assms(3)] m(1) [unfolded assms(3)] this]
    have rem: "remaining phase (Some \<lparr>dlc_terminal_at = dl_terminal_at (last ls), dlc_id = dl_id (last ls)\<rparr>)
        (feed_events (committed c)) = drop (k + page_size) S"
      by (simp only: m(2) assms(3) [symmetric])
    have "length (drop (k + page_size) S) < fuel"
      using Suc.prems(2) True assms(5) by simp
    from Suc.IH [OF rem this] obtain rest where
      rest: "walk_dead_letters fuel db phase page_size (Some \<lparr>dlc_terminal_at = dl_terminal_at (last ls),
        dlc_id = dl_id (last ls)\<rparr>) c = Some rest" "list_all2 reads_as (drop (k + page_size) S) rest"
      by blast
    have "drop k S = take page_size (drop k S) @ drop (k + page_size) S"
      by (metis append_take_drop_id drop_drop add.commute)
    with ls rest(2) have "list_all2 reads_as (drop k S) (ls @ rest)"
      by (metis list_all2_appendI)
    with page rest(1) True show ?thesis by simp
  qed
qed simp

text \<open>
  following the cursors of the dead letters terminates and reads each of them exactly once:
  with any page size the concatenated pages are all failed events of the phase, latest first, ties
  by the larger identifier.
\<close>

theorem dead_letter_walk_complete:
  assumes "faults c = []" and "distinct (map fe_id (feed_events (committed c)))"
    and "list_all readable (filter (\<lambda>r. fe_status r = FE_Failed \<and> fe_phase r = phase)
      (feed_events (committed c)))"
    and "1 \<le> page_size" and "length (feed_events (committed c)) < fuel"
  shows "\<exists>ls. walk_dead_letters fuel db phase page_size None c = Some ls \<and>
    list_all2 reads_as (sort_key dead_letter_order
      (filter (\<lambda>r. fe_status r = FE_Failed \<and> fe_phase r = phase) (feed_events (committed c)))) ls"
proof -
  let ?S = "dead_of phase (feed_events (committed c))"
  have "list_all readable ?S" using assms(3) by (simp add: dead_of_def list_all_iff)
  moreover have "remaining phase None (feed_events (committed c)) = drop 0 ?S"
    by (simp add: remaining_def after_cursor_def)
  moreover have "length (drop 0 ?S) < fuel"
    using assms(5) length_filter_le [of "\<lambda>r. fe_status r = FE_Failed \<and> fe_phase r = phase" "feed_events (committed c)"]
    by (simp add: dead_of_def del: length_filter_le)
  ultimately show ?thesis
    using walk_from [OF assms(1,2) refl _ assms(4), of phase None 0 fuel db]
    by (simp add: dead_of_def)
qed

theorem dead_letter_walk_complete_witness:
  "\<exists>ls. walk_dead_letters 4 Postgres Publication 1 None
      (example_queue [example_dead 1 (lit ''/feed.rss'') 5, example_event 2 [],
        example_dead 3 (lit ''/feed.rss'') 6]) = Some ls \<and> map dl_id ls = [3, 1]"
proof -
  let ?rs = "[example_dead 1 (lit ''/feed.rss'') 5, example_event 2 [], example_dead 3 (lit ''/feed.rss'') 6]"
  let ?c = "example_queue ?rs"
  have S: "sort_key dead_letter_order (filter (\<lambda>r. fe_status r = FE_Failed \<and> fe_phase r = Publication)
      (feed_events (committed ?c))) = [example_dead 3 (lit ''/feed.rss'') 6, example_dead 1 (lit ''/feed.rss'') 5]"
    by (simp add: example_queue_def example_dead_def example_event_def new_feed_event_def
        dead_letter_order_def)
  have r: "list_all readable (filter (\<lambda>r. fe_status r = FE_Failed \<and> fe_phase r = Publication)
      (feed_events (committed ?c)))"
    using parse_site_feed by (simp add: example_queue_def example_dead_def example_event_def
        new_feed_event_def readable_def)
  have c: "faults ?c = []" "distinct (map fe_id (feed_events (committed ?c)))"
    "length (feed_events (committed ?c)) < 4"
    by (simp_all add: example_queue_def example_dead_def example_event_def new_feed_event_def)
  from dead_letter_walk_complete [OF c(1,2) r order_refl c(3), of Postgres, unfolded S] obtain ls where
    ls: "walk_dead_letters 4 Postgres Publication 1 None ?c = Some ls"
    "list_all2 reads_as [example_dead 3 (lit ''/feed.rss'') 6, example_dead 1 (lit ''/feed.rss'') 5] ls"
    by (elim exE conjE)
  have "map dl_id ls = [3, 1]"
    using reads_as_ids [OF ls(2)] by (simp add: example_dead_def new_feed_event_def)
  with ls(1) show ?thesis by (intro exI conjI)
qed

text \<open>
  retention of events is exact. On a healthy pool exactly the finished events, and the failed
  events of more than a week ago, are deleted, in batches of 200; whatever fails, a pending or
  claimed event and a recent dead letter are never deleted.
\<close>

theorem prune_events_exact:
  assumes "events_ok db"
  shows "(True \<notin> set fs \<longrightarrow> prune_terminal_events b now fs db =
      (Inr (count_where (event_retained_past now (saturating_sub b now (seconds 604800))) (feed_events db)),
       db\<lparr>feed_events := delete_where (event_retained_past now (saturating_sub b now (seconds 604800)))
         (feed_events db)\<rparr>)) \<and>
    {r \<in> set (feed_events db). fe_status r \<in> {FE_Pending, FE_Claimed} \<or>
        (fe_status r = FE_Failed \<and> (\<exists>t. fe_terminal_at r = Some t \<and> saturating_sub b now (seconds 604800) < t))}
      \<subseteq> set (feed_events (snd (prune_terminal_events b now fs db)))"
proof (intro conjI impI)
  have d: "distinct (map fe_id (feed_events db))" using assms by (simp add: events_ok_def)
  have cut: "failed_event_cutoff b now = saturating_sub b now (seconds 604800)"
    by (simp add: failed_event_cutoff_def)
  show "{r \<in> set (feed_events db). fe_status r \<in> {FE_Pending, FE_Claimed} \<or>
        (fe_status r = FE_Failed \<and> (\<exists>t. fe_terminal_at r = Some t \<and> saturating_sub b now (seconds 604800) < t))}
      \<subseteq> set (feed_events (snd (prune_terminal_events b now fs db)))"
  proof
    fix r assume r: "r \<in> {r \<in> set (feed_events db). fe_status r \<in> {FE_Pending, FE_Claimed} \<or>
        (fe_status r = FE_Failed \<and> (\<exists>t. fe_terminal_at r = Some t \<and> saturating_sub b now (seconds 604800) < t))}"
    then have "\<not> event_retained_past now (failed_event_cutoff b now) r"
      by (auto simp: event_retained_past_def cut split: option.split)
    then show "r \<in> set (feed_events (snd (prune_terminal_events b now fs db)))"
      using drain_keeps [OF d, of r] r by (simp add: prune_terminal_events_def case_prod_beta)
  qed
  assume "True \<notin> set fs"
  then show "prune_terminal_events b now fs db =
      (Inr (count_where (event_retained_past now (saturating_sub b now (seconds 604800))) (feed_events db)),
       db\<lparr>feed_events := delete_where (event_retained_past now (saturating_sub b now (seconds 604800)))
         (feed_events db)\<rparr>)"
    by (simp add: prune_terminal_events_def drain_complete [OF d] cut)
qed

theorem prune_events_exact_witness:
  "prune_terminal_events wide_range 20 [] (working (example_queue [example_event 1 []])) =
     (Inr 0, working (example_queue [example_event 1 []]))"
proof -
  have "events_ok (working (example_queue [example_event 1 []]))"
    by (simp add: events_ok_def example_queue_def example_event_def new_feed_event_def row_ok_def
        diagnostic_ok_def)
  from prune_events_exact [OF this, of "[]" wide_range 20] show ?thesis
    by (simp add: example_queue_def example_event_def new_feed_event_def event_retained_past_def
        count_where_def delete_where_def)
qed

end
