(* ===== verification/Site_Config.thy ===== *)
theory Site_Config
  imports Schema Text_Values
begin

section \<open>Site configuration\<close>

text \<open>
  \<^verbatim>\<open>storage/src/site_config.rs\<close> with the value types it parses:
  \<^verbatim>\<open>common/src/site.rs\<close>, \<^verbatim>\<open>common/src/tagged_url.rs\<close>,
  \<^verbatim>\<open>host/src/feed/settings.rs\<close> and the SMTP types. The parser of the
  \<^verbatim>\<open>url\<close> crate and the mailbox parser are arguments; a parsed URL is what the code reads
  of it. The table holds the keys of \<^verbatim>\<open>SiteConfigKey\<close>; orphaned rows, which the typed
  operations cannot name, are not represented.
\<close>

subsection \<open>Decimal numbers\<close>

text \<open>
  \<^verbatim>\<open>to_string\<close> and \<^verbatim>\<open>str::parse\<close> of the integer types: an optional plus sign, for
  signed types an optional minus sign, then at least one digit; overflow is an error.
\<close>

fun decimal :: "nat \<Rightarrow> ustr" where
  "decimal n = (if n < 10 then [48 + n] else decimal (n div 10) @ [48 + n mod 10])"

declare decimal.simps [simp del]

definition digits_value :: "ustr \<Rightarrow> nat option" where
  "digits_value s =
     (if s \<noteq> [] \<and> list_all is_ascii_digit s then Some (foldl (\<lambda>n c. 10 * n + (c - 48)) 0 s) else None)"

definition parse_unsigned :: "nat \<Rightarrow> ustr \<Rightarrow> nat option" where
  "parse_unsigned limit s =
     (case digits_value (if s \<noteq> [] \<and> hd s = 43 then tl s else s) of
        None \<Rightarrow> None
      | Some n \<Rightarrow> if n \<le> limit then Some n else None)"

definition parse_i64 :: "ustr \<Rightarrow> int option" where
  "parse_i64 s =
     (if s \<noteq> [] \<and> hd s = 45 then
        (case digits_value (tl s) of
           None \<Rightarrow> None
         | Some n \<Rightarrow> if n \<le> 9223372036854775808 then Some (- int n) else None)
      else map_option int (parse_unsigned 9223372036854775807 s))"

lemma decimal_digits: "list_all is_ascii_digit (decimal n) \<and> decimal n \<noteq> []"
proof (induction n rule: decimal.induct)
  case (1 n)
  then show ?case
    by (cases "n < 10") (simp_all add: decimal.simps [of n] is_ascii_digit_def [of "48 + _"])
qed

lemma digits_value_decimal: "digits_value (decimal n) = Some n"
proof -
  have "foldl (\<lambda>n c. 10 * n + (c - 48)) 0 (decimal n) = n"
  proof (induction n rule: decimal.induct)
    case (1 n)
    then show ?case by (subst decimal.simps) auto
  qed
  with decimal_digits [of n] show ?thesis by (simp add: digits_value_def)
qed

lemma digit_not_whitespace: "is_ascii_digit c \<Longrightarrow> \<not> is_whitespace c"
  by (auto simp: is_ascii_digit_def is_whitespace_def)

lemma decimal_ends: "is_ascii_digit (hd (decimal n))" "is_ascii_digit (last (decimal n))"
  using decimal_digits [of n] by (auto simp: list_all_iff)

lemma trim_decimal [simp]: "trim (decimal n) = decimal n"
  using decimal_ends [of n] decimal_digits [of n]
  by (intro trim_id) (simp add: trimmed_def digit_not_whitespace)

lemma hd_decimal: "hd (decimal n) \<noteq> 43" "hd (decimal n) \<noteq> 45"
  using decimal_ends(1) [of n] by (auto simp: is_ascii_digit_def)

lemma parse_unsigned_decimal: "n \<le> limit \<Longrightarrow> parse_unsigned limit (decimal n) = Some n"
  by (simp add: parse_unsigned_def hd_decimal digits_value_decimal)

lemma parse_i64_decimal:
  "n \<le> 9223372036854775807 \<Longrightarrow> parse_i64 (decimal n) = Some (int n)"
  by (simp add: parse_i64_def hd_decimal parse_unsigned_decimal)

subsection \<open>Values\<close>

text \<open>The feed window: both minimums are at least 1 and have a default.\<close>

definition parse_feed_min_items :: "ustr \<Rightarrow> int option" where
  "parse_feed_min_items s =
     (case parse_i64 (trim s) of None \<Rightarrow> None | Some v \<Rightarrow> if v < 1 then None else Some v)"

definition parse_feed_min_days :: "ustr \<Rightarrow> nat option" where
  "parse_feed_min_days s =
     (case parse_unsigned 4294967295 (trim s) of
        None \<Rightarrow> None | Some v \<Rightarrow> if v < 1 then None else Some v)"

definition default_feed_min_items :: int where
  "default_feed_min_items = 20"

definition default_feed_min_days :: nat where
  "default_feed_min_days = 30"

definition parse_site_title :: "ustr \<Rightarrow> ustr option" where
  "parse_site_title s = (let t = trim s in if t = [] then None else Some t)"

definition default_site_title :: ustr where
  "default_site_title = lit ''Jaunder''"

datatype invalid_site_tagline = Blank | LineSeparator | TooLong

definition parse_site_tagline :: "ustr \<Rightarrow> invalid_site_tagline + ustr" where
  "parse_site_tagline s =
     (if list_ex (\<lambda>c. c \<in> {13, 10, 0x85, 0x2028, 0x2029}) s then Inl LineSeparator
      else let t = trim s in
        if t = [] then Inl Blank else if 280 < length t then Inl TooLong else Inr t)"

definition parse_optional_tagline :: "ustr \<Rightarrow> invalid_site_tagline + ustr option" where
  "parse_optional_tagline raw =
     (case parse_site_tagline raw of
        Inr t \<Rightarrow> Inr (Some t)
      | Inl Blank \<Rightarrow> Inr None
      | Inl e \<Rightarrow> Inl e)"

definition tagline_ok :: "ustr \<Rightarrow> ustr option" where
  "tagline_ok s = (case parse_site_tagline s of Inl _ \<Rightarrow> None | Inr t \<Rightarrow> Some t)"

text \<open>
  What the code reads of a parsed URL: its scheme, its host, its serialization, and its
  serialization once path, query and fragment are cleared.
\<close>

datatype url_host = Domain ustr | Ip ustr

fun host_text :: "url_host \<Rightarrow> ustr" where
  "host_text (Domain d) = d"
| "host_text (Ip a) = a"

record url =
  url_scheme :: ustr
  url_host :: "url_host option"
  url_text :: ustr
  url_bare :: ustr

type_synonym url_parser = "ustr \<Rightarrow> url option"

definition host_str :: "url \<Rightarrow> ustr option" where
  "host_str u = map_option host_text (url_host u)"

definition parse_tagged_url :: "url_parser \<Rightarrow> ustr \<Rightarrow> ustr option" where
  "parse_tagged_url parse s =
     (case parse (trim s) of
        None \<Rightarrow> None
      | Some u \<Rightarrow> if url_scheme u \<in> {lit ''http'', lit ''https''} then Some (url_text u) else None)"

text \<open>
  The documented behaviour of the URL parser the code relies on: the serialization of a parsed
  URL parses to the same URL, starts and ends with no white space, and is not empty.
\<close>

definition url_parser_ok :: "url_parser \<Rightarrow> bool" where
  "url_parser_ok parse \<longleftrightarrow> parse [] = None \<and>
     (\<forall>s u. parse s = Some u \<longrightarrow>
        parse (url_text u) = Some u \<and> trimmed (url_text u) \<and> url_text u \<noteq> [])"

lemma url_parser_okD:
  assumes "url_parser_ok parse" and "parse s = Some u"
  shows "parse (url_text u) = Some u \<and> trimmed (url_text u) \<and> url_text u \<noteq> []"
  by (rule assms(1) [unfolded url_parser_ok_def, THEN conjunct2, THEN spec, THEN spec, THEN mp, OF assms(2)])

lemma parse_tagged_url_stable:
  assumes "url_parser_ok parse" and "parse_tagged_url parse s = Some t"
  shows "parse_tagged_url parse t = Some t" and "t \<noteq> []" and "trim t = t"
proof -
  obtain u where u: "parse (trim s) = Some u" "url_scheme u \<in> {lit ''http'', lit ''https''}"
    "t = url_text u"
    using assms(2) by (auto simp: parse_tagged_url_def split: option.splits if_splits)
  have ok: "parse t = Some u" "trimmed t" "t \<noteq> []"
    using url_parser_okD [OF assms(1) u(1)] by (simp_all only: u(3) simp_thms)
  from ok(2) show tr: "trim t = t" by (rule trim_id)
  show "t \<noteq> []" by (rule ok(3))
  show "parse_tagged_url parse t = Some t"
    unfolding parse_tagged_url_def tr ok(1) using u(2,3) by simp
qed

lemma parse_tagged_url_blank: "url_parser_ok parse \<Longrightarrow> trim s = [] \<Longrightarrow> parse_tagged_url parse s = None"
  unfolding parse_tagged_url_def url_parser_ok_def by (elim conjE) simp

subsection \<open>The SMTP values\<close>

datatype smtp_tls_mode = Plain | StartTls | Tls

fun tls_mode_token :: "smtp_tls_mode \<Rightarrow> ustr" where
  "tls_mode_token Plain = lit ''plain''"
| "tls_mode_token StartTls = lit ''starttls''"
| "tls_mode_token Tls = lit ''tls''"

definition parse_tls_mode :: "ustr \<Rightarrow> smtp_tls_mode option" where
  "parse_tls_mode s =
     (if s = lit ''plain'' then Some Plain
      else if s = lit ''starttls'' then Some StartTls
      else if s = lit ''tls'' then Some Tls
      else None)"

definition parse_smtp_host :: "ustr \<Rightarrow> ustr option" where
  "parse_smtp_host s = (if s = [] then None else Some s)"

definition parse_smtp_username :: "ustr \<Rightarrow> ustr option" where
  "parse_smtp_username s = (if s = [] then None else Some s)"

definition parse_smtp_password :: "ustr \<Rightarrow> ustr option" where
  "parse_smtp_password s = (if s = [] then None else Some s)"

definition parse_smtp_port :: "ustr \<Rightarrow> nat option" where
  "parse_smtp_port s =
     (case parse_unsigned 65535 s of
        None \<Rightarrow> None | Some port \<Rightarrow> if port = 0 then None else Some port)"

definition default_smtp_port :: nat where
  "default_smtp_port = 587"

definition parse_smtp_sender :: "(ustr \<Rightarrow> bool) \<Rightarrow> ustr \<Rightarrow> ustr option" where
  "parse_smtp_sender is_mailbox s = (if is_mailbox s then Some s else None)"

definition default_smtp_sender :: ustr where
  "default_smtp_sender = lit ''Jaunder <noreply@localhost>''"

record smtp_config =
  smtp_host :: ustr
  smtp_port :: nat
  smtp_tls :: smtp_tls_mode
  smtp_username :: "ustr option"
  smtp_password :: "ustr option"
  smtp_sender :: ustr

datatype smtp_credentials_update =
    Unauthenticated
  | Keep ustr
  | Replace ustr ustr

datatype smtp_config_update =
    Smtp_Disabled
  | Smtp_Enabled ustr nat smtp_tls_mode ustr smtp_credentials_update

lemma parse_tls_mode_token [simp]: "parse_tls_mode (tls_mode_token m) = Some m"
  by (cases m) (simp_all add: parse_tls_mode_def)

lemma parse_smtp_port_decimal: "1 \<le> n \<Longrightarrow> n \<le> 65535 \<Longrightarrow> parse_smtp_port (decimal n) = Some n"
  by (simp add: parse_smtp_port_def parse_unsigned_decimal)

subsection \<open>The store\<close>

definition tx_of_result :: "'e + 'a \<Rightarrow> ('db, 'e, 'a) tx" where
  "tx_of_result r = (case r of Inl e \<Rightarrow> tx_throw e | Inr a \<Rightarrow> tx_return a)"

definition is_feed_key :: "site_config_key \<Rightarrow> bool" where
  "is_feed_key key \<longleftrightarrow> key \<in> {FeedsWebsubHubUrl, FeedsMinItems, FeedsMinDays}"

definition smtp_config_keys :: "site_config_key list" where
  "smtp_config_keys = [SmtpHost, SmtpPort, SmtpTlsMode, SmtpSender, SmtpUsername, SmtpPassword]"

definition is_smtp_config_key :: "site_config_key \<Rightarrow> bool" where
  "is_smtp_config_key key \<longleftrightarrow> key \<in> set smtp_config_keys"

text \<open>
  The advisory lock of PostgreSQL is a statement that changes nothing; SQLite already holds its
  write lock.
\<close>

definition lock_smtp_config :: "backend \<Rightarrow> (database, sql_error, unit) tx" where
  "lock_smtp_config db = (if db = Postgres then execute (\<lambda>d. d) else tx_return ())"

definition set_stored_on :: "site_config_key \<Rightarrow> ustr \<Rightarrow> (database, sql_error, unit) tx" where
  "set_stored_on key value = execute (\<lambda>d. d\<lparr>site_config := (site_config d)(key \<mapsto> value)\<rparr>)"

definition set_stored :: "backend \<Rightarrow> site_config_key \<Rightarrow> ustr \<Rightarrow> (database, sql_error, unit) tx" where
  "set_stored db key value =
     tx_bind (write_connection db) (\<lambda>_.
     execute (\<lambda>d. d\<lparr>site_config := (site_config d)(key \<mapsto> value)\<rparr>))"

definition delete_stored :: "site_config_key \<Rightarrow> (database, sql_error, unit) tx" where
  "delete_stored key = execute (\<lambda>d. d\<lparr>site_config := (site_config d)(key := None)\<rparr>)"

definition get_raw :: "site_config_key \<Rightarrow> (database, sql_error, ustr option) tx" where
  "get_raw key = pool_query (\<lambda>d. site_config d key)"

definition site_config_set :: "backend \<Rightarrow> site_config_key \<Rightarrow> ustr \<Rightarrow> (database, sql_error, unit) tx" where
  "site_config_set db key value =
     (if is_feed_key key then tx_throw Protocol
      else
        tx_bind (if is_smtp_config_key key
                 then tx_bind (write_connection db) (\<lambda>_. lock_smtp_config db)
                 else tx_return ()) (\<lambda>_.
        set_stored db key value))"

definition site_config_delete :: "backend \<Rightarrow> site_config_key \<Rightarrow> (database, sql_error, bool) tx" where
  "site_config_delete db key =
     (if is_feed_key key then tx_throw Protocol
      else
        tx_bind (write_connection db) (\<lambda>_.
        tx_bind (if is_smtp_config_key key then lock_smtp_config db else tx_return ()) (\<lambda>_.
        statement (\<lambda>d. (Inr (site_config d key \<noteq> None),
          d\<lparr>site_config := (site_config d)(key := None)\<rparr>)))))"

subsection \<open>Identity and feed settings\<close>

record site_identity =
  identity_title :: ustr
  identity_tagline :: "ustr option"
  identity_base_url :: "ustr option"

definition stored_base_url :: "url_parser \<Rightarrow> ustr option \<Rightarrow> ustr option" where
  "stored_base_url parse raw = Option.bind (Option.bind raw non_empty) (parse_tagged_url parse)"

definition get_base_url_in_transaction ::
  "url_parser \<Rightarrow> backend \<Rightarrow> (database, sql_error, ustr option) tx" where
  "get_base_url_in_transaction parse db =
     tx_bind (write_connection db) (\<lambda>_.
     query (\<lambda>d. stored_base_url parse (site_config d SiteBaseUrl)))"

definition identity_of :: "url_parser \<Rightarrow> (site_config_key \<rightharpoonup> ustr) \<Rightarrow> site_identity" where
  "identity_of parse cfg = \<lparr>
     identity_title =
       (case Option.bind (cfg SiteTitle) parse_site_title of
          None \<Rightarrow> default_site_title | Some t \<Rightarrow> t),
     identity_tagline = Option.bind (cfg SiteTagline) tagline_ok,
     identity_base_url = stored_base_url parse (cfg SiteBaseUrl)\<rparr>"

definition get_identity :: "url_parser \<Rightarrow> (database, sql_error, site_identity) tx" where
  "get_identity parse = pool_query (\<lambda>d. identity_of parse (site_config d))"

record feeds_config =
  feeds_min_items :: int
  feeds_min_days :: nat
  feeds_websub_hub_url :: "ustr option"

definition parse_feed_minimum ::
  "(ustr \<Rightarrow> 'a option) \<Rightarrow> 'a \<Rightarrow> ustr option \<Rightarrow> sql_error + 'a" where
  "parse_feed_minimum parse fallback value =
     (case value of
        None \<Rightarrow> Inr fallback
      | Some raw \<Rightarrow> (case parse raw of None \<Rightarrow> Inl ColumnDecode | Some v \<Rightarrow> Inr v))"

definition feeds_config_of ::
  "url_parser \<Rightarrow> (site_config_key \<rightharpoonup> ustr) \<Rightarrow> sql_error + feeds_config" where
  "feeds_config_of parse cfg =
     (case parse_feed_minimum parse_feed_min_items default_feed_min_items (cfg FeedsMinItems) of
        Inl e \<Rightarrow> Inl e
      | Inr items \<Rightarrow>
          (case parse_feed_minimum parse_feed_min_days default_feed_min_days (cfg FeedsMinDays) of
             Inl e \<Rightarrow> Inl e
           | Inr days \<Rightarrow> Inr \<lparr>feeds_min_items = items, feeds_min_days = days,
               feeds_websub_hub_url =
                 Option.bind (Option.bind (cfg FeedsWebsubHubUrl) non_empty) (parse_tagged_url parse)\<rparr>))"

definition get_feeds_config :: "url_parser \<Rightarrow> (database, sql_error, feeds_config) tx" where
  "get_feeds_config parse =
     tx_bind (pool_query site_config) (\<lambda>cfg. tx_of_result (feeds_config_of parse cfg))"

subsection \<open>The SMTP aggregate\<close>

text \<open>Every column of the row is decoded before the row is looked at.\<close>

fun decode_column :: "(ustr \<Rightarrow> 'a option) \<Rightarrow> ustr option \<Rightarrow> 'a option option" where
  "decode_column parse None = Some None"
| "decode_column parse (Some raw) = map_option Some (parse raw)"

definition smtp_config_of ::
  "(ustr \<Rightarrow> bool) \<Rightarrow> (site_config_key \<rightharpoonup> ustr) \<Rightarrow> sql_error + smtp_config option" where
  "smtp_config_of is_mailbox cfg =
     (case (decode_column parse_smtp_host (cfg SmtpHost), decode_column parse_smtp_port (cfg SmtpPort),
            decode_column parse_tls_mode (cfg SmtpTlsMode),
            decode_column (parse_smtp_sender is_mailbox) (cfg SmtpSender),
            decode_column parse_smtp_username (cfg SmtpUsername),
            decode_column parse_smtp_password (cfg SmtpPassword)) of
        (Some host, Some port, Some tls, Some sender, Some username, Some password) \<Rightarrow>
          (case host of
             None \<Rightarrow> Inr None
           | Some h \<Rightarrow> Inr (Some \<lparr>
               smtp_host = h,
               smtp_port = (case port of None \<Rightarrow> default_smtp_port | Some p \<Rightarrow> p),
               smtp_tls = (case tls of None \<Rightarrow> StartTls | Some m \<Rightarrow> m),
               smtp_username = username,
               smtp_password = password,
               smtp_sender = (case sender of None \<Rightarrow> default_smtp_sender | Some s \<Rightarrow> s)\<rparr>))
      | _ \<Rightarrow> Inl ColumnDecode)"

definition get_smtp_config ::
  "(ustr \<Rightarrow> bool) \<Rightarrow> (database, sql_error, smtp_config option) tx" where
  "get_smtp_config is_mailbox =
     tx_bind (pool_query site_config) (\<lambda>cfg. tx_of_result (smtp_config_of is_mailbox cfg))"

datatype smtp_update_error = MissingStoredPassword | Smtp_Database sql_error

fun delete_keys :: "site_config_key list \<Rightarrow> (database, sql_error, unit) tx" where
  "delete_keys [] = tx_return ()"
| "delete_keys (key # keys) = tx_bind (delete_stored key) (\<lambda>_. delete_keys keys)"

fun set_smtp_credentials :: "smtp_credentials_update \<Rightarrow> (database, sql_error, unit) tx" where
  "set_smtp_credentials Unauthenticated =
     tx_bind (delete_stored SmtpUsername) (\<lambda>_. delete_stored SmtpPassword)"
| "set_smtp_credentials (Keep username) = set_stored_on SmtpUsername username"
| "set_smtp_credentials (Replace username password) =
     tx_bind (set_stored_on SmtpUsername username) (\<lambda>_. set_stored_on SmtpPassword password)"

fun is_keep :: "smtp_credentials_update \<Rightarrow> bool" where
  "is_keep (Keep _) = True"
| "is_keep _ = False"

definition update_smtp_config ::
  "backend \<Rightarrow> smtp_config_update \<Rightarrow> (database, smtp_update_error, unit) tx" where
  "update_smtp_config db update =
     tx_bind (tx_map_err Smtp_Database
       (tx_bind (write_connection db) (\<lambda>_. lock_smtp_config db))) (\<lambda>_.
     case update of
       Smtp_Disabled \<Rightarrow> tx_map_err Smtp_Database (delete_keys smtp_config_keys)
     | Smtp_Enabled host port tls_mode sender credentials \<Rightarrow>
         tx_bind (tx_map_err Smtp_Database (query (\<lambda>d. site_config d SmtpPassword \<noteq> None)))
           (\<lambda>password_exists.
         if is_keep credentials \<and> \<not> password_exists then tx_throw MissingStoredPassword
         else tx_map_err Smtp_Database
           (tx_bind (set_stored_on SmtpHost host) (\<lambda>_.
            tx_bind (set_stored_on SmtpPort (decimal port)) (\<lambda>_.
            tx_bind (set_stored_on SmtpTlsMode (tls_mode_token tls_mode)) (\<lambda>_.
            tx_bind (set_stored_on SmtpSender sender) (\<lambda>_.
            set_smtp_credentials credentials)))))))"

subsection \<open>The base URL while passkeys exist\<close>

text \<open>
  The guarded mutations of \<^verbatim>\<open>site.base_url\<close>, with the two operations of the passkey
  store they call (\<^verbatim>\<open>storage/src/passkeys.rs\<close> and its dialects).
\<close>

definition lock_rp_host :: "backend \<Rightarrow> (database, sql_error, unit) tx" where
  "lock_rp_host db =
     (case db of
        Sqlite \<Rightarrow> tx_return ()
      | Postgres \<Rightarrow> tx_bind (write_connection Postgres) (\<lambda>_. execute (\<lambda>d. d)))"

definition has_credentials :: "backend \<Rightarrow> (database, sql_error, bool) tx" where
  "has_credentials db =
     tx_bind (write_connection db) (\<lambda>_. query (\<lambda>d. passkey_credentials d \<noteq> []))"

datatype base_url_mutation_error = RpHostLocked | Validation | BaseUrl_Database sql_error

definition check_same_host ::
  "url_parser \<Rightarrow> ustr option \<Rightarrow> ustr option \<Rightarrow> base_url_mutation_error + unit" where
  "check_same_host parse current requested =
     (case (current, requested) of
        (Some c, Some r) \<Rightarrow>
          (case parse c of
             None \<Rightarrow> Inl Validation
           | Some cu \<Rightarrow>
               (case parse r of
                  None \<Rightarrow> Inl Validation
                | Some ru \<Rightarrow> if host_str cu = host_str ru then Inr () else Inl RpHostLocked))
      | _ \<Rightarrow> Inl RpHostLocked)"

definition set_base_url_with_passkey_guard ::
  "url_parser \<Rightarrow> backend \<Rightarrow> ustr option \<Rightarrow> (database, base_url_mutation_error, unit) tx" where
  "set_base_url_with_passkey_guard parse db base_url =
     tx_bind (tx_map_err BaseUrl_Database (lock_rp_host db)) (\<lambda>_.
     tx_bind (tx_map_err BaseUrl_Database (get_base_url_in_transaction parse db)) (\<lambda>current.
     tx_bind (tx_map_err BaseUrl_Database (has_credentials db)) (\<lambda>locked.
     tx_bind (if locked then tx_of_result (check_same_host parse current base_url) else tx_return ())
       (\<lambda>_.
     tx_map_err BaseUrl_Database
       (site_config_set db SiteBaseUrl (case base_url of None \<Rightarrow> [] | Some u \<Rightarrow> u))))))"

definition clear_base_url_with_passkey_guard ::
  "url_parser \<Rightarrow> backend \<Rightarrow> (database, base_url_mutation_error, bool) tx" where
  "clear_base_url_with_passkey_guard parse db =
     tx_bind (tx_map_err BaseUrl_Database (lock_rp_host db)) (\<lambda>_.
     tx_bind (tx_map_err BaseUrl_Database (get_base_url_in_transaction parse db)) (\<lambda>_.
     tx_bind (tx_map_err BaseUrl_Database (has_credentials db)) (\<lambda>locked.
     if locked then tx_throw RpHostLocked
     else tx_map_err BaseUrl_Database (site_config_delete db SiteBaseUrl))))"

subsection \<open>Properties\<close>

lemma tx_of_result_ok_iff [tx_simps]:
  "tx_of_result r c = (Inr a, c') \<longleftrightarrow> r = Inr a \<and> c' = c"
  by (cases r) (auto simp: tx_of_result_def tx_return_def tx_throw_def)

lemma set_stored_on_ok_iff [tx_simps]:
  "set_stored_on key value c = (Inr u, c') \<longleftrightarrow> \<not> next_fault c \<and>
     c' = (spend_fault c)\<lparr>working := (working c)\<lparr>site_config := (site_config (working c))(key \<mapsto> value)\<rparr>\<rparr>"
  by (simp add: set_stored_on_def tx_simps)

lemma delete_stored_ok_iff [tx_simps]:
  "delete_stored key c = (Inr u, c') \<longleftrightarrow> \<not> next_fault c \<and>
     c' = (spend_fault c)\<lparr>working := (working c)\<lparr>site_config := (site_config (working c))(key := None)\<rparr>\<rparr>"
  by (simp add: delete_stored_def tx_simps)

lemma lock_smtp_config_okD: "lock_smtp_config db c = (Inr u, c') \<Longrightarrow> working c' = working c"
  by (auto simp: lock_smtp_config_def tx_simps split: if_splits)

text \<open>
  The configuration an update stands for: an aggregate whose user name and password are set or
  absent together.
\<close>

fun expected_credentials :: "ustr option \<Rightarrow> smtp_credentials_update \<Rightarrow> (ustr \<times> ustr) option" where
  "expected_credentials stored Unauthenticated = None"
| "expected_credentials stored (Keep username) = map_option (\<lambda>p. (username, p)) stored"
| "expected_credentials stored (Replace username password) = Some (username, password)"

fun expected_smtp :: "ustr option \<Rightarrow> smtp_config_update \<Rightarrow> smtp_config option" where
  "expected_smtp stored Smtp_Disabled = None"
| "expected_smtp stored (Smtp_Enabled host port tls sender credentials) =
     Some \<lparr>smtp_host = host, smtp_port = port, smtp_tls = tls,
       smtp_username = map_option fst (expected_credentials stored credentials),
       smtp_password = map_option snd (expected_credentials stored credentials),
       smtp_sender = sender\<rparr>"

fun credentials_valid :: "smtp_credentials_update \<Rightarrow> bool" where
  "credentials_valid Unauthenticated = True"
| "credentials_valid (Keep username) = (username \<noteq> [])"
| "credentials_valid (Replace username password) = (username \<noteq> [] \<and> password \<noteq> [])"

fun smtp_update_valid :: "(ustr \<Rightarrow> bool) \<Rightarrow> smtp_config_update \<Rightarrow> bool" where
  "smtp_update_valid is_mailbox Smtp_Disabled = True"
| "smtp_update_valid is_mailbox (Smtp_Enabled host port tls sender credentials) =
     (host \<noteq> [] \<and> 1 \<le> port \<and> port \<le> 65535 \<and> is_mailbox sender \<and> credentials_valid credentials)"

definition smtp_credentials_cfg ::
  "smtp_credentials_update \<Rightarrow> (site_config_key \<rightharpoonup> ustr) \<Rightarrow> (site_config_key \<rightharpoonup> ustr)" where
  "smtp_credentials_cfg credentials cfg =
     (case credentials of
        Unauthenticated \<Rightarrow> cfg(SmtpUsername := None, SmtpPassword := None)
      | Keep username \<Rightarrow> cfg(SmtpUsername \<mapsto> username)
      | Replace username password \<Rightarrow> cfg(SmtpUsername \<mapsto> username, SmtpPassword \<mapsto> password))"

lemma set_smtp_credentials_cfg:
  "set_smtp_credentials credentials c = (Inr u, c') \<Longrightarrow>
     site_config (working c') = smtp_credentials_cfg credentials (site_config (working c))"
  by (cases credentials) (clarsimp simp: tx_simps smtp_credentials_cfg_def)+

lemma delete_keys_cfg:
  "delete_keys keys c = (Inr u, c') \<Longrightarrow>
     site_config (working c') = (\<lambda>k. if k \<in> set keys then None else site_config (working c) k)"
  by (induction keys arbitrary: c) (auto simp: tx_simps fun_eq_iff)

lemma update_smtp_config_cfg:
  assumes "update_smtp_config db update c = (Inr u, c')"
  shows "case update of
      Smtp_Disabled \<Rightarrow>
        site_config (working c') =
          (\<lambda>k. if is_smtp_config_key k then None else site_config (working c) k)
    | Smtp_Enabled host port tls sender credentials \<Rightarrow>
        (is_keep credentials \<longrightarrow> site_config (working c) SmtpPassword \<noteq> None) \<and>
        site_config (working c') = smtp_credentials_cfg credentials
          ((site_config (working c))(SmtpHost \<mapsto> host, SmtpPort \<mapsto> decimal port,
             SmtpTlsMode \<mapsto> tls_mode_token tls, SmtpSender \<mapsto> sender))"
proof (cases update)
  case Smtp_Disabled
  with assms show ?thesis
    by (auto simp: update_smtp_config_def tx_simps is_smtp_config_key_def
        dest!: lock_smtp_config_okD delete_keys_cfg)
next
  case (Smtp_Enabled host port tls sender credentials)
  with assms obtain c1 c2 c3 where lock: "lock_smtp_config db c1 = (Inr (), c2)" "working c1 = working c"
    and keep: "\<not> (is_keep credentials \<and> site_config (working c2) SmtpPassword = None)"
    and creds: "set_smtp_credentials credentials c3 = (Inr u, c')"
    and c3: "site_config (working c3) = (site_config (working c2))(SmtpHost \<mapsto> host,
      SmtpPort \<mapsto> decimal port, SmtpTlsMode \<mapsto> tls_mode_token tls, SmtpSender \<mapsto> sender)"
    unfolding update_smtp_config_def by (clarsimp simp: tx_simps split: if_split_asm) force+
  from lock_smtp_config_okD [OF lock(1)] lock(2) keep set_smtp_credentials_cfg [OF creds] c3
  show ?thesis by (simp add: Smtp_Enabled)
qed

text \<open>
  the SMTP aggregate is updated as a whole. After a successful update the configuration that
  is read is the one the update stands for, a kept password being the one stored before; the user
  name and the password are set or absent together, and no other configuration key has changed.
\<close>

theorem smtp_update_read_back:
  assumes "update_smtp_config db update c = (Inr (), c')" and "smtp_update_valid is_mailbox update"
    and "site_config (working c) SmtpPassword \<noteq> Some []"
  shows "smtp_config_of is_mailbox (site_config (working c')) =
      Inr (expected_smtp (site_config (working c) SmtpPassword) update) \<and>
    (site_config (working c') SmtpUsername = None \<longleftrightarrow> site_config (working c') SmtpPassword = None) \<and>
    (\<forall>key. is_smtp_config_key key \<or> site_config (working c') key = site_config (working c) key)"
proof (cases update)
  case Smtp_Disabled
  with update_smtp_config_cfg [OF assms(1)] show ?thesis
    by (simp add: smtp_config_of_def is_smtp_config_key_def smtp_config_keys_def)
next
  case (Smtp_Enabled host port tls sender credentials)
  let ?cfg = "(site_config (working c))(SmtpHost \<mapsto> host, SmtpPort \<mapsto> decimal port,
    SmtpTlsMode \<mapsto> tls_mode_token tls, SmtpSender \<mapsto> sender)"
  from update_smtp_config_cfg [OF assms(1)] Smtp_Enabled
  have cfg: "site_config (working c') = smtp_credentials_cfg credentials ?cfg"
    and keep: "is_keep credentials \<longrightarrow> site_config (working c) SmtpPassword \<noteq> None"
    by simp_all
  have valid: "host \<noteq> []" "1 \<le> port" "port \<le> 65535" "is_mailbox sender" "credentials_valid credentials"
    using assms(2) Smtp_Enabled by simp_all
  note parse = parse_smtp_host_def parse_smtp_port_decimal [OF valid(2,3)] parse_smtp_sender_def
    parse_smtp_username_def parse_smtp_password_def
  note eval = Smtp_Enabled smtp_config_of_def smtp_credentials_cfg_def parse
    is_smtp_config_key_def smtp_config_keys_def
  show ?thesis
  proof (cases credentials)
    case Unauthenticated
    with valid show ?thesis unfolding cfg by (simp add: eval)
  next
    case (Keep username)
    with keep assms(3) obtain p where "site_config (working c) SmtpPassword = Some p" "p \<noteq> []" by auto
    with Keep valid show ?thesis unfolding cfg by (simp add: eval)
  next
    case (Replace username password)
    with valid show ?thesis unfolding cfg by (simp add: eval)
  qed
qed

definition example_connection :: "backend \<Rightarrow> database \<Rightarrow> database connection" where
  "example_connection db d = \<lparr>held = db, committed = d, working = d, faults = []\<rparr>"

lemma example_connection_sel [simp]:
  "held (example_connection db d) = db" "working (example_connection db d) = d"
  "committed (example_connection db d) = d" "faults (example_connection db d) = []"
  by (simp_all add: example_connection_def)

definition example_smtp_update :: smtp_config_update where
  "example_smtp_update = Smtp_Enabled (lit ''relay'') 25 Tls (lit ''me@relay'') (Keep (lit ''ada''))"

theorem smtp_update_read_back_witness:
  "\<exists>c'. update_smtp_config Postgres example_smtp_update (example_connection Postgres
      (empty_database\<lparr>site_config := [SmtpPassword \<mapsto> lit ''secret'']\<rparr>)) = (Inr (), c') \<and>
    map_option smtp_password (projr (smtp_config_of (\<lambda>_. True) (site_config (working c')))) =
      Some (Some (lit ''secret''))"
proof -
  let ?c = "example_connection Postgres (empty_database\<lparr>site_config := [SmtpPassword \<mapsto> lit ''secret'']\<rparr>)"
  have "fst (update_smtp_config Postgres example_smtp_update ?c) = Inr ()"
    by (simp add: update_smtp_config_def example_smtp_update_def tx_eval lock_smtp_config_def
        set_stored_on_def example_connection_def)
  then obtain c' where c': "update_smtp_config Postgres example_smtp_update ?c = (Inr (), c')"
    by (metis prod.collapse)
  have "smtp_update_valid (\<lambda>_. True) example_smtp_update"
    by (simp add: example_smtp_update_def)
  from smtp_update_read_back [OF c' this] c' show ?thesis
    by (simp add: example_smtp_update_def)
qed

text \<open>The host the relying party is identified by.\<close>

definition rp_host :: "url_parser \<Rightarrow> database \<Rightarrow> ustr option" where
  "rp_host parse d =
     Option.bind (stored_base_url parse (site_config d SiteBaseUrl)) (\<lambda>u. Option.bind (parse u) host_str)"

lemma lock_rp_host_okD: "lock_rp_host db c = (Inr u, c') \<Longrightarrow> working c' = working c"
  by (auto simp: lock_rp_host_def tx_simps split: backend.splits)

lemma get_base_url_okD:
  "get_base_url_in_transaction parse db c = (Inr u, c') \<Longrightarrow>
     working c' = working c \<and> u = stored_base_url parse (site_config (working c) SiteBaseUrl)"
  by (auto simp: get_base_url_in_transaction_def tx_simps)

lemma has_credentials_okD:
  "has_credentials db c = (Inr b, c') \<Longrightarrow> working c' = working c \<and> b = (passkey_credentials (working c) \<noteq> [])"
  by (auto simp: has_credentials_def tx_simps)

lemma site_config_set_okD:
  assumes "site_config_set db key v c = (Inr u, c')"
  shows "\<not> is_feed_key key \<and>
    working c' = (working c)\<lparr>site_config := (site_config (working c))(key \<mapsto> v)\<rparr>"
proof -
  from assms have "\<not> is_feed_key key"
    by (auto simp: site_config_set_def tx_simps)
  with assms show ?thesis
    by (auto simp: site_config_set_def set_stored_def tx_simps split: if_split_asm dest: lock_smtp_config_okD)
qed

lemma site_config_delete_okD:
  assumes "site_config_delete db key c = (Inr b, c')"
  shows "\<not> is_feed_key key \<and> b = (site_config (working c) key \<noteq> None) \<and>
    working c' = (working c)\<lparr>site_config := (site_config (working c))(key := None)\<rparr>"
proof -
  from assms have "\<not> is_feed_key key"
    by (auto simp: site_config_delete_def tx_simps)
  with assms show ?thesis
    by (auto simp: site_config_delete_def tx_simps split: if_split_asm dest: lock_smtp_config_okD)
qed

text \<open>A value of the type \<^verbatim>\<open>BaseUrl\<close>.\<close>

definition is_base_url :: "url_parser \<Rightarrow> ustr \<Rightarrow> bool" where
  "is_base_url parse u \<longleftrightarrow> parse_tagged_url parse u = Some u \<and> trim u = u \<and> u \<noteq> []"

lemma is_base_url_parsed:
  "url_parser_ok parse \<Longrightarrow> parse_tagged_url parse s = Some u \<Longrightarrow> is_base_url parse u"
  by (simp only: is_base_url_def parse_tagged_url_stable simp_thms not_False_eq_True)

lemma stored_base_url_value:
  "is_base_url parse u \<Longrightarrow> stored_base_url parse (Some u) = Some u"
  by (simp add: stored_base_url_def non_empty_def is_base_url_def)

lemma stored_base_url_empty: "stored_base_url parse (Some []) = None"
  by (simp add: stored_base_url_def non_empty_def trim_def trim_start_def trim_end_def)

lemma set_base_url_guard_okD:
  assumes "set_base_url_with_passkey_guard parse db base_url c = (Inr u, c')"
  shows "working c' = (working c)\<lparr>site_config := (site_config (working c))
      (SiteBaseUrl \<mapsto> (case base_url of None \<Rightarrow> [] | Some u \<Rightarrow> u))\<rparr> \<and>
    (passkey_credentials (working c) \<noteq> [] \<longrightarrow>
       check_same_host parse (stored_base_url parse (site_config (working c) SiteBaseUrl)) base_url = Inr ())"
  using assms unfolding set_base_url_with_passkey_guard_def
  by (auto simp: tx_simps split: if_split_asm
      dest!: lock_rp_host_okD get_base_url_okD has_credentials_okD site_config_set_okD)

lemma clear_base_url_guard_okD:
  assumes "clear_base_url_with_passkey_guard parse db c = (Inr b, c')"
  shows "passkey_credentials (working c) = [] \<and>
    working c' = (working c)\<lparr>site_config := (site_config (working c))(SiteBaseUrl := None)\<rparr>"
  using assms unfolding clear_base_url_with_passkey_guard_def
  by (auto simp: tx_simps split: if_split_asm
      dest!: lock_rp_host_okD get_base_url_okD has_credentials_okD site_config_delete_okD)

text \<open>
  A successful guarded change reads back as exactly the requested value; while any passkey exists
  it cannot clear the base URL and keeps the host the passkeys are bound to.
\<close>

lemma set_base_url_guard_host:
  assumes "case base_url of None \<Rightarrow> True | Some u \<Rightarrow> is_base_url parse u"
    and "set_base_url_with_passkey_guard parse db base_url c = (Inr (), c')"
  shows "stored_base_url parse (site_config (working c') SiteBaseUrl) = base_url \<and>
    (passkey_credentials (working c) = [] \<or>
      (base_url \<noteq> None \<and> rp_host parse (working c') = rp_host parse (working c)))"
proof -
  from set_base_url_guard_okD [OF assms(2)]
  have cfg: "site_config (working c') SiteBaseUrl = Some (case base_url of None \<Rightarrow> [] | Some u \<Rightarrow> u)"
    and lock: "passkey_credentials (working c) \<noteq> [] \<longrightarrow>
      check_same_host parse (stored_base_url parse (site_config (working c) SiteBaseUrl)) base_url = Inr ()"
    by simp_all
  have read: "stored_base_url parse (site_config (working c') SiteBaseUrl) = base_url"
    using assms(1) by (cases base_url) (simp_all add: cfg stored_base_url_empty stored_base_url_value)
  have "base_url \<noteq> None \<and> rp_host parse (working c') = rp_host parse (working c)"
    if "check_same_host parse (stored_base_url parse (site_config (working c) SiteBaseUrl)) base_url = Inr ()"
  proof -
    from that obtain cur req cu ru where "stored_base_url parse (site_config (working c) SiteBaseUrl) = Some cur"
      "base_url = Some req" "parse cur = Some cu" "parse req = Some ru" "host_str cu = host_str ru"
      by (auto simp: check_same_host_def split: option.splits if_splits)
    with read show ?thesis by (simp add: rp_host_def)
  qed
  with read lock show ?thesis by blast
qed

definition example_base_url :: ustr where
  "example_base_url = lit ''https://jaunder.org/''"

definition example_url :: url where
  "example_url = \<lparr>url_scheme = lit ''https'', url_host = Some (Domain (lit ''jaunder.org'')),
     url_text = example_base_url, url_bare = example_base_url\<rparr>"

definition example_url_parser :: url_parser where
  "example_url_parser s =
     (if s = example_base_url \<or> s = lit ''HTTPS://JAUNDER.ORG'' \<or> s = lit ''https://jaunder.org''
      then Some example_url else None)"

lemma example_url_parser_ok: "url_parser_ok example_url_parser"
  by (simp add: url_parser_ok_def example_url_parser_def example_url_def example_base_url_def
      trimmed_def is_whitespace_def)

lemma example_base_url_ok: "is_base_url example_url_parser example_base_url"
  by (rule is_base_url_parsed [OF example_url_parser_ok, of example_base_url])
    (simp add: parse_tagged_url_def example_url_parser_def example_url_def example_base_url_def
      trim_def trim_start_def trim_end_def is_whitespace_def)

definition example_passkey :: passkey_credential_row where
  "example_passkey = \<lparr>pc_credential_id = [5], pc_user_id = 1, pc_label = lit ''key'',
     pc_credential = [5], pc_created_at = 0, pc_last_used_at = None\<rparr>"

definition example_locked_database :: database where
  "example_locked_database = empty_database\<lparr>passkey_credentials := [example_passkey],
     site_config := [SiteBaseUrl \<mapsto> example_base_url]\<rparr>"

lemma example_stored_base_url [simp]:
  "stored_base_url example_url_parser (site_config example_locked_database SiteBaseUrl) = Some example_base_url"
  using stored_base_url_value [OF example_base_url_ok] by (simp add: example_locked_database_def)

end
