(* ===== verification/Feed_Cache.thy ===== *)
theory Feed_Cache
  imports Site_Config Feed_Paths
begin

section \<open>The feed cache\<close>

text \<open>
  \<^verbatim>\<open>storage/src/feed_cache.rs\<close>, \<^verbatim>\<open>host/src/feed/representation.rs\<close> and the
  content types of \<^verbatim>\<open>common/src/media/mime.rs\<close>. A cache row couples a canonical feed path
  to a rendered representation of the same format; the table holds its decomposition. Reading a
  row back decodes every column through its type and checks that they agree.
\<close>

subsection \<open>Content types\<close>

definition is_tchar :: "nat \<Rightarrow> bool" where
  "is_tchar b \<longleftrightarrow> is_ascii_alphanumeric b \<or> b \<in> {33, 35, 36, 37, 38, 39, 42, 43, 45, 46, 94, 95, 96, 124, 126}"

definition is_valid_content_type :: "ustr \<Rightarrow> bool" where
  "is_valid_content_type s \<longleftrightarrow>
     list_all (\<lambda>b. b = 9 \<or> (0x20 \<le> b \<and> b \<le> 0x7e)) s \<and>
     (let essence = trim (case split_once [59] s of None \<Rightarrow> s | Some (before, _) \<Rightarrow> before)
      in case split_once [47] essence of
           None \<Rightarrow> False
         | Some (ty, sub) \<Rightarrow> ty \<noteq> [] \<and> sub \<noteq> [] \<and> list_all is_tchar ty \<and> list_all is_tchar sub)"

definition parse_content_type :: "ustr \<Rightarrow> ustr option" where
  "parse_content_type s = (if is_valid_content_type s then Some s else None)"

interpretation content_type: stable_parser parse_content_type
  by unfold_locales (simp add: parse_content_type_def split: if_splits)

lemma feed_content_type_valid: "parse_content_type (feed_content_type f) = Some (feed_content_type f)"
  by (cases f) (simp_all add: parse_content_type_def is_valid_content_type_def trim_def trim_start_def
      trim_end_def is_whitespace_def is_tchar_def ascii_defs)

subsection \<open>Representations\<close>

datatype representation = Rss_Body ustr | Atom_Body ustr | Json_Body ustr

fun representation_format :: "representation \<Rightarrow> feed_format" where
  "representation_format (Rss_Body _) = Rss"
| "representation_format (Atom_Body _) = Atom"
| "representation_format (Json_Body _) = Json"

definition representation_content_type :: "representation \<Rightarrow> ustr" where
  "representation_content_type r = feed_content_type (representation_format r)"

fun representation_body :: "representation \<Rightarrow> ustr" where
  "representation_body (Rss_Body body) = body"
| "representation_body (Atom_Body body) = body"
| "representation_body (Json_Body body) = body"

definition try_from_stored :: "feed_format \<Rightarrow> ustr \<Rightarrow> ustr \<Rightarrow> representation option" where
  "try_from_stored format content_type body =
     (if content_type \<noteq> feed_content_type format then None
      else Some (case format of Rss \<Rightarrow> Rss_Body body | Atom \<Rightarrow> Atom_Body body | Json \<Rightarrow> Json_Body body))"

lemma try_from_stored_of [simp]:
  "try_from_stored (representation_format r) (representation_content_type r) (representation_body r) = Some r"
  by (cases r) (simp_all add: try_from_stored_def representation_content_type_def)

lemma try_from_stored_SomeD:
  "try_from_stored f t b = Some r \<Longrightarrow>
     representation_format r = f \<and> representation_content_type r = t \<and> representation_body r = b"
  by (cases f) (auto simp: try_from_stored_def representation_content_type_def split: if_splits)

subsection \<open>Rows\<close>

record feed_cache_row =
  row_feed_path :: ustr
  row_representation :: representation
  row_etag :: ustr
  row_representation_modified_at :: instant
  row_generated_at :: instant
  row_semantic_fingerprint :: ustr

text \<open>
  The constructor refuses a path whose format is not that of the representation (the error names
  both), and drops the fraction of the representation instant, towards the epoch.
\<close>

definition whole_seconds :: "instant \<Rightarrow> instant" where
  "whole_seconds t =
     (if 0 \<le> t then seconds (t div 1000000000) else - seconds ((- t) div 1000000000))"

definition feed_cache_row_new ::
  "ustr \<Rightarrow> representation \<Rightarrow> ustr \<Rightarrow> instant \<Rightarrow> instant \<Rightarrow> ustr \<Rightarrow>
     (feed_format option \<times> feed_format) + feed_cache_row" where
  "feed_cache_row_new path rep etag modified generated fingerprint =
     (let path_format = map_option snd (parse_feed_path path)
      in if path_format \<noteq> Some (representation_format rep)
         then Inl (path_format, representation_format rep)
         else Inr \<lparr>row_feed_path = path, row_representation = rep, row_etag = etag,
           row_representation_modified_at = whole_seconds modified, row_generated_at = generated,
           row_semantic_fingerprint = fingerprint\<rparr>)"

text \<open>\<open>Unreachable\<close> is the panic of the branch the code marks as unreachable.\<close>

datatype feed_cache_error =
    Cache_Db sql_error
  | InvalidSemanticFingerprint
  | MismatchedStoredMetadata ustr
  | UnrecoverableStoredPath ustr
  | Unreachable

text \<open>The validating bridges of the columns, then the checks of the mapper.\<close>

definition decode_stored :: "stored_feed_cache_row \<Rightarrow> sql_error + stored_feed_cache_row" where
  "decode_stored r =
     (case (feed_path_from_str (fc_feed_url r), parse_etag (fc_etag r),
            parse_content_type (fc_content_type r)) of
        (Some path, Some etag, Some content_type) \<Rightarrow>
          Inr (r\<lparr>fc_feed_url := path, fc_etag := etag, fc_content_type := content_type\<rparr>)
      | _ \<Rightarrow> Inl ColumnDecode)"

definition row_from_stored :: "stored_feed_cache_row \<Rightarrow> feed_cache_error + feed_cache_row" where
  "row_from_stored r =
     (case parse_content_hash (fc_semantic_fingerprint r) of
        None \<Rightarrow> Inl InvalidSemanticFingerprint
      | Some fingerprint \<Rightarrow>
          (case parse_feed_path (fc_feed_url r) of
             None \<Rightarrow> Inl (UnrecoverableStoredPath (fc_feed_url r))
           | Some (_, format) \<Rightarrow>
               (case try_from_stored format (fc_content_type r) (fc_body r) of
                  None \<Rightarrow> Inl (MismatchedStoredMetadata (fc_feed_url r))
                | Some rep \<Rightarrow>
                    (case feed_cache_row_new (fc_feed_url r) rep (fc_etag r)
                        (fc_representation_modified_at r) (fc_generated_at r) fingerprint of
                       Inl _ \<Rightarrow> Inl Unreachable
                     | Inr row \<Rightarrow> Inr row))))"

definition load_stored :: "stored_feed_cache_row \<Rightarrow> feed_cache_error + feed_cache_row" where
  "load_stored r =
     (case decode_stored r of Inl e \<Rightarrow> Inl (Cache_Db e) | Inr r \<Rightarrow> row_from_stored r)"

subsection \<open>The store\<close>

definition stored_of :: "feed_cache_row \<Rightarrow> stored_feed_cache_row" where
  "stored_of row = \<lparr>fc_feed_url = row_feed_path row, fc_body = representation_body (row_representation row),
     fc_etag = row_etag row, fc_content_type = representation_content_type (row_representation row),
     fc_representation_modified_at = row_representation_modified_at row,
     fc_generated_at = row_generated_at row,
     fc_semantic_fingerprint = row_semantic_fingerprint row\<rparr>"

definition find_cached :: "ustr \<Rightarrow> database \<Rightarrow> stored_feed_cache_row option" where
  "find_cached path d = find (\<lambda>r. fc_feed_url r = path) (feed_cache d)"

definition get_cached :: "ustr \<Rightarrow> (database, feed_cache_error, feed_cache_row option) tx" where
  "get_cached path =
     tx_bind (tx_map_err Cache_Db (pool_query (find_cached path))) (\<lambda>row.
     case row of
       None \<Rightarrow> tx_return None
     | Some r \<Rightarrow> tx_of_result (map_sum id Some (load_stored r)))"

text \<open>The \<^verbatim>\<open>ON CONFLICT\<close> clause, with the stored row and the excluded one.\<close>

definition merge_cached ::
  "stored_feed_cache_row \<Rightarrow> stored_feed_cache_row \<Rightarrow> stored_feed_cache_row" where
  "merge_cached old new =
     (let same = fc_semantic_fingerprint old = fc_semantic_fingerprint new
      in old\<lparr>fc_body := if same then fc_body old else fc_body new,
        fc_etag := if same then fc_etag old else fc_etag new,
        fc_content_type := if same then fc_content_type old else fc_content_type new,
        fc_representation_modified_at :=
          if same then fc_representation_modified_at old else fc_representation_modified_at new,
        fc_generated_at :=
          if same \<and> fc_generated_at old > fc_generated_at new
          then fc_generated_at old else fc_generated_at new,
        fc_semantic_fingerprint := fc_semantic_fingerprint new\<rparr>)"

definition upsert_stored :: "stored_feed_cache_row \<Rightarrow> database \<Rightarrow>
    (sql_error + stored_feed_cache_row) \<times> database" where
  "upsert_stored new d =
     (case find_cached (fc_feed_url new) d of
        None \<Rightarrow> (Inr new, d\<lparr>feed_cache := feed_cache d @ [new]\<rparr>)
      | Some old \<Rightarrow>
          (Inr (merge_cached old new),
           d\<lparr>feed_cache := update_where (\<lambda>r. fc_feed_url r = fc_feed_url new)
               (\<lambda>r. merge_cached r new) (feed_cache d)\<rparr>))"

definition upsert_on_connection :: "feed_cache_row \<Rightarrow> (database, feed_cache_error, feed_cache_row) tx" where
  "upsert_on_connection row =
     tx_bind (tx_map_err Cache_Db (statement (upsert_stored (stored_of row)))) (\<lambda>stored.
     tx_of_result (load_stored stored))"

definition feed_cache_upsert :: "backend \<Rightarrow> feed_cache_row \<Rightarrow> (database, feed_cache_error, unit) tx" where
  "feed_cache_upsert db row =
     tx_bind (tx_map_err Cache_Db (write_connection db)) (\<lambda>_.
     tx_bind (upsert_on_connection row) (\<lambda>_. tx_return ()))"

definition feed_cache_delete :: "backend \<Rightarrow> ustr \<Rightarrow> (database, feed_cache_error, unit) tx" where
  "feed_cache_delete db path =
     tx_bind (tx_map_err Cache_Db (write_connection db)) (\<lambda>_.
     tx_map_err Cache_Db (execute (\<lambda>d. d\<lparr>feed_cache :=
       delete_where (\<lambda>r. fc_feed_url r = path) (feed_cache d)\<rparr>)))"

subsection \<open>Reading rows back\<close>

text \<open>A value of the Rust type: its path, validators and fingerprint went through their parsers.\<close>

definition feed_cache_row_ok :: "feed_cache_row \<Rightarrow> bool" where
  "feed_cache_row_ok row \<longleftrightarrow>
     feed_path_from_str (row_feed_path row) = Some (row_feed_path row) \<and>
     map_option snd (parse_feed_path (row_feed_path row)) =
       Some (representation_format (row_representation row)) \<and>
     is_valid_etag (row_etag row) \<and> is_valid_content_hash (row_semantic_fingerprint row) \<and>
     whole_seconds (row_representation_modified_at row) = row_representation_modified_at row"

lemma whole_seconds_idem [simp]: "whole_seconds (whole_seconds t) = whole_seconds t"
  by (auto simp: whole_seconds_def)

lemma feed_cache_row_new_ok:
  assumes "feed_cache_row_new path rep etag modified generated fingerprint = Inr row"
    and "feed_path_from_str path = Some path" and "is_valid_etag etag"
    and "is_valid_content_hash fingerprint"
  shows "feed_cache_row_ok row"
  using assms by (auto simp: feed_cache_row_new_def feed_cache_row_ok_def Let_def split: if_splits)

lemma load_stored_of: "feed_cache_row_ok row \<Longrightarrow> load_stored (stored_of row) = Inr row"
  by (cases row)
    (auto simp: load_stored_def decode_stored_def row_from_stored_def stored_of_def feed_cache_row_ok_def
      parse_etag_def parse_content_hash_def feed_cache_row_new_def representation_content_type_def
      feed_content_type_valid try_from_stored_of [unfolded representation_content_type_def])

text \<open>
  Conversely a stored row that loads is a good row, the one its columns spell; and the branch
  marked unreachable is never taken.
\<close>

lemma feed_path_from_str_stable: "feed_path_from_str p = Some q \<Longrightarrow> feed_path_from_str q = Some q"
  by (auto simp: feed_path_from_str_def parse_canonicalize [OF parse_feed_path_ok])

lemma decode_stored_SomeD:
  assumes "decode_stored r = Inr r'"
  shows "feed_path_from_str (fc_feed_url r) = Some (fc_feed_url r') \<and> is_valid_etag (fc_etag r') \<and>
    r' = r\<lparr>fc_feed_url := fc_feed_url r'\<rparr>"
  using assms
  by (cases r) (auto simp: decode_stored_def parse_etag_def parse_content_type_def split: option.splits if_splits)

lemma row_from_stored_InrD:
  assumes "row_from_stored r = Inr row"
  shows "is_valid_content_hash (fc_semantic_fingerprint r) \<and>
    map_option snd (parse_feed_path (fc_feed_url r)) = Some (representation_format (row_representation row)) \<and>
    stored_of row = r\<lparr>fc_representation_modified_at := whole_seconds (fc_representation_modified_at r)\<rparr>"
  using assms
  by (cases r) (auto simp: row_from_stored_def feed_cache_row_new_def stored_of_def parse_content_hash_def Let_def
      split: option.splits sum.splits if_splits dest!: try_from_stored_SomeD)

lemma load_stored_InrD:
  assumes "load_stored r = Inr row"
  shows "feed_cache_row_ok row \<and>
    stored_of row = r\<lparr>fc_feed_url := row_feed_path row,
      fc_representation_modified_at := whole_seconds (fc_representation_modified_at r)\<rparr> \<and>
    feed_path_from_str (fc_feed_url r) = Some (row_feed_path row)"
proof -
  from assms obtain r' where r': "decode_stored r = Inr r'" "row_from_stored r' = Inr row"
    by (auto simp: load_stored_def split: sum.splits)
  note d = decode_stored_SomeD [OF r'(1)] and s = row_from_stored_InrD [OF r'(2)]
  note s0 = s [THEN conjunct2, THEN conjunct2]
  have st: "fc_feed_url (stored_of row) = fc_feed_url r'" "fc_etag (stored_of row) = fc_etag r'"
    "fc_semantic_fingerprint (stored_of row) = fc_semantic_fingerprint r'"
    "fc_representation_modified_at (stored_of row) = whole_seconds (fc_representation_modified_at r')"
    unfolding s0 by simp_all
  then have cols: "row_feed_path row = fc_feed_url r'" "row_etag row = fc_etag r'"
    "row_semantic_fingerprint row = fc_semantic_fingerprint r'"
    "row_representation_modified_at row = whole_seconds (fc_representation_modified_at r')"
    by (simp_all add: stored_of_def)
  have "feed_cache_row_ok row"
    using d s feed_path_from_str_stable [OF d [THEN conjunct1]]
    by (simp add: feed_cache_row_ok_def cols)
  moreover have "stored_of row = r\<lparr>fc_feed_url := row_feed_path row,
      fc_representation_modified_at := whole_seconds (fc_representation_modified_at r)\<rparr>"
  proof -
    have "r' = r\<lparr>fc_feed_url := fc_feed_url r'\<rparr>" using d by blast
    then have "fc_representation_modified_at r' = fc_representation_modified_at r"
      by (metis stored_feed_cache_row.select_convs(5) stored_feed_cache_row.surjective
          stored_feed_cache_row.update_convs(1))
    with s d cols(1) show ?thesis by metis
  qed
  ultimately show ?thesis using d cols(1) by simp
qed

lemma row_from_stored_reachable: "row_from_stored r \<noteq> Inl Unreachable"
  by (auto simp: row_from_stored_def feed_cache_row_new_def Let_def
      split: option.splits sum.splits if_splits dest!: try_from_stored_SomeD)

text \<open>
  The well-formed cache: one row for a path, and every row loads; then what a path reads back is
  \<open>cached\<close>.
\<close>

definition cache_wf :: "database \<Rightarrow> bool" where
  "cache_wf d \<longleftrightarrow> distinct (map fc_feed_url (feed_cache d)) \<and>
     (\<forall>r \<in> set (feed_cache d). \<exists>row. feed_cache_row_ok row \<and> r = stored_of row)"

definition cached :: "ustr \<Rightarrow> database \<Rightarrow> feed_cache_row option" where
  "cached path d =
     (case find_cached path d of
        None \<Rightarrow> None
      | Some r \<Rightarrow> (case load_stored r of Inl _ \<Rightarrow> None | Inr row \<Rightarrow> Some row))"

lemma cached_Some_iff:
  assumes "cache_wf d"
  shows "cached path d = Some row \<longleftrightarrow> find_cached path d = Some (stored_of row) \<and> feed_cache_row_ok row"
proof
  assume "cached path d = Some row"
  then obtain r where r: "find_cached path d = Some r" "load_stored r = Inr row"
    by (auto simp: cached_def split: option.splits sum.splits)
  then obtain row' where "r = stored_of row'" "feed_cache_row_ok row'"
    using assms find_Some_memD [of _ "feed_cache d" r] by (auto simp: cache_wf_def find_cached_def)
  with r load_stored_of show "find_cached path d = Some (stored_of row) \<and> feed_cache_row_ok row" by simp
qed (simp add: cached_def load_stored_of)

lemma cached_None_iff: "cache_wf d \<Longrightarrow> cached path d = None \<longleftrightarrow> find_cached path d = None"
  using find_Some_memD [of _ "feed_cache d"]
  by (fastforce simp: cached_def cache_wf_def find_cached_def load_stored_of split: option.splits)

text \<open>
  The effective row of a write: a fingerprint that is already stored keeps the stored
  representation and validators, and the later of the two generation instants.
\<close>

definition effective_row :: "feed_cache_row option \<Rightarrow> feed_cache_row \<Rightarrow> feed_cache_row" where
  "effective_row old new =
     (case old of
        None \<Rightarrow> new
      | Some o' \<Rightarrow>
          if row_semantic_fingerprint o' = row_semantic_fingerprint new
          then o'\<lparr>row_generated_at := max (row_generated_at o') (row_generated_at new)\<rparr>
          else new)"

lemma merge_cached_of:
  assumes "row_feed_path o' = row_feed_path new"
  shows "merge_cached (stored_of o') (stored_of new) = stored_of (effective_row (Some o') new)"
  using assms by (auto simp: merge_cached_def effective_row_def stored_of_def Let_def max_def)

lemma effective_row_ok:
  "feed_cache_row_ok new \<Longrightarrow> (case old of None \<Rightarrow> True | Some o' \<Rightarrow> feed_cache_row_ok o') \<Longrightarrow>
     feed_cache_row_ok (effective_row old new)"
  by (cases old) (auto simp: effective_row_def feed_cache_row_ok_def)

lemma effective_row_path:
  "(case old of None \<Rightarrow> True | Some o' \<Rightarrow> row_feed_path o' = row_feed_path new) \<Longrightarrow>
     row_feed_path (effective_row old new) = row_feed_path new"
  by (cases old) (auto simp: effective_row_def)

lemma find_update_key:
  assumes "distinct (map k rs)" and "\<And>r. k r = key \<Longrightarrow> k (f r) = key"
  shows "find (\<lambda>r. k r = x) (update_where (\<lambda>r. k r = key) f rs) =
    (if x = key then map_option f (find (\<lambda>r. k r = x) rs) else find (\<lambda>r. k r = x) rs)"
  using assms by (induction rs) (auto simp: update_where_def)

lemma upsert_stored_effective:
  assumes wf: "cache_wf d" and ok: "feed_cache_row_ok row"
    and upd: "upsert_stored (stored_of row) d = (Inr st, d')"
  defines "eff \<equiv> effective_row (cached (row_feed_path row) d) row"
  shows "st = stored_of eff \<and> feed_cache_row_ok eff \<and> cache_wf d' \<and>
    (\<forall>p. cached p d' = (if p = row_feed_path row then Some eff else cached p d)) \<and>
    d' = d\<lparr>feed_cache := feed_cache d'\<rparr>"
proof -
  have new: "fc_feed_url (stored_of row) = row_feed_path row" by (simp add: stored_of_def)
  show ?thesis
  proof (cases "cached (row_feed_path row) d")
    case None
    then have none: "find_cached (row_feed_path row) d = None" using cached_None_iff [OF wf] by simp
    then have d': "st = stored_of row" "d' = d\<lparr>feed_cache := feed_cache d @ [stored_of row]\<rparr>"
      using upd by (auto simp add: upsert_stored_def new)
    have "row_feed_path row \<notin> fc_feed_url ` set (feed_cache d)"
      using none by (auto simp: find_cached_def find_None_iff)
    then have "cache_wf d'" using wf ok d'(2) by (auto simp: cache_wf_def new)
    moreover have "find_cached p d' = (if p = row_feed_path row then Some (stored_of row) else find_cached p d)" for p
      using none by (auto simp: d' find_cached_def find_append new split: option.splits)
    then have "cached p d' = (if p = row_feed_path row then Some row else cached p d)" for p
      using load_stored_of [OF ok] by (simp add: cached_def)
    ultimately show ?thesis using None d' ok by (simp add: eff_def effective_row_def)
  next
    case (Some old)
    then have old: "find_cached (row_feed_path row) d = Some (stored_of old)" "feed_cache_row_ok old"
      using cached_Some_iff [OF wf] by simp_all
    have path: "row_feed_path old = row_feed_path row"
      using find_Some_memD [OF old(1) [unfolded find_cached_def]] by (simp add: stored_of_def)
    have eff: "merge_cached (stored_of old) (stored_of row) = stored_of eff"
      using merge_cached_of [OF path] Some by (simp add: eff_def)
    have eff_ok: "feed_cache_row_ok eff" using effective_row_ok [OF ok, of "Some old"] old(2) Some
      by (simp add: eff_def)
    let ?f = "\<lambda>r. merge_cached r (stored_of row)"
    let ?p = "\<lambda>r. fc_feed_url r = row_feed_path row"
    have d': "st = stored_of eff" "d' = d\<lparr>feed_cache := update_where ?p ?f (feed_cache d)\<rparr>"
      using upd old(1) eff by (simp_all add: upsert_stored_def new)
    have key: "fc_feed_url (?f r) = fc_feed_url r" for r by (simp add: merge_cached_def Let_def)
    have dist: "distinct (map fc_feed_url (feed_cache d))" using wf by (simp add: cache_wf_def)
    have row_at: "r = stored_of old" if "r \<in> set (feed_cache d)" "?p r" for r
      using find_key_unique [OF dist that(1)] that(2) old(1) by (simp add: find_cached_def)
    have "cache_wf d'"
      using wf row_at eff eff_ok by (auto simp: cache_wf_def d'(2) map_update_where key set_update_where)
    moreover have "find_cached p d' =
        (if p = row_feed_path row then Some (stored_of eff) else find_cached p d)" for p
      using find_update_key [OF dist, of "row_feed_path row" ?f p] key old(1) eff
      by (auto simp: d'(2) find_cached_def)
    then have "cached p d' = (if p = row_feed_path row then Some eff else cached p d)" for p
      using load_stored_of [OF eff_ok] by (simp add: cached_def)
    ultimately show ?thesis using d' eff_ok by simp
  qed
qed

lemma upsert_on_connection_okD:
  assumes "cache_wf (working c)" and "feed_cache_row_ok row"
    and "upsert_on_connection row c = (Inr eff, c')"
  shows "eff = effective_row (cached (row_feed_path row) (working c)) row \<and> cache_wf (working c') \<and>
    (\<forall>p. cached p (working c') = (if p = row_feed_path row then Some eff else cached p (working c))) \<and>
    working c' = (working c)\<lparr>feed_cache := feed_cache (working c')\<rparr>"
proof -
  from assms(3) obtain st d where st: "upsert_stored (stored_of row) (working c) = (Inr st, d)"
    "load_stored st = Inr eff" "working c' = d"
    by (auto simp: upsert_on_connection_def tx_simps)
  from upsert_stored_effective [OF assms(1,2) st(1)]
  have e: "st = stored_of (effective_row (cached (row_feed_path row) (working c)) row)"
    "feed_cache_row_ok (effective_row (cached (row_feed_path row) (working c)) row)" by blast+
  from st(2) have "eff = effective_row (cached (row_feed_path row) (working c)) row"
    unfolding e(1) load_stored_of [OF e(2)] by simp
  with upsert_stored_effective [OF assms(1,2) st(1)] st(3) show ?thesis by simp
qed

text \<open>
  a cache write returns what it stored. The row a successful write returns is the row that
  is read for its path afterwards; it is the offered row, except that an unchanged semantic
  fingerprint keeps the stored representation, entity tag and modification instant and the later
  of the two generation instants. No other path is affected and the cache stays readable.
\<close>

theorem cache_write_effective:
  assumes "cache_wf (working c)" and "feed_cache_row_ok row"
    and "upsert_on_connection row c = (Inr eff, c')"
  shows "cached (row_feed_path row) (working c') = Some eff \<and> cache_wf (working c') \<and>
    (\<forall>p. p = row_feed_path row \<or> cached p (working c') = cached p (working c)) \<and>
    (case cached (row_feed_path row) (working c) of
       None \<Rightarrow> eff = row
     | Some old \<Rightarrow>
         if row_semantic_fingerprint old = row_semantic_fingerprint row
         then eff = old\<lparr>row_generated_at := max (row_generated_at old) (row_generated_at row)\<rparr>
         else eff = row)"
proof -
  from upsert_on_connection_okD [OF assms]
  have "eff = effective_row (cached (row_feed_path row) (working c)) row"
    and "cache_wf (working c')"
    and "\<forall>p. cached p (working c') = (if p = row_feed_path row then Some eff else cached p (working c))"
    by blast+
  then show ?thesis
    by (cases "cached (row_feed_path row) (working c)") (simp_all add: effective_row_def)
qed

definition example_row :: "nat \<Rightarrow> nat \<Rightarrow> instant \<Rightarrow> feed_cache_row" where
  "example_row body digit generated = \<lparr>row_feed_path = lit ''/feed.rss'', row_representation = Rss_Body [body],
     row_etag = [34, 34], row_representation_modified_at = 0, row_generated_at = generated,
     row_semantic_fingerprint = replicate 64 digit\<rparr>"

lemma example_feed_path: "parse_feed_path (lit ''/feed.rss'') = Some (Site, Rss)"
  using parse_canonicalize [of Site Rss] by simp

lemma example_row_ok: "digit \<in> {48..57} \<Longrightarrow> feed_cache_row_ok (example_row body digit generated)"
  using example_feed_path
  by (simp add: feed_cache_row_ok_def example_row_def feed_path_from_str_def is_valid_etag_def
      is_valid_content_hash_def is_ascii_digit_def list_all_iff whole_seconds_def)

theorem cache_write_effective_witness:
  "\<exists>c'. upsert_on_connection (example_row 2 48 5)
      (example_connection Sqlite (empty_database\<lparr>feed_cache := [stored_of (example_row 3 48 7)]\<rparr>)) =
        (Inr (example_row 3 48 7), c') \<and>
    cached (lit ''/feed.rss'') (working c') = Some (example_row 3 48 7)"
proof -
  let ?d = "empty_database\<lparr>feed_cache := [stored_of (example_row 3 48 7)]\<rparr>"
  let ?c = "example_connection Sqlite ?d"
  have ok: "feed_cache_row_ok (example_row b 48 g)" for b g by (rule example_row_ok) simp
  have wf: "cache_wf (working ?c)" using ok by (auto simp: cache_wf_def)
  have path: "fc_feed_url (stored_of (example_row b 48 g)) = lit ''/feed.rss''" for b g
    by (simp add: stored_of_def example_row_def)
  have merge: "merge_cached (stored_of (example_row 3 48 7)) (stored_of (example_row 2 48 5)) =
      stored_of (example_row 3 48 7)"
    by (simp add: merge_cached_def stored_of_def example_row_def Let_def)
  have "fst (upsert_on_connection (example_row 2 48 5) ?c) = Inr (example_row 3 48 7)"
    by (simp add: upsert_on_connection_def tx_eval tx_of_result_def upsert_stored_def find_cached_def
        path merge load_stored_of [OF ok])
  then obtain c' where c': "upsert_on_connection (example_row 2 48 5) ?c = (Inr (example_row 3 48 7), c')"
    by (metis prod.collapse)
  from cache_write_effective [OF wf ok c'] c' show ?thesis by (simp add: example_row_def)
qed

end
