(* ===== verification/Publisher.thy ===== *)
theory Publisher
  imports Feed_Cache
begin

section \<open>The publisher\<close>

text \<open>
  \<^verbatim>\<open>storage/src/publisher.rs\<close>, the identity write of
  \<^verbatim>\<open>storage/src/site_config.rs\<close> and the service of \<^verbatim>\<open>server/src/publisher.rs\<close>.
  The publisher owns the configuration the feeds are rendered from; every change of it advances
  the generation and empties the feed cache in the same transaction, and a rendered row is
  written only under the generation it was rendered from. The advisory file lock of the service
  is the serialization of its scopes. The generation is an integer; the limit of the 64-bit
  column is not modelled.
\<close>

subsection \<open>State and outcomes\<close>

record publisher_snapshot =
  snapshot_feeds :: feeds_config
  snapshot_identity :: site_identity
  snapshot_generation :: int
  snapshot_malformed_hub :: "ustr option"

datatype feed_window_mutation =
    SetMinItems int
  | UnsetMinItems
  | SetMinDays nat
  | UnsetMinDays

datatype hub_mutation_outcome = Hub_Changed int | Hub_Unchanged int

datatype cache_commit_outcome = Cache_Committed feed_cache_row | StaleGeneration

datatype publisher_storage_error = Publisher_Db sql_error | Publisher_Cache feed_cache_error

subsection \<open>The snapshot\<close>

definition parse_hub :: "url_parser \<Rightarrow> ustr option \<Rightarrow> ustr option" where
  "parse_hub parse raw =
     Option.bind (Option.bind raw (\<lambda>v. if v = [] then None else Some v)) (parse_tagged_url parse)"

definition snapshot_from_row ::
  "url_parser \<Rightarrow> (site_config_key \<rightharpoonup> ustr) \<Rightarrow> int \<Rightarrow> sql_error + publisher_snapshot" where
  "snapshot_from_row parse cfg generation =
     (case parse_feed_minimum parse_feed_min_items default_feed_min_items (cfg FeedsMinItems) of
        Inl e \<Rightarrow> Inl e
      | Inr items \<Rightarrow>
          (case parse_feed_minimum parse_feed_min_days default_feed_min_days (cfg FeedsMinDays) of
             Inl e \<Rightarrow> Inl e
           | Inr days \<Rightarrow>
               (let hub = cfg FeedsWebsubHubUrl;
                    malformed = (case hub of
                      None \<Rightarrow> None
                    | Some v \<Rightarrow> if parse_hub parse (Some v) = None then Some v else None);
                    base_url = Option.bind (Option.bind (cfg SiteBaseUrl)
                      (\<lambda>v. if v = [] then None else Some v)) (parse_tagged_url parse)
                in Inr \<lparr>
                  snapshot_feeds = \<lparr>feeds_min_items = items, feeds_min_days = days,
                    feeds_websub_hub_url = parse_hub parse hub\<rparr>,
                  snapshot_identity = \<lparr>
                    identity_title = (case Option.bind (cfg SiteTitle) parse_site_title of
                      None \<Rightarrow> default_site_title | Some t \<Rightarrow> t),
                    identity_tagline = Option.bind (cfg SiteTagline) tagline_ok,
                    identity_base_url = base_url\<rparr>,
                  snapshot_generation = generation,
                  snapshot_malformed_hub = malformed\<rparr>)))"

definition publisher_snapshot_query ::
  "url_parser \<Rightarrow> (database, publisher_storage_error, publisher_snapshot) tx" where
  "publisher_snapshot_query parse =
     tx_map_err Publisher_Db
       (tx_bind (pool_query (\<lambda>d. (site_config d, publisher_generation d))) (\<lambda>(cfg, generation).
        tx_of_result (snapshot_from_row parse cfg generation)))"

subsection \<open>Mutations\<close>

definition read_generation :: "(database, sql_error, int) tx" where
  "read_generation = query publisher_generation"

definition advance_generation :: "(database, sql_error, int) tx" where
  "advance_generation = statement (\<lambda>d. (Inr (publisher_generation d + 1),
     d\<lparr>publisher_generation := publisher_generation d + 1\<rparr>))"

definition clear_feed_cache :: "(database, sql_error, unit) tx" where
  "clear_feed_cache = execute (\<lambda>d. d\<lparr>feed_cache := []\<rparr>)"

definition invalidate_identity :: "backend \<Rightarrow> (database, publisher_storage_error, int) tx" where
  "invalidate_identity db =
     tx_map_err Publisher_Db
       (tx_bind (write_connection db) (\<lambda>_.
        tx_bind advance_generation (\<lambda>generation.
        tx_bind clear_feed_cache (\<lambda>_. tx_return generation))))"

text \<open>\<^verbatim>\<open>DELETE ... WHERE key = k AND value = v RETURNING value\<close>\<close>

definition delete_matching :: "site_config_key \<Rightarrow> ustr \<Rightarrow> (database, sql_error, bool) tx" where
  "delete_matching key value = statement (\<lambda>d.
     if site_config d key = Some value
     then (Inr True, d\<lparr>site_config := (site_config d)(key := None)\<rparr>)
     else (Inr False, d))"

text \<open>The write of the hub, and what follows it: a change is published, a lost race is not.\<close>

definition write_hub :: "ustr option \<Rightarrow> ustr option \<Rightarrow> (database, sql_error, bool) tx" where
  "write_hub hub stored =
     (case hub of
        Some value \<Rightarrow> tx_bind (set_stored_on FeedsWebsubHubUrl value) (\<lambda>_. tx_return True)
      | None \<Rightarrow>
          (case stored of
             None \<Rightarrow> tx_return False
           | Some value \<Rightarrow> delete_matching FeedsWebsubHubUrl value))"

definition publish_hub :: "bool \<Rightarrow> (database, sql_error, hub_mutation_outcome) tx" where
  "publish_hub written =
     (if \<not> written
      then tx_bind read_generation (\<lambda>generation. tx_return (Hub_Unchanged generation))
      else
        tx_bind advance_generation (\<lambda>generation.
        tx_bind clear_feed_cache (\<lambda>_. tx_return (Hub_Changed generation))))"

definition mutate_hub ::
  "url_parser \<Rightarrow> backend \<Rightarrow> ustr option \<Rightarrow> (database, publisher_storage_error, hub_mutation_outcome) tx" where
  "mutate_hub parse db hub =
     tx_map_err Publisher_Db
       (tx_bind (write_connection db) (\<lambda>_.
        tx_bind (query (\<lambda>d. site_config d FeedsWebsubHubUrl)) (\<lambda>stored.
        let parsed = parse_hub parse stored;
            malformed = stored \<noteq> None \<and> parsed = None
        in if parsed = hub \<and> \<not> malformed
           then tx_bind read_generation (\<lambda>generation. tx_return (Hub_Unchanged generation))
           else tx_bind (write_hub hub stored) publish_hub)))"

definition apply_feed_window :: "feed_window_mutation \<Rightarrow> (database, sql_error, unit) tx" where
  "apply_feed_window mutation =
     (case mutation of
        SetMinItems value \<Rightarrow> set_stored_on FeedsMinItems (decimal (nat value))
      | UnsetMinItems \<Rightarrow> delete_stored FeedsMinItems
      | SetMinDays value \<Rightarrow> set_stored_on FeedsMinDays (decimal value)
      | UnsetMinDays \<Rightarrow> delete_stored FeedsMinDays)"

definition mutate_feed_window ::
  "backend \<Rightarrow> feed_window_mutation \<Rightarrow> (database, publisher_storage_error, int) tx" where
  "mutate_feed_window db mutation =
     tx_map_err Publisher_Db
       (tx_bind (write_connection db) (\<lambda>_.
        tx_bind (apply_feed_window mutation) (\<lambda>_.
        tx_bind advance_generation (\<lambda>generation.
        tx_bind clear_feed_cache (\<lambda>_. tx_return generation)))))"

definition repair_malformed_hub ::
  "backend \<Rightarrow> ustr \<Rightarrow> (database, publisher_storage_error, hub_mutation_outcome) tx" where
  "repair_malformed_hub db token =
     tx_map_err Publisher_Db
       (tx_bind (write_connection db) (\<lambda>_.
        tx_bind (delete_matching FeedsWebsubHubUrl token) publish_hub))"

definition is_current_generation :: "int \<Rightarrow> (database, publisher_storage_error, bool) tx" where
  "is_current_generation generation =
     tx_map_err Publisher_Db (pool_query (\<lambda>d. publisher_generation d = generation))"

text \<open>
  The fence is an update of the generation row to itself: it answers a row only if the generation
  is still the given one (and it locks that row).
\<close>

definition commit_cache ::
  "backend \<Rightarrow> int \<Rightarrow> feed_cache_row \<Rightarrow> (database, publisher_storage_error, cache_commit_outcome) tx" where
  "commit_cache db generation row =
     tx_bind (tx_map_err Publisher_Db
       (tx_bind (write_connection db) (\<lambda>_.
        query (\<lambda>d. if publisher_generation d = generation then Some generation else None)))) (\<lambda>current.
     if current = None then tx_return StaleGeneration
     else
       tx_bind (tx_map_err Publisher_Cache (upsert_on_connection row)) (\<lambda>effective.
       tx_return (Cache_Committed effective)))"

subsection \<open>Identity\<close>

datatype site_identity_mutation =
    SetTitle ustr
  | SetTagline "ustr option"
  | SetBaseUrl "ustr option"
  | UnsetTitle
  | UnsetTagline
  | UnsetBaseUrl

datatype site_identity_error =
    Identity_BaseUrl base_url_mutation_error
  | Identity_Config sql_error
  | Identity_Publisher publisher_storage_error

definition optional_text :: "ustr option \<Rightarrow> ustr" where
  "optional_text v = (case v of None \<Rightarrow> [] | Some t \<Rightarrow> t)"

text \<open>\<^verbatim>\<open>SiteConfigStorage::set_identity\<close>\<close>

definition set_identity ::
  "url_parser \<Rightarrow> backend \<Rightarrow> site_identity \<Rightarrow> (database, site_identity_error, unit) tx" where
  "set_identity parse db identity =
     tx_bind (tx_map_err Identity_BaseUrl
       (set_base_url_with_passkey_guard parse db (identity_base_url identity))) (\<lambda>_.
     tx_bind (tx_map_err Identity_Config (site_config_set db SiteTitle (identity_title identity))) (\<lambda>_.
     tx_bind (tx_map_err Identity_Config
       (site_config_set db SiteTagline (optional_text (identity_tagline identity)))) (\<lambda>_.
     tx_bind (tx_map_err Identity_Publisher (invalidate_identity db)) (\<lambda>_. tx_return ()))))"

text \<open>The callback of \<^verbatim>\<open>mutate_identity_with_feedback\<close>.\<close>

definition apply_identity_mutation ::
  "url_parser \<Rightarrow> backend \<Rightarrow> site_identity_mutation \<Rightarrow> (database, site_identity_error, unit) tx" where
  "apply_identity_mutation parse db mutation =
     (case mutation of
        SetTitle title \<Rightarrow> tx_map_err Identity_Config (site_config_set db SiteTitle title)
      | SetTagline tagline \<Rightarrow>
          tx_map_err Identity_Config (site_config_set db SiteTagline (optional_text tagline))
      | SetBaseUrl base_url \<Rightarrow>
          tx_map_err Identity_BaseUrl (set_base_url_with_passkey_guard parse db base_url)
      | UnsetTitle \<Rightarrow> tx_bind (tx_map_err Identity_Config (site_config_delete db SiteTitle)) (\<lambda>_. tx_return ())
      | UnsetTagline \<Rightarrow>
          tx_bind (tx_map_err Identity_Config (site_config_delete db SiteTagline)) (\<lambda>_. tx_return ())
      | UnsetBaseUrl \<Rightarrow>
          tx_bind (tx_map_err Identity_BaseUrl (clear_base_url_with_passkey_guard parse db)) (\<lambda>_. tx_return ()))"

definition mutate_identity ::
  "url_parser \<Rightarrow> backend \<Rightarrow> site_identity_mutation \<Rightarrow> (database, site_identity_error, int) tx" where
  "mutate_identity parse db mutation =
     tx_bind (apply_identity_mutation parse db mutation) (\<lambda>_.
     tx_map_err Identity_Publisher (invalidate_identity db))"

subsection \<open>The service\<close>

text \<open>
  \<^verbatim>\<open>PublisherService::snapshot\<close>. The two reads run on the pool and may fail; the gate may not
  be acquired; \<open>meanwhile\<close> is what other writers commit between the first read and the
  repair.
\<close>

datatype publisher_service_error =
    Service_Storage publisher_storage_error
  | Service_Scope "publisher_storage_error write_scope_error"
  | Service_Gate
  | Service_Indeterminate

definition read_snapshot ::
  "url_parser \<Rightarrow> bool \<Rightarrow> database \<Rightarrow> publisher_service_error + publisher_snapshot" where
  "read_snapshot parse failed d =
     (if failed then Inl (Service_Storage (Publisher_Db DriverError))
      else case snapshot_from_row parse (site_config d) (publisher_generation d) of
        Inl e \<Rightarrow> Inl (Service_Storage (Publisher_Db e))
      | Inr s \<Rightarrow> Inr s)"

record snapshot_env =
  first_read_fails :: bool
  gate_fails :: bool
  repair_env :: scope_env
  second_read_fails :: bool

definition service_snapshot ::
  "url_parser \<Rightarrow> backend \<Rightarrow> snapshot_env \<Rightarrow> (database \<Rightarrow> database) \<Rightarrow> database \<Rightarrow>
     (publisher_service_error + publisher_snapshot) \<times> database" where
  "service_snapshot parse b env meanwhile d =
     (case read_snapshot parse (first_read_fails env) d of
        Inl e \<Rightarrow> (Inl e, d)
      | Inr s \<Rightarrow>
          (case snapshot_malformed_hub s of
             None \<Rightarrow> (Inr s, d)
           | Some token \<Rightarrow>
               if gate_fails env then (Inl Service_Gate, meanwhile d)
               else
                 (case run b (repair_env env) (repair_malformed_hub b token) (meanwhile d) of
                    (Inl e, d') \<Rightarrow> (Inl (Service_Scope e), d')
                  | (Inr (CommitIndeterminate _), d') \<Rightarrow> (Inl Service_Indeterminate, d')
                  | (Inr (Confirmed _), d') \<Rightarrow> (read_snapshot parse (second_read_fails env) d', d'))))"

text \<open>
  \<^verbatim>\<open>PublisherService::mutate_hub\<close> and \<^verbatim>\<open>PublisherFinalizationGuard::commit_cache\<close>:
  one scope, and an indeterminate acknowledgement is an error.
\<close>

definition service_mutate_hub ::
  "url_parser \<Rightarrow> backend \<Rightarrow> bool \<Rightarrow> scope_env \<Rightarrow> ustr option \<Rightarrow> database \<Rightarrow>
     (publisher_service_error + hub_mutation_outcome) \<times> database" where
  "service_mutate_hub parse b gate env hub d =
     (if \<not> gate then (Inl Service_Gate, d)
      else
        (case run b env (mutate_hub parse b hub) d of
           (Inl e, d') \<Rightarrow> (Inl (Service_Scope e), d')
         | (Inr (CommitIndeterminate _), d') \<Rightarrow> (Inl Service_Indeterminate, d')
         | (Inr (Confirmed outcome), d') \<Rightarrow> (Inr outcome, d')))"

definition finalize_commit_cache ::
  "backend \<Rightarrow> scope_env \<Rightarrow> int \<Rightarrow> feed_cache_row \<Rightarrow> database \<Rightarrow>
     (publisher_storage_error + cache_commit_outcome) \<times> database" where
  "finalize_commit_cache b env generation row d =
     (case run b env (commit_cache b generation row) d of
        (Inl (Operation e), d') \<Rightarrow> (Inl e, d')
      | (Inl (Begin e), d') \<Rightarrow> (Inl (Publisher_Db e), d')
      | (Inr (CommitIndeterminate _), d') \<Rightarrow> (Inl (Publisher_Db Protocol), d')
      | (Inr (Confirmed outcome), d') \<Rightarrow> (Inr outcome, d'))"

subsection \<open>What a mutation does\<close>

lemma advance_generation_ok_iff [tx_simps]:
  "advance_generation c = (Inr g, c') \<longleftrightarrow> \<not> next_fault c \<and> g = publisher_generation (working c) + 1 \<and>
     c' = (spend_fault c)\<lparr>working := (working c)\<lparr>publisher_generation := publisher_generation (working c) + 1\<rparr>\<rparr>"
  by (auto simp: advance_generation_def tx_simps)

lemma clear_feed_cache_ok_iff [tx_simps]:
  "clear_feed_cache c = (Inr u, c') \<longleftrightarrow> \<not> next_fault c \<and>
     c' = (spend_fault c)\<lparr>working := (working c)\<lparr>feed_cache := []\<rparr>\<rparr>"
  by (simp add: clear_feed_cache_def tx_simps)

lemma read_generation_okD:
  "read_generation c = (Inr g, c') \<Longrightarrow> working c' = working c \<and> g = publisher_generation (working c)"
  by (auto simp: read_generation_def tx_simps)

lemma delete_matching_okD:
  "delete_matching key v c = (Inr removed, c') \<Longrightarrow> removed = (site_config (working c) key = Some v) \<and>
     working c' = (if removed then (working c)\<lparr>site_config := (site_config (working c))(key := None)\<rparr>
       else working c)"
  by (auto simp: delete_matching_def tx_simps split: if_split_asm)

text \<open>The database after a change of the configuration.\<close>

definition published :: "(site_config_key \<rightharpoonup> ustr) \<Rightarrow> database \<Rightarrow> database" where
  "published cfg d = d\<lparr>site_config := cfg, publisher_generation := publisher_generation d + 1,
     feed_cache := []\<rparr>"

lemma published_sel [simp]:
  "site_config (published cfg d) = cfg"
  "publisher_generation (published cfg d) = publisher_generation d + 1"
  "feed_cache (published cfg d) = []"
  "passkey_credentials (published cfg d) = passkey_credentials d"
  by (simp_all add: published_def)

lemma invalidate_identity_okD:
  "invalidate_identity db c = (Inr g, c') \<Longrightarrow>
     g = publisher_generation (working c) + 1 \<and> working c' = published (site_config (working c)) (working c)"
  by (auto simp: invalidate_identity_def tx_simps published_def)

lemma publish_hub_okD:
  "publish_hub written c = (Inr outcome, c') \<Longrightarrow>
     if written
     then outcome = Hub_Changed (publisher_generation (working c) + 1) \<and>
       working c' = published (site_config (working c)) (working c)
     else outcome = Hub_Unchanged (publisher_generation (working c)) \<and> working c' = working c"
  by (auto simp: publish_hub_def tx_simps published_def dest!: read_generation_okD split: if_split_asm)

lemma published_cfg [simp]: "published cfg (d\<lparr>site_config := cfg'\<rparr>) = published cfg d"
  by (simp add: published_def)

lemma write_hub_okD:
  assumes "write_hub hub (site_config (working c) FeedsWebsubHubUrl) c = (Inr written, c')"
  shows "(written \<longleftrightarrow> hub \<noteq> None \<or> site_config (working c) FeedsWebsubHubUrl \<noteq> None) \<and>
    (written \<longrightarrow> working c' = (working c)\<lparr>site_config := (site_config (working c))(FeedsWebsubHubUrl := hub)\<rparr>) \<and>
    (\<not> written \<longrightarrow> working c' = working c)"
proof (cases hub)
  case None
  with assms show ?thesis
    by (cases "site_config (working c) FeedsWebsubHubUrl")
      (auto simp: write_hub_def tx_return_def dest!: delete_matching_okD)
next
  case (Some v)
  with assms show ?thesis by (clarsimp simp: write_hub_def tx_simps)
qed

text \<open>The hub is stored as requested, in a form that is not to be repaired.\<close>

definition hub_set :: "url_parser \<Rightarrow> ustr option \<Rightarrow> database \<Rightarrow> bool" where
  "hub_set parse hub d \<longleftrightarrow> parse_hub parse (site_config d FeedsWebsubHubUrl) = hub \<and>
     (site_config d FeedsWebsubHubUrl = None \<or> hub \<noteq> None)"

lemma mutate_hub_okD:
  assumes "mutate_hub parse db hub c = (Inr outcome, c')"
  shows "if hub_set parse hub (working c)
    then outcome = Hub_Unchanged (publisher_generation (working c)) \<and> working c' = working c
    else outcome = Hub_Changed (publisher_generation (working c) + 1) \<and>
      working c' = published ((site_config (working c))(FeedsWebsubHubUrl := hub)) (working c)"
proof -
  let ?stored = "site_config (working c) FeedsWebsubHubUrl"
  have branch: "hub_set parse hub (working c) \<longleftrightarrow>
      parse_hub parse ?stored = hub \<and> \<not> (?stored \<noteq> None \<and> parse_hub parse ?stored = None)"
    by (auto simp: hub_set_def)
  show ?thesis
  proof (cases "hub_set parse hub (working c)")
    case True
    with assms branch show ?thesis
      unfolding mutate_hub_def Let_def by (auto simp: tx_simps dest!: read_generation_okD)
  next
    case False
    then have some: "hub \<noteq> None \<or> ?stored \<noteq> None"
      by (cases ?stored) (auto simp: hub_set_def parse_hub_def)
    let ?c = "(spend_fault c)\<lparr>working := working c\<rparr>"
    from assms False branch obtain written c2
      where w: "write_hub hub (site_config (working ?c) FeedsWebsubHubUrl) ?c = (Inr written, c2)"
        and p: "publish_hub written c2 = (Inr outcome, c')"
      unfolding mutate_hub_def Let_def by (auto simp: tx_simps split: if_split_asm)
    from write_hub_okD [OF w] publish_hub_okD [OF p] some False show ?thesis by simp
  qed
qed

lemma mutate_feed_window_okD:
  assumes "mutate_feed_window db mutation c = (Inr g, c')"
  shows "g = publisher_generation (working c) + 1 \<and>
    working c' = published
      (case mutation of
         SetMinItems v \<Rightarrow> (site_config (working c))(FeedsMinItems \<mapsto> decimal (nat v))
       | UnsetMinItems \<Rightarrow> (site_config (working c))(FeedsMinItems := None)
       | SetMinDays v \<Rightarrow> (site_config (working c))(FeedsMinDays \<mapsto> decimal v)
       | UnsetMinDays \<Rightarrow> (site_config (working c))(FeedsMinDays := None)) (working c)"
  using assms
  by (cases mutation) (auto simp: mutate_feed_window_def apply_feed_window_def tx_simps published_def)

lemma repair_malformed_hub_okD:
  assumes "repair_malformed_hub db token c = (Inr outcome, c')"
  shows "if site_config (working c) FeedsWebsubHubUrl = Some token
    then outcome = Hub_Changed (publisher_generation (working c) + 1) \<and>
      working c' = published ((site_config (working c))(FeedsWebsubHubUrl := None)) (working c)
    else outcome = Hub_Unchanged (publisher_generation (working c)) \<and> working c' = working c"
  using assms unfolding repair_malformed_hub_def
  by (auto simp: tx_simps dest!: delete_matching_okD publish_hub_okD split: if_split_asm)

lemma commit_cache_okD:
  assumes "commit_cache db g row c = (Inr outcome, c')"
  shows "if publisher_generation (working c) = g
    then \<exists>c0 eff. outcome = Cache_Committed eff \<and> working c0 = working c \<and>
      upsert_on_connection row c0 = (Inr eff, c')
    else outcome = StaleGeneration \<and> working c' = working c"
  using assms unfolding commit_cache_def
  by (auto simp: tx_simps split: if_split_asm) (metis connection.ext_inject connection.surjective
      connection.update_convs(3) spend_fault_sel(1))+

lemma upsert_on_connection_frame:
  "upsert_on_connection row c = (Inr eff, c') \<Longrightarrow>
     working c' = (working c)\<lparr>feed_cache := feed_cache (working c')\<rparr>"
  by (auto simp: upsert_on_connection_def tx_simps upsert_stored_def split: option.splits)

text \<open>The change of the configuration an identity mutation asks for.\<close>

lemma apply_identity_mutation_okD:
  assumes "apply_identity_mutation parse db mutation c = (Inr u, c')"
  shows "\<exists>cfg. working c' = (working c)\<lparr>site_config := cfg\<rparr>"
proof (cases mutation)
  case (SetTitle t)
  with assms show ?thesis
    by (auto simp: apply_identity_mutation_def tx_simps dest!: site_config_set_okD)
next
  case (SetTagline t)
  with assms show ?thesis
    by (auto simp: apply_identity_mutation_def tx_simps dest!: site_config_set_okD)
next
  case (SetBaseUrl t)
  with assms show ?thesis
    by (auto simp: apply_identity_mutation_def tx_simps dest!: set_base_url_guard_okD)
next
  case UnsetTitle
  with assms show ?thesis
    by (auto simp: apply_identity_mutation_def tx_simps dest!: site_config_delete_okD)
next
  case UnsetTagline
  with assms show ?thesis
    by (auto simp: apply_identity_mutation_def tx_simps dest!: site_config_delete_okD)
next
  case UnsetBaseUrl
  with assms show ?thesis
    by (auto simp: apply_identity_mutation_def tx_simps dest!: clear_base_url_guard_okD)
qed

lemma mutate_identity_okD:
  assumes "mutate_identity parse db mutation c = (Inr g, c')"
  shows "\<exists>c1. apply_identity_mutation parse db mutation c = (Inr (), c1) \<and>
    working c' = published (site_config (working c1)) (working c)"
proof -
  from assms obtain c1 where c1: "apply_identity_mutation parse db mutation c = (Inr (), c1)"
    "invalidate_identity db c1 = (Inr g, c')"
    by (auto simp: mutate_identity_def tx_simps)
  obtain cfg where "working c1 = (working c)\<lparr>site_config := cfg\<rparr>"
    using apply_identity_mutation_okD [OF c1(1)] by blast
  with c1(1) invalidate_identity_okD [OF c1(2)] show ?thesis by auto
qed

lemma set_identity_okD:
  assumes "set_identity parse db identity c = (Inr u, c')"
  shows "\<exists>c1. set_base_url_with_passkey_guard parse db (identity_base_url identity) c = (Inr (), c1) \<and>
    working c' = published ((site_config (working c1))(SiteTitle \<mapsto> identity_title identity,
      SiteTagline \<mapsto> optional_text (identity_tagline identity))) (working c)"
proof -
  from assms obtain c1 c2 c3 g where
      c1: "set_base_url_with_passkey_guard parse db (identity_base_url identity) c = (Inr (), c1)"
    and c2: "site_config_set db SiteTitle (identity_title identity) c1 = (Inr (), c2)"
    and c3: "site_config_set db SiteTagline (optional_text (identity_tagline identity)) c2 = (Inr (), c3)"
    and c4: "invalidate_identity db c3 = (Inr g, c')"
    by (auto simp: set_identity_def tx_simps)
  from set_base_url_guard_okD [OF c1] obtain cfg where "working c1 = (working c)\<lparr>site_config := cfg\<rparr>"
    by blast
  with c1 site_config_set_okD [OF c2] site_config_set_okD [OF c3] invalidate_identity_okD [OF c4]
  show ?thesis by auto
qed

subsection \<open>Requests to the publisher\<close>

datatype publisher_request =
    Mutate_Hub "ustr option"
  | Mutate_Feed_Window feed_window_mutation
  | Repair_Hub ustr
  | Mutate_Identity site_identity_mutation
  | Set_Identity site_identity
  | Commit_Cache int feed_cache_row

datatype publisher_request_error =
    Request_Storage publisher_storage_error
  | Request_Identity site_identity_error

definition tx_void :: "('db, 'e, 'a) tx \<Rightarrow> ('db, 'e, unit) tx" where
  "tx_void m = tx_bind m (\<lambda>_. tx_return ())"

lemma tx_void_ok_iff [tx_simps]: "tx_void m c = (Inr u, c') \<longleftrightarrow> (\<exists>a. m c = (Inr a, c'))"
  by (auto simp: tx_void_def tx_simps)

definition publisher_step ::
  "url_parser \<Rightarrow> backend \<Rightarrow> publisher_request \<Rightarrow> (database, publisher_request_error, unit) tx" where
  "publisher_step parse db q =
     (case q of
        Mutate_Hub hub \<Rightarrow> tx_map_err Request_Storage (tx_void (mutate_hub parse db hub))
      | Mutate_Feed_Window m \<Rightarrow> tx_map_err Request_Storage (tx_void (mutate_feed_window db m))
      | Repair_Hub token \<Rightarrow> tx_map_err Request_Storage (tx_void (repair_malformed_hub db token))
      | Mutate_Identity m \<Rightarrow> tx_map_err Request_Identity (tx_void (mutate_identity parse db m))
      | Set_Identity i \<Rightarrow> tx_map_err Request_Identity (set_identity parse db i)
      | Commit_Cache g row \<Rightarrow> tx_map_err Request_Storage (tx_void (commit_cache db g row)))"

lemma publisher_step_effect:
  assumes "publisher_step parse db q c = (Inr u, c')"
  shows "working c' = working c \<or> (\<exists>cfg. working c' = published cfg (working c)) \<or>
    (\<exists>row c0 eff. q = Commit_Cache (publisher_generation (working c)) row \<and> working c0 = working c \<and>
       upsert_on_connection row c0 = (Inr eff, c'))"
proof (cases q)
  case (Mutate_Hub hub)
  with assms obtain o' where "mutate_hub parse db hub c = (Inr o', c')"
    by (auto simp: publisher_step_def tx_simps)
  from mutate_hub_okD [OF this] show ?thesis by (metis (full_types))
next
  case (Mutate_Feed_Window m)
  with assms obtain g where "mutate_feed_window db m c = (Inr g, c')"
    by (auto simp: publisher_step_def tx_simps)
  from mutate_feed_window_okD [OF this] show ?thesis by blast
next
  case (Repair_Hub token)
  with assms obtain o' where "repair_malformed_hub db token c = (Inr o', c')"
    by (auto simp: publisher_step_def tx_simps)
  from repair_malformed_hub_okD [OF this] show ?thesis by (metis (full_types))
next
  case (Mutate_Identity m)
  with assms obtain g where "mutate_identity parse db m c = (Inr g, c')"
    by (auto simp: publisher_step_def tx_simps)
  from mutate_identity_okD [OF this] show ?thesis by blast
next
  case (Set_Identity i)
  with assms have "set_identity parse db i c = (Inr u, c')"
    by (auto simp: publisher_step_def tx_simps)
  from set_identity_okD [OF this] show ?thesis by blast
next
  case (Commit_Cache g row)
  with assms obtain o' where "commit_cache db g row c = (Inr o', c')"
    by (auto simp: publisher_step_def tx_simps)
  from commit_cache_okD [OF this] Commit_Cache show ?thesis by (auto split: if_split_asm)
qed

text \<open>
  The state of the fence relative to a moment: no earlier generation, and at the same generation
  the same configuration.
\<close>

definition fenced :: "int \<Rightarrow> (site_config_key \<rightharpoonup> ustr) \<Rightarrow> database \<Rightarrow> bool" where
  "fenced g cfg d \<longleftrightarrow>
     g \<le> publisher_generation d \<and> (publisher_generation d = g \<longrightarrow> site_config d = cfg)"

lemma publisher_step_fenced:
  assumes "fenced g cfg (working c)" and "publisher_step parse db q c = (Inr u, c')"
  shows "fenced g cfg (working c')"
  using publisher_step_effect [OF assms(2)]
proof (elim disjE exE conjE)
  fix row c0 eff
  assume "working c0 = working c" "upsert_on_connection row c0 = (Inr eff, c')"
  with upsert_on_connection_frame [of row c0 eff c'] obtain rows
    where "working c' = (working c)\<lparr>feed_cache := rows\<rparr>" by auto
  with assms(1) show ?thesis by (simp add: fenced_def)
qed (use assms(1) in \<open>auto simp: fenced_def\<close>)

interpretation publisher: invariant_store "publisher_step parse db" "fenced g cfg" for parse db g cfg
  by unfold_locales (rule publisher_step_fenced)

text \<open>
  C8: the generation fences the configuration. Whatever sequence of publisher requests runs, and
  however its scopes fail, the generation never goes back, and as long as it is the same the
  configuration is the same: what was rendered from a snapshot is out of date only if its
  generation is.
\<close>

theorem generation_fences_configuration:
  "let d = snd (run_all b (map (\<lambda>(env, q). (env, publisher_step parse b q)) requests) db)
   in publisher_generation db < publisher_generation d \<or>
     (publisher_generation d = publisher_generation db \<and>
        snapshot_from_row parse (site_config d) (publisher_generation d) =
          snapshot_from_row parse (site_config db) (publisher_generation db))"
proof -
  have "fenced (publisher_generation db) (site_config db) db"
    by (simp add: fenced_def)
  from publisher.run_all_keeps_wf [OF this, of b parse b requests] show ?thesis
    by (auto simp: fenced_def Let_def)
qed

text \<open>
  A request as the typed callers make it: rows and base URLs went through their constructors.
\<close>

fun base_url_ok :: "url_parser \<Rightarrow> ustr option \<Rightarrow> bool" where
  "base_url_ok parse None = True"
| "base_url_ok parse (Some u) = is_base_url parse u"

fun request_ok :: "url_parser \<Rightarrow> publisher_request \<Rightarrow> bool" where
  "request_ok parse (Commit_Cache g row) = feed_cache_row_ok row"
| "request_ok parse (Mutate_Identity (SetBaseUrl u)) = base_url_ok parse u"
| "request_ok parse (Set_Identity i) = base_url_ok parse (identity_base_url i)"
| "request_ok parse q = True"

text \<open>Every cached row was committed, under the current generation, by one of the requests.\<close>

definition rendered_by :: "publisher_request set \<Rightarrow> database \<Rightarrow> bool" where
  "rendered_by Q d \<longleftrightarrow> cache_wf d \<and>
     (\<forall>p row. cached p d = Some row \<longrightarrow>
        (\<exists>row0. Commit_Cache (publisher_generation d) row0 \<in> Q \<and> row_feed_path row0 = p \<and>
           row = row0\<lparr>row_generated_at := row_generated_at row\<rparr>))"

lemma cached_empty [simp]: "feed_cache d = [] \<Longrightarrow> cached p d = None" "feed_cache d = [] \<Longrightarrow> cache_wf d"
  by (simp_all add: cached_def find_cached_def cache_wf_def)

lemma publisher_step_rendered:
  assumes "rendered_by Q (working c)" and "q \<in> Q" and "request_ok parse q"
    and "publisher_step parse db q c = (Inr u, c')"
  shows "rendered_by Q (working c')"
  using publisher_step_effect [OF assms(4)]
proof (elim disjE exE conjE)
  fix row c0 eff
  assume q: "q = Commit_Cache (publisher_generation (working c)) row" and c0: "working c0 = working c"
    and up: "upsert_on_connection row c0 = (Inr eff, c')"
  have wf: "cache_wf (working c0)" and ok: "feed_cache_row_ok row"
    using assms(1,3) q c0 by (simp_all add: rendered_by_def)
  note upd = upsert_on_connection_okD [OF wf ok up]
  have gen: "publisher_generation (working c') = publisher_generation (working c)"
    using upsert_on_connection_frame [OF up, THEN arg_cong, of publisher_generation] c0 by simp
  show ?thesis
    unfolding rendered_by_def gen
  proof (intro conjI allI impI)
    show "cache_wf (working c')" using upd by blast
    fix p r
    assume r: "cached p (working c') = Some r"
    show "\<exists>row0. Commit_Cache (publisher_generation (working c)) row0 \<in> Q \<and> row_feed_path row0 = p \<and>
        r = row0\<lparr>row_generated_at := row_generated_at r\<rparr>"
    proof (cases "p = row_feed_path row")
      case False
      with r upd c0 have "cached p (working c) = Some r" by simp
      with assms(1) show ?thesis unfolding rendered_by_def by blast
    next
      case True
      with r upd c0 have eff: "r = effective_row (cached p (working c)) row" by simp
      show ?thesis
      proof (cases "r = row")
        case True
        with q assms(2) \<open>p = row_feed_path row\<close> show ?thesis by (intro exI [of _ row]) simp
      next
        case False
        then obtain old where "cached p (working c) = Some old"
          "r = old\<lparr>row_generated_at := row_generated_at r\<rparr>"
          using eff by (auto simp: effective_row_def split: option.splits if_splits)
        with assms(1) obtain row0 where "Commit_Cache (publisher_generation (working c)) row0 \<in> Q"
          "row_feed_path row0 = p" "old = row0\<lparr>row_generated_at := row_generated_at old\<rparr>"
          unfolding rendered_by_def by blast
        with \<open>r = old\<lparr>row_generated_at := row_generated_at r\<rparr>\<close> show ?thesis
          by (intro exI [of _ row0]) (cases r; cases old; cases row0; simp)
      qed
    qed
  qed
qed (use assms(1) in \<open>auto simp: rendered_by_def\<close>)

text \<open>
  C37: a cached feed is never stale. Starting from an empty cache, after any sequence of publisher
  requests and whatever scopes fail, every row that is read was offered by one of the requests for
  exactly that path under the generation that is still current; only its generation instant may
  be that of a later identical rendering.
\<close>

theorem cached_rows_are_current:
  assumes "feed_cache db = []" and "list_all (\<lambda>(env, q). request_ok parse q) requests"
    and "d = snd (run_all b (map (\<lambda>(env, q). (env, publisher_step parse b q)) requests) db)"
    and "cached path d = Some row"
  shows "\<exists>offered env. (env, Commit_Cache (publisher_generation d) offered) \<in> set requests \<and>
    row_feed_path offered = path \<and> row = offered\<lparr>row_generated_at := row_generated_at row\<rparr>"
proof -
  let ?Q = "snd ` set requests"
  have "rendered_by ?Q d"
    unfolding assms(3)
  proof (rule run_all_invariant [where ok = "\<lambda>q. q \<in> ?Q \<and> request_ok parse q" and P = "rendered_by ?Q"])
    show "rendered_by ?Q db" using assms(1) by (simp add: rendered_by_def)
  next
    fix env q
    assume "(env, q) \<in> set requests"
    with assms(2) show "q \<in> ?Q \<and> request_ok parse q"
      by (auto simp: list_all_iff image_iff intro: bexI [of _ "(env, q)"])
  next
    fix q :: publisher_request and c c' :: "database connection" and u
    assume "q \<in> ?Q \<and> request_ok parse q" "rendered_by ?Q (working c)"
      "publisher_step parse b q c = (Inr u, c')"
    then show "rendered_by ?Q (working c')" using publisher_step_rendered by blast
  qed
  with assms(4) obtain offered where o': "Commit_Cache (publisher_generation d) offered \<in> ?Q"
    "row_feed_path offered = path" "row = offered\<lparr>row_generated_at := row_generated_at row\<rparr>"
    unfolding rendered_by_def by blast
  then obtain env where "(env, Commit_Cache (publisher_generation d) offered) \<in> set requests"
    by auto
  with o'(2,3) show ?thesis by blast
qed

definition example_requests :: "(scope_env \<times> publisher_request) list" where
  "example_requests = [(clean_env, Commit_Cache 0 (example_row 2 48 5))]"

lemma example_requests_run:
  "snd (run_all Sqlite (map (\<lambda>(env, q). (env, publisher_step parse Sqlite q)) example_requests) empty_database)
     = empty_database\<lparr>feed_cache := [stored_of (example_row 2 48 5)]\<rparr>"
proof -
  have ok: "load_stored (stored_of (example_row 2 48 5)) = Inr (example_row 2 48 5)"
    by (rule load_stored_of, rule example_row_ok) simp
  show ?thesis
    by (simp add: example_requests_def run_def publisher_step_def tx_void_def commit_cache_def tx_eval
        upsert_on_connection_def upsert_stored_def find_cached_def empty_database_def ok tx_of_result_def
        open_connection_def)
qed

theorem cached_rows_are_current_witness:
  "\<exists>offered env. (env, Commit_Cache 0 offered) \<in> set example_requests \<and>
     row_feed_path offered = lit ''/feed.rss''"
proof -
  let ?d = "empty_database\<lparr>feed_cache := [stored_of (example_row 2 48 5)]\<rparr>"
  have ok: "feed_cache_row_ok (example_row 2 48 5)" by (rule example_row_ok) simp
  have path: "fc_feed_url (stored_of (example_row 2 48 5)) = lit ''/feed.rss''"
    by (simp add: stored_of_def example_row_def)
  have "feed_cache empty_database = []" by (simp add: empty_database_def)
  moreover have "list_all (\<lambda>(env, q). request_ok example_url_parser q) example_requests"
    using ok by (simp add: example_requests_def)
  moreover have "cached (lit ''/feed.rss'') ?d = Some (example_row 2 48 5)"
    by (simp add: cached_def find_cached_def path load_stored_of [OF ok])
  ultimately have "\<exists>offered env. (env, Commit_Cache (publisher_generation ?d) offered) \<in> set example_requests \<and>
      row_feed_path offered = lit ''/feed.rss'' \<and>
      example_row 2 48 5 = offered\<lparr>row_generated_at := row_generated_at (example_row 2 48 5)\<rparr>"
    by (rule cached_rows_are_current [OF _ _ example_requests_run [symmetric]])
  then show ?thesis by (auto simp: empty_database_def)
qed

definition host_locked :: "url_parser \<Rightarrow> ustr option \<Rightarrow> database \<Rightarrow> bool" where
  "host_locked parse h d \<longleftrightarrow> passkey_credentials d \<noteq> [] \<and> rp_host parse d = h"

lemma host_locked_frame:
  "host_locked parse h d \<Longrightarrow> passkey_credentials d' = passkey_credentials d \<Longrightarrow>
     site_config d' SiteBaseUrl = site_config d SiteBaseUrl \<Longrightarrow> host_locked parse h d'"
  by (simp add: host_locked_def rp_host_def)

lemma set_base_url_guard_locked:
  assumes "host_locked parse h (working c)" and "base_url_ok parse u"
    and "set_base_url_with_passkey_guard parse db u c = (Inr x, c')"
  shows "host_locked parse h (working c')"
proof -
  have "case u of None \<Rightarrow> True | Some u \<Rightarrow> is_base_url parse u"
    using assms(2) by (cases u) simp_all
  from set_base_url_guard_host [OF this] assms(3)
  have "passkey_credentials (working c) = [] \<or> rp_host parse (working c') = rp_host parse (working c)"
    by auto
  with assms(1) set_base_url_guard_okD [OF assms(3)] show ?thesis
    by (auto simp: host_locked_def)
qed

lemma apply_identity_mutation_locked:
  assumes "host_locked parse h (working c)" and "request_ok parse (Mutate_Identity m)"
    and "apply_identity_mutation parse db m c = (Inr x, c')"
  shows "host_locked parse h (working c')"
proof (cases m)
  case (SetTitle t)
  with assms show ?thesis
    by (auto simp: apply_identity_mutation_def tx_simps dest!: site_config_set_okD intro: host_locked_frame)
next
  case (SetTagline t)
  with assms show ?thesis
    by (auto simp: apply_identity_mutation_def tx_simps dest!: site_config_set_okD intro: host_locked_frame)
next
  case (SetBaseUrl u)
  with assms set_base_url_guard_locked [OF assms(1)] show ?thesis
    by (auto simp: apply_identity_mutation_def tx_simps)
next
  case UnsetTitle
  with assms show ?thesis
    by (auto simp: apply_identity_mutation_def tx_simps dest!: site_config_delete_okD intro: host_locked_frame)
next
  case UnsetTagline
  with assms show ?thesis
    by (auto simp: apply_identity_mutation_def tx_simps dest!: site_config_delete_okD intro: host_locked_frame)
next
  case UnsetBaseUrl
  with assms show ?thesis
    by (auto simp: apply_identity_mutation_def tx_simps host_locked_def dest!: clear_base_url_guard_okD)
qed

lemma published_locked:
  "host_locked parse h (d\<lparr>site_config := cfg\<rparr>) \<Longrightarrow> host_locked parse h (published cfg d)"
  by (simp add: host_locked_def rp_host_def)

lemma publisher_step_locked:
  assumes "host_locked parse h (working c)" and "request_ok parse q"
    and "publisher_step parse db q c = (Inr u, c')"
  shows "host_locked parse h (working c')"
proof (cases q)
  case (Mutate_Hub hub)
  with assms obtain o' where "mutate_hub parse db hub c = (Inr o', c')"
    by (auto simp: publisher_step_def tx_simps)
  from mutate_hub_okD [OF this] assms(1) host_locked_frame show ?thesis by (simp split: if_split_asm)
next
  case (Mutate_Feed_Window m)
  with assms obtain g where "mutate_feed_window db m c = (Inr g, c')"
    by (auto simp: publisher_step_def tx_simps)
  from mutate_feed_window_okD [OF this] assms(1) show ?thesis
    by (cases m) (auto intro: host_locked_frame)
next
  case (Repair_Hub token)
  with assms obtain o' where "repair_malformed_hub db token c = (Inr o', c')"
    by (auto simp: publisher_step_def tx_simps)
  from repair_malformed_hub_okD [OF this] assms(1) host_locked_frame show ?thesis
    by (simp split: if_split_asm)
next
  case (Mutate_Identity m)
  with assms obtain g where "mutate_identity parse db m c = (Inr g, c')"
    by (auto simp: publisher_step_def tx_simps)
  then obtain c1 where c1: "apply_identity_mutation parse db m c = (Inr (), c1)"
    "working c' = published (site_config (working c1)) (working c)"
    using mutate_identity_okD by blast
  obtain cfg where "working c1 = (working c)\<lparr>site_config := cfg\<rparr>"
    using apply_identity_mutation_okD [OF c1(1)] by blast
  with apply_identity_mutation_locked [OF assms(1) _ c1(1)] assms(2) Mutate_Identity c1(2)
  show ?thesis by (simp add: published_locked)
next
  case (Set_Identity i)
  with assms have "set_identity parse db i c = (Inr u, c')"
    by (auto simp: publisher_step_def tx_simps)
  then obtain c1 where c1: "set_base_url_with_passkey_guard parse db (identity_base_url i) c = (Inr (), c1)"
    "working c' = published ((site_config (working c1))(SiteTitle \<mapsto> identity_title i,
      SiteTagline \<mapsto> optional_text (identity_tagline i))) (working c)"
    using set_identity_okD by blast
  have "base_url_ok parse (identity_base_url i)" using assms(2) Set_Identity by simp
  from set_base_url_guard_locked [OF assms(1) this c1(1)] set_base_url_guard_okD [OF c1(1)] c1(2)
  show ?thesis by (auto simp: host_locked_def rp_host_def)
next
  case (Commit_Cache g row)
  with publisher_step_effect [OF assms(3)] have "\<exists>rows. working c' = (working c)\<lparr>feed_cache := rows\<rparr> \<or>
      working c' = working c"
  proof (elim disjE exE conjE)
    fix cfg
    assume "working c' = published cfg (working c)"
    obtain o' where o': "commit_cache db g row c = (Inr o', c')"
      using Commit_Cache assms(3) by (auto simp: publisher_step_def tx_simps)
    from commit_cache_okD [OF o'] upsert_on_connection_frame show ?thesis
      by (metis (full_types))
  next
    fix row' c0 eff
    assume "working c0 = working c" "upsert_on_connection row' c0 = (Inr eff, c')"
    then show ?thesis by (metis upsert_on_connection_frame)
  qed auto
  with assms(1) show ?thesis by (auto simp: host_locked_def rp_host_def)
qed

text \<open>
  C39: passkeys lock the relying party. While any passkey exists, no sequence of publisher
  requests (identity changes included) changes the host the passkeys are bound to.
\<close>

theorem rp_host_locked:
  assumes "passkey_credentials db \<noteq> []" and "list_all (\<lambda>(env, q). request_ok parse q) requests"
  shows "rp_host parse (snd (run_all b (map (\<lambda>(env, q). (env, publisher_step parse b q)) requests) db)) =
    rp_host parse db"
proof -
  have "host_locked parse (rp_host parse db)
      (snd (run_all b (map (\<lambda>(env, q). (env, publisher_step parse b q)) requests) db))"
  proof (rule run_all_invariant [where ok = "request_ok parse" and P = "host_locked parse (rp_host parse db)"])
    show "host_locked parse (rp_host parse db) db" using assms(1) by (simp add: host_locked_def)
  next
    fix env q
    assume "(env, q) \<in> set requests"
    with assms(2) show "request_ok parse q" by (auto simp: list_all_iff)
  qed (rule publisher_step_locked)
  then show ?thesis by (simp add: host_locked_def)
qed

theorem rp_host_locked_witness:
  "rp_host example_url_parser (snd (run_all Sqlite
     (map (\<lambda>(env, q). (env, publisher_step example_url_parser Sqlite q))
       [(clean_env, Mutate_Identity UnsetBaseUrl), (clean_env, Mutate_Identity (SetBaseUrl None))])
     example_locked_database)) = Some (lit ''jaunder.org'')"
proof -
  have "passkey_credentials example_locked_database \<noteq> []"
    by (simp add: example_locked_database_def)
  from rp_host_locked [OF this, of example_url_parser
      "[(clean_env, Mutate_Identity UnsetBaseUrl), (clean_env, Mutate_Identity (SetBaseUrl None))]" Sqlite]
  have "rp_host example_url_parser (snd (run_all Sqlite
      (map (\<lambda>(env, q). (env, publisher_step example_url_parser Sqlite q))
        [(clean_env, Mutate_Identity UnsetBaseUrl), (clean_env, Mutate_Identity (SetBaseUrl None))])
      example_locked_database)) = rp_host example_url_parser example_locked_database"
    by simp
  also have "\<dots> = Some (lit ''jaunder.org'')"
    by (simp add: rp_host_def) (simp add: example_url_parser_def example_url_def host_str_def)
  finally show ?thesis .
qed

lemma stored_url_readings_agree:
  assumes "url_parser_ok parse"
  shows "Option.bind (Option.bind raw non_empty) (parse_tagged_url parse) =
    Option.bind (Option.bind raw (\<lambda>v. if v = [] then None else Some v)) (parse_tagged_url parse)"
proof (cases raw)
  case (Some v)
  have "parse_tagged_url parse (trim v) = parse_tagged_url parse v"
    unfolding parse_tagged_url_def trim_trim ..
  moreover have "trim v = [] \<Longrightarrow> parse_tagged_url parse v = None"
    by (rule parse_tagged_url_blank [OF assms])
  moreover have "v = [] \<Longrightarrow> trim v = []"
    by (simp add: trim_def trim_start_def trim_end_def)
  ultimately show ?thesis
    unfolding Some non_empty_def by (cases "trim v = []") auto
qed simp

text \<open>
  the snapshot agrees with the getters. The one-statement snapshot of the publisher and the
  separate readings of the configuration store return the same feed settings and the same
  identity, and fail on the same malformed minimums.
\<close>

theorem snapshot_agrees_with_getters:
  assumes "url_parser_ok parse"
  shows "(case snapshot_from_row parse cfg g of
      Inl e \<Rightarrow> feeds_config_of parse cfg = Inl e
    | Inr s \<Rightarrow> feeds_config_of parse cfg = Inr (snapshot_feeds s) \<and>
        identity_of parse cfg = snapshot_identity s \<and> snapshot_generation s = g)"
  unfolding snapshot_from_row_def feeds_config_of_def identity_of_def stored_base_url_def
    stored_url_readings_agree [OF assms] parse_hub_def
  by (simp add: Let_def split: sum.split)

theorem snapshot_agrees_with_getters_witness:
  "feeds_config_of example_url_parser [FeedsMinDays \<mapsto> lit '' 7 ''] =
     Inr \<lparr>feeds_min_items = 20, feeds_min_days = 7, feeds_websub_hub_url = None\<rparr> \<and>
   feeds_config_of example_url_parser [FeedsMinDays \<mapsto> lit ''0''] = Inl ColumnDecode"
  using snapshot_agrees_with_getters [OF example_url_parser_ok, of "[FeedsMinDays \<mapsto> lit '' 7 '']" 3]
    snapshot_agrees_with_getters [OF example_url_parser_ok, of "[FeedsMinDays \<mapsto> lit ''0'']" 3]
  by (simp add: snapshot_from_row_def parse_feed_minimum_def parse_feed_min_days_def trim_def
      trim_start_def trim_end_def is_whitespace_def parse_unsigned_def digits_value_def
      is_ascii_digit_def default_feed_min_items_def parse_hub_def)

lemma parse_hub_stored:
  assumes "is_base_url parse v"
  shows "parse_hub parse (Some v) = Some v"
  using assms by (simp add: parse_hub_def is_base_url_def)

text \<open>
  A hub change takes effect once. A successful change leaves the requested hub readable and
  nothing to repair; if it already was, nothing changes and no feed is rendered again; otherwise
  the generation advances by one, the cache is empty and no other setting has changed.
\<close>

theorem mutate_hub_effect:
  assumes "mutate_hub parse db hub c = (Inr outcome, c')" and "base_url_ok parse hub"
  shows "hub_set parse hub (working c') \<and>
    (if hub_set parse hub (working c)
     then outcome = Hub_Unchanged (publisher_generation (working c)) \<and> working c' = working c
     else outcome = Hub_Changed (publisher_generation (working c')) \<and>
       publisher_generation (working c') = publisher_generation (working c) + 1 \<and>
       feed_cache (working c') = [] \<and>
       site_config (working c') = (site_config (working c))(FeedsWebsubHubUrl := hub))"
proof -
  have "parse_hub parse hub = hub"
    using assms(2) parse_hub_stored by (cases hub) (auto simp: parse_hub_def)
  then have "hub_set parse hub (published ((site_config d)(FeedsWebsubHubUrl := hub)) d)" for d
    by (cases hub) (simp_all add: hub_set_def)
  with mutate_hub_okD [OF assms(1)] show ?thesis by (simp split: if_split_asm)
qed

theorem mutate_hub_effect_witness:
  "\<exists>c'. mutate_hub example_url_parser Sqlite (Some example_base_url) (example_connection Sqlite
      (empty_database\<lparr>site_config := [FeedsWebsubHubUrl \<mapsto> lit ''junk'']\<rparr>)) = (Inr (Hub_Changed 1), c') \<and>
    site_config (working c') FeedsWebsubHubUrl = Some example_base_url"
proof -
  let ?c = "example_connection Sqlite (empty_database\<lparr>site_config := [FeedsWebsubHubUrl \<mapsto> lit ''junk'']\<rparr>)"
  have junk: "parse_hub example_url_parser (Some (lit ''junk'')) = None"
    by (simp add: parse_hub_def parse_tagged_url_def example_url_parser_def trim_def trim_start_def
        trim_end_def is_whitespace_def example_base_url_def)
  have "fst (mutate_hub example_url_parser Sqlite (Some example_base_url) ?c) = Inr (Hub_Changed 1)"
    using junk by (simp add: mutate_hub_def tx_eval write_hub_def publish_hub_def set_stored_on_def
        advance_generation_def clear_feed_cache_def empty_database_def)
  then obtain c' where c': "mutate_hub example_url_parser Sqlite (Some example_base_url) ?c =
      (Inr (Hub_Changed 1), c')"
    by (metis prod.collapse)
  from mutate_hub_effect [OF c'] example_base_url_ok junk c' show ?thesis
    by (simp add: hub_set_def)
qed

text \<open>
  a repair never erases a valid hub. Whatever other writers commit between the read of a
  malformed hub and its repair, the service removes only exactly the malformed value it read: if
  the stored value is another one by then, the database is left as those writers left it.
\<close>

theorem repair_spares_replacement:
  assumes "snapshot_from_row parse (site_config d) (publisher_generation d) = Inr s"
    and "site_config (meanwhile d) FeedsWebsubHubUrl \<noteq> snapshot_malformed_hub s"
  shows "snd (service_snapshot parse b env meanwhile d) \<in> {d, meanwhile d}"
proof (cases "snapshot_malformed_hub s")
  case None
  with assms(1) show ?thesis by (simp add: service_snapshot_def read_snapshot_def)
next
  case (Some token)
  obtain r d' where r: "run b (repair_env env) (repair_malformed_hub b token) (meanwhile d) = (r, d')"
    by fastforce
  have "d' = meanwhile d"
  proof (rule ccontr)
    assume "d' \<noteq> meanwhile d"
    from run_changedD [OF r this] obtain v c where
      v: "repair_malformed_hub b token (open_connection b (repair_env env) (meanwhile d)) = (Inr v, c)"
      "d' = working c" by blast
    from repair_malformed_hub_okD [OF v(1)] assms(2) Some v(2) \<open>d' \<noteq> meanwhile d\<close> show False by simp
  qed
  with r assms(1) Some show ?thesis
    by (auto simp: service_snapshot_def read_snapshot_def split: sum.split mutation_outcome.split)
qed

theorem repair_spares_replacement_witness:
  "let d = empty_database\<lparr>site_config := [FeedsWebsubHubUrl \<mapsto> lit ''junk'']\<rparr>;
       other = (\<lambda>d. d\<lparr>site_config := [FeedsWebsubHubUrl \<mapsto> example_base_url]\<rparr>);
       env = \<lparr>first_read_fails = False, gate_fails = False, repair_env = clean_env, second_read_fails = False\<rparr>
   in site_config (snd (service_snapshot example_url_parser Sqlite env other d)) FeedsWebsubHubUrl \<in>
        {Some (lit ''junk''), Some example_base_url}"
proof -
  let ?d = "empty_database\<lparr>site_config := [FeedsWebsubHubUrl \<mapsto> lit ''junk'']\<rparr>"
  let ?other = "\<lambda>d :: database. d\<lparr>site_config := [FeedsWebsubHubUrl \<mapsto> example_base_url]\<rparr>"
  obtain s where s: "snapshot_from_row example_url_parser (site_config ?d) (publisher_generation ?d) = Inr s"
    and m: "snapshot_malformed_hub s \<noteq> Some example_base_url"
    by (simp add: snapshot_from_row_def parse_feed_minimum_def example_base_url_def Let_def)
  let ?env = "\<lparr>first_read_fails = False, gate_fails = False, repair_env = clean_env, second_read_fails = False\<rparr>"
  have ne: "site_config (?other ?d) FeedsWebsubHubUrl \<noteq> snapshot_malformed_hub s"
    using m by (simp add: eq_commute)
  have "site_config d' FeedsWebsubHubUrl \<in> {Some (lit ''junk''), Some example_base_url}"
    if "d' \<in> {?d, ?other ?d}" for d'
    using that by auto
  from this [OF repair_spares_replacement [where meanwhile = ?other, OF s ne, of Sqlite ?env]] show ?thesis
    by (simp only: Let_def)
qed

end
