(* ===== verification/Passkeys.thy ===== *)
theory Passkeys
  imports Site_Config Accounts
begin

section \<open>Passkeys\<close>

text \<open>
  \<^verbatim>\<open>storage/src/passkeys.rs\<close> with its dialects, the passkey mutations of
  \<^verbatim>\<open>storage/src/account_mutations.rs\<close> and the relying party of
  \<^verbatim>\<open>host/src/passkey.rs\<close>. The WebAuthn library and the JSON codec are the fields of
  an \<open>adapter\<close>: the opaque credential and ceremony states are its type parameters. A ceremony
  handle is decoded and hashed by an argument.
\<close>

subsection \<open>The relying party\<close>

text \<open>
  What the code uses of the WebAuthn library, for the relying party of an origin and an id:
  whether it can be built, the verification of a registration, the identification and the
  verification of an assertion, and the fold of its result into the stored credential.
\<close>

record ('cred, 'reg, 'auth, 'res) adapter =
  credential_text :: "'cred \<Rightarrow> ustr option"
  credential_of_text :: "ustr \<Rightarrow> 'cred option"
  credential_id :: "'cred \<Rightarrow> ustr"
  credential_counter :: "'cred \<Rightarrow> nat"
  registration_text :: "'reg \<Rightarrow> ustr option"
  registration_of_text :: "ustr \<Rightarrow> 'reg option"
  authentication_text :: "'auth \<Rightarrow> ustr option"
  authentication_of_text :: "ustr \<Rightarrow> 'auth option"
  rp_builds :: "ustr \<times> ustr \<Rightarrow> bool"
  verify_registration :: "ustr \<times> ustr \<Rightarrow> ustr \<Rightarrow> 'reg \<Rightarrow> 'cred option"
  identify_assertion :: "ustr \<times> ustr \<Rightarrow> ustr \<Rightarrow> (nat list \<times> ustr) option"
  verify_assertion :: "ustr \<times> ustr \<Rightarrow> ustr \<Rightarrow> 'auth \<Rightarrow> 'cred \<Rightarrow> 'res option"
  result_counter :: "'res \<Rightarrow> nat"
  update_credential :: "'cred \<Rightarrow> 'res \<Rightarrow> 'cred option"

datatype passkey_identity_error = InvalidOrigin | MissingHostname

definition ends_with :: "ustr \<Rightarrow> ustr \<Rightarrow> bool" where
  "ends_with suffix s \<longleftrightarrow> strip_suffix suffix s \<noteq> None"

definition trim_end_slashes :: "ustr \<Rightarrow> ustr" where
  "trim_end_slashes s = rev (dropWhile (\<lambda>c. c = 47) (rev s))"

definition webauthn_identity :: "url_parser \<Rightarrow> ustr \<Rightarrow> passkey_identity_error + ustr \<times> ustr" where
  "webauthn_identity parse base_url =
     (case parse base_url of
        None \<Rightarrow> Inl InvalidOrigin
      | Some u \<Rightarrow>
          (case url_host u of
             None \<Rightarrow> Inl MissingHostname
           | Some (Ip _) \<Rightarrow> Inl InvalidOrigin
           | Some (Domain domain) \<Rightarrow>
               (let http_loopback = domain = lit ''localhost'' \<or> ends_with (lit ''.localhost'') domain
                in if url_scheme u \<noteq> lit ''https'' \<and> \<not> (url_scheme u = lit ''http'' \<and> http_loopback)
                   then Inl InvalidOrigin
                   else Inr (trim_end_slashes (url_bare u), domain))))"

text \<open>\<^verbatim>\<open>RelyingParty::from_base_url\<close>: the identity, its origin parsed again, the build.\<close>

definition rp_from_base_url :: "('cred, 'reg, 'auth, 'res) adapter \<Rightarrow> url_parser \<Rightarrow> ustr \<Rightarrow>
    (ustr \<times> ustr) option" where
  "rp_from_base_url A parse base_url =
     (case webauthn_identity parse base_url of
        Inl _ \<Rightarrow> None
      | Inr (origin, rp_id) \<Rightarrow>
          if parse origin \<noteq> None \<and> rp_builds A (origin, rp_id) then Some (origin, rp_id) else None)"

text \<open>The library answers the bytes of the user handle, and the credential id, encoded.\<close>

definition identify :: "('cred, 'reg, 'auth, 'res) adapter \<Rightarrow> ustr \<times> ustr \<Rightarrow> ustr \<Rightarrow>
    (nat list \<times> ustr) option" where
  "identify A rp response =
     (case identify_assertion A rp response of
        None \<Rightarrow> None
      | Some (handle, cid) \<Rightarrow> if length handle = 16 then Some (handle, cid) else None)"

datatype counter_outcome = Advance nat | RetainHighWater nat

definition classify_counter :: "nat \<Rightarrow> nat \<Rightarrow> counter_outcome" where
  "classify_counter stored returned =
     (if returned > stored then Advance returned else RetainHighWater returned)"

definition finish_assertion :: "('cred, 'reg, 'auth, 'res) adapter \<Rightarrow> ustr \<times> ustr \<Rightarrow> ustr \<Rightarrow> 'auth \<Rightarrow>
    'cred \<Rightarrow> ('cred \<times> counter_outcome) option" where
  "finish_assertion A rp response state credential =
     (case verify_assertion A rp response state credential of
        None \<Rightarrow> None
      | Some result \<Rightarrow>
          (case update_credential A credential result of
             None \<Rightarrow> None
           | Some credential' \<Rightarrow>
               Some (credential', classify_counter (credential_counter A credential) (result_counter A result))))"

subsection \<open>Stored values\<close>

definition parse_passkey_label :: "ustr \<Rightarrow> ustr option" where
  "parse_passkey_label s = (let t = trim s in if t = [] then None else Some t)"

definition is_lower_hex :: "nat \<Rightarrow> bool" where
  "is_lower_hex b \<longleftrightarrow> is_ascii_digit b \<or> (97 \<le> b \<and> b \<le> 102)"

definition parse_user_handle :: "ustr \<Rightarrow> ustr option" where
  "parse_user_handle s = (if length s \<noteq> 32 \<or> \<not> list_all is_lower_hex s then None else Some s)"

definition hex_digit :: "nat \<Rightarrow> nat" where
  "hex_digit n = (if n < 10 then 48 + n else 87 + n)"

definition lowercase_hex :: "nat list \<Rightarrow> ustr" where
  "lowercase_hex bytes = concat (map (\<lambda>b. [hex_digit (b div 16), hex_digit (b mod 16)]) bytes)"

definition nibble :: "nat \<Rightarrow> nat option" where
  "nibble b =
     (if is_ascii_digit b then Some (b - 48)
      else if 97 \<le> b \<and> b \<le> 102 then Some (b - 97 + 10)
      else None)"

text \<open>\<^verbatim>\<open>adapter_handle\<close>: the bytes of consecutive digit pairs.\<close>

fun adapter_handle :: "ustr \<Rightarrow> nat list option" where
  "adapter_handle (h # l # rest) =
     (case (nibble h, nibble l) of
        (Some high, Some low) \<Rightarrow> map_option (\<lambda>bs. (high * 16 + low) # bs) (adapter_handle rest)
      | _ \<Rightarrow> None)"
| "adapter_handle _ = Some []"

interpretation passkey_label: stable_parser parse_passkey_label
  by unfold_locales (auto simp: parse_passkey_label_def Let_def split: if_splits)

interpretation passkey_user_handle: stable_parser parse_user_handle
  by unfold_locales (auto simp: parse_user_handle_def split: if_splits)

lemma nibble_hex_digit: "n < 16 \<Longrightarrow> nibble (hex_digit n) = Some n"
  by (auto simp: nibble_def hex_digit_def is_ascii_digit_def)

lemma is_lower_hex_digit: "n < 16 \<Longrightarrow> is_lower_hex (hex_digit n)"
  by (auto simp: is_lower_hex_def hex_digit_def is_ascii_digit_def)

lemma adapter_handle_roundtrip: "list_all (\<lambda>b. b < 256) bytes \<Longrightarrow> adapter_handle (lowercase_hex bytes) = Some bytes"
proof (induction bytes)
  case Nil
  then show ?case by (simp add: lowercase_hex_def)
next
  case (Cons b bytes)
  then have "nibble (hex_digit (b div 16)) = Some (b div 16)" "nibble (hex_digit (b mod 16)) = Some (b mod 16)"
    by (auto intro: nibble_hex_digit)
  moreover have "lowercase_hex (b # bytes) = hex_digit (b div 16) # hex_digit (b mod 16) # lowercase_hex bytes"
    by (simp add: lowercase_hex_def)
  ultimately show ?case using Cons by simp
qed

lemma lowercase_hex_handle:
  "list_all (\<lambda>b. b < 256) bytes \<Longrightarrow> length bytes = 16 \<Longrightarrow>
     parse_user_handle (lowercase_hex bytes) = Some (lowercase_hex bytes)"
proof -
  have "length (lowercase_hex bytes) = 2 * length bytes"
    by (induction bytes) (simp_all add: lowercase_hex_def)
  moreover have "list_all (\<lambda>b. b < 256) bytes \<Longrightarrow> list_all is_lower_hex (lowercase_hex bytes)"
    by (induction bytes) (auto simp: lowercase_hex_def intro: is_lower_hex_digit)
  ultimately show "list_all (\<lambda>b. b < 256) bytes \<Longrightarrow> length bytes = 16 \<Longrightarrow> ?thesis"
    by (simp add: parse_user_handle_def)
qed

subsection \<open>Credentials\<close>

record 'cred passkey_credential =
  passkey_id :: ustr
  passkey_user :: int
  passkey_label :: ustr
  passkey_payload :: 'cred
  passkey_created_at :: instant
  passkey_last_used_at :: "instant option"

text \<open>A stored payload must parse and name the identity of its row.\<close>

definition decode_credential :: "('cred, 'reg, 'auth, 'res) adapter \<Rightarrow> passkey_credential_row \<Rightarrow>
    sql_error + 'cred passkey_credential" where
  "decode_credential A r =
     (case credential_of_text A (pc_credential r) of
        None \<Rightarrow> Inl Decode
      | Some credential \<Rightarrow>
          if credential_id A credential \<noteq> pc_credential_id r then Inl Decode
          else Inr \<lparr>passkey_id = pc_credential_id r, passkey_user = pc_user_id r,
            passkey_label = pc_label r, passkey_payload = credential,
            passkey_created_at = pc_created_at r, passkey_last_used_at = pc_last_used_at r\<rparr>)"

definition user_handle :: "int \<Rightarrow> (database, sql_error, ustr option) tx" where
  "user_handle uid = pool_query (\<lambda>d. map_option snd (find (\<lambda>(u, h). u = uid) (passkey_user_handles d)))"

definition user_for_handle :: "ustr \<Rightarrow> (database, sql_error, int option) tx" where
  "user_for_handle handle =
     pool_query (\<lambda>d. map_option fst (find (\<lambda>(u, h). h = handle) (passkey_user_handles d)))"

definition insert_credential :: "('cred, 'reg, 'auth, 'res) adapter \<Rightarrow> backend \<Rightarrow> instant \<Rightarrow> int \<Rightarrow> ustr \<Rightarrow>
    'cred \<Rightarrow> (database, sql_error, unit) tx" where
  "insert_credential A db now uid label credential =
     tx_bind (write_connection db) (\<lambda>_.
     case credential_text A credential of
       None \<Rightarrow> tx_throw Decode
     | Some encoded \<Rightarrow> statement (\<lambda>d.
         if \<exists>r \<in> set (passkey_credentials d). pc_credential_id r = credential_id A credential
         then (Inl UniqueViolation, d)
         else if \<not> user_exists uid d then (Inl ForeignKeyViolation, d)
         else (Inr (), d\<lparr>passkey_credentials := passkey_credentials d @
           [\<lparr>pc_credential_id = credential_id A credential, pc_user_id = uid, pc_label = label,
             pc_credential = encoded, pc_created_at = now, pc_last_used_at = None\<rparr>]\<rparr>)))"

text \<open>\<^verbatim>\<open>ORDER BY created_at, credential_id\<close>: a stable sort by the second key, then by the first.\<close>

definition list_credentials :: "('cred, 'reg, 'auth, 'res) adapter \<Rightarrow> (ustr \<Rightarrow> 'k::linorder) \<Rightarrow> int \<Rightarrow>
    (database, sql_error, 'cred passkey_credential list) tx" where
  "list_credentials A collate uid =
     tx_bind (pool_query (\<lambda>d. sort_key pc_created_at (sort_key (\<lambda>r. collate (pc_credential_id r))
       (filter (\<lambda>r. pc_user_id r = uid) (passkey_credentials d))))) (\<lambda>rows.
     tx_of_result
       (if list_all (\<lambda>r. \<not> isl (decode_credential A r)) rows
        then Inr (map (\<lambda>r. projr (decode_credential A r)) rows) else Inl Decode))"

definition credential_for_user :: "('cred, 'reg, 'auth, 'res) adapter \<Rightarrow> int \<Rightarrow> ustr \<Rightarrow>
    (database, sql_error, 'cred passkey_credential option) tx" where
  "credential_for_user A uid cid =
     tx_bind (pool_query (\<lambda>d. find (\<lambda>r. pc_user_id r = uid \<and> pc_credential_id r = cid)
       (passkey_credentials d))) (\<lambda>row.
     case row of
       None \<Rightarrow> tx_return None
     | Some r \<Rightarrow> tx_of_result (map_sum id Some (decode_credential A r)))"

definition credential_by_id :: "('cred, 'reg, 'auth, 'res) adapter \<Rightarrow> ustr \<Rightarrow>
    (database, sql_error, 'cred passkey_credential option) tx" where
  "credential_by_id A cid =
     tx_bind (pool_query (\<lambda>d. find (\<lambda>r. pc_credential_id r = cid) (passkey_credentials d))) (\<lambda>row.
     case row of
       None \<Rightarrow> tx_return None
     | Some r \<Rightarrow> tx_of_result (map_sum id Some (decode_credential A r)))"

definition credential_for_authentication :: "('cred, 'reg, 'auth, 'res) adapter \<Rightarrow> backend \<Rightarrow> ustr \<Rightarrow>
    (database, sql_error, 'cred passkey_credential option) tx" where
  "credential_for_authentication A db cid =
     tx_bind (write_connection db) (\<lambda>_.
     tx_bind (query (\<lambda>d. find (\<lambda>r. pc_credential_id r = cid) (passkey_credentials d))) (\<lambda>row.
     case row of
       None \<Rightarrow> tx_return None
     | Some r \<Rightarrow> tx_of_result (map_sum id Some (decode_credential A r))))"

definition delete_credential :: "backend \<Rightarrow> int \<Rightarrow> ustr \<Rightarrow> (database, sql_error, bool) tx" where
  "delete_credential db uid cid =
     tx_bind (write_connection db) (\<lambda>_.
     statement (\<lambda>d.
       (Inr (\<exists>r \<in> set (passkey_credentials d). pc_user_id r = uid \<and> pc_credential_id r = cid),
        d\<lparr>passkey_credentials := delete_where (\<lambda>r. pc_user_id r = uid \<and> pc_credential_id r = cid)
            (passkey_credentials d)\<rparr>)))"

definition update_credential_after_authentication :: "('cred, 'reg, 'auth, 'res) adapter \<Rightarrow> backend \<Rightarrow>
    instant \<Rightarrow> int \<Rightarrow> 'cred \<Rightarrow> (database, sql_error, bool) tx" where
  "update_credential_after_authentication A db now uid credential =
     tx_bind (write_connection db) (\<lambda>_.
     case credential_text A credential of
       None \<Rightarrow> tx_throw Decode
     | Some encoded \<Rightarrow>
         (let p = (\<lambda>r. pc_user_id r = uid \<and> pc_credential_id r = credential_id A credential)
          in statement (\<lambda>d. (Inr (\<exists>r \<in> set (passkey_credentials d). p r),
            d\<lparr>passkey_credentials := update_where p
                (\<lambda>r. r\<lparr>pc_credential := encoded, pc_last_used_at := Some now\<rparr>) (passkey_credentials d)\<rparr>))))"

subsection \<open>Ceremonies\<close>

record 'reg registration_ceremony =
  reg_user_id :: int
  reg_session_token_hash :: ustr
  reg_label :: ustr
  reg_origin :: ustr
  reg_rp_id :: ustr
  reg_state :: 'reg

record 'auth authentication_ceremony =
  auth_origin :: ustr
  auth_rp_id :: ustr
  auth_state :: 'auth

definition create_registration_ceremony :: "('cred, 'reg, 'auth, 'res) adapter \<Rightarrow> backend \<Rightarrow> ustr \<Rightarrow>
    'reg registration_ceremony \<Rightarrow> instant \<Rightarrow> (database, sql_error, unit) tx" where
  "create_registration_ceremony A db digest ceremony expires_at =
     tx_bind (write_connection db) (\<lambda>_.
     case registration_text A (reg_state ceremony) of
       None \<Rightarrow> tx_throw Decode
     | Some state \<Rightarrow> statement (\<lambda>d.
         if \<exists>r \<in> set (registration_ceremonies d). rc_handle_hash r = digest then (Inl UniqueViolation, d)
         else if \<not> user_exists (reg_user_id ceremony) d \<or>
           (\<forall>s \<in> set (sessions d). session_token_hash s \<noteq> reg_session_token_hash ceremony)
         then (Inl ForeignKeyViolation, d)
         else (Inr (), d\<lparr>registration_ceremonies := registration_ceremonies d @
           [\<lparr>rc_handle_hash = digest, rc_user_id = reg_user_id ceremony,
             rc_session_token_hash = reg_session_token_hash ceremony, rc_label = reg_label ceremony,
             rc_origin = reg_origin ceremony, rc_rp_id = reg_rp_id ceremony, rc_state = state,
             rc_expires_at = expires_at, rc_claimed_at = None\<rparr>]\<rparr>)))"

definition registration_claimable :: "ustr \<Rightarrow> instant \<Rightarrow> registration_ceremony_row \<Rightarrow> bool" where
  "registration_claimable digest now r \<longleftrightarrow>
     rc_handle_hash r = digest \<and> rc_claimed_at r = None \<and> rc_expires_at r > now"

definition claim_registration_ceremony :: "('cred, 'reg, 'auth, 'res) adapter \<Rightarrow> backend \<Rightarrow> ustr \<Rightarrow>
    instant \<Rightarrow> (database, sql_error, 'reg registration_ceremony option) tx" where
  "claim_registration_ceremony A db digest now =
     tx_bind (write_connection db) (\<lambda>_.
     tx_bind (statement (\<lambda>d.
       (Inr (find (registration_claimable digest now) (registration_ceremonies d)),
        d\<lparr>registration_ceremonies := update_where (registration_claimable digest now)
            (\<lambda>r. r\<lparr>rc_claimed_at := Some now\<rparr>) (registration_ceremonies d)\<rparr>))) (\<lambda>row.
     case row of
       None \<Rightarrow> tx_return None
     | Some r \<Rightarrow>
         (case registration_of_text A (rc_state r) of
            None \<Rightarrow> tx_throw Decode
          | Some state \<Rightarrow> tx_return (Some \<lparr>reg_user_id = rc_user_id r,
              reg_session_token_hash = rc_session_token_hash r, reg_label = rc_label r,
              reg_origin = rc_origin r, reg_rp_id = rc_rp_id r, reg_state = state\<rparr>))))"

definition create_authentication_ceremony :: "('cred, 'reg, 'auth, 'res) adapter \<Rightarrow> backend \<Rightarrow> ustr \<Rightarrow>
    'auth authentication_ceremony \<Rightarrow> instant \<Rightarrow> (database, sql_error, unit) tx" where
  "create_authentication_ceremony A db digest ceremony expires_at =
     tx_bind (write_connection db) (\<lambda>_.
     case authentication_text A (auth_state ceremony) of
       None \<Rightarrow> tx_throw Decode
     | Some state \<Rightarrow> statement (\<lambda>d.
         if \<exists>r \<in> set (authentication_ceremonies d). ac_handle_hash r = digest then (Inl UniqueViolation, d)
         else (Inr (), d\<lparr>authentication_ceremonies := authentication_ceremonies d @
           [\<lparr>ac_handle_hash = digest, ac_origin = auth_origin ceremony, ac_rp_id = auth_rp_id ceremony,
             ac_state = state, ac_expires_at = expires_at, ac_claimed_at = None\<rparr>]\<rparr>)))"

definition authentication_claimable :: "ustr \<Rightarrow> instant \<Rightarrow> authentication_ceremony_row \<Rightarrow> bool" where
  "authentication_claimable digest now r \<longleftrightarrow>
     ac_handle_hash r = digest \<and> ac_claimed_at r = None \<and> ac_expires_at r > now"

definition claim_authentication_ceremony :: "('cred, 'reg, 'auth, 'res) adapter \<Rightarrow> backend \<Rightarrow> ustr \<Rightarrow>
    instant \<Rightarrow> (database, sql_error, 'auth authentication_ceremony option) tx" where
  "claim_authentication_ceremony A db digest now =
     tx_bind (write_connection db) (\<lambda>_.
     tx_bind (statement (\<lambda>d.
       (Inr (find (authentication_claimable digest now) (authentication_ceremonies d)),
        d\<lparr>authentication_ceremonies := update_where (authentication_claimable digest now)
            (\<lambda>r. r\<lparr>ac_claimed_at := Some now\<rparr>) (authentication_ceremonies d)\<rparr>))) (\<lambda>row.
     case row of
       None \<Rightarrow> tx_return None
     | Some r \<Rightarrow>
         (case authentication_of_text A (ac_state r) of
            None \<Rightarrow> tx_throw Decode
          | Some state \<Rightarrow> tx_return (Some \<lparr>auth_origin = ac_origin r, auth_rp_id = ac_rp_id r,
              auth_state = state\<rparr>))))"

text \<open>
  One batch of the retention: consumed or expired ceremonies, of each kind at most the batch.
\<close>

definition registration_spent :: "instant \<Rightarrow> registration_ceremony_row \<Rightarrow> bool" where
  "registration_spent now r \<longleftrightarrow> rc_claimed_at r \<noteq> None \<or> rc_expires_at r \<le> now"

definition authentication_spent :: "instant \<Rightarrow> authentication_ceremony_row \<Rightarrow> bool" where
  "authentication_spent now r \<longleftrightarrow> ac_claimed_at r \<noteq> None \<or> ac_expires_at r \<le> now"

definition prune_ceremonies :: "backend \<Rightarrow> instant \<Rightarrow> nat \<Rightarrow> (database, sql_error, nat) tx" where
  "prune_ceremonies db now batch_size =
     tx_bind (write_connection db) (\<lambda>_.
     tx_bind (statement (\<lambda>d.
       case delete_batch rc_handle_hash rc_handle_hash (registration_spent now) batch_size
         (registration_ceremonies d) of
         (n, rows) \<Rightarrow> (Inr n, d\<lparr>registration_ceremonies := rows\<rparr>))) (\<lambda>registrations.
     tx_bind (statement (\<lambda>d.
       case delete_batch ac_handle_hash ac_handle_hash (authentication_spent now) batch_size
         (authentication_ceremonies d) of
         (n, rows) \<Rightarrow> (Inr n, d\<lparr>authentication_ceremonies := rows\<rparr>))) (\<lambda>authentications.
     tx_return (registrations + authentications))))"

subsection \<open>Mutations of the account\<close>

definition finalize_passkey_authentication :: "('cred, 'reg, 'auth, 'res) adapter \<Rightarrow> backend \<Rightarrow>
    instant \<Rightarrow> instant \<Rightarrow> ustr \<times> ustr \<Rightarrow> int \<Rightarrow> 'cred \<Rightarrow> ustr \<Rightarrow> (database, sql_error, ustr) tx" where
  "finalize_passkey_authentication A db used_at created_at generated uid credential label =
     tx_bind (update_credential_after_authentication A db used_at uid credential) (\<lambda>updated.
     if \<not> updated then tx_throw RowNotFound
     else create_session db generated created_at uid label Browser)"

definition delete_passkey_and_revoke_other_sessions ::
  "backend \<Rightarrow> int \<Rightarrow> ustr \<Rightarrow> ustr \<Rightarrow> (database, sql_error, bool) tx" where
  "delete_passkey_and_revoke_other_sessions db uid cid current_session =
     tx_bind (delete_credential db uid cid) (\<lambda>deleted.
     if deleted
     then tx_bind (revoke_all_for_user_except db uid current_session) (\<lambda>_. tx_return True)
     else tx_return False)"

subsection \<open>Ceremonies are claimed once\<close>

definition claimed_registration :: "ustr \<Rightarrow> instant \<Rightarrow> database \<Rightarrow> database" where
  "claimed_registration digest now d = d\<lparr>registration_ceremonies :=
     update_where (registration_claimable digest now) (\<lambda>r. r\<lparr>rc_claimed_at := Some now\<rparr>)
       (registration_ceremonies d)\<rparr>"

definition claimed_authentication :: "ustr \<Rightarrow> instant \<Rightarrow> database \<Rightarrow> database" where
  "claimed_authentication digest now d = d\<lparr>authentication_ceremonies :=
     update_where (authentication_claimable digest now) (\<lambda>r. r\<lparr>ac_claimed_at := Some now\<rparr>)
       (authentication_ceremonies d)\<rparr>"

lemma claim_registration_okD:
  assumes "claim_registration_ceremony A db digest now c = (Inr res, c')"
  shows "working c' = claimed_registration digest now (working c)"
    and "\<And>cer. res = Some cer \<Longrightarrow> \<exists>r \<in> set (registration_ceremonies (working c)).
      registration_claimable digest now r \<and> reg_user_id cer = rc_user_id r \<and>
      reg_session_token_hash cer = rc_session_token_hash r \<and> reg_label cer = rc_label r \<and>
      reg_origin cer = rc_origin r \<and> reg_rp_id cer = rc_rp_id r \<and>
      registration_of_text A (rc_state r) = Some (reg_state cer)"
  using assms unfolding claim_registration_ceremony_def claimed_registration_def
  by (fastforce simp: tx_simps dest: find_Some_memD)+

lemma claim_authentication_okD:
  assumes "claim_authentication_ceremony A db digest now c = (Inr res, c')"
  shows "working c' = claimed_authentication digest now (working c)"
    and "\<And>cer. res = Some cer \<Longrightarrow> \<exists>r \<in> set (authentication_ceremonies (working c)).
      authentication_claimable digest now r \<and> auth_origin cer = ac_origin r \<and>
      auth_rp_id cer = ac_rp_id r \<and> authentication_of_text A (ac_state r) = Some (auth_state cer)"
  using assms unfolding claim_authentication_ceremony_def claimed_authentication_def
  by (fastforce simp: tx_simps dest: find_Some_memD)+

text \<open>Claims that grant at most once.\<close>

definition registration_open :: "ustr \<Rightarrow> database \<Rightarrow> bool" where
  "registration_open digest d \<longleftrightarrow>
     (\<exists>r \<in> set (registration_ceremonies d). rc_handle_hash r = digest \<and> rc_claimed_at r = None)"

definition authentication_open :: "ustr \<Rightarrow> database \<Rightarrow> bool" where
  "authentication_open digest d \<longleftrightarrow>
     (\<exists>r \<in> set (authentication_ceremonies d). ac_handle_hash r = digest \<and> ac_claimed_at r = None)"

lemma claimed_update:
  assumes wf: "distinct (map k rs)" and r: "r \<in> set rs" "p r"
    and key: "\<And>x. p x \<Longrightarrow> k x = key" and kf: "\<And>x. k (f x) = k x"
    and x: "x \<in> set (update_where p f rs)" "k x = key"
  shows "x = f r"
proof -
  obtain s rest where s: "filter p rs = s # rest" using r by (cases "filter p rs") (auto simp: filter_empty_conv)
  then have "s \<in> set rs" "p s" using filter_Cons_memD [OF s] by simp_all
  with wf r key have "s = r" by (metis distinct_map inj_onD)
  with update_where_only_row [OF wf s key x(1) kf x(2)] show ?thesis by simp
qed

interpretation registration_claims: single_grant
  "\<lambda>(now, digest). claim_registration_ceremony A db digest now"
  "\<lambda>d. distinct (map rc_handle_hash (registration_ceremonies d))"
  "\<lambda>(now, digest). Some digest" registration_open "\<lambda>res. res \<noteq> None"
proof unfold_locales
  fix c c' :: "database connection" and q :: "int \<times> ustr" and k a
  obtain now digest where q: "q = (now, digest)" by (cases q)
  assume wf: "distinct (map rc_handle_hash (registration_ceremonies (working c)))"
    and "(case q of (now, digest) \<Rightarrow> claim_registration_ceremony A db digest now) c = (Inr a, c')"
  then have ok: "claim_registration_ceremony A db digest now c = (Inr a, c')" by (simp add: q)
  note w = claim_registration_okD(1) [OF ok, unfolded claimed_registration_def]
  show "distinct (map rc_handle_hash (registration_ceremonies (working c')))"
    using wf by (simp add: w map_update_where)
  show "\<not> registration_open k (working c')" if "\<not> registration_open k (working c)"
    using that by (auto simp: w registration_open_def update_where_def)
  assume "a \<noteq> None" and k: "(case q of (now, digest) \<Rightarrow> Some digest) = Some k"
  then obtain r where r: "r \<in> set (registration_ceremonies (working c))" "registration_claimable digest now r"
    using claim_registration_okD(2) [OF ok] by blast
  then show "registration_open k (working c)"
    using k by (auto simp: q registration_open_def registration_claimable_def)
  show "\<not> registration_open k (working c')"
  proof
    assume "registration_open k (working c')"
    then obtain x where x: "x \<in> set (registration_ceremonies (working c'))" "rc_handle_hash x = digest"
      "rc_claimed_at x = None" using k by (auto simp: q registration_open_def)
    have "x = r\<lparr>rc_claimed_at := Some now\<rparr>"
      by (rule claimed_update [where k = rc_handle_hash and p = "registration_claimable digest now"
            and key = digest, OF wf r]) (use x in \<open>simp_all add: w registration_claimable_def\<close>)
    with x(3) show False by simp
  qed
qed

interpretation authentication_claims: single_grant
  "\<lambda>(now, digest). claim_authentication_ceremony A db digest now"
  "\<lambda>d. distinct (map ac_handle_hash (authentication_ceremonies d))"
  "\<lambda>(now, digest). Some digest" authentication_open "\<lambda>res. res \<noteq> None"
proof unfold_locales
  fix c c' :: "database connection" and q :: "int \<times> ustr" and k a
  obtain now digest where q: "q = (now, digest)" by (cases q)
  assume wf: "distinct (map ac_handle_hash (authentication_ceremonies (working c)))"
    and "(case q of (now, digest) \<Rightarrow> claim_authentication_ceremony A db digest now) c = (Inr a, c')"
  then have ok: "claim_authentication_ceremony A db digest now c = (Inr a, c')" by (simp add: q)
  note w = claim_authentication_okD(1) [OF ok, unfolded claimed_authentication_def]
  show "distinct (map ac_handle_hash (authentication_ceremonies (working c')))"
    using wf by (simp add: w map_update_where)
  show "\<not> authentication_open k (working c')" if "\<not> authentication_open k (working c)"
    using that by (auto simp: w authentication_open_def update_where_def)
  assume "a \<noteq> None" and k: "(case q of (now, digest) \<Rightarrow> Some digest) = Some k"
  then obtain r where r: "r \<in> set (authentication_ceremonies (working c))" "authentication_claimable digest now r"
    using claim_authentication_okD(2) [OF ok] by blast
  then show "authentication_open k (working c)"
    using k by (auto simp: q authentication_open_def authentication_claimable_def)
  show "\<not> authentication_open k (working c')"
  proof
    assume "authentication_open k (working c')"
    then obtain x where x: "x \<in> set (authentication_ceremonies (working c'))" "ac_handle_hash x = digest"
      "ac_claimed_at x = None" using k by (auto simp: q authentication_open_def)
    have "x = r\<lparr>ac_claimed_at := Some now\<rparr>"
      by (rule claimed_update [where k = ac_handle_hash and p = "authentication_claimable digest now"
            and key = digest, OF wf r]) (use x in \<open>simp_all add: w authentication_claimable_def\<close>)
    with x(3) show False by simp
  qed
qed

end
