(* ===== verification/Passkey_Flows.thy ===== *)
theory Passkey_Flows
  imports Passkeys
begin

section \<open>Passkey ceremonies on the web\<close>

text \<open>
  The server functions of \<^verbatim>\<open>web/src/passkeys/api.rs\<close> that finish a ceremony or delete a
  passkey, over the stores of \<^verbatim>\<open>Passkeys\<close>, \<^verbatim>\<open>Site_Config\<close>,
  \<^verbatim>\<open>Sessions\<close> and \<^verbatim>\<open>Accounts\<close>. The caller is given by its user id and
  the hash of its session token; clock readings, generated tokens, scope failures and what other
  writers commit between two scopes come from an environment.
\<close>

subsection \<open>Registering a passkey\<close>

datatype web_error = Web_Validation | Web_Unauthorized | Web_Storage sql_error | Web_Session session_auth_error

fun from_scope_error :: "web_error write_scope_error \<Rightarrow> web_error" where
  "from_scope_error (Operation e) = e"
| "from_scope_error (Begin e) = Web_Storage e"

definition relying_party :: "('cred, 'reg, 'auth, 'res) adapter \<Rightarrow> url_parser \<Rightarrow>
    (database, web_error, ustr \<times> ustr) tx" where
  "relying_party A parse =
     tx_bind (tx_map_err Web_Storage (get_identity parse)) (\<lambda>identity.
     case identity_base_url identity of
       None \<Rightarrow> tx_throw Web_Validation
     | Some base_url \<Rightarrow>
         (case rp_from_base_url A parse base_url of
            None \<Rightarrow> tx_throw Web_Validation
          | Some rp \<Rightarrow> tx_return rp))"

text \<open>
  \<^verbatim>\<open>finish_registration\<close>: the ceremony is consumed in a scope of its own, before anything is
  verified; the credential is inserted in a second one, between which others may write
  (\<open>meanwhile\<close>).
\<close>

definition complete_registration :: "('cred, 'reg, 'auth, 'res) adapter \<Rightarrow> url_parser \<Rightarrow> backend \<Rightarrow>
    instant \<Rightarrow> int \<Rightarrow> ustr \<Rightarrow> 'reg registration_ceremony \<Rightarrow> (database, web_error, unit) tx" where
  "complete_registration A parse db now uid response ceremony =
     tx_bind (tx_map_err Web_Storage (lock_rp_host db)) (\<lambda>_.
     tx_bind (relying_party A parse) (\<lambda>rp.
     if (reg_origin ceremony, reg_rp_id ceremony) \<noteq> rp then tx_throw Web_Validation
     else
       (case verify_registration A rp response (reg_state ceremony) of
          None \<Rightarrow> tx_throw Web_Validation
        | Some credential \<Rightarrow>
            tx_map_err Web_Storage (insert_credential A db now uid (reg_label ceremony) credential))))"

record finish_env =
  claim_env :: scope_env
  claim_now :: instant
  meanwhile :: "database \<Rightarrow> database"
  finish_scope :: scope_env
  finish_now :: instant

definition finish_registration :: "('cred, 'reg, 'auth, 'res) adapter \<Rightarrow> url_parser \<Rightarrow> backend \<Rightarrow>
    (ustr \<Rightarrow> ustr option) \<Rightarrow> finish_env \<Rightarrow> int \<Rightarrow> ustr \<Rightarrow> ustr \<Rightarrow> ustr \<Rightarrow> database \<Rightarrow>
    (web_error + unit mutation_outcome) \<times> database" where
  "finish_registration A parse db hash env uid session handle response d =
     (case hash handle of
        None \<Rightarrow> (Inl Web_Validation, d)
      | Some digest \<Rightarrow>
          (case run db (claim_env env)
              (tx_map_err Web_Storage (claim_registration_ceremony A db digest (claim_now env))) d of
             (Inl e, d1) \<Rightarrow> (Inl (from_scope_error e), d1)
           | (Inr (CommitIndeterminate _), d1) \<Rightarrow> (Inl Web_Validation, d1)
           | (Inr (Confirmed None), d1) \<Rightarrow> (Inl Web_Validation, d1)
           | (Inr (Confirmed (Some ceremony)), d1) \<Rightarrow>
               if reg_user_id ceremony = uid \<and> reg_session_token_hash ceremony = session
               then
                 (case run db (finish_scope env)
                     (complete_registration A parse db (finish_now env) uid response ceremony)
                     (meanwhile env d1) of
                    (Inl e, d2) \<Rightarrow> (Inl (from_scope_error e), d2)
                  | (Inr outcome, d2) \<Rightarrow> (Inr outcome, d2))
               else (Inl Web_Validation, d1)))"

subsection \<open>Logging in with a passkey\<close>

text \<open>
  \<^verbatim>\<open>finish_authentication\<close>, after the ceremony is claimed: the credential the assertion
  names must belong to the user its handle names; then its verified state, the new session and the
  session cookie are written or read in one scope.
\<close>

record session_user =
  su_username :: ustr
  su_is_operator :: bool

record login_env =
  login_claim_env :: scope_env
  login_claim_now :: instant
  login_meanwhile :: "database \<Rightarrow> database"
  login_scope :: scope_env
  login_used_at :: instant
  login_created_at :: instant
  login_cookie_now :: instant
  login_generated :: "ustr \<times> ustr"

definition owned_credential :: "('cred, 'reg, 'auth, 'res) adapter \<Rightarrow> backend \<Rightarrow> nat list \<Rightarrow> ustr \<Rightarrow>
    (database, web_error, int \<times> 'cred passkey_credential) tx" where
  "owned_credential A db handle cid =
     tx_bind (tx_map_err Web_Storage (user_for_handle (lowercase_hex handle))) (\<lambda>owner.
     case owner of
       None \<Rightarrow> tx_throw Web_Validation
     | Some uid \<Rightarrow>
         tx_bind (tx_map_err Web_Storage (credential_for_authentication A db cid)) (\<lambda>stored.
         case stored of
           None \<Rightarrow> tx_throw Web_Validation
         | Some found \<Rightarrow>
             if passkey_user found = uid then tx_return (uid, found) else tx_throw Web_Validation))"

definition open_passkey_session :: "('cred, 'reg, 'auth, 'res) adapter \<Rightarrow> backend \<Rightarrow> timestamp_range \<Rightarrow>
    (ustr \<Rightarrow> ustr option) \<Rightarrow> login_env \<Rightarrow> int \<Rightarrow> 'cred \<Rightarrow>
    (database, web_error, (ustr \<times> instant) \<times> session_user) tx" where
  "open_passkey_session A db bounds hash env uid cred =
     tx_bind (tx_map_err Web_Storage (finalize_passkey_authentication A db (login_used_at env)
       (login_created_at env) (login_generated env) uid cred
       (session_label_from_lossy (lit ''Passkey'')))) (\<lambda>token.
     tx_bind (tx_map_err Web_Storage (get_user uid)) (\<lambda>user.
     case user of
       None \<Rightarrow> tx_throw Web_Validation
     | Some u \<Rightarrow>
         tx_bind (tx_map_err Web_Session (authenticate db bounds hash token (login_cookie_now env)))
           (\<lambda>authenticated.
         tx_return ((token, record_last_used_at (auth_record authenticated)),
           \<lparr>su_username = ur_username u, su_is_operator = ur_is_operator u\<rparr>))))"

definition complete_authentication :: "('cred, 'reg, 'auth, 'res) adapter \<Rightarrow> url_parser \<Rightarrow> backend \<Rightarrow>
    timestamp_range \<Rightarrow> (ustr \<Rightarrow> ustr option) \<Rightarrow> login_env \<Rightarrow> ustr \<Rightarrow> 'auth authentication_ceremony \<Rightarrow>
    (database, web_error, (ustr \<times> instant) \<times> session_user) tx" where
  "complete_authentication A parse db bounds hash env response ceremony =
     tx_bind (tx_map_err Web_Storage (lock_rp_host db)) (\<lambda>_.
     tx_bind (relying_party A parse) (\<lambda>rp.
     if (auth_origin ceremony, auth_rp_id ceremony) \<noteq> rp then tx_throw Web_Validation
     else
       (case identify A rp response of
          None \<Rightarrow> tx_throw Web_Validation
        | Some (handle, cid) \<Rightarrow>
            tx_bind (owned_credential A db handle cid) (\<lambda>(uid, stored).
            case finish_assertion A rp response (auth_state ceremony) (passkey_payload stored) of
              None \<Rightarrow> tx_throw Web_Validation
            | Some (cred, _) \<Rightarrow> open_passkey_session A db bounds hash env uid cred))))"

text \<open>The answer, the cookie that is set, and the database.\<close>

definition finish_authentication :: "('cred, 'reg, 'auth, 'res) adapter \<Rightarrow> url_parser \<Rightarrow> backend \<Rightarrow>
    timestamp_range \<Rightarrow> (ustr \<Rightarrow> ustr option) \<Rightarrow> (ustr \<Rightarrow> ustr option) \<Rightarrow> login_env \<Rightarrow> ustr \<Rightarrow> ustr \<Rightarrow>
    database \<Rightarrow> (web_error + session_user mutation_outcome) \<times> (ustr \<times> instant) option \<times> database" where
  "finish_authentication A parse db bounds handle_hash hash env handle response d =
     (case handle_hash handle of
        None \<Rightarrow> (Inl Web_Validation, None, d)
      | Some digest \<Rightarrow>
          (case run db (login_claim_env env)
              (tx_map_err Web_Storage (claim_authentication_ceremony A db digest (login_claim_now env))) d of
             (Inl e, d1) \<Rightarrow> (Inl (from_scope_error e), None, d1)
           | (Inr (CommitIndeterminate _), d1) \<Rightarrow> (Inl Web_Validation, None, d1)
           | (Inr (Confirmed None), d1) \<Rightarrow> (Inl Web_Validation, None, d1)
           | (Inr (Confirmed (Some ceremony)), d1) \<Rightarrow>
               (case run db (login_scope env)
                   (complete_authentication A parse db bounds hash env response ceremony)
                   (login_meanwhile env d1) of
                  (Inl e, d2) \<Rightarrow> (Inl (from_scope_error e), None, d2)
                | (Inr (Confirmed (cookie, user)), d2) \<Rightarrow> (Inr (Confirmed user), Some cookie, d2)
                | (Inr (CommitIndeterminate (_, user)), d2) \<Rightarrow>
                    (Inr (CommitIndeterminate user), None, d2))))"

subsection \<open>Deleting a passkey\<close>

text \<open>
  The callback of \<^verbatim>\<open>delete\<close>, after the current password was verified
  (\<open>prepare_authentication\<close>).
\<close>

definition delete_passkey :: "backend \<Rightarrow> int \<Rightarrow> ustr \<Rightarrow> ustr \<Rightarrow> (database, web_error, unit) tx" where
  "delete_passkey db uid cid current_session =
     tx_bind (tx_map_err Web_Storage
       (delete_passkey_and_revoke_other_sessions db uid cid current_session)) (\<lambda>deleted.
     if deleted then tx_return () else tx_throw Web_Unauthorized)"

subsection \<open>What the flows do when they succeed\<close>

text \<open>The relying party of the committed configuration.\<close>

definition current_party :: "('cred, 'reg, 'auth, 'res) adapter \<Rightarrow> url_parser \<Rightarrow> database \<Rightarrow>
    (ustr \<times> ustr) option" where
  "current_party A parse d =
     Option.bind (identity_base_url (identity_of parse (site_config d))) (rp_from_base_url A parse)"

lemma relying_party_okD:
  "relying_party A parse c = (Inr rp, c') \<Longrightarrow>
     current_party A parse (committed c) = Some rp \<and> c' = spend_fault c"
  by (auto simp: relying_party_def current_party_def get_identity_def tx_simps)

lemma frames_lock_rp_host [tx_frame]: "frames (lock_rp_host db)"
  unfolding lock_rp_host_def by (cases db) (auto intro: tx_frame)

lemma insert_credential_okD:
  assumes "insert_credential A db now uid label cred c = (Inr u, c')"
  shows "\<exists>encoded. credential_text A cred = Some encoded \<and> user_exists uid (working c) \<and>
    working c' = (working c)\<lparr>passkey_credentials := passkey_credentials (working c) @
      [\<lparr>pc_credential_id = credential_id A cred, pc_user_id = uid, pc_label = label,
        pc_credential = encoded, pc_created_at = now, pc_last_used_at = None\<rparr>]\<rparr>"
  using assms unfolding insert_credential_def
  by (clarsimp simp: tx_simps split: if_split_asm)

lemma complete_registration_okD:
  assumes "complete_registration A parse db now uid response cer c = (Inr u, c')"
    and "working c = committed c"
  shows "current_party A parse (committed c) = Some (reg_origin cer, reg_rp_id cer) \<and>
    (\<exists>cred encoded. verify_registration A (reg_origin cer, reg_rp_id cer) response (reg_state cer) = Some cred \<and>
       credential_text A cred = Some encoded \<and>
       working c' = (committed c)\<lparr>passkey_credentials := passkey_credentials (committed c) @
         [\<lparr>pc_credential_id = credential_id A cred, pc_user_id = uid, pc_label = reg_label cer,
           pc_credential = encoded, pc_created_at = now, pc_last_used_at = None\<rparr>]\<rparr>)"
proof -
  from assms(1) obtain c1 c2 rp cred where l: "lock_rp_host db c = (Inr (), c1)"
    and p: "relying_party A parse c1 = (Inr rp, c2)"
    and rp: "rp = (reg_origin cer, reg_rp_id cer)"
    and v: "verify_registration A rp response (reg_state cer) = Some cred"
    and i: "insert_credential A db now uid (reg_label cer) cred c2 = (Inr u, c')"
    unfolding complete_registration_def
    by (clarsimp simp: tx_simps simp del: split_paired_Ex split: if_split_asm)
  have "committed c1 = committed c" "working c1 = working c"
    using framesD [OF frames_lock_rp_host l] lock_rp_host_okD [OF l] by simp_all
  with relying_party_okD [OF p] have "current_party A parse (committed c) = Some rp" "working c2 = committed c"
    using assms(2) by simp_all
  with insert_credential_okD [OF i] rp v show ?thesis by auto
qed

lemma user_for_handle_okD:
  "user_for_handle handle c = (Inr (Some uid), c') \<Longrightarrow>
     (uid, handle) \<in> set (passkey_user_handles (committed c)) \<and> c' = spend_fault c"
  by (cases "find (\<lambda>(u, h). h = handle) (passkey_user_handles (committed c))")
    (auto simp: user_for_handle_def tx_simps dest!: find_Some_memD)

lemma map_sum_id_Some_iff: "map_sum id Some x = Inr (Some y) \<longleftrightarrow> x = Inr y"
  by (cases x) auto

lemma credential_for_authentication_okD:
  assumes "credential_for_authentication A db cid c = (Inr (Some found), c')"
  shows "c' = spend_fault c \<and> (\<exists>p \<in> set (passkey_credentials (working c)). pc_credential_id p = cid \<and>
    passkey_user found = pc_user_id p \<and> credential_of_text A (pc_credential p) = Some (passkey_payload found) \<and>
    credential_id A (passkey_payload found) = cid)"
proof -
  from assms obtain p where f: "find (\<lambda>r. pc_credential_id r = cid) (passkey_credentials (working c)) = Some p"
    and d: "decode_credential A p = Inr found" and c': "c' = spend_fault c"
    unfolding credential_for_authentication_def
    by (auto simp: tx_simps spend_fault_def map_sum_id_Some_iff)
  from d have "passkey_user found = pc_user_id p" "credential_of_text A (pc_credential p) = Some (passkey_payload found)"
    "credential_id A (passkey_payload found) = pc_credential_id p"
    by (auto simp: decode_credential_def split: option.splits if_splits)
  with find_Some_memD [OF f] c' show ?thesis by auto
qed

lemma owned_credential_okD:
  assumes "owned_credential A db handle cid c = (Inr (uid, found), c')"
  shows "(uid, lowercase_hex handle) \<in> set (passkey_user_handles (committed c)) \<and>
    working c' = working c \<and> committed c' = committed c \<and>
    (\<exists>p \<in> set (passkey_credentials (working c)). pc_credential_id p = cid \<and> pc_user_id p = uid \<and>
       credential_of_text A (pc_credential p) = Some (passkey_payload found) \<and>
       credential_id A (passkey_payload found) = cid)"
proof -
  from assms obtain c1 where h: "user_for_handle (lowercase_hex handle) c = (Inr (Some uid), c1)"
    and l: "credential_for_authentication A db cid c1 = (Inr (Some found), c')" and u: "passkey_user found = uid"
    unfolding owned_credential_def by (auto simp: tx_simps split: if_split_asm)
  from user_for_handle_okD [OF h] credential_for_authentication_okD [OF l] u show ?thesis by auto
qed

lemma authenticate_rows:
  assumes "authenticate db b hash raw now c = (Inr a, c')" and "hash raw = Some h"
  shows "working c' = working c \<or>
    working c' = touch_rows h now (session_touch_cutoff b now) (session_idle_cutoff b now) (working c)"
proof -
  from assms obtain r where "touch_and_load db b h now c = (Inr (Some r), c')"
    unfolding authenticate_def by (auto simp: tx_simps)
  then show ?thesis
    by (cases db) (auto simp: touch_and_load_def sqlite_touch_and_load_def postgres_touch_and_load_def
        postgres_touch_def tx_simps Let_def split: if_split_asm)
qed

lemma touch_rows_last:
  assumes "sessions d = ss @ [s]" and "\<forall>x \<in> set ss. session_token_hash x \<noteq> h"
  shows "\<exists>at. sessions (touch_rows h now stale expired d) = ss @ [s\<lparr>session_last_used_at := at\<rparr>]"
proof -
  have "update_where (touch_matches h stale expired) f ss = ss" for f
    using assms(2) by (intro update_where_False) (auto simp: touch_matches_def)
  then have "sessions (touch_rows h now stale expired d) = ss @ [if touch_matches h stale expired s
      then s\<lparr>session_last_used_at := now\<rparr> else s]"
    using assms(1) by (simp add: touch_rows_def) (simp add: update_where_def)
  then show ?thesis
    by (cases "touch_matches h stale expired s") (auto intro: exI [of _ "session_last_used_at s"])
qed

lemma create_session_okD:
  assumes "create_session db generated now uid label kind c = (Inr token, c')"
  shows "token = fst generated \<and> committed c' = committed c \<and>
    (\<forall>x \<in> set (sessions (working c)). session_token_hash x \<noteq> snd generated) \<and>
    sessions (working c') = sessions (working c) @
      [\<lparr>session_token_hash = snd generated, session_user_id = uid, session_label = label,
        session_created_at = now, session_last_used_at = now, session_kind = kind\<rparr>]"
  using assms unfolding create_session_def by (clarsimp simp: tx_simps split: if_split_asm)

lemma update_credential_okD:
  assumes "update_credential_after_authentication A db now uid cred c = (Inr updated, c')"
  shows "committed c' = committed c \<and> sessions (working c') = sessions (working c)"
  using assms unfolding update_credential_after_authentication_def
  by (clarsimp simp: tx_simps Let_def)

lemma get_user_okD:
  "get_user uid c = (Inr (Some u), c') \<Longrightarrow> c' = spend_fault c \<and>
     (\<exists>row \<in> set (users (committed c)). user_id row = uid \<and> u = user_record_of row)"
  by (cases "find (\<lambda>u. user_id u = uid) (users (committed c))")
    (auto simp: get_user_def tx_simps dest!: find_Some_memD)

text \<open>The session of a successful log-in, whatever the activity of its row.\<close>

definition logged_in :: "login_env \<Rightarrow> int \<Rightarrow> session_row list \<Rightarrow> session_row list \<Rightarrow> bool" where
  "logged_in env uid before after \<longleftrightarrow>
     (\<exists>s. after = before @ [s] \<and> session_user_id s = uid \<and>
        session_token_hash s = snd (login_generated env) \<and> session_row.session_kind s = Browser)"

lemma open_passkey_session_okD:
  assumes "open_passkey_session A db bounds hash env uid cred c = (Inr ((token, at), user), c')"
    and "hash (fst (login_generated env)) = Some (snd (login_generated env))"
  shows "token = fst (login_generated env) \<and>
    logged_in env uid (sessions (working c)) (sessions (working c')) \<and>
    (\<exists>row \<in> set (users (committed c)). user_id row = uid \<and> su_username user = user_username row \<and>
       su_is_operator user = user_is_operator row)"
proof -
  from assms(1) obtain c1 c2 c3 u a where
    up: "update_credential_after_authentication A db (login_used_at env) uid cred c = (Inr True, c1)"
    and cr: "create_session db (login_generated env) (login_created_at env) uid
      (session_label_from_lossy (lit ''Passkey'')) Browser c1 = (Inr token, c2)"
    and gu: "get_user uid c2 = (Inr (Some u), c3)"
    and au: "authenticate db bounds hash token (login_cookie_now env) c3 = (Inr a, c')"
    and us: "user = \<lparr>su_username = ur_username u, su_is_operator = ur_is_operator u\<rparr>"
    unfolding open_passkey_session_def finalize_passkey_authentication_def
    by (clarsimp simp: tx_simps simp del: split_paired_Ex split: if_split_asm)
  note created = create_session_okD [OF cr] and kept = update_credential_okD [OF up]
  from get_user_okD [OF gu] have c3: "c3 = spend_fault c2" by simp
  let ?s = "\<lparr>session_token_hash = snd (login_generated env), session_user_id = uid,
    session_label = session_label_from_lossy (lit ''Passkey''), session_created_at = login_created_at env,
    session_last_used_at = login_created_at env, session_kind = Browser\<rparr>"
  have last: "sessions (working c3) = sessions (working c) @ [?s]"
    using created kept by (simp add: c3)
  have "hash token = Some (snd (login_generated env))" using created assms(2) by simp
  from authenticate_rows [OF au this]
  have "\<exists>at. sessions (working c') = sessions (working c) @ [?s\<lparr>session_last_used_at := at\<rparr>]"
    using touch_rows_last [OF last, of "snd (login_generated env)"] created kept last
    by (metis session_row.update_convs(5))
  then have "logged_in env uid (sessions (working c)) (sessions (working c'))"
    by (auto simp: logged_in_def)
  with created kept get_user_okD [OF gu] us show ?thesis
    by (auto simp: user_record_of_def)
qed

text \<open>Everything a successful log-in rests on.\<close>

definition login_evidence :: "('cred, 'reg, 'auth, 'res) adapter \<Rightarrow> ustr \<Rightarrow> ustr \<times> ustr \<Rightarrow> 'auth \<Rightarrow>
    int \<Rightarrow> session_user \<Rightarrow> database \<Rightarrow> bool" where
  "login_evidence A response rp state uid user d \<longleftrightarrow>
     (\<exists>bytes p cred row. identify A rp response = Some (bytes, pc_credential_id p) \<and>
        (uid, lowercase_hex bytes) \<in> set (passkey_user_handles d) \<and>
        p \<in> set (passkey_credentials d) \<and> pc_user_id p = uid \<and>
        credential_of_text A (pc_credential p) = Some cred \<and>
        verify_assertion A rp response state cred \<noteq> None \<and>
        row \<in> set (users d) \<and> user_id row = uid \<and> su_username user = user_username row \<and>
        su_is_operator user = user_is_operator row)"

lemma complete_authentication_okD:
  assumes "complete_authentication A parse db bounds hash env response cer c = (Inr ((token, at), user), c')"
    and "working c = committed c"
    and "hash (fst (login_generated env)) = Some (snd (login_generated env))"
  shows "current_party A parse (committed c) = Some (auth_origin cer, auth_rp_id cer) \<and>
    token = fst (login_generated env) \<and>
    (\<exists>uid. login_evidence A response (auth_origin cer, auth_rp_id cer) (auth_state cer) uid user (committed c) \<and>
       logged_in env uid (sessions (committed c)) (sessions (working c')))"
proof -
  from assms(1) obtain c1 c2 c3 rp handle cid uid stored cred counter where
    l: "lock_rp_host db c = (Inr (), c1)" and p: "relying_party A parse c1 = (Inr rp, c2)"
    and rp: "rp = (auth_origin cer, auth_rp_id cer)" and i: "identify A rp response = Some (handle, cid)"
    and o: "owned_credential A db handle cid c2 = (Inr (uid, stored), c3)"
    and f: "finish_assertion A rp response (auth_state cer) (passkey_payload stored) = Some (cred, counter)"
    and s: "open_passkey_session A db bounds hash env uid cred c3 = (Inr ((token, at), user), c')"
    unfolding complete_authentication_def
    by (clarsimp simp: tx_simps simp del: split_paired_Ex split: if_split_asm)
  have c1: "committed c1 = committed c" "working c1 = working c"
    using framesD [OF frames_lock_rp_host l] lock_rp_host_okD [OF l] by simp_all
  have c2: "current_party A parse (committed c) = Some rp" "committed c2 = committed c" "working c2 = committed c"
    using relying_party_okD [OF p] c1 assms(2) by simp_all
  from owned_credential_okD [OF o] c2 obtain r where r: "r \<in> set (passkey_credentials (committed c))"
    "pc_credential_id r = cid" "pc_user_id r = uid"
    "credential_of_text A (pc_credential r) = Some (passkey_payload stored)"
    and h: "(uid, lowercase_hex handle) \<in> set (passkey_user_handles (committed c))"
    and c3: "working c3 = committed c" "committed c3 = committed c" by auto
  from f have "verify_assertion A rp response (auth_state cer) (passkey_payload stored) \<noteq> None"
    by (auto simp: finish_assertion_def split: option.splits)
  moreover obtain row where "row \<in> set (users (committed c))" "user_id row = uid"
    "su_username user = user_username row" "su_is_operator user = user_is_operator row"
    using open_passkey_session_okD [OF s assms(3)] c3 by auto
  ultimately have "login_evidence A response rp (auth_state cer) uid user (committed c)"
    unfolding login_evidence_def using r h i
    by (intro exI [of _ handle] exI [of _ r] exI [of _ "passkey_payload stored"] exI [of _ row]) simp
  with open_passkey_session_okD [OF s assms(3)] c2 c3 rp show ?thesis by auto
qed

subsection \<open>Properties\<close>

text \<open>
  A ceremony is claimed at most once. Of any sequence of scopes that claim registration
  ceremonies, and of any that claim authentication ceremonies, whatever the clocks say and the
  driver fails, at most one claim of a given handle is confirmed with a ceremony.
\<close>

theorem ceremony_claimed_at_most_once:
  assumes "distinct (map rc_handle_hash (registration_ceremonies d))"
    and "distinct (map ac_handle_hash (authentication_ceremonies d))"
  shows "granted_count (\<lambda>res. res \<noteq> None) (\<lambda>(env, now, digest'). digest' = digest) claims
      (fst (run_all b (map (\<lambda>(env, now, digest). (env, claim_registration_ceremony A b digest now)) claims) d)) \<le> 1 \<and>
    granted_count (\<lambda>res. res \<noteq> None) (\<lambda>(env, now, digest'). digest' = digest) claims
      (fst (run_all b (map (\<lambda>(env, now, digest). (env, claim_authentication_ceremony A b digest now)) claims) d)) \<le> 1"
  using registration_claims.granted_at_most_once [of d digest claims b A b]
    authentication_claims.granted_at_most_once [of d digest claims b A b] assms
  by (simp add: case_prod_unfold)

text \<open>
  C38: a passkey is registered only for its ceremony. If a registration is confirmed, its handle
  named an unclaimed, unexpired ceremony that the same user opened in the same session for the
  relying party that is still configured; the library verified the response against the state of
  that ceremony; and the only changes are the claim of the ceremony and one credential of that
  user, with the ceremony's label (beside what other writers committed in between).
\<close>

theorem passkey_registration_sound:
  assumes "finish_registration A parse b handle_hash env uid session handle response d =
    (Inr (Confirmed ()), d')"
  shows "\<exists>r \<in> set (registration_ceremonies d). handle_hash handle = Some (rc_handle_hash r) \<and>
    rc_claimed_at r = None \<and> claim_now env < rc_expires_at r \<and> rc_user_id r = uid \<and>
    rc_session_token_hash r = session \<and>
    (let before = meanwhile env (claimed_registration (rc_handle_hash r) (claim_now env) d);
         rp = (rc_origin r, rc_rp_id r)
     in current_party A parse before = Some rp \<and>
        (\<exists>state cred encoded. registration_of_text A (rc_state r) = Some state \<and>
           verify_registration A rp response state = Some cred \<and> credential_text A cred = Some encoded \<and>
           d' = before\<lparr>passkey_credentials := passkey_credentials before @
             [\<lparr>pc_credential_id = credential_id A cred, pc_user_id = uid, pc_label = rc_label r,
               pc_credential = encoded, pc_created_at = finish_now env, pc_last_used_at = None\<rparr>]\<rparr>))"
proof -
  from assms obtain digest cer d1 where h: "handle_hash handle = Some digest"
    and claim: "run b (claim_env env) (tx_map_err Web_Storage
      (claim_registration_ceremony A b digest (claim_now env))) d = (Inr (Confirmed (Some cer)), d1)"
    and own: "reg_user_id cer = uid" "reg_session_token_hash cer = session"
    and fin: "run b (finish_scope env) (complete_registration A parse b (finish_now env) uid response cer)
      (meanwhile env d1) = (Inr (Confirmed ()), d')"
    by (auto simp: finish_registration_def split: option.splits prod.splits sum.splits
        mutation_outcome.splits if_splits)
  from run_confirmedD [OF claim] obtain c where
    c: "claim_registration_ceremony A b digest (claim_now env) (open_connection b (claim_env env) d) = (Inr (Some cer), c)"
    and d1: "d1 = working c" by (auto simp: tx_simps)
  note before = claim_registration_okD(1) [OF c, simplified, folded d1]
  obtain r where r: "r \<in> set (registration_ceremonies d)" "registration_claimable digest (claim_now env) r"
    "reg_user_id cer = rc_user_id r" "reg_session_token_hash cer = rc_session_token_hash r"
    "reg_label cer = rc_label r" "reg_origin cer = rc_origin r" "reg_rp_id cer = rc_rp_id r"
    "registration_of_text A (rc_state r) = Some (reg_state cer)"
    using claim_registration_okD(2) [OF c refl] by auto
  from run_confirmedD [OF fin] obtain c2 where
    c2: "complete_registration A parse b (finish_now env) uid response cer
      (open_connection b (finish_scope env) (meanwhile env d1)) = (Inr (), c2)" and d': "d' = working c2" by auto
  note completed = complete_registration_okD [OF c2, simplified]
  show ?thesis
    using r h own completed d' before by (intro bexI [of _ r]) (auto simp: Let_def registration_claimable_def)
qed

text \<open>
  C21: a passkey log-in needs everything. If a log-in is confirmed and sets a cookie, then its handle
  named an unclaimed, unexpired ceremony for the relying party that is still configured; the
  handle of the assertion belongs to the user who owns the credential it names, whose stored state
  the assertion was verified against; the answer names that user; the cookie carries the fresh
  token; and exactly one session was added, a browser session of that user with the stored hash
  of that token.
\<close>

theorem passkey_login_sound:
  assumes "finish_authentication A parse b bounds handle_hash hash env handle response d =
    (Inr (Confirmed user), Some (token, at), d')"
    and "hash (fst (login_generated env)) = Some (snd (login_generated env))"
  shows "token = fst (login_generated env) \<and> (\<exists>r \<in> set (authentication_ceremonies d).
    handle_hash handle = Some (ac_handle_hash r) \<and> ac_claimed_at r = None \<and>
    login_claim_now env < ac_expires_at r \<and>
    (let before = login_meanwhile env (claimed_authentication (ac_handle_hash r) (login_claim_now env) d);
         rp = (ac_origin r, ac_rp_id r)
     in current_party A parse before = Some rp \<and>
        (\<exists>uid state. authentication_of_text A (ac_state r) = Some state \<and>
           login_evidence A response rp state uid user before \<and>
           logged_in env uid (sessions before) (sessions d'))))"
proof -
  from assms(1) obtain digest cer d1 where h: "handle_hash handle = Some digest"
    and claim: "run b (login_claim_env env) (tx_map_err Web_Storage
      (claim_authentication_ceremony A b digest (login_claim_now env))) d = (Inr (Confirmed (Some cer)), d1)"
    and fin: "run b (login_scope env) (complete_authentication A parse b bounds hash env response cer)
      (login_meanwhile env d1) = (Inr (Confirmed ((token, at), user)), d')"
    by (auto simp: finish_authentication_def split: option.splits prod.splits sum.splits
        mutation_outcome.splits if_splits)
  from run_confirmedD [OF claim] obtain c where
    c: "claim_authentication_ceremony A b digest (login_claim_now env)
      (open_connection b (login_claim_env env) d) = (Inr (Some cer), c)"
    and d1: "d1 = working c" by (auto simp: tx_simps)
  note before = claim_authentication_okD(1) [OF c, simplified, folded d1]
  obtain r where r: "r \<in> set (authentication_ceremonies d)"
    "authentication_claimable digest (login_claim_now env) r" "auth_origin cer = ac_origin r"
    "auth_rp_id cer = ac_rp_id r" "authentication_of_text A (ac_state r) = Some (auth_state cer)"
    using claim_authentication_okD(2) [OF c refl] by auto
  from run_confirmedD [OF fin] obtain c2 where
    c2: "complete_authentication A parse b bounds hash env response cer
      (open_connection b (login_scope env) (login_meanwhile env d1)) = (Inr ((token, at), user), c2)"
    and d': "d' = working c2" by auto
  note completed = complete_authentication_okD [OF c2, simplified, OF assms(2)]
  have key: "ac_handle_hash r = digest" "ac_claimed_at r = None" "login_claim_now env < ac_expires_at r"
    using r(2) by (simp_all add: authentication_claimable_def)
  show ?thesis
  proof (intro conjI bexI [OF _ r(1)])
    show "token = fst (login_generated env)" using completed by simp
    show "let before = login_meanwhile env (claimed_authentication (ac_handle_hash r) (login_claim_now env) d);
         rp = (ac_origin r, ac_rp_id r)
     in current_party A parse before = Some rp \<and>
        (\<exists>uid state. authentication_of_text A (ac_state r) = Some state \<and>
           login_evidence A response rp state uid user before \<and>
           logged_in env uid (sessions before) (sessions d'))"
      using completed r d' before key by (auto simp: Let_def)
  qed (use h key in simp_all)
qed

definition passkey_deleted :: "int \<Rightarrow> ustr \<Rightarrow> ustr \<Rightarrow> database \<Rightarrow> database \<Rightarrow> bool" where
  "passkey_deleted uid cid current d d' \<longleftrightarrow>
     (\<exists>p \<in> set (passkey_credentials d). pc_user_id p = uid \<and> pc_credential_id p = cid) \<and>
     passkey_credentials d' =
       filter (\<lambda>p. \<not> (pc_user_id p = uid \<and> pc_credential_id p = cid)) (passkey_credentials d) \<and>
     sessions d' = filter (\<lambda>s. \<not> (session_user_id s = uid \<and> session_token_hash s \<noteq> current)) (sessions d) \<and>
     users d' = users d"

lemma delete_passkey_okD:
  assumes "delete_passkey db uid cid current c = (Inr u, c')"
  shows "passkey_deleted uid cid current (working c) (working c')"
proof -
  from assms obtain c1 where d: "delete_credential db uid cid c = (Inr True, c1)"
    and r: "revoke_all_for_user_except db uid current c1 = (Inr (), c')"
    unfolding delete_passkey_def delete_passkey_and_revoke_other_sessions_def
    by (auto simp: tx_simps split: if_split_asm)
  from d have "\<exists>p \<in> set (passkey_credentials (working c)). pc_user_id p = uid \<and> pc_credential_id p = cid"
    "working c1 = (working c)\<lparr>passkey_credentials :=
      delete_where (\<lambda>r. pc_user_id r = uid \<and> pc_credential_id r = cid) (passkey_credentials (working c))\<rparr>"
    by (auto simp: delete_credential_def tx_simps)
  moreover from r have "working c' =
      delete_sessions (\<lambda>s. session_user_id s = uid \<and> session_token_hash s \<noteq> current) (working c1)"
    by (auto simp: revoke_all_for_user_except_def tx_simps)
  ultimately show ?thesis
    by (simp add: passkey_deleted_def delete_where_def delete_sessions_def keep_sessions_def)
qed

text \<open>
  Deleting a passkey revokes the other sessions, together or not at all. A confirmed deletion
  removed exactly the caller's credential of that id, which existed, and exactly the caller's
  sessions other than the current one; a reported error changed nothing; a lost acknowledgement
  is one or the other.
\<close>

theorem delete_passkey_effect:
  "case run b env (delete_passkey b uid cid current) d of
     (Inr (Confirmed _), d') \<Rightarrow> passkey_deleted uid cid current d d'
   | (Inr (CommitIndeterminate _), d') \<Rightarrow> d' = d \<or> passkey_deleted uid cid current d d'
   | (Inl _, d') \<Rightarrow> d' = d"
proof -
  have "passkey_deleted uid cid current d (working c)"
    if "delete_passkey b uid cid current (open_connection b env d) = (Inr u, c)" for u c
    using delete_passkey_okD [OF that] by simp
  then show ?thesis
    using run_result [of b env "delete_passkey b uid cid current" d]
    by (auto split: prod.splits sum.splits mutation_outcome.splits)
qed

subsection \<open>Examples\<close>

definition example_adapter :: "(ustr, ustr, ustr, nat) adapter" where
  "example_adapter = \<lparr>credential_text = Some, credential_of_text = Some, credential_id = (\<lambda>_. [5]),
     credential_counter = (\<lambda>_. 0), registration_text = Some, registration_of_text = Some,
     authentication_text = Some, authentication_of_text = Some, rp_builds = (\<lambda>_. True),
     verify_registration = (\<lambda>rp response state. if response = state then Some [5] else None),
     identify_assertion = (\<lambda>rp response. Some (replicate 16 0, [5])),
     verify_assertion = (\<lambda>rp response state cred. if response = state then Some 7 else None),
     result_counter = (\<lambda>n. n), update_credential = (\<lambda>cred _. Some cred)\<rparr>"

lemma example_adapter_sel [simp]:
  "credential_text example_adapter = Some" "credential_of_text example_adapter = Some"
  "credential_id example_adapter = (\<lambda>_. [5])" "registration_of_text example_adapter = Some"
  "authentication_of_text example_adapter = Some"
  "verify_registration example_adapter rp response state = (if response = state then Some [5] else None)"
  "identify example_adapter rp response = Some (replicate 16 0, [5])"
  "finish_assertion example_adapter rp response state cred =
     (if response = state then Some (cred, Advance 7) else None)"
  by (simp_all add: example_adapter_def identify_def finish_assertion_def classify_counter_def)

definition example_ceremonies :: database where
  "example_ceremonies = empty_database\<lparr>users := [example_user 1],
     passkey_user_handles := [(1, lowercase_hex (replicate 16 0))],
     site_config := [SiteBaseUrl \<mapsto> example_base_url],
     registration_ceremonies := [\<lparr>rc_handle_hash = [9], rc_user_id = 1, rc_session_token_hash = [8],
       rc_label = [7], rc_origin = lit ''https://jaunder.org'', rc_rp_id = lit ''jaunder.org'',
       rc_state = [6], rc_expires_at = 100, rc_claimed_at = None\<rparr>],
     authentication_ceremonies := [\<lparr>ac_handle_hash = [9], ac_origin = lit ''https://jaunder.org'',
       ac_rp_id = lit ''jaunder.org'', ac_state = [6], ac_expires_at = 100, ac_claimed_at = None\<rparr>]\<rparr>"

lemma example_identity:
  "identity_base_url (identity_of example_url_parser (site_config example_ceremonies)) = Some example_base_url"
  using stored_base_url_value [OF example_base_url_ok] by (simp add: example_ceremonies_def identity_of_def)

lemma example_party:
  "rp_from_base_url example_adapter example_url_parser example_base_url =
     Some (lit ''https://jaunder.org'', lit ''jaunder.org'')"
  by (simp add: rp_from_base_url_def webauthn_identity_def example_url_parser_def example_url_def
      example_base_url_def trim_end_slashes_def example_adapter_def)

lemma example_relying_party:
  "site_config (committed c) = site_config example_ceremonies \<Longrightarrow> faults c = [] \<Longrightarrow>
     relying_party example_adapter example_url_parser c =
       (Inr (lit ''https://jaunder.org'', lit ''jaunder.org''), c)"
  using example_identity example_party
  by (simp add: relying_party_def get_identity_def tx_eval)

theorem ceremony_claimed_at_most_once_witness:
  "let claims = [(clean_env, 5, [9]), (clean_env, 6, [9])];
       results = fst (run_all Sqlite (map (\<lambda>(env, now, digest).
         (env, claim_authentication_ceremony example_adapter Sqlite digest now)) claims) example_ceremonies)
   in map (is_granted (\<lambda>res. res \<noteq> None)) results = [True, False] \<and>
      granted_count (\<lambda>res. res \<noteq> None) (\<lambda>(env, now, digest'). digest' = [9]) claims results \<le> 1"
  unfolding Let_def
proof (rule conjI)
  show "map (is_granted (\<lambda>res. res \<noteq> None)) (fst (run_all Sqlite (map (\<lambda>(env, now, digest).
         (env, claim_authentication_ceremony example_adapter Sqlite digest now))
         [(clean_env, 5, [9]), (clean_env, 6, [9])]) example_ceremonies)) = [True, False]"
    by (simp add: claim_eval claim_authentication_ceremony_def authentication_claimable_def
        example_ceremonies_def)
qed (rule ceremony_claimed_at_most_once [THEN conjunct2], simp_all add: example_ceremonies_def)

definition example_finish_env :: finish_env where
  "example_finish_env = \<lparr>claim_env = clean_env, claim_now = 10, meanwhile = (\<lambda>d. d),
     finish_scope = clean_env, finish_now = 11\<rparr>"

theorem passkey_registration_sound_witness:
  "\<exists>d'. finish_registration example_adapter example_url_parser Sqlite Some example_finish_env 1 [8] [9] [6]
      example_ceremonies = (Inr (Confirmed ()), d') \<and>
    current_party example_adapter example_url_parser
      (claimed_registration [9] 10 example_ceremonies) \<noteq> None"
proof -
  let ?d = "claimed_registration [9] 10 example_ceremonies"
  have cfg: "site_config ?d = site_config example_ceremonies" by (simp add: claimed_registration_def)
  let ?cer = "\<lparr>reg_user_id = 1, reg_session_token_hash = [8], reg_label = [7],
    reg_origin = lit ''https://jaunder.org'', reg_rp_id = lit ''jaunder.org'', reg_state = [6]\<rparr>"
  have claim: "run Sqlite clean_env (tx_map_err Web_Storage
      (claim_registration_ceremony example_adapter Sqlite [9] 10)) example_ceremonies =
      (Inr (Confirmed (Some ?cer)), ?d)"
    by (simp add: claim_eval claim_registration_ceremony_def registration_claimable_def
        example_ceremonies_def claimed_registration_def)
  have users: "user_exists 1 ?d" "passkey_credentials ?d = []"
    by (simp_all add: claimed_registration_def example_ceremonies_def user_exists_def example_user_def
        empty_database_def)
  have "fst (run Sqlite clean_env (complete_registration example_adapter example_url_parser Sqlite 11 1 [6] ?cer) ?d) =
      Inr (Confirmed ())"
    using example_relying_party [of "open_connection Sqlite clean_env ?d"] cfg users
    by (simp add: run_def classify_commit_result_def complete_registration_def lock_rp_host_def
        insert_credential_def tx_eval)
  then have "fst (finish_registration example_adapter example_url_parser Sqlite Some example_finish_env 1 [8] [9] [6]
      example_ceremonies) = Inr (Confirmed ())"
    by (auto simp: finish_registration_def example_finish_env_def claim split: prod.splits sum.splits)
  then obtain d' where d': "finish_registration example_adapter example_url_parser Sqlite Some example_finish_env
      1 [8] [9] [6] example_ceremonies = (Inr (Confirmed ()), d')"
    by (metis prod.collapse)
  from passkey_registration_sound [OF d'] show ?thesis
    using d' by (auto simp: Let_def example_finish_env_def)
qed

definition example_login_env :: login_env where
  "example_login_env = \<lparr>login_claim_env = clean_env, login_claim_now = 10,
     login_meanwhile = (\<lambda>d. d\<lparr>passkey_credentials := [example_passkey]\<rparr>), login_scope = clean_env,
     login_used_at = 11, login_created_at = 12, login_cookie_now = 13, login_generated = ([4], [4])\<rparr>"

theorem passkey_login_sound_witness:
  "\<exists>user at d'. finish_authentication example_adapter example_url_parser Sqlite example_range Some Some
      example_login_env [9] [6] example_ceremonies = (Inr (Confirmed user), Some ([4], at), d') \<and>
    length (sessions d') = Suc (length (sessions example_ceremonies))"
proof -
  let ?d1 = "claimed_authentication [9] 10 example_ceremonies"
  let ?d = "?d1\<lparr>passkey_credentials := [example_passkey]\<rparr>"
  let ?cer = "\<lparr>auth_origin = lit ''https://jaunder.org'', auth_rp_id = lit ''jaunder.org'', auth_state = [6]\<rparr>"
  have cfg: "site_config ?d = site_config example_ceremonies" by (simp add: claimed_authentication_def)
  have claim: "run Sqlite clean_env (tx_map_err Web_Storage
      (claim_authentication_ceremony example_adapter Sqlite [9] 10)) example_ceremonies =
      (Inr (Confirmed (Some ?cer)), ?d1)"
    by (simp add: claim_eval claim_authentication_ceremony_def authentication_claimable_def
        example_ceremonies_def claimed_authentication_def)
  have rows: "users ?d = [example_user 1]" "sessions ?d = []"
    "passkey_user_handles ?d = [(1, lowercase_hex (replicate 16 0))]"
    by (simp_all add: claimed_authentication_def example_ceremonies_def empty_database_def)
  have "\<exists>user at. fst (run Sqlite clean_env (complete_authentication example_adapter example_url_parser Sqlite
      example_range Some example_login_env [6] ?cer) ?d) = Inr (Confirmed (([4], at), user))"
    using example_relying_party [of "open_connection Sqlite clean_env ?d"] cfg rows
    by (simp add: run_def classify_commit_result_def complete_authentication_def lock_rp_host_def
        owned_credential_def user_for_handle_def credential_for_authentication_def decode_credential_def
        open_passkey_session_def finalize_passkey_authentication_def
        update_credential_after_authentication_def create_session_def get_user_def authenticate_def
        touch_and_load_def sqlite_touch_and_load_def load_session_def join_user_def first_row_def
        user_exists_def example_user_def example_passkey_def example_login_env_def
        tx_of_result_def tx_eval Let_def update_where_def session_record_of_def session_touch_cutoff_def
        session_idle_cutoff_def saturating_sub_def example_range_def)
  then obtain user at d' where "run Sqlite clean_env (complete_authentication example_adapter example_url_parser
      Sqlite example_range Some example_login_env [6] ?cer) ?d = (Inr (Confirmed (([4], at), user)), d')"
    by (metis prod.collapse)
  then have fin: "finish_authentication example_adapter example_url_parser Sqlite example_range
      Some Some example_login_env [9] [6] example_ceremonies = (Inr (Confirmed user), Some ([4], at), d')"
    by (simp add: finish_authentication_def example_login_env_def claim)
  have "Some (fst (login_generated example_login_env)) = Some (snd (login_generated example_login_env))"
    by (simp add: example_login_env_def)
  from passkey_login_sound [OF fin this] obtain r :: authentication_ceremony_row and uid where
    "logged_in example_login_env uid (sessions (login_meanwhile example_login_env
       (claimed_authentication (ac_handle_hash r) (login_claim_now example_login_env) example_ceremonies)))
       (sessions d')"
    unfolding Let_def by blast
  moreover have "sessions (login_meanwhile example_login_env (claimed_authentication h n d)) = sessions d" for h n d
    by (simp add: example_login_env_def claimed_authentication_def)
  ultimately have "length (sessions d') = Suc (length (sessions example_ceremonies))"
    by (auto simp: logged_in_def)
  with fin show ?thesis by blast
qed

end
