(* ===== verification/Audiences.thy ===== *)
theory Audiences
  imports Accounts Site_Config
begin

section \<open>Subscriptions and audiences\<close>

text \<open>
  \<^verbatim>\<open>common/src/visibility.rs\<close>, \<^verbatim>\<open>storage/src/subscriptions.rs\<close> and
  \<^verbatim>\<open>storage/src/audiences.rs\<close>, with the server functions of
  \<^verbatim>\<open>web/src/subscriptions\<close>. The stores are shared by both backends. A sequence is the next
  value it answers; the values PostgreSQL spends on a conflict are not counted, since only their
  freshness matters. Creation times are filled in by the database and are an argument.
\<close>

subsection \<open>Readers and subscribers\<close>

text \<open>
  A subscriber is known by a channel and a reference of its namespace: for the channel
  \<^verbatim>\<open>local\<close> the user id in decimal.
\<close>

record subscriber_identity =
  subscriber_channel :: int
  subscriber_ref :: ustr

datatype viewer_identity = Anonymous | Local int | Remote int ustr

definition i64_text :: "int \<Rightarrow> ustr" where
  "i64_text n = (if n < 0 then 45 # decimal (nat (- n)) else decimal (nat n))"

definition parse_subscriber_ref :: "ustr \<Rightarrow> ustr option" where
  "parse_subscriber_ref s = (if trim s = [] then None else Some s)"

definition local_subscriber_ref :: "int \<Rightarrow> ustr" where
  "local_subscriber_ref uid = i64_text uid"

definition local_subscriber_identity :: "int \<Rightarrow> int \<Rightarrow> subscriber_identity" where
  "local_subscriber_identity channel uid =
     \<lparr>subscriber_channel = channel, subscriber_ref = local_subscriber_ref uid\<rparr>"

fun viewer_user_id :: "viewer_identity \<Rightarrow> int option" where
  "viewer_user_id (Local uid) = Some uid"
| "viewer_user_id (Remote _ _) = None"
| "viewer_user_id Anonymous = None"

text \<open>The admission policy decides the status of a new subscription; the open one admits all.\<close>

type_synonym subscription_policy = "int \<Rightarrow> subscriber_identity \<Rightarrow> subscription_status"

definition open_subscription_policy :: subscription_policy where
  "open_subscription_policy author subscriber = Active"

interpretation subscriber_refs: stable_parser parse_subscriber_ref
  by unfold_locales (auto simp: parse_subscriber_ref_def split: if_splits)

lemma i64_text_inject: "i64_text m = i64_text n \<longleftrightarrow> m = n"
proof
  have *: "decimal a = decimal b \<Longrightarrow> a = b" for a b
    by (metis digits_value_decimal option.inject)
  have sign: "45 # decimal a \<noteq> decimal b" for a b
    using hd_decimal(2) [of b] by (metis list.sel(1))
  assume "i64_text m = i64_text n"
  then show "m = n"
    by (auto simp: i64_text_def dest!: * split: if_splits dest: sign [THEN notE] sign [symmetric, THEN notE])
qed simp

lemma local_subscriber_ref_inject [simp]: "local_subscriber_ref m = local_subscriber_ref n \<longleftrightarrow> m = n"
  by (simp add: local_subscriber_ref_def i64_text_inject)

lemma local_subscriber_ref_nonempty [simp]: "local_subscriber_ref uid \<noteq> []"
  using decimal_digits [of "nat uid"] by (simp add: local_subscriber_ref_def i64_text_def)

lemma local_subscriber_ref_parses: "0 \<le> uid \<Longrightarrow> parse_subscriber_ref (local_subscriber_ref uid) = Some (local_subscriber_ref uid)"
  using decimal_digits [of "nat uid"]
  by (simp add: parse_subscriber_ref_def local_subscriber_ref_def i64_text_def)

subsection \<open>The subscription store\<close>

definition local_channel_of :: "database \<Rightarrow> int option" where
  "local_channel_of d = map_option fst (find (\<lambda>(c, name). name = lit ''local'') (channels d))"

definition is_subscription_of :: "int \<Rightarrow> subscriber_identity \<Rightarrow> subscription_row \<Rightarrow> bool" where
  "is_subscription_of author subscriber s \<longleftrightarrow>
     subscription_author s = author \<and> subscription_channel s = subscriber_channel subscriber \<and>
     subscription_ref s = subscriber_ref subscriber"

text \<open>
  The upsert: on a conflict the row keeps its status and its id is the answer. A new row references
  the author and the channel, and no reference is empty.
\<close>

definition subscribe :: "backend \<Rightarrow> subscription_policy \<Rightarrow> instant \<Rightarrow> int \<Rightarrow> subscriber_identity \<Rightarrow>
    (database, sql_error, int) tx" where
  "subscribe db policy now author subscriber =
     tx_bind (write_connection db) (\<lambda>_. statement (\<lambda>d.
       if subscriber_ref subscriber = [] then (Inl CheckViolation, d)
       else case find (is_subscription_of author subscriber) (subscriptions d) of
         Some s \<Rightarrow> (Inr (subscription_id s), d)
       | None \<Rightarrow>
           if \<not> user_exists author d \<or> subscriber_channel subscriber \<notin> fst ` set (channels d)
           then (Inl ForeignKeyViolation, d)
           else (Inr (next_subscription_id d), d\<lparr>
             subscriptions := subscriptions d @
               [\<lparr>subscription_id = next_subscription_id d, subscription_author = author,
                 subscription_channel = subscriber_channel subscriber,
                 subscription_ref = subscriber_ref subscriber,
                 subscription_status = policy author subscriber, subscription_created_at = now\<rparr>],
             next_subscription_id := next_subscription_id d + 1\<rparr>)))"

text \<open>
  The members of named audiences reference their subscription without \<^verbatim>\<open>ON DELETE CASCADE\<close>.
\<close>

definition subscription_referenced :: "subscription_row \<Rightarrow> database \<Rightarrow> bool" where
  "subscription_referenced s d \<longleftrightarrow>
     (\<exists>m \<in> set (audience_members d).
        member_subscription m = subscription_id s \<and> member_author m = subscription_author s)"

definition unsubscribe :: "backend \<Rightarrow> int \<Rightarrow> subscriber_identity \<Rightarrow> (database, sql_error, unit) tx" where
  "unsubscribe db author subscriber =
     tx_bind (write_connection db) (\<lambda>_. statement (\<lambda>d.
       if \<exists>s \<in> set (subscriptions d). is_subscription_of author subscriber s \<and> subscription_referenced s d
       then (Inl ForeignKeyViolation, d)
       else (Inr (), d\<lparr>subscriptions := delete_where (is_subscription_of author subscriber) (subscriptions d)\<rparr>)))"

definition active_subscription :: "int \<Rightarrow> int option \<Rightarrow> ustr \<Rightarrow> subscription_row \<Rightarrow> bool" where
  "active_subscription author channel ref s \<longleftrightarrow>
     subscription_author s = author \<and> Some (subscription_channel s) = channel \<and>
     subscription_ref s = ref \<and> subscription_status s = Active"

fun is_subscriber :: "int \<Rightarrow> viewer_identity \<Rightarrow> (database, sql_error, bool) tx" where
  "is_subscriber author Anonymous = tx_return False"
| "is_subscriber author (Local uid) =
     pool_query (\<lambda>d. \<exists>s \<in> set (subscriptions d).
       active_subscription author (local_channel_of d) (local_subscriber_ref uid) s)"
| "is_subscriber author (Remote channel ref) =
     pool_query (\<lambda>d. \<exists>s \<in> set (subscriptions d). active_subscription author (Some channel) ref s)"

record subscription_record =
  sr_subscription_id :: int
  sr_subscriber :: subscriber_identity
  sr_status :: subscription_status
  sr_created_at :: instant

text \<open>A row whose reference is blank is skipped, its siblings are kept.\<close>

definition active_subscriptions :: "int \<Rightarrow> database \<Rightarrow> subscription_row list" where
  "active_subscriptions author d = sort_key subscription_id
     (filter (\<lambda>s. subscription_author s = author \<and> subscription_status s = Active) (subscriptions d))"

definition decode_subscription :: "subscription_row \<Rightarrow> subscription_record option" where
  "decode_subscription s =
     map_option (\<lambda>ref. \<lparr>sr_subscription_id = subscription_id s,
       sr_subscriber = \<lparr>subscriber_channel = subscription_channel s, subscriber_ref = ref\<rparr>,
       sr_status = Active, sr_created_at = subscription_created_at s\<rparr>)
     (parse_subscriber_ref (subscription_ref s))"

definition list_subscribers :: "int \<Rightarrow> (database, sql_error, subscription_record list) tx" where
  "list_subscribers author =
     tx_bind (pool_query (active_subscriptions author)) (\<lambda>rows.
     tx_return (List.map_filter decode_subscription rows))"

text \<open>
  The summaries are joined with the local user the reference names; the label is its username, or
  the reference itself. An undecodable username fails the whole list.
\<close>

definition subscriber_user :: "database \<Rightarrow> subscription_row \<Rightarrow> ustr option" where
  "subscriber_user d s =
     (if Some (subscription_channel s) = local_channel_of d
      then map_option user_username (find (\<lambda>u. subscription_ref s = i64_text (user_id u)) (users d))
      else None)"

definition list_subscriber_summaries :: "int \<Rightarrow> (database, sql_error, (int \<times> ustr) list) tx" where
  "list_subscriber_summaries author =
     tx_bind (pool_query (\<lambda>d. map (\<lambda>s. (subscription_id s, subscriber_user d s, subscription_ref s))
       (active_subscriptions author d))) (\<lambda>rows.
     if list_all (\<lambda>(_, username, _). case username of None \<Rightarrow> True | Some u \<Rightarrow> parse_username u \<noteq> None) rows
     then tx_return (List.map_filter (\<lambda>(sid, username, stored_ref).
       map_option (\<lambda>ref. (sid, case username of Some u \<Rightarrow> the (parse_username u) | None \<Rightarrow> ref))
         (parse_subscriber_ref stored_ref)) rows)
     else tx_throw ColumnDecode)"

datatype local_channel_error = LocalChannel_Db sql_error | LocalChannel_Missing

definition local_channel_id :: "(database, local_channel_error, int) tx" where
  "local_channel_id =
     tx_bind (tx_map_err LocalChannel_Db (pool_query local_channel_of)) (\<lambda>row.
     case row of None \<Rightarrow> tx_throw LocalChannel_Missing | Some channel \<Rightarrow> tx_return channel)"

subsection \<open>The audience store\<close>

record audience_record =
  ar_audience_id :: int
  ar_name :: ustr
  ar_created_at :: instant

datatype audience_error = DuplicateName | Audience_NotFound | Audience_Storage sql_error

definition is_audience_of :: "int \<Rightarrow> int \<Rightarrow> audience_row \<Rightarrow> bool" where
  "is_audience_of author aid a \<longleftrightarrow> audience_author a = author \<and> audience_id a = aid"

definition create_audience :: "backend \<Rightarrow> instant \<Rightarrow> int \<Rightarrow> ustr \<Rightarrow> (database, audience_error, int) tx" where
  "create_audience db now author name =
     tx_bind (tx_map_err Audience_Storage (write_connection db)) (\<lambda>_.
     tx_map_err (\<lambda>e. if e = UniqueViolation then DuplicateName else Audience_Storage e)
       (statement (\<lambda>d.
          if \<exists>a \<in> set (audiences d). audience_author a = author \<and> audience_name a = name
          then (Inl UniqueViolation, d)
          else if \<not> user_exists author d then (Inl ForeignKeyViolation, d)
          else (Inr (next_audience_id d), d\<lparr>
            audiences := audiences d @
              [\<lparr>audience_id = next_audience_id d, audience_author = author, audience_name = name,
                audience_created_at = now\<rparr>],
            next_audience_id := next_audience_id d + 1\<rparr>))))"

definition rename_audience :: "backend \<Rightarrow> int \<Rightarrow> int \<Rightarrow> ustr \<Rightarrow> (database, audience_error, unit) tx" where
  "rename_audience db author aid name =
     tx_bind (tx_map_err Audience_Storage (write_connection db)) (\<lambda>_.
     tx_bind (tx_map_err (\<lambda>e. if e = UniqueViolation then DuplicateName else Audience_Storage e)
       (statement (\<lambda>d.
          if \<forall>a \<in> set (audiences d). \<not> is_audience_of author aid a then (Inr None, d)
          else if \<exists>a \<in> set (audiences d). audience_author a = author \<and> audience_name a = name \<and> audience_id a \<noteq> aid
          then (Inl UniqueViolation, d)
          else (Inr (Some aid), d\<lparr>audiences :=
            update_where (is_audience_of author aid) (\<lambda>a. a\<lparr>audience_name := name\<rparr>) (audiences d)\<rparr>))))
     (\<lambda>row. case row of None \<Rightarrow> tx_throw Audience_NotFound | Some _ \<Rightarrow> tx_return ()))"

text \<open>
  Deleting an audience deletes its members first; the posts that target it reference it without
  \<^verbatim>\<open>ON DELETE CASCADE\<close>.
\<close>

definition audience_referenced :: "int \<Rightarrow> int \<Rightarrow> database \<Rightarrow> bool" where
  "audience_referenced author aid d \<longleftrightarrow>
     (\<exists>m \<in> set (audience_members d). member_author m = author \<and> member_audience m = aid) \<or>
     (\<exists>pa \<in> set (post_audiences d). pa_audience pa = Some aid)"

definition delete_audience :: "backend \<Rightarrow> int \<Rightarrow> int \<Rightarrow> (database, sql_error, unit) tx" where
  "delete_audience db author aid =
     tx_bind (write_connection db) (\<lambda>_.
     tx_bind (execute (\<lambda>d. d\<lparr>audience_members := delete_where
       (\<lambda>m. member_author m = author \<and> member_audience m = aid) (audience_members d)\<rparr>)) (\<lambda>_.
     statement (\<lambda>d.
       if (\<exists>a \<in> set (audiences d). is_audience_of author aid a) \<and> audience_referenced author aid d
       then (Inl ForeignKeyViolation, d)
       else (Inr (), d\<lparr>audiences := delete_where (is_audience_of author aid) (audiences d)\<rparr>))))"

definition decode_audience :: "audience_row \<Rightarrow> audience_record option" where
  "decode_audience a = map_option (\<lambda>name. \<lparr>ar_audience_id = audience_id a, ar_name = name,
     ar_created_at = audience_created_at a\<rparr>) (parse_audience_name (audience_name a))"

definition list_audiences :: "int \<Rightarrow> (database, sql_error, audience_record list) tx" where
  "list_audiences author =
     tx_bind (pool_query (\<lambda>d. sort_key audience_id (filter (\<lambda>a. audience_author a = author) (audiences d)))) (\<lambda>rows.
     case those (map decode_audience rows) of None \<Rightarrow> tx_throw ColumnDecode | Some rs \<Rightarrow> tx_return rs)"

text \<open>Both halves of a membership reference a row of the same author.\<close>

definition add_member :: "backend \<Rightarrow> int \<Rightarrow> int \<Rightarrow> int \<Rightarrow> (database, audience_error, unit) tx" where
  "add_member db author aid sid =
     tx_map_err Audience_Storage
       (tx_bind (write_connection db) (\<lambda>_. statement (\<lambda>d.
          if \<exists>m \<in> set (audience_members d). member_audience m = aid \<and> member_subscription m = sid
          then (Inr (), d)
          else if (\<exists>a \<in> set (audiences d). is_audience_of author aid a) \<and>
            (\<exists>s \<in> set (subscriptions d). subscription_id s = sid \<and> subscription_author s = author)
          then (Inr (), d\<lparr>audience_members := audience_members d @
            [\<lparr>member_audience = aid, member_subscription = sid, member_author = author\<rparr>]\<rparr>)
          else (Inl ForeignKeyViolation, d))))"

definition remove_member :: "backend \<Rightarrow> int \<Rightarrow> int \<Rightarrow> int \<Rightarrow> (database, sql_error, unit) tx" where
  "remove_member db author aid sid =
     tx_bind (write_connection db) (\<lambda>_. execute (\<lambda>d. d\<lparr>audience_members := delete_where
       (\<lambda>m. member_author m = author \<and> member_audience m = aid \<and> member_subscription m = sid)
       (audience_members d)\<rparr>))"

definition list_members :: "int \<Rightarrow> int \<Rightarrow> (database, sql_error, int list) tx" where
  "list_members author aid =
     pool_query (\<lambda>d. sort (map member_subscription
       (filter (\<lambda>m. member_author m = author \<and> member_audience m = aid) (audience_members d))))"

subsection \<open>Targets of a post\<close>

datatype default_audience = Default_Public | Default_Subscribers | Default_Private

datatype audience_target = Public | Private | Subscribers | Named int

fun target_of_default :: "default_audience \<Rightarrow> audience_target" where
  "target_of_default Default_Public = Public"
| "target_of_default Default_Subscribers = Subscribers"
| "target_of_default Default_Private = Private"

record audience_selection =
  selects_public :: bool
  selects_subscribers :: bool
  selects_named :: "int list"

definition audience_selection_to_targets :: "audience_selection \<Rightarrow> audience_target list" where
  "audience_selection_to_targets sel =
     (if selects_public sel then [Public] else []) @
     (if selects_subscribers sel then [Subscribers] else []) @
     map Named (selects_named sel)"

definition audience_targets_or_public :: "audience_selection option \<Rightarrow> audience_target list" where
  "audience_targets_or_public sel =
     (case sel of None \<Rightarrow> [Public] | Some s \<Rightarrow> audience_selection_to_targets s)"

fun select_target :: "audience_target \<Rightarrow> audience_selection \<Rightarrow> audience_selection" where
  "select_target Public sel = sel\<lparr>selects_public := True\<rparr>"
| "select_target Subscribers sel = sel\<lparr>selects_subscribers := True\<rparr>"
| "select_target (Named aid) sel = sel\<lparr>selects_named := selects_named sel @ [aid]\<rparr>"
| "select_target Private sel = sel"

definition targets_to_audience_selection :: "audience_target list \<Rightarrow> audience_selection" where
  "targets_to_audience_selection targets =
     fold select_target targets \<lparr>selects_public = False, selects_subscribers = False, selects_named = []\<rparr>"

fun named_target :: "audience_target \<Rightarrow> int option" where
  "named_target (Named aid) = Some aid"
| "named_target _ = None"

datatype invalid_audience_targets = InvalidTargets | InvalidTargets_Storage sql_error

definition validate_named_audience_targets :: "int \<Rightarrow> audience_target list \<Rightarrow>
    (database, invalid_audience_targets, unit) tx" where
  "validate_named_audience_targets author targets =
     (let named = List.map_filter named_target targets
      in if named = [] then tx_return ()
         else tx_bind (tx_map_err InvalidTargets_Storage (list_audiences author)) (\<lambda>rows.
           if set named \<subseteq> ar_audience_id ` set rows then tx_return () else tx_throw InvalidTargets))"

subsection \<open>The audience rows of a post\<close>

text \<open>
  \<^verbatim>\<open>storage/src/posts/visibility.rs\<close>: the normalized rows of the targets. A private target
  has none.
\<close>

fun audience_target_row :: "audience_target \<Rightarrow> (target_kind \<times> int option) option" where
  "audience_target_row Public = Some (Public_Target, None)"
| "audience_target_row Subscribers = Some (Subscribers_Target, None)"
| "audience_target_row (Named aid) = Some (Named_Target, Some aid)"
| "audience_target_row Private = None"

fun audience_target_from_row :: "target_kind \<Rightarrow> int option \<Rightarrow> audience_target option" where
  "audience_target_from_row Public_Target _ = Some Public"
| "audience_target_from_row Subscribers_Target _ = Some Subscribers"
| "audience_target_from_row Named_Target aid = map_option Named aid"

fun normalize_targets :: "audience_target list \<Rightarrow> (target_kind \<times> int option) list \<Rightarrow>
    (target_kind \<times> int option) list" where
  "normalize_targets [] normalized = normalized"
| "normalize_targets (t # ts) normalized =
     (case audience_target_row t of
        None \<Rightarrow> normalize_targets ts normalized
      | Some row \<Rightarrow> normalize_targets ts (if row \<in> set normalized then normalized else normalized @ [row]))"

definition audiences_are_equal :: "(target_kind \<times> int option) list \<Rightarrow> audience_target list \<Rightarrow> bool" where
  "audiences_are_equal existing desired =
     (let normalized = normalize_targets desired []
      in length existing = length normalized \<and> list_all (\<lambda>row. row \<in> set normalized) existing)"

text \<open>
  The primary key of the SQLite table does not compare the null audience of two rows; PostgreSQL
  has a unique index for named rows and one for the others.
\<close>

definition post_audience_conflict :: "backend \<Rightarrow> int \<Rightarrow> target_kind \<Rightarrow> int option \<Rightarrow> post_audience_row \<Rightarrow> bool" where
  "post_audience_conflict db post kind aid r \<longleftrightarrow>
     pa_post r = post \<and>
     (case db of
        Sqlite \<Rightarrow> aid \<noteq> None \<and> pa_kind r = kind \<and> pa_audience r = aid
      | Postgres \<Rightarrow> pa_audience r = aid \<and> (aid \<noteq> None \<or> pa_kind r = kind))"

definition insert_post_audience :: "backend \<Rightarrow> int \<Rightarrow> target_kind \<Rightarrow> int option \<Rightarrow>
    (database, sql_error, unit) tx" where
  "insert_post_audience db post kind aid = statement (\<lambda>d.
     if \<exists>r \<in> set (post_audiences d). post_audience_conflict db post kind aid r then (Inl UniqueViolation, d)
     else if (\<forall>p \<in> set (posts d). post_id p \<noteq> post) \<or>
       (\<exists>a. aid = Some a \<and> a \<notin> audience_id ` set (audiences d))
     then (Inl ForeignKeyViolation, d)
     else (Inr (), d\<lparr>post_audiences := post_audiences d @
       [\<lparr>pa_post = post, pa_kind = kind, pa_audience = aid\<rparr>]\<rparr>))"

fun insert_post_audiences :: "backend \<Rightarrow> int \<Rightarrow> audience_target list \<Rightarrow> (database, sql_error, unit) tx" where
  "insert_post_audiences db post [] = tx_return ()"
| "insert_post_audiences db post (t # ts) =
     (case audience_target_row t of
        None \<Rightarrow> insert_post_audiences db post ts
      | Some (kind, aid) \<Rightarrow>
          tx_bind (insert_post_audience db post kind aid) (\<lambda>_. insert_post_audiences db post ts))"

definition replace_post_audiences :: "backend \<Rightarrow> int \<Rightarrow> audience_target list \<Rightarrow> (database, sql_error, unit) tx" where
  "replace_post_audiences db post targets =
     tx_bind (execute (\<lambda>d. d\<lparr>post_audiences := delete_where (\<lambda>r. pa_post r = post) (post_audiences d)\<rparr>))
       (\<lambda>_. insert_post_audiences db post targets)"

text \<open>
  \<^verbatim>\<open>ORDER BY tk.name, pa.audience_id\<close>: named, then public, then subscribers, the named ones
  by their audience.
\<close>

fun target_kind_rank :: "target_kind \<Rightarrow> nat" where
  "target_kind_rank Named_Target = 0"
| "target_kind_rank Public_Target = 1"
| "target_kind_rank Subscribers_Target = 2"

definition ordered_post_audiences :: "int \<Rightarrow> database \<Rightarrow> post_audience_row list" where
  "ordered_post_audiences post d =
     sort_key (\<lambda>r. target_kind_rank (pa_kind r))
       (sort_key (\<lambda>r. case pa_audience r of None \<Rightarrow> 0 | Some aid \<Rightarrow> aid)
         (filter (\<lambda>r. pa_post r = post) (post_audiences d)))"

definition get_post_audiences :: "int \<Rightarrow> (database, sql_error, audience_target list) tx" where
  "get_post_audiences post =
     tx_bind (pool_query (ordered_post_audiences post)) (\<lambda>rows.
     tx_return (List.map_filter (\<lambda>r. audience_target_from_row (pa_kind r) (pa_audience r)) rows))"

subsection \<open>Subscribing on the web\<close>

text \<open>
  The server functions read the author and the channel on the pool, then write in a scope; others
  may write in between (\<open>meanwhile\<close> of the caller, the second database here).
\<close>

datatype subscription_web_error =
  Author_NotFound | Own_Author | Subscription_Storage sql_error | Channel_Missing

definition resolve_author :: "ustr \<Rightarrow> int \<Rightarrow> (database, subscription_web_error, int) tx" where
  "resolve_author username viewer =
     tx_bind (tx_map_err Subscription_Storage (get_user_by_username username)) (\<lambda>found.
     case found of
       None \<Rightarrow> tx_throw Author_NotFound
     | Some author \<Rightarrow> if ur_user_id author = viewer then tx_throw Own_Author else tx_return (ur_user_id author))"

definition resolve_subscription :: "ustr \<Rightarrow> int \<Rightarrow>
    (database, subscription_web_error, int \<times> subscriber_identity) tx" where
  "resolve_subscription username viewer =
     tx_bind (resolve_author username viewer) (\<lambda>author.
     tx_bind (tx_map_err (\<lambda>e. case e of LocalChannel_Db e \<Rightarrow> Subscription_Storage e | LocalChannel_Missing \<Rightarrow> Channel_Missing)
       local_channel_id) (\<lambda>channel.
     tx_return (author, local_subscriber_identity channel viewer)))"

definition on_pool :: "bool list \<Rightarrow> (database, 'e, 'a) tx \<Rightarrow> database \<Rightarrow> 'e + 'a" where
  "on_pool read_faults m d =
     fst (m \<lparr>held = Sqlite, committed = d, working = d, faults = read_faults\<rparr>)"

definition web_scope :: "backend \<Rightarrow> scope_env \<Rightarrow> (database, sql_error, unit) tx \<Rightarrow> database \<Rightarrow>
    (subscription_web_error + unit mutation_outcome) \<times> database" where
  "web_scope db env m d =
     (case run db env m d of
        (Inl (Operation e), d') \<Rightarrow> (Inl (Subscription_Storage e), d')
      | (Inl (Begin e), d') \<Rightarrow> (Inl (Subscription_Storage e), d')
      | (Inr outcome, d') \<Rightarrow> (Inr outcome, d'))"

definition web_subscribe :: "backend \<Rightarrow> subscription_policy \<Rightarrow> bool list \<Rightarrow> scope_env \<Rightarrow> instant \<Rightarrow> ustr \<Rightarrow> int \<Rightarrow>
    database \<Rightarrow> database \<Rightarrow> (subscription_web_error + unit mutation_outcome) \<times> database" where
  "web_subscribe db policy read_faults env now username viewer d d1 =
     (case on_pool read_faults (resolve_subscription username viewer) d of
        Inl e \<Rightarrow> (Inl e, d1)
      | Inr (author, subscriber) \<Rightarrow>
          web_scope db env (tx_bind (subscribe db policy now author subscriber) (\<lambda>_. tx_return ())) d1)"

definition web_unsubscribe :: "backend \<Rightarrow> bool list \<Rightarrow> scope_env \<Rightarrow> ustr \<Rightarrow> int \<Rightarrow>
    database \<Rightarrow> database \<Rightarrow> (subscription_web_error + unit mutation_outcome) \<times> database" where
  "web_unsubscribe db read_faults env username viewer d d1 =
     (case on_pool read_faults (resolve_subscription username viewer) d of
        Inl e \<Rightarrow> (Inl e, d1)
      | Inr (author, subscriber) \<Rightarrow> web_scope db env (unsubscribe db author subscriber) d1)"

definition is_subscribed :: "bool list \<Rightarrow> ustr \<Rightarrow> int \<Rightarrow> database \<Rightarrow> subscription_web_error + bool" where
  "is_subscribed read_faults username viewer d =
     on_pool read_faults (\<lambda>c. case resolve_author username viewer c of
         (Inl _, c') \<Rightarrow> (Inr False, c')
       | (Inr author, c') \<Rightarrow> tx_map_err Subscription_Storage (is_subscriber author (Local viewer)) c') d"

subsection \<open>The store keeps its references\<close>

text \<open>
  What the keys and the references of the migrations say, over all rows: ids and natural keys are
  unique, and both halves of a membership belong to its author.
\<close>

definition subscriptions_wf :: "database \<Rightarrow> bool" where
  "subscriptions_wf d \<longleftrightarrow>
     distinct (map subscription_id (subscriptions d)) \<and>
     distinct (map (\<lambda>s. (subscription_author s, subscription_channel s, subscription_ref s)) (subscriptions d)) \<and>
     list_all (\<lambda>s. subscription_id s < next_subscription_id d) (subscriptions d)"

definition audience_names_wf :: "database \<Rightarrow> bool" where
  "audience_names_wf d \<longleftrightarrow>
     distinct (map audience_id (audiences d)) \<and>
     distinct (map (\<lambda>a. (audience_author a, audience_name a)) (audiences d)) \<and>
     list_all (\<lambda>a. audience_id a < next_audience_id d) (audiences d)"

definition same_owner :: "database \<Rightarrow> audience_member_row \<Rightarrow> bool" where
  "same_owner d m \<longleftrightarrow>
     (\<exists>a \<in> set (audiences d). is_audience_of (member_author m) (member_audience m) a) \<and>
     (\<exists>s \<in> set (subscriptions d). subscription_id s = member_subscription m \<and>
        subscription_author s = member_author m)"

definition members_wf :: "database \<Rightarrow> bool" where
  "members_wf d \<longleftrightarrow>
     distinct (map (\<lambda>m. (member_audience m, member_subscription m)) (audience_members d)) \<and>
     list_all (same_owner d) (audience_members d)"

definition targets_wf :: "database \<Rightarrow> bool" where
  "targets_wf d \<longleftrightarrow>
     list_all (\<lambda>r. (\<exists>p \<in> set (posts d). post_id p = pa_post r) \<and>
       (pa_audience r = None \<or> the (pa_audience r) \<in> audience_id ` set (audiences d)))
       (post_audiences d)"

definition audiences_wf :: "database \<Rightarrow> bool" where
  "audiences_wf d \<longleftrightarrow> subscriptions_wf d \<and> audience_names_wf d \<and> members_wf d \<and> targets_wf d"

lemmas audience_wf_defs = audiences_wf_def subscriptions_wf_def audience_names_wf_def members_wf_def
  same_owner_def targets_wf_def list_all_iff is_audience_of_def

datatype audience_request =
    Subscribe_Request instant int subscriber_identity
  | Unsubscribe_Request int subscriber_identity
  | Create_Request instant int ustr
  | Rename_Request int int ustr
  | Delete_Request int int
  | AddMember_Request int int int
  | RemoveMember_Request int int int
  | Target_Request int "audience_target list"

fun serve_audience :: "backend \<Rightarrow> subscription_policy \<Rightarrow> audience_request \<Rightarrow> (database, audience_error, unit) tx" where
  "serve_audience db policy (Subscribe_Request now author subscriber) =
     tx_map_err Audience_Storage (tx_bind (subscribe db policy now author subscriber) (\<lambda>_. tx_return ()))"
| "serve_audience db policy (Unsubscribe_Request author subscriber) =
     tx_map_err Audience_Storage (unsubscribe db author subscriber)"
| "serve_audience db policy (Create_Request now author name) =
     tx_bind (create_audience db now author name) (\<lambda>_. tx_return ())"
| "serve_audience db policy (Rename_Request author aid name) = rename_audience db author aid name"
| "serve_audience db policy (Delete_Request author aid) =
     tx_map_err Audience_Storage (delete_audience db author aid)"
| "serve_audience db policy (AddMember_Request author aid sid) = add_member db author aid sid"
| "serve_audience db policy (RemoveMember_Request author aid sid) =
     tx_map_err Audience_Storage (remove_member db author aid sid)"
| "serve_audience db policy (Target_Request post targets) =
     tx_map_err Audience_Storage (replace_post_audiences db post targets)"


text \<open>The effects of the operations that succeed.\<close>

lemma find_appended: "\<forall>x \<in> set xs. \<not> P x \<Longrightarrow> P y \<Longrightarrow> find P (xs @ [y]) = Some y"
  by (induction xs) auto

definition added_subscription :: "subscription_policy \<Rightarrow> instant \<Rightarrow> int \<Rightarrow> subscriber_identity \<Rightarrow> database \<Rightarrow> database" where
  "added_subscription policy now author subscriber d = d\<lparr>
     subscriptions := subscriptions d @
       [\<lparr>subscription_id = next_subscription_id d, subscription_author = author,
         subscription_channel = subscriber_channel subscriber,
         subscription_ref = subscriber_ref subscriber,
         subscription_status = policy author subscriber, subscription_created_at = now\<rparr>],
     next_subscription_id := next_subscription_id d + 1\<rparr>"

lemma subscribe_okD:
  assumes "subscribe db policy now author subscriber c = (Inr sid, c')"
  shows "(\<exists>s. find (is_subscription_of author subscriber) (subscriptions (working c)) = Some s \<and>
      sid = subscription_id s \<and> working c' = working c) \<or>
    ((\<forall>s \<in> set (subscriptions (working c)). \<not> is_subscription_of author subscriber s) \<and>
      sid = next_subscription_id (working c) \<and>
      working c' = added_subscription policy now author subscriber (working c))"
  using assms
  by (auto simp: subscribe_def tx_simps added_subscription_def find_None_iff split: option.splits if_splits)

lemma subscribe_ref_nonempty:
  "subscribe db policy now author subscriber c = (Inr sid, c') \<Longrightarrow> subscriber_ref subscriber \<noteq> []"
  by (auto simp: subscribe_def tx_simps)

lemma unsubscribe_okD:
  assumes "unsubscribe db author subscriber c = (Inr u, c')"
  shows "working c' = (working c)\<lparr>subscriptions :=
      delete_where (is_subscription_of author subscriber) (subscriptions (working c))\<rparr>"
    and "\<And>s. s \<in> set (subscriptions (working c)) \<Longrightarrow> is_subscription_of author subscriber s \<Longrightarrow>
      \<not> subscription_referenced s (working c)"
  using assms by (auto simp: unsubscribe_def tx_simps split: if_splits)

lemma added_subscription_wf:
  assumes "audiences_wf d" and "\<forall>s \<in> set (subscriptions d). \<not> is_subscription_of author subscriber s"
  shows "audiences_wf (added_subscription policy now author subscriber d)"
proof -
  have "subscriptions_wf (added_subscription policy now author subscriber d)"
    using assms unfolding audiences_wf_def subscriptions_wf_def list_all_iff is_subscription_of_def added_subscription_def
    by fastforce
  moreover have "members_wf (added_subscription policy now author subscriber d)"
    using assms(1) unfolding audiences_wf_def members_wf_def same_owner_def list_all_iff added_subscription_def by auto
  moreover have "audience_names_wf (added_subscription policy now author subscriber d)"
    "targets_wf (added_subscription policy now author subscriber d)"
    using assms(1) by (simp_all add: added_subscription_def audience_wf_defs)
  ultimately show ?thesis by (simp add: audiences_wf_def)
qed

lemma subscribe_keeps_wf:
  "audiences_wf (working c) \<Longrightarrow> subscribe db policy now author subscriber c = (Inr sid, c') \<Longrightarrow>
     audiences_wf (working c')"
  by (drule subscribe_okD) (auto simp: added_subscription_wf)

lemma unsubscribe_keeps_wf:
  assumes "audiences_wf (working c)" and "unsubscribe db author subscriber c = (Inr u, c')"
  shows "audiences_wf (working c')"
proof -
  let ?d = "working c"
  note d' = unsubscribe_okD(1) [OF assms(2)]
  have "members_wf (working c')"
    using assms(1) unsubscribe_okD(2) [OF assms(2)]
    unfolding audiences_wf_def members_wf_def same_owner_def list_all_iff d' subscription_referenced_def
    by (fastforce simp: table_simps)
  moreover have "subscriptions_wf (working c')" "audience_names_wf (working c')" "targets_wf (working c')"
    using assms(1) unfolding audience_wf_defs d' by (simp_all add: table_simps distinct_map_delete_where)
  ultimately show ?thesis by (simp add: audiences_wf_def)
qed

definition added_audience :: "instant \<Rightarrow> int \<Rightarrow> ustr \<Rightarrow> database \<Rightarrow> database" where
  "added_audience now author name d = d\<lparr>
     audiences := audiences d @
       [\<lparr>audience_id = next_audience_id d, audience_author = author, audience_name = name,
         audience_created_at = now\<rparr>],
     next_audience_id := next_audience_id d + 1\<rparr>"

lemma create_audience_okD:
  assumes "create_audience db now author name c = (Inr aid, c')"
  shows "working c' = added_audience now author name (working c)" "aid = next_audience_id (working c)"
    and "\<And>a. a \<in> set (audiences (working c)) \<Longrightarrow> audience_author a = author \<Longrightarrow> audience_name a \<noteq> name"
  using assms by (auto simp: create_audience_def tx_simps added_audience_def split: if_splits)

lemma create_audience_keeps_wf:
  assumes "audiences_wf (working c)" and "create_audience db now author name c = (Inr aid, c')"
  shows "audiences_wf (working c')"
proof -
  note d' = create_audience_okD [OF assms(2)]
  have "audience_names_wf (working c')"
    using assms(1) d'(3) unfolding audiences_wf_def audience_names_wf_def list_all_iff d'(1) added_audience_def
    by fastforce
  moreover have "members_wf (working c')" "targets_wf (working c')"
    using assms(1) unfolding audiences_wf_def members_wf_def same_owner_def targets_wf_def list_all_iff d'(1) added_audience_def
    by auto
  moreover have "subscriptions_wf (working c')"
    using assms(1) by (simp add: d'(1) added_audience_def audience_wf_defs)
  ultimately show ?thesis by (simp add: audiences_wf_def)
qed


lemma rename_audience_okD:
  assumes "rename_audience db author aid name c = (Inr u, c')"
  shows "working c' = (working c)\<lparr>audiences := update_where (is_audience_of author aid)
      (\<lambda>a. a\<lparr>audience_name := name\<rparr>) (audiences (working c))\<rparr>"
    and "\<exists>a \<in> set (audiences (working c)). is_audience_of author aid a"
    and "\<And>a. a \<in> set (audiences (working c)) \<Longrightarrow> audience_author a = author \<Longrightarrow> audience_id a \<noteq> aid \<Longrightarrow>
      audience_name a \<noteq> name"
  using assms by (auto simp: rename_audience_def tx_simps split: if_splits)

lemma renamed_audience_exists:
  "(\<exists>a \<in> set (update_where q (\<lambda>a. a\<lparr>audience_name := name\<rparr>) rs). is_audience_of author aid a) \<longleftrightarrow>
     (\<exists>a \<in> set rs. is_audience_of author aid a)"
  by (induction rs) (auto simp: update_where_def is_audience_of_def)

lemma distinct_map_eqD: "distinct (map k rs) \<Longrightarrow> x \<in> set rs \<Longrightarrow> y \<in> set rs \<Longrightarrow> k x = k y \<Longrightarrow> x = y"
  by (simp add: distinct_map inj_on_def)

text \<open>Renaming to a name no other audience of the author has keeps the names of each author apart.\<close>

lemma distinct_renamed:
  fixes rs :: "audience_row list"
  assumes "distinct (map audience_id rs)" and "distinct (map (\<lambda>a. (audience_author a, audience_name a)) rs)"
    and free: "\<And>a. a \<in> set rs \<Longrightarrow> audience_author a = author \<Longrightarrow> audience_id a \<noteq> aid \<Longrightarrow> audience_name a \<noteq> name"
  shows "distinct (map (\<lambda>a. (audience_author a, audience_name a))
    (update_where (is_audience_of author aid) (\<lambda>a. a\<lparr>audience_name := name\<rparr>) rs))"
  using assms
proof (induction rs)
  case (Cons r rs)
  let ?k = "\<lambda>a. (audience_author a, audience_name a)"
  let ?g = "\<lambda>a. if is_audience_of author aid a then a\<lparr>audience_name := name\<rparr> else a"
  have pairwise: "?k (?g r) \<noteq> ?k (?g x)" if x: "x \<in> set rs" for x
  proof -
    have ids: "audience_id r \<noteq> audience_id x" and keys: "?k r \<noteq> ?k x"
      using Cons.prems(1,2) x by (force, force)
    show ?thesis
      using ids keys Cons.prems(3) [of r] Cons.prems(3) [of x] x
      by (auto simp: is_audience_of_def)
  qed
  have "?k (?g r) \<notin> set (map ?k (map ?g rs))"
    using pairwise by (simp only: set_map image_image) blast
  moreover have "distinct (map ?k (map ?g rs))"
    using Cons.IH [OF _ _ Cons.prems(3)] Cons.prems(1,2) by (simp add: update_where_def)
  ultimately show ?case unfolding update_where_def list.map distinct.simps by blast
qed (simp add: update_where_def)

lemma rename_audience_keeps_wf:
  assumes "audiences_wf (working c)" and "rename_audience db author aid name c = (Inr u, c')"
  shows "audiences_wf (working c')"
proof -
  let ?d = "working c"
  let ?rows = "update_where (is_audience_of author aid) (\<lambda>a. a\<lparr>audience_name := name\<rparr>) (audiences ?d)"
  note d' = rename_audience_okD [OF assms(2)]
  have ids: "map audience_id ?rows = map audience_id (audiences ?d)"
    by (rule map_update_where) simp
  have "distinct (map (\<lambda>a. (audience_author a, audience_name a)) ?rows)"
    by (rule distinct_renamed) (use assms(1) d'(3) in \<open>auto simp: audiences_wf_def audience_names_wf_def\<close>)
  moreover have "list_all (\<lambda>a. audience_id a < next_audience_id ?d) ?rows"
    using assms(1) by (auto simp: audience_wf_defs update_where_def)
  ultimately have "audience_names_wf (working c')"
    using assms(1) by (simp add: d'(1) ids audiences_wf_def audience_names_wf_def)
  moreover have "members_wf (working c')"
    using assms(1) unfolding audiences_wf_def members_wf_def same_owner_def list_all_iff d'(1)
    by (simp add: renamed_audience_exists)
  moreover have "targets_wf (working c')"
    using assms(1) arg_cong [OF ids, of set] unfolding audiences_wf_def targets_wf_def list_all_iff d'(1) by auto
  moreover have "subscriptions_wf (working c')"
    using assms(1) by (simp add: d'(1) audience_wf_defs)
  ultimately show ?thesis by (simp add: audiences_wf_def)
qed

lemma delete_audience_okD:
  assumes "delete_audience db author aid c = (Inr u, c')"
  shows "working c' = (working c)\<lparr>
      audience_members := delete_where (\<lambda>m. member_author m = author \<and> member_audience m = aid) (audience_members (working c)),
      audiences := delete_where (is_audience_of author aid) (audiences (working c))\<rparr>"
    and "\<And>a r. a \<in> set (audiences (working c)) \<Longrightarrow> is_audience_of author aid a \<Longrightarrow>
      r \<in> set (post_audiences (working c)) \<Longrightarrow> pa_audience r \<noteq> Some aid"
  using assms by (auto simp: delete_audience_def tx_simps audience_referenced_def split: if_splits)

lemma delete_audience_keeps_wf:
  assumes "audiences_wf (working c)" and "delete_audience db author aid c = (Inr u, c')"
  shows "audiences_wf (working c')"
proof -
  let ?d = "working c"
  note d' = delete_audience_okD [OF assms(2)]
  have "same_owner (working c') m" if m: "m \<in> set (audience_members (working c'))" for m
  proof -
    from m have old: "m \<in> set (audience_members ?d)" "\<not> (member_author m = author \<and> member_audience m = aid)"
      by (simp_all add: d'(1) table_simps)
    with assms(1) have "same_owner ?d m"
      by (simp add: audiences_wf_def members_wf_def list_all_iff)
    then obtain a where "a \<in> set (audiences ?d)" "is_audience_of (member_author m) (member_audience m) a"
      unfolding same_owner_def by blast
    moreover from this old(2) have "\<not> is_audience_of author aid a" by (simp add: is_audience_of_def)
    ultimately show ?thesis using \<open>same_owner ?d m\<close> unfolding same_owner_def
      by (auto simp: d'(1) table_simps)
  qed
  then have "members_wf (working c')"
    using assms(1) by (simp add: audiences_wf_def members_wf_def list_all_iff d'(1) distinct_map_delete_where)
  moreover have "targets_wf (working c')"
    unfolding targets_wf_def list_all_iff
  proof (rule ballI)
    fix r
    assume "r \<in> set (post_audiences (working c'))"
    then have r: "r \<in> set (post_audiences ?d)" by (simp add: d'(1))
    have "the (pa_audience r) \<in> audience_id ` set (audiences (working c'))" if some: "pa_audience r \<noteq> None"
    proof -
      from some r assms(1) obtain a where a: "a \<in> set (audiences ?d)" "audience_id a = the (pa_audience r)"
        unfolding audiences_wf_def targets_wf_def list_all_iff by auto
      have "\<not> is_audience_of author aid a"
        using d'(2) [OF a(1) _ r] a(2) some by (auto simp: is_audience_of_def)
      with a show ?thesis by (auto simp: d'(1) table_simps intro!: image_eqI [of _ _ a])
    qed
    moreover have "\<exists>p \<in> set (posts (working c')). post_id p = pa_post r"
      using r assms(1) unfolding audiences_wf_def targets_wf_def list_all_iff by (simp add: d'(1))
    ultimately show "(\<exists>p \<in> set (posts (working c')). post_id p = pa_post r) \<and>
        (pa_audience r = None \<or> the (pa_audience r) \<in> audience_id ` set (audiences (working c')))"
      by blast
  qed
  moreover have "audience_names_wf (working c')" "subscriptions_wf (working c')"
    using assms(1) by (auto simp: d'(1) audiences_wf_def audience_names_wf_def subscriptions_wf_def list_all_iff table_simps
        distinct_map_delete_where)
  ultimately show ?thesis by (simp add: audiences_wf_def)
qed

lemma add_member_okD:
  assumes "add_member db author aid sid c = (Inr u, c')"
  shows "working c' = working c \<or>
    ((\<forall>m \<in> set (audience_members (working c)). (member_audience m, member_subscription m) \<noteq> (aid, sid)) \<and>
     (\<exists>a \<in> set (audiences (working c)). is_audience_of author aid a) \<and>
     (\<exists>s \<in> set (subscriptions (working c)). subscription_id s = sid \<and> subscription_author s = author) \<and>
     working c' = (working c)\<lparr>audience_members := audience_members (working c) @
       [\<lparr>member_audience = aid, member_subscription = sid, member_author = author\<rparr>]\<rparr>)"
  using assms by (auto simp: add_member_def tx_simps split: if_splits)

lemma add_member_keeps_wf:
  assumes "audiences_wf (working c)" and "add_member db author aid sid c = (Inr u, c')"
  shows "audiences_wf (working c')"
  using add_member_okD [OF assms(2)]
proof
  assume new: "(\<forall>m \<in> set (audience_members (working c)). (member_audience m, member_subscription m) \<noteq> (aid, sid)) \<and>
     (\<exists>a \<in> set (audiences (working c)). is_audience_of author aid a) \<and>
     (\<exists>s \<in> set (subscriptions (working c)). subscription_id s = sid \<and> subscription_author s = author) \<and>
     working c' = (working c)\<lparr>audience_members := audience_members (working c) @
       [\<lparr>member_audience = aid, member_subscription = sid, member_author = author\<rparr>]\<rparr>"
  have "members_wf (working c')"
    using assms(1) new unfolding audiences_wf_def members_wf_def same_owner_def by fastforce
  moreover have "targets_wf (working c')" "audience_names_wf (working c')" "subscriptions_wf (working c')"
    using assms(1) new by (simp_all add: audiences_wf_def audience_names_wf_def subscriptions_wf_def targets_wf_def)
  ultimately show ?thesis by (simp add: audiences_wf_def)
qed (use assms(1) in simp)

lemma remove_member_keeps_wf:
  assumes "audiences_wf (working c)" and "remove_member db author aid sid c = (Inr u, c')"
  shows "audiences_wf (working c')"
proof -
  have "working c' = (working c)\<lparr>audience_members := delete_where
      (\<lambda>m. member_author m = author \<and> member_audience m = aid \<and> member_subscription m = sid)
      (audience_members (working c))\<rparr>"
    using assms(2) by (auto simp: remove_member_def tx_simps)
  with assms(1) show ?thesis
    by (simp add: audiences_wf_def audience_names_wf_def subscriptions_wf_def targets_wf_def members_wf_def same_owner_def
        list_all_iff table_simps distinct_map_delete_where)
qed


lemma insert_post_audience_okD:
  assumes "insert_post_audience db post kind aid c = (Inr u, c')"
  shows "working c' = (working c)\<lparr>post_audiences := post_audiences (working c) @
      [\<lparr>pa_post = post, pa_kind = kind, pa_audience = aid\<rparr>]\<rparr>"
    and "\<exists>p \<in> set (posts (working c)). post_id p = post"
    and "\<And>a. aid = Some a \<Longrightarrow> a \<in> audience_id ` set (audiences (working c))"
    and "\<And>r. r \<in> set (post_audiences (working c)) \<Longrightarrow> \<not> post_audience_conflict db post kind aid r"
  using assms by (auto simp: insert_post_audience_def tx_simps split: if_splits)

definition target_rows :: "audience_target list \<Rightarrow> (target_kind \<times> int option) list" where
  "target_rows targets = List.map_filter audience_target_row targets"

lemma target_rows_simps [simp]:
  "target_rows [] = []"
  "target_rows (t # ts) = (case audience_target_row t of None \<Rightarrow> target_rows ts | Some row \<Rightarrow> row # target_rows ts)"
  by (simp_all add: target_rows_def List.map_filter_simps split: option.splits)

lemma insert_post_audiences_okD:
  "insert_post_audiences db post targets c = (Inr u, c') \<Longrightarrow>
     working c' = (working c)\<lparr>post_audiences := post_audiences (working c) @
       map (\<lambda>(kind, aid). \<lparr>pa_post = post, pa_kind = kind, pa_audience = aid\<rparr>) (target_rows targets)\<rparr> \<and>
     (\<forall>aid. (\<exists>kind. (kind, Some aid) \<in> set (target_rows targets)) \<longrightarrow> aid \<in> audience_id ` set (audiences (working c))) \<and>
     (target_rows targets \<noteq> [] \<longrightarrow> (\<exists>p \<in> set (posts (working c)). post_id p = post))"
proof (induction targets arbitrary: c)
  case Nil
  then show ?case by (simp add: tx_simps)
next
  case (Cons t ts)
  show ?case
  proof (cases "audience_target_row t")
    case None
    with Cons show ?thesis by simp
  next
    case (Some row)
    obtain kind aid where row: "row = (kind, aid)" by (cases row)
    with Some Cons.prems obtain c1 where
      first: "insert_post_audience db post kind aid c = (Inr (), c1)" and
      rest: "insert_post_audiences db post ts c1 = (Inr u, c')"
      by (auto simp: tx_simps)
    note 1 = insert_post_audience_okD [OF first] and 2 = Cons.IH [OF rest]
    show ?thesis using 1(2,3) 2 by (auto simp: 1(1) Some row)
  qed
qed

lemma replace_post_audiences_okD:
  assumes "replace_post_audiences db post targets c = (Inr u, c')"
  shows "working c' = (working c)\<lparr>post_audiences :=
      delete_where (\<lambda>r. pa_post r = post) (post_audiences (working c)) @
      map (\<lambda>(kind, aid). \<lparr>pa_post = post, pa_kind = kind, pa_audience = aid\<rparr>) (target_rows targets)\<rparr>"
    and "\<And>kind aid. (kind, Some aid) \<in> set (target_rows targets) \<Longrightarrow> aid \<in> audience_id ` set (audiences (working c))"
    and "target_rows targets \<noteq> [] \<Longrightarrow> \<exists>p \<in> set (posts (working c)). post_id p = post"
proof -
  let ?kept = "delete_where (\<lambda>r. pa_post r = post) (post_audiences (working c))"
  let ?c1 = "(spend_fault c)\<lparr>working := (working c)\<lparr>post_audiences := ?kept\<rparr>\<rparr>"
  have c1: "working ?c1 = (working c)\<lparr>post_audiences := ?kept\<rparr>" by simp
  have rest: "insert_post_audiences db post targets ?c1 = (Inr u, c')"
    using assms by (auto simp: replace_post_audiences_def tx_simps)
  note ok = insert_post_audiences_okD [OF rest]
  show "working c' = (working c)\<lparr>post_audiences :=
      delete_where (\<lambda>r. pa_post r = post) (post_audiences (working c)) @
      map (\<lambda>(kind, aid). \<lparr>pa_post = post, pa_kind = kind, pa_audience = aid\<rparr>) (target_rows targets)\<rparr>"
    using ok by (simp add: c1)
  show "\<And>kind aid. (kind, Some aid) \<in> set (target_rows targets) \<Longrightarrow> aid \<in> audience_id ` set (audiences (working c))"
    using ok by (auto simp: c1)
  show "target_rows targets \<noteq> [] \<Longrightarrow> \<exists>p \<in> set (posts (working c)). post_id p = post"
    using ok by (auto simp: c1)
qed

lemma replace_post_audiences_keeps_wf:
  assumes "audiences_wf (working c)" and "replace_post_audiences db post targets c = (Inr u, c')"
  shows "audiences_wf (working c')"
proof -
  note ok = replace_post_audiences_okD [OF assms(2)]
  have "targets_wf (working c')"
    unfolding targets_wf_def list_all_iff
  proof (rule ballI)
    fix r
    assume "r \<in> set (post_audiences (working c'))"
    then consider "r \<in> set (post_audiences (working c))"
      | kind aid where "(kind, aid) \<in> set (target_rows targets)" "r = \<lparr>pa_post = post, pa_kind = kind, pa_audience = aid\<rparr>"
      by (auto simp: ok(1) table_simps)
    then show "(\<exists>p \<in> set (posts (working c')). post_id p = pa_post r) \<and>
        (pa_audience r = None \<or> the (pa_audience r) \<in> audience_id ` set (audiences (working c')))"
    proof cases
      case 1
      with assms(1) show ?thesis
        unfolding audiences_wf_def targets_wf_def list_all_iff by (simp add: ok(1))
    next
      case (2 kind aid)
      then have "\<exists>p \<in> set (posts (working c)). post_id p = post" using ok(3) by fastforce
      with 2 ok(2) [of kind "the aid"] show ?thesis by (cases aid) (auto simp: ok(1))
    qed
  qed
  with assms(1) show ?thesis
    by (simp add: ok(1) audiences_wf_def audience_names_wf_def subscriptions_wf_def members_wf_def same_owner_def [abs_def])
qed

text \<open>Every request keeps the tables well-formed, so every sequence of scopes does.\<close>

interpretation audience_store: invariant_store "serve_audience db policy" audiences_wf
proof
  fix c :: "database connection" and q a c'
  assume "audiences_wf (working c)" and "serve_audience db policy q c = (Inr a, c')"
  then show "audiences_wf (working c')"
    by (cases q) (auto simp: tx_simps intro: subscribe_keeps_wf unsubscribe_keeps_wf create_audience_keeps_wf
        rename_audience_keeps_wf delete_audience_keeps_wf add_member_keeps_wf remove_member_keeps_wf
        replace_post_audiences_keeps_wf)
qed

lemma normalize_targets_spec:
  "distinct normalized \<Longrightarrow>
     distinct (normalize_targets ts normalized) \<and>
     set (normalize_targets ts normalized) = set normalized \<union> set (target_rows ts)"
proof (induction ts arbitrary: normalized)
  case (Cons t ts)
  then show ?case by (cases "audience_target_row t") auto
qed simp

lemma selection_of_targets:
  "fold select_target (map Named ids) sel = sel\<lparr>selects_named := selects_named sel @ ids\<rparr>"
  by (induction ids arbitrary: sel) auto

lemma audiences_are_equal_rows:
  assumes "distinct existing"
  shows "audiences_are_equal existing desired \<longleftrightarrow> set existing = set (target_rows desired)"
proof -
  let ?n = "normalize_targets desired []"
  have n: "distinct ?n" "set ?n = set (target_rows desired)"
    using normalize_targets_spec [of "[]" desired] by auto
  have "audiences_are_equal existing desired \<longleftrightarrow> card (set existing) = card (set ?n) \<and> set existing \<subseteq> set ?n"
    using assms n(1) by (auto simp: audiences_are_equal_def Let_def list_all_iff distinct_card)
  also have "\<dots> \<longleftrightarrow> set existing = set ?n"
    using card_subset_eq [of "set ?n" "set existing"] by auto
  finally show ?thesis by (simp add: n(2))
qed

subsection \<open>Properties\<close>

definition example_user :: "int \<Rightarrow> string \<Rightarrow> user_row" where
  "example_user uid name = \<lparr>user_id = uid, user_username = lit name, user_password_hash = [],
     user_display_name = None, user_bio = None, user_created_at = 0,
     user_last_authenticated_at = None, user_email = None, user_email_verified = False,
     user_is_operator = False\<rparr>"

definition two_users :: database where
  "two_users = empty_database\<lparr>users := [example_user 1 ''ada'', example_user 2 ''bo''], next_user_id := 3\<rparr>"

definition bo_follows :: "(scope_env \<times> audience_request) list" where
  "bo_follows =
     [(clean_env, Subscribe_Request 5 1 (local_subscriber_identity 1 2)),
      (clean_env, Create_Request 6 1 (lit ''friends'')),
      (clean_env, AddMember_Request 1 1 1)]"

definition after_bo_follows :: database where
  "after_bo_follows = two_users\<lparr>
     subscriptions := [\<lparr>subscription_id = 1, subscription_author = 1, subscription_channel = 1,
       subscription_ref = local_subscriber_ref 2, subscription_status = Active, subscription_created_at = 5\<rparr>],
     next_subscription_id := 2,
     audiences := [\<lparr>audience_id = 1, audience_author = 1, audience_name = lit ''friends'', audience_created_at = 6\<rparr>],
     next_audience_id := 2,
     audience_members := [\<lparr>member_audience = 1, member_subscription = 1, member_author = 1\<rparr>]\<rparr>"

lemmas example_audience_defs = two_users_def example_user_def empty_database_def user_exists_def

lemma two_users_wf: "audiences_wf two_users"
  by (simp add: audience_wf_defs example_audience_defs)

lemma run_bo_follows:
  "snd (run_all Sqlite (map (\<lambda>(env, q). (env, serve_audience Sqlite open_subscription_policy q)) bo_follows)
     two_users) = after_bo_follows"
  by (simp add: bo_follows_def after_bo_follows_def run_def open_connection_def tx_eval classify_commit_result_def
      subscribe_def create_audience_def add_member_def example_audience_defs local_subscriber_identity_def
      is_subscription_of_def is_audience_of_def open_subscription_policy_def)



text \<open>
  Subscribing is an upsert. It answers the id of the one row of the triple, the row of an
  existing subscription keeps its status whatever the policy says by then, a new one has the status
  of the policy; and subscribing again, under any policy, answers the same id and changes nothing.
\<close>

theorem subscribe_upsert:
  assumes "subscribe db policy now author subscriber c = (Inr sid, c')"
    and "working c2 = working c'" and "held c2 = db" and "\<not> next_fault c2"
  shows "\<exists>s \<in> set (subscriptions (working c')).
      is_subscription_of author subscriber s \<and> subscription_id s = sid \<and>
      (s \<in> set (subscriptions (working c)) \<or> subscription_status s = policy author subscriber) \<and>
      fst (subscribe db policy2 now2 author subscriber c2) = Inr sid \<and>
      working (snd (subscribe db policy2 now2 author subscriber c2)) = working c'"
proof -
  have again: "fst (subscribe db policy2 now2 author subscriber c2) = Inr sid \<and>
      working (snd (subscribe db policy2 now2 author subscriber c2)) = working c'"
    if "find (is_subscription_of author subscriber) (subscriptions (working c')) = Some s" "subscription_id s = sid" for s
    using that assms(2-4) subscribe_ref_nonempty [OF assms(1)]
    by (simp add: subscribe_def tx_bind_def write_connection_def statement_def)
  from subscribe_okD [OF assms(1)] show ?thesis
  proof (elim disjE exE conjE)
    fix s
    assume s: "find (is_subscription_of author subscriber) (subscriptions (working c)) = Some s"
      "sid = subscription_id s" "working c' = working c"
    with again [of s] find_Some_memD [OF s(1)] show ?thesis by auto
  next
    let ?d = "added_subscription policy now author subscriber (working c)"
    assume new: "\<forall>s \<in> set (subscriptions (working c)). \<not> is_subscription_of author subscriber s"
      "sid = next_subscription_id (working c)" "working c' = ?d"
    have "is_subscription_of author subscriber (last (subscriptions ?d))"
      by (simp add: added_subscription_def is_subscription_of_def)
    with new have "find (is_subscription_of author subscriber) (subscriptions ?d) = Some (last (subscriptions ?d))"
      by (simp add: added_subscription_def find_appended)
    with again [of "last (subscriptions ?d)"] new show ?thesis
      by (intro bexI [of _ "last (subscriptions ?d)"]) (auto simp: added_subscription_def is_subscription_of_def)
  qed
qed

lemma subscribe_upsert_witness:
  "\<exists>s \<in> set (subscriptions after_bo_follows). subscription_id s = 1 \<and>
     fst (subscribe Sqlite (\<lambda>_ _. Blocked) 9 1 (local_subscriber_identity 1 2)
       \<lparr>held = Sqlite, committed = two_users, working = after_bo_follows, faults = []\<rparr>) = Inr 1"
proof -
  let ?c = "\<lparr>held = Sqlite, committed = two_users, working = after_bo_follows, faults = []\<rparr>"
  have "subscribe Sqlite open_subscription_policy 7 1 (local_subscriber_identity 1 2) ?c = (Inr 1, ?c)"
    by (simp add: subscribe_def tx_eval after_bo_follows_def is_subscription_of_def local_subscriber_identity_def)
  from subscribe_upsert [OF this, where ?c2.0 = ?c and ?policy2.0 = "\<lambda>_ _. Blocked" and ?now2.0 = 9]
  show ?thesis by auto
qed

text \<open>
  The editor's selection survives the round trip through the targets of a post: the targets of
  a selection, read back, are the selection.
\<close>

theorem audience_selection_roundtrip:
  "targets_to_audience_selection (audience_selection_to_targets sel) = sel"
  by (cases sel) (simp add: targets_to_audience_selection_def audience_selection_to_targets_def selection_of_targets)

text \<open>
  whether an update leaves the targets of a post alone is decided on the normalized rows: for
  stored rows without duplicates, \<^verbatim>\<open>audiences_are_equal\<close> holds if and only if the desired
  targets have exactly these rows, whatever their order and however often they are repeated.
\<close>

theorem audiences_are_equal_iff:
  "distinct existing \<Longrightarrow> audiences_are_equal existing desired \<longleftrightarrow> set existing = set (target_rows desired)"
  by (rule audiences_are_equal_rows)

lemma audiences_are_equal_iff_witness:
  "audiences_are_equal [(Named_Target, Some 3), (Public_Target, None)] [Public, Private, Named 3, Public] \<and>
   \<not> audiences_are_equal [(Public_Target, None)] [Private]"
  using audiences_are_equal_iff [of "[(Named_Target, Some 3), (Public_Target, None)]" "[Public, Private, Named 3, Public]"]
    audiences_are_equal_iff [of "[(Public_Target, None)]" "[Private]"]
  by auto

text \<open>
  C40: a subscriber that the author has put into one of their named audiences cannot unsubscribe:
  the store's deletion is refused by the reference of the membership, and nothing changes.
\<close>

theorem unsubscribe_refused_for_members:
  assumes "s \<in> set (subscriptions d)" and "is_subscription_of author subscriber s"
    and "subscription_referenced s d"
  shows "case run b env (unsubscribe db author subscriber) d of
      (Inl _, d') \<Rightarrow> d' = d
    | (Inr _, _) \<Rightarrow> False"
proof -
  have "\<not> (\<exists>c'. unsubscribe db author subscriber (open_connection b env d) = (Inr (), c'))"
    using assms by (auto simp: unsubscribe_def tx_simps)
  then show ?thesis
    by (auto simp: run_def split: option.splits prod.splits sum.splits)
qed

lemma unsubscribe_refused_for_members_witness:
  "case run Sqlite clean_env (unsubscribe Sqlite 1 (local_subscriber_identity 1 2)) after_bo_follows of
     (Inl _, d') \<Rightarrow> d' = after_bo_follows | (Inr _, _) \<Rightarrow> False"
  by (rule unsubscribe_refused_for_members [of "hd (subscriptions after_bo_follows)"])
    (simp_all add: after_bo_follows_def is_subscription_of_def local_subscriber_identity_def subscription_referenced_def)

end
