(* ===== verification/Visibility.thy ===== *)
theory Visibility
  imports Audiences
begin

section \<open>Who may read a post\<close>

text \<open>
  \<^verbatim>\<open>resolution_where\<close> of \<^verbatim>\<open>storage/src/posts/visibility.rs\<close>: the predicate every
  read of posts carries. Its parameters are bound to SQL values that may be NULL, so it is evaluated
  in the three-valued logic of SQL; a row passes a \<^verbatim>\<open>WHERE\<close> only on true.
\<close>

subsection \<open>Three-valued conditions\<close>

type_synonym tvl = "bool option"

definition sql_eq :: "'a \<Rightarrow> 'a option \<Rightarrow> tvl" where
  "sql_eq column bind = map_option (\<lambda>v. column = v) bind"

definition sql_eq_null :: "'a option \<Rightarrow> 'a option \<Rightarrow> tvl" where
  "sql_eq_null column bind = (case column of None \<Rightarrow> None | Some v \<Rightarrow> sql_eq v bind)"

fun sql_and :: "tvl \<Rightarrow> tvl \<Rightarrow> tvl" where
  "sql_and (Some False) _ = Some False"
| "sql_and _ (Some False) = Some False"
| "sql_and (Some True) (Some True) = Some True"
| "sql_and _ _ = None"

fun sql_or :: "tvl \<Rightarrow> tvl \<Rightarrow> tvl" where
  "sql_or (Some True) _ = Some True"
| "sql_or _ (Some True) = Some True"
| "sql_or (Some False) (Some False) = Some False"
| "sql_or _ _ = None"

definition passes :: "tvl \<Rightarrow> bool" where
  "passes t \<longleftrightarrow> t = Some True"

definition sql_exists :: "('r \<Rightarrow> tvl) \<Rightarrow> 'r list \<Rightarrow> tvl" where
  "sql_exists condition rows = Some (list_ex (\<lambda>r. passes (condition r)) rows)"

lemma passes_simps [simp]:
  "passes (Some b) \<longleftrightarrow> b" "\<not> passes None"
  by (simp_all add: passes_def)

lemma passes_sql_and [simp]: "passes (sql_and s t) \<longleftrightarrow> passes s \<and> passes t"
  by (cases "(s, t)" rule: sql_and.cases) (auto simp: passes_def)

lemma passes_sql_or [simp]: "passes (sql_or s t) \<longleftrightarrow> passes s \<or> passes t"
  by (cases "(s, t)" rule: sql_or.cases) (auto simp: passes_def)

lemma passes_sql_eq [simp]:
  "passes (sql_eq v bind) \<longleftrightarrow> bind = Some v"
  "passes (sql_eq_null w bind) \<longleftrightarrow> w \<noteq> None \<and> bind = w"
  by (auto simp: passes_def sql_eq_def sql_eq_null_def split: option.splits)

lemma passes_sql_exists [simp]: "passes (sql_exists condition rows) \<longleftrightarrow> (\<exists>r \<in> set rows. passes (condition r))"
  by (simp add: passes_def sql_exists_def list_ex_iff)

subsection \<open>The predicate\<close>

text \<open>
  The binds follow the variants of the viewer: an anonymous one binds NULL everywhere, a local one
  binds its id and its reference and leaves the channel to a subquery, a remote one never binds the
  author.
\<close>

datatype resolution_binds =
    Binds_Anonymous
  | Binds_Local int ustr
  | Binds_Remote int ustr

fun resolution_binds_of :: "viewer_identity \<Rightarrow> resolution_binds" where
  "resolution_binds_of Anonymous = Binds_Anonymous"
| "resolution_binds_of (Local uid) = Binds_Local uid (local_subscriber_ref uid)"
| "resolution_binds_of (Remote channel ref) = Binds_Remote channel ref"

fun author_bind :: "resolution_binds \<Rightarrow> int option" where
  "author_bind Binds_Anonymous = None"
| "author_bind (Binds_Local uid ref) = Some uid"
| "author_bind (Binds_Remote channel ref) = None"

fun channel_slot :: "resolution_binds \<Rightarrow> database \<Rightarrow> int option" where
  "channel_slot Binds_Anonymous d = None"
| "channel_slot (Binds_Local uid ref) d = local_channel_of d"
| "channel_slot (Binds_Remote channel ref) d = Some channel"

fun subref_bind :: "resolution_binds \<Rightarrow> ustr option" where
  "subref_bind Binds_Anonymous = None"
| "subref_bind (Binds_Local uid ref) = Some ref"
| "subref_bind (Binds_Remote channel ref) = Some ref"

text \<open>The number of placeholders, and the first free index after the fragment.\<close>

fun bind_arity :: "resolution_binds \<Rightarrow> nat" where
  "bind_arity (Binds_Local uid ref) = 3"
| "bind_arity Binds_Anonymous = 5"
| "bind_arity (Binds_Remote channel ref) = 5"

definition subscription_matches :: "database \<Rightarrow> resolution_binds \<Rightarrow> subscription_row \<Rightarrow> tvl" where
  "subscription_matches d binds s =
     sql_and (sql_eq (subscription_channel s) (channel_slot binds d))
       (sql_and (sql_eq (subscription_ref s) (subref_bind binds))
         (sql_eq (subscription_status s) (Some Active)))"

definition subscribers_branch :: "database \<Rightarrow> resolution_binds \<Rightarrow> int \<Rightarrow> tvl" where
  "subscribers_branch d binds author =
     sql_exists (\<lambda>s. sql_and (sql_eq (subscription_author s) (Some author)) (subscription_matches d binds s))
       (subscriptions d)"

text \<open>The named branch joins the members with the subscriptions on the subscription id.\<close>

definition named_branch :: "database \<Rightarrow> resolution_binds \<Rightarrow> int option \<Rightarrow> tvl" where
  "named_branch d binds aid =
     sql_exists (\<lambda>(m, s). sql_and (sql_eq (subscription_id s) (Some (member_subscription m)))
         (sql_and (sql_eq_null aid (Some (member_audience m))) (subscription_matches d binds s)))
       (List.product (audience_members d) (subscriptions d))"

definition target_admits :: "database \<Rightarrow> resolution_binds \<Rightarrow> int \<Rightarrow> int \<Rightarrow> post_audience_row \<Rightarrow> tvl" where
  "target_admits d binds post author r =
     sql_and (sql_eq (pa_post r) (Some post))
       (sql_or (sql_eq (pa_kind r) (Some Public_Target))
         (sql_or (sql_and (sql_eq (pa_kind r) (Some Subscribers_Target)) (subscribers_branch d binds author))
           (sql_and (sql_eq (pa_kind r) (Some Named_Target)) (named_branch d binds (pa_audience r)))))"

definition resolution_where :: "viewer_identity \<Rightarrow> database \<Rightarrow> int \<Rightarrow> int \<Rightarrow> tvl" where
  "resolution_where viewer d post author =
     (let binds = resolution_binds_of viewer
      in sql_or (sql_eq author (author_bind binds))
           (sql_exists (target_admits d binds post author) (post_audiences d)))"

definition resolves :: "viewer_identity \<Rightarrow> database \<Rightarrow> int \<Rightarrow> int \<Rightarrow> bool" where
  "resolves viewer d post author \<longleftrightarrow> passes (resolution_where viewer d post author)"

subsection \<open>What it means\<close>

text \<open>
  The contract: a viewer holds the active subscriptions of its identity, and reads a post it has
  written, a public one, one for the subscribers of an author it subscribes to, and one for a named
  audience it is a member of.
\<close>

fun identity_of :: "viewer_identity \<Rightarrow> database \<Rightarrow> subscriber_identity option" where
  "identity_of Anonymous d = None"
| "identity_of (Local uid) d =
     map_option (\<lambda>channel. local_subscriber_identity channel uid) (local_channel_of d)"
| "identity_of (Remote channel ref) d = Some \<lparr>subscriber_channel = channel, subscriber_ref = ref\<rparr>"

definition subscribed_to :: "viewer_identity \<Rightarrow> database \<Rightarrow> subscription_row \<Rightarrow> bool" where
  "subscribed_to viewer d s \<longleftrightarrow>
     s \<in> set (subscriptions d) \<and> subscription_status s = Active \<and>
     identity_of viewer d = Some \<lparr>subscriber_channel = subscription_channel s, subscriber_ref = subscription_ref s\<rparr>"

fun admits :: "viewer_identity \<Rightarrow> database \<Rightarrow> int \<Rightarrow> audience_target \<Rightarrow> bool" where
  "admits viewer d author Public = True"
| "admits viewer d author Private = False"
| "admits viewer d author Subscribers = (\<exists>s. subscribed_to viewer d s \<and> subscription_author s = author)"
| "admits viewer d author (Named aid) =
     (\<exists>m s. m \<in> set (audience_members d) \<and> member_audience m = aid \<and>
        member_subscription m = subscription_id s \<and> subscribed_to viewer d s)"

definition targets_of :: "int \<Rightarrow> database \<Rightarrow> audience_target set" where
  "targets_of post d = {t. \<exists>r \<in> set (post_audiences d). pa_post r = post \<and>
     audience_target_from_row (pa_kind r) (pa_audience r) = Some t}"

lemma subscription_matches_iff:
  "s \<in> set (subscriptions d) \<Longrightarrow>
     passes (subscription_matches d (resolution_binds_of viewer) s) \<longleftrightarrow> subscribed_to viewer d s"
  by (cases viewer) (auto simp: subscription_matches_def subscribed_to_def local_subscriber_identity_def)

lemma target_admits_iff:
  "passes (target_admits d (resolution_binds_of viewer) post author r) \<longleftrightarrow>
     pa_post r = post \<and>
     (\<exists>t. audience_target_from_row (pa_kind r) (pa_audience r) = Some t \<and> admits viewer d author t)"
proof -
  have subs: "passes (subscribers_branch d (resolution_binds_of viewer) author) \<longleftrightarrow> admits viewer d author Subscribers"
    by (auto simp: subscribers_branch_def subscription_matches_iff) (auto simp: subscribed_to_def)
  have named: "passes (named_branch d (resolution_binds_of viewer) aid) \<longleftrightarrow>
      (\<exists>a. aid = Some a \<and> admits viewer d author (Named a))" for aid
    by (cases aid) (auto simp: named_branch_def subscription_matches_iff subscribed_to_def)
  show ?thesis
    by (cases "pa_kind r") (auto simp: target_admits_def subs named simp del: admits.simps(3,4))
qed

lemma resolves_iff:
  "resolves viewer d post author \<longleftrightarrow>
     viewer = Local author \<or> (\<exists>t \<in> targets_of post d. admits viewer d author t)"
proof -
  have "passes (sql_eq author (author_bind (resolution_binds_of viewer))) \<longleftrightarrow> viewer = Local author"
    by (cases viewer) auto
  then show ?thesis
    by (auto simp: resolves_def resolution_where_def Let_def target_admits_iff targets_of_def simp del: passes_sql_eq)
qed

text \<open>
  C4: the predicate of every post query, evaluated in the three-valued logic of SQL with its NULL
  binds, admits exactly whom the contract admits: the author as a local account, and the viewers one
  of the targets of the post admits.
\<close>

theorem resolution_where_admits:
  "resolves viewer d post author \<longleftrightarrow>
     viewer = Local author \<or> (\<exists>t \<in> targets_of post d. admits viewer d author t)"
  by (rule resolves_iff)

text \<open>
  the branches a viewer cannot reach are closed by its binds. An anonymous viewer reads the
  public posts and no other, and a post without a target is read by its author alone: a remote
  identity is never taken for a local account, whatever its reference spells.
\<close>

theorem unreachable_branches_closed:
  "(resolves Anonymous d post author \<longleftrightarrow> Public \<in> targets_of post d) \<and>
   (targets_of post d = {} \<and> resolves viewer d post author \<longleftrightarrow>
      targets_of post d = {} \<and> viewer = Local author)"
proof -
  have "admits Anonymous d author t \<longleftrightarrow> t = Public" for t
    by (cases t) (auto simp: subscribed_to_def)
  then show ?thesis by (auto simp: resolves_iff)
qed

subsection \<open>Revocation\<close>

text \<open>
  The named targets of a post belong to its author: \<^verbatim>\<open>validate_named_audience_targets\<close>
  checks it before a post is written, the table does not.
\<close>

definition named_targets_owned :: "database \<Rightarrow> int \<Rightarrow> int \<Rightarrow> bool" where
  "named_targets_owned d post author \<longleftrightarrow>
     (\<forall>aid. Named aid \<in> targets_of post d \<longrightarrow> (\<exists>a \<in> set (audiences d). is_audience_of author aid a))"

lemma validate_named_audience_targets_okD:
  assumes "validate_named_audience_targets author targets c = (Inr u, c')" and "Named aid \<in> set targets"
  shows "\<exists>a \<in> set (audiences (committed c)). is_audience_of author aid a"
proof -
  have "aid \<in> set (List.map_filter named_target targets)"
    using assms(2) by (auto simp: List.map_filter_def image_iff intro!: bexI [of _ "Named aid"])
  with assms(1) obtain rows where rows: "those (map decode_audience
        (sort_key audience_id (filter (\<lambda>a. audience_author a = author) (audiences (committed c))))) = Some rows"
    and sub: "aid \<in> ar_audience_id ` set rows"
    by (auto simp: validate_named_audience_targets_def list_audiences_def Let_def tx_simps split: if_splits)
  have "those (map f xs) = Some ys \<Longrightarrow> y \<in> set ys \<Longrightarrow> \<exists>x \<in> set xs. f x = Some y" for f :: "audience_row \<Rightarrow> audience_record option" and xs ys y
    by (induction xs arbitrary: ys) (auto split: option.splits)
  with rows sub obtain a where "a \<in> set (audiences (committed c))" "audience_author a = author"
    "\<exists>r. decode_audience a = Some r \<and> ar_audience_id r = aid"
    by fastforce
  then show ?thesis by (auto simp: decode_audience_def is_audience_of_def)
qed

lemma replaced_targets:
  assumes "replace_post_audiences db post targets c = (Inr u, c')"
  shows "targets_of post (working c') = set targets - {Private}"
proof -
  have row: "audience_target_row t = Some (kind, aid) \<Longrightarrow> audience_target_from_row kind aid = Some t" for t kind aid
    by (cases t) auto
  have unrow: "audience_target_from_row kind aid = Some t' \<Longrightarrow> audience_target_row t = Some (kind, aid) \<Longrightarrow> t = t'" for t t' kind aid
    using row by fastforce
  have some: "t \<noteq> Private \<Longrightarrow> \<exists>kind aid. audience_target_row t = Some (kind, aid)" for t
    by (cases t) auto
  have rows: "(kind, aid) \<in> set (target_rows targets) \<longleftrightarrow> (\<exists>t \<in> set targets. audience_target_row t = Some (kind, aid))" for kind aid
    by (auto simp: target_rows_def List.map_filter_def image_iff)
  note eff = replace_post_audiences_okD(1) [OF assms]
  show ?thesis
  proof (rule set_eqI)
    fix t
    have "t \<in> targets_of post (working c') \<longleftrightarrow>
        (\<exists>kind aid. (kind, aid) \<in> set (target_rows targets) \<and> audience_target_from_row kind aid = Some t)"
      by (simp add: targets_of_def eff table_simps bex_Un) force
    also have "\<dots> \<longleftrightarrow> (\<exists>t' \<in> set targets. \<exists>kind aid. audience_target_row t' = Some (kind, aid) \<and>
        audience_target_from_row kind aid = Some t)"
      unfolding rows by blast
    also have "\<dots> \<longleftrightarrow> t \<in> set targets - {Private}"
      using row unrow some by (fastforce dest: some)
    finally show "t \<in> targets_of post (working c') \<longleftrightarrow> t \<in> set targets - {Private}" .
  qed
qed


text \<open>
  A named audience of the author only holds subscriptions to the author, so what a viewer sees of an
  author beyond the public posts rests on one row: the subscription of its identity.
\<close>

lemma named_member_subscription:
  assumes "audiences_wf d" and "\<exists>a \<in> set (audiences d). is_audience_of author aid a"
    and "m \<in> set (audience_members d)" and "member_audience m = aid"
    and "s \<in> set (subscriptions d)" and "member_subscription m = subscription_id s"
  shows "subscription_author s = author"
proof -
  from assms(1,3) have "same_owner d m"
    by (simp add: audiences_wf_def members_wf_def list_all_iff)
  then obtain a s' where a: "a \<in> set (audiences d)" "is_audience_of (member_author m) aid a"
    and s': "s' \<in> set (subscriptions d)" "subscription_id s' = subscription_id s" "subscription_author s' = member_author m"
    unfolding same_owner_def using assms(4,6) by auto
  obtain a' where a': "a' \<in> set (audiences d)" "is_audience_of author aid a'" using assms(2) by blast
  have "a = a'"
    by (rule distinct_map_eqD [of audience_id "audiences d"])
      (use assms(1) a a' in \<open>auto simp: audiences_wf_def audience_names_wf_def is_audience_of_def\<close>)
  moreover have "s' = s"
    by (rule distinct_map_eqD [of subscription_id "subscriptions d"])
      (use assms(1,5) s' in \<open>auto simp: audiences_wf_def subscriptions_wf_def\<close>)
  ultimately show ?thesis using a(2) a'(2) s'(3) by (simp add: is_audience_of_def)
qed

lemma no_subscription_only_public:
  assumes "audiences_wf d" and "named_targets_owned d post author" and "viewer \<noteq> Local author"
    and none: "\<And>s. subscribed_to viewer d s \<Longrightarrow> subscription_author s \<noteq> author"
  shows "resolves viewer d post author \<longleftrightarrow> Public \<in> targets_of post d"
proof -
  have "\<not> admits viewer d author t" if "t \<in> targets_of post d" "t \<noteq> Public" for t
  proof (cases t)
    case (Named aid)
    show ?thesis
    proof
      assume "admits viewer d author t"
      with Named obtain m s where ms: "m \<in> set (audience_members d)" "member_audience m = aid"
        "member_subscription m = subscription_id s" "subscribed_to viewer d s" by auto
      moreover have "\<exists>a \<in> set (audiences d). is_audience_of author aid a"
        using assms(2) that(1) Named by (simp add: named_targets_owned_def)
      ultimately have "subscription_author s = author"
        using named_member_subscription [OF assms(1)] by (auto simp: subscribed_to_def)
      with none ms(4) show False by blast
    qed
  qed (use that none in auto)
  moreover have "admits viewer d author Public" by simp
  ultimately show ?thesis using assms(3) unfolding resolves_iff by blast
qed

text \<open>
  C33: unsubscribing revokes. Once the deletion of a viewer's subscription to an author is
  confirmed, of that author's posts - with named targets of the author's own - the viewer reads the
  public ones and no other.
\<close>

theorem unsubscribe_revokes_access:
  assumes "audiences_wf d" and "local_channel_of d = Some channel" and "uid \<noteq> author"
    and "run b env (unsubscribe b author (local_subscriber_identity channel uid)) d = (Inr (Confirmed u), d')"
    and "named_targets_owned d' post author"
  shows "resolves (Local uid) d' post author \<longleftrightarrow> Public \<in> targets_of post d'"
proof (rule no_subscription_only_public [OF _ assms(5)])
  let ?subscriber = "local_subscriber_identity channel uid"
  obtain c where ok: "unsubscribe b author ?subscriber (open_connection b env d) = (Inr u, c)" and d': "d' = working c"
    using run_confirmedD [OF assms(4)] by blast
  have rows: "d' = d\<lparr>subscriptions := delete_where (is_subscription_of author ?subscriber) (subscriptions d)\<rparr>"
    using unsubscribe_okD(1) [OF ok] by (simp add: d')
  show "audiences_wf d'"
    unfolding d' by (rule unsubscribe_keeps_wf [OF _ ok]) (simp add: assms(1))
  show "Local uid \<noteq> Local author" using assms(3) by simp
  fix s
  assume s: "subscribed_to (Local uid) d' s"
  have "local_channel_of d' = Some channel" using assms(2) by (simp add: rows local_channel_of_def)
  with s have "\<not> is_subscription_of author ?subscriber s" "is_subscription_of (subscription_author s) ?subscriber s"
    by (auto simp: subscribed_to_def rows table_simps is_subscription_of_def)
  then show "subscription_author s \<noteq> author" by auto
qed

text \<open>
  The targets of a post survive the round trip through its rows: once they are replaced, a read
  answers the targets that were written, less the private one, which has no row.
\<close>

theorem post_audiences_roundtrip:
  assumes "replace_post_audiences db post targets c = (Inr u, c')"
    and "committed c2 = working c'" and "\<not> next_fault c2"
  shows "case get_post_audiences post c2 of
      (Inr ts, _) \<Rightarrow> set ts = set targets - {Private}
    | (Inl _, _) \<Rightarrow> False"
proof -
  let ?decode = "\<lambda>r. audience_target_from_row (pa_kind r) (pa_audience r)"
  have "set (List.map_filter ?decode (ordered_post_audiences post d)) = targets_of post d" for d
    by (auto simp: List.map_filter_def ordered_post_audiences_def targets_of_def image_iff) force
  moreover have "get_post_audiences post c2 =
      (Inr (List.map_filter ?decode (ordered_post_audiences post (working c'))), spend_fault c2)"
    using assms(2,3) by (simp add: get_post_audiences_def tx_bind_def pool_query_def tx_return_def)
  ultimately show ?thesis by (simp add: replaced_targets [OF assms(1)])
qed

subsection \<open>Witnesses\<close>

definition example_post :: "int \<Rightarrow> int \<Rightarrow> string \<Rightarrow> instant option \<Rightarrow> post_row" where
  "example_post pid author slug published = \<lparr>post_id = pid, post_user = author, post_title = None,
     post_rendered_title = None, post_slug = lit slug, post_body = lit ''body'', post_format = Markdown,
     post_rendered_html = lit ''<p>body</p>'', post_summary = None, post_created_at = 1,
     post_updated_at = 1, post_published_at = published, post_deleted_at = None,
     post_search_text = None, post_mutation_version = 1\<rparr>"

text \<open>Ada has a post for her subscribers, Bo subscribes to her.\<close>

definition subscribers_post :: database where
  "subscribers_post = after_bo_follows\<lparr>
     audience_members := [], posts := [example_post 7 1 ''hello'' (Some 2)], last_post_id := 7,
     post_audiences := [\<lparr>pa_post = 7, pa_kind = Subscribers_Target, pa_audience = None\<rparr>]\<rparr>"

lemmas subscribers_post_defs = subscribers_post_def after_bo_follows_def two_users_def example_user_def
  empty_database_def example_post_def

lemma subscribers_post_wf: "audiences_wf subscribers_post"
  by (simp add: audience_wf_defs subscribers_post_defs)

lemma bo_reads_subscribers_post: "resolves (Local 2) subscribers_post 7 1"
  by (auto simp: resolves_iff targets_of_def subscribed_to_def local_channel_of_def local_subscriber_identity_def
      subscribers_post_defs)

lemma unsubscribe_revokes_access_witness:
  "resolves (Local 2) subscribers_post 7 1 \<and>
   (\<exists>d'. run Sqlite clean_env (unsubscribe Sqlite 1 (local_subscriber_identity 1 2)) subscribers_post =
      (Inr (Confirmed ()), d') \<and> \<not> resolves (Local 2) d' 7 1)"
proof -
  let ?d' = "subscribers_post\<lparr>subscriptions := []\<rparr>"
  have ran: "run Sqlite clean_env (unsubscribe Sqlite 1 (local_subscriber_identity 1 2)) subscribers_post =
      (Inr (Confirmed ()), ?d')"
    by (simp add: run_def open_connection_def tx_eval classify_commit_result_def unsubscribe_def delete_where_def
        is_subscription_of_def local_subscriber_identity_def subscription_referenced_def subscribers_post_defs)
  have targets: "targets_of 7 ?d' = {Subscribers}"
    by (auto simp: targets_of_def subscribers_post_defs)
  have "resolves (Local 2) ?d' 7 1 \<longleftrightarrow> Public \<in> targets_of 7 ?d'"
    by (rule unsubscribe_revokes_access [OF subscribers_post_wf _ _ ran])
      (simp_all add: targets named_targets_owned_def, simp add: local_channel_of_def subscribers_post_defs)
  with targets have "\<not> resolves (Local 2) ?d' 7 1" by simp
  with ran bo_reads_subscribers_post show ?thesis by blast
qed

lemma post_audiences_roundtrip_witness:
  "\<exists>c2. case get_post_audiences 7 c2 of (Inr ts, _) \<Rightarrow> set ts = {Public, Named 1} | (Inl _, _) \<Rightarrow> False"
proof -
  let ?c = "\<lparr>held = Postgres, committed = subscribers_post, working = subscribers_post, faults = []\<rparr>"
  let ?rows = "[\<lparr>pa_post = 7, pa_kind = Named_Target, pa_audience = Some 1\<rparr>,
    \<lparr>pa_post = 7, pa_kind = Public_Target, pa_audience = None\<rparr>]"
  let ?d = "subscribers_post\<lparr>post_audiences := ?rows\<rparr>"
  have ok: "replace_post_audiences Postgres 7 [Named 1, Private, Public] ?c = (Inr (), ?c\<lparr>working := ?d\<rparr>)"
    by (simp add: replace_post_audiences_def tx_eval delete_where_def insert_post_audience_def
        post_audience_conflict_def subscribers_post_defs)
  have "case get_post_audiences 7 (?c\<lparr>committed := ?d\<rparr>) of
      (Inr ts, _) \<Rightarrow> set ts = set [Named 1, Private, Public] - {Private} | (Inl _, _) \<Rightarrow> False"
    by (rule post_audiences_roundtrip [OF ok]) simp_all
  then show ?thesis by (intro exI [of _ "?c\<lparr>committed := ?d\<rparr>"]) (simp add: insert_commute split: prod.splits sum.splits)
qed

end
