(* ===== verification/Post_Store.thy ===== *)
theory Post_Store
  imports Visibility Feed_Paths "HOL-Library.List_Lexorder"
begin

section \<open>The post store\<close>

text \<open>
  \<^verbatim>\<open>storage/src/posts\<close>: the records and inputs of \<^verbatim>\<open>models.rs\<close>, the tag
  reconciliation of \<^verbatim>\<open>tags.rs\<close>, the writes of \<^verbatim>\<open>lifecycle.rs\<close>,
  \<^verbatim>\<open>media.rs\<close> and \<^verbatim>\<open>store.rs\<close>, and the update and tag mutations of the SQLite
  dialect (PostgreSQL issues the same writes). Row and advisory locks answer nothing and are left
  out: a scope has the database to itself. Slugs order by their bytes, which for their alphabet is
  the order of the code points. The case folding of the search projection and the digest of the
  content validator come from libraries and are the fields of an environment.
\<close>

subsection \<open>Records and inputs\<close>

record post_tag =
  tag_of_post :: int
  post_tag_id :: int
  post_tag_slug :: ustr
  post_tag_display :: ustr

record post_record =
  record_state :: post_state
  record_username :: ustr
  record_display_name :: "ustr option"
  record_tags :: "post_tag list"

record post_render_output =
  rendered_title :: "ustr option"
  rendered_body :: ustr
  rendered_format :: post_format
  rendered_title_html :: "ustr option"
  rendered_html :: ustr
  rendered_media :: "media_reference list"

record post_bookkeeping_expectation =
  expected_slug :: "ustr option"
  expected_format :: "post_format option"
  expected_published_at :: "instant option option"
  expected_post_id :: "int option"
  expected_content_etag :: "ustr option"

record create_post_input =
  create_author :: int
  create_reserved_id :: "int option"
  create_slug :: ustr
  create_rendered :: post_render_output
  create_published_at :: "instant option"
  create_summary :: "ustr option"
  create_audiences :: "audience_target list"
  create_tags :: "ustr list"
  create_expectations :: post_bookkeeping_expectation
  create_key :: "ustr option"

datatype publish_update = Unpublish | Publish "instant option"

record update_post_input =
  update_slug :: ustr
  update_rendered :: post_render_output
  update_publish :: publish_update
  update_summary :: "ustr option"
  update_audiences :: "audience_target list"
  update_tags :: "ustr list option"
  update_clock :: instant
  update_expectations :: post_bookkeeping_expectation

record post_mutation =
  mutation_record :: post_record
  mutation_previous :: post_record
  mutation_was_public :: bool
  mutation_changed :: bool

datatype create_post_error =
    Create_SlugConflict
  | Create_BookkeepingMismatch
  | IdempotencyConflict int
  | Create_Internal sql_error

datatype update_post_error =
    Update_NotFound
  | Update_Unauthorized
  | Update_SlugConflict
  | Update_BookkeepingMismatch
  | StaleContent
  | Update_Internal sql_error

datatype tagging_error = Tagging_PostNotFound | Tagging_Unauthorized | Tagging_Internal sql_error

text \<open>The serializer inputs of the content validator.\<close>

record post_content =
  content_title :: "ustr option"
  content_slug :: ustr
  content_body :: ustr
  content_format :: post_format
  content_summary :: "ustr option"
  content_tags :: "ustr list"
  content_audiences :: "ustr list"
  content_draft :: bool

record post_env =
  case_fold :: "nat \<Rightarrow> ustr"
  content_digest :: "post_content \<Rightarrow> ustr"

fun audience_value :: "audience_target \<Rightarrow> ustr" where
  "audience_value Public = lit ''public''"
| "audience_value Subscribers = lit ''subscribers''"
| "audience_value Private = lit ''private''"
| "audience_value (Named aid) = lit ''named:'' @ i64_text aid"

fun audience_rank :: "audience_target \<Rightarrow> nat \<times> int" where
  "audience_rank Public = (0, 0)"
| "audience_rank Subscribers = (1, 0)"
| "audience_rank (Named aid) = (2, aid)"
| "audience_rank Private = (3, 0)"

definition projected_audiences :: "audience_target list \<Rightarrow> audience_target list" where
  "projected_audiences targets =
     sort_key (\<lambda>t. fst (audience_rank t)) (sort_key (\<lambda>t. snd (audience_rank t))
       (if targets = [] then [Private] else targets))"

definition canonical_audience_values :: "audience_target list \<Rightarrow> ustr list" where
  "canonical_audience_values targets = map audience_value (projected_audiences targets)"

subsection \<open>The search projection\<close>

text \<open>Every run of whitespace becomes one space, none is left at the ends.\<close>

definition collapse_step :: "ustr \<times> bool \<Rightarrow> nat \<Rightarrow> ustr \<times> bool" where
  "collapse_step = (\<lambda>(output, in_space) c.
     if is_whitespace c then (output, True)
     else ((if in_space \<and> output \<noteq> [] then output @ [32] else output) @ [c], False))"

definition normalize_post_search_query :: "(nat \<Rightarrow> ustr) \<Rightarrow> ustr \<Rightarrow> ustr" where
  "normalize_post_search_query fold_char input =
     fst (foldl collapse_step ([], True) (concat (map fold_char input)))"

definition post_search_projection :: "(nat \<Rightarrow> ustr) \<Rightarrow> ustr option \<Rightarrow> ustr \<Rightarrow> ustr" where
  "post_search_projection fold_char title slug =
     normalize_post_search_query fold_char
       (case title of None \<Rightarrow> slug | Some t \<Rightarrow> t @ [32] @ slug)"

subsection \<open>Reading a post\<close>

text \<open>
  A title is stored with its rendered derivative or not at all. The tags of a post come ordered by
  their slug.
\<close>

definition titles_match :: "ustr option \<Rightarrow> ustr option \<Rightarrow> bool" where
  "titles_match title rendered \<longleftrightarrow> (title = None \<longleftrightarrow> rendered = None)"

definition tag_slug_of :: "database \<Rightarrow> int \<Rightarrow> ustr option" where
  "tag_slug_of d tid = map_option tag_slug (find (\<lambda>t. tag_id t = tid) (stored_tags d))"

definition tags_of_post :: "int \<Rightarrow> database \<Rightarrow> post_tag list" where
  "tags_of_post pid d = sort_key post_tag_slug
     (List.map_filter (\<lambda>r. map_option (\<lambda>slug. \<lparr>tag_of_post = pid, post_tag_id = pt_tag r,
         post_tag_slug = slug, post_tag_display = pt_display r\<rparr>) (tag_slug_of d (pt_tag r)))
       (filter (\<lambda>r. pt_post r = pid) (post_tags d)))"

definition find_post :: "int \<Rightarrow> database \<Rightarrow> post_row option" where
  "find_post pid d = find (\<lambda>p. post_id p = pid) (posts d)"

definition find_user :: "int \<Rightarrow> database \<Rightarrow> user_row option" where
  "find_user uid d = find (\<lambda>u. user_id u = uid) (users d)"

definition decode_post :: "database \<Rightarrow> post_row \<Rightarrow> (sql_error + post_record) option" where
  "decode_post d p = map_option (\<lambda>u.
     if titles_match (post_title p) (post_rendered_title p)
     then Inr \<lparr>record_state = post_state.truncate p, record_username = user_username u,
       record_display_name = user_display_name u, record_tags = tags_of_post (post_id p) d\<rparr>
     else Inl Protocol) (find_user (post_user p) d)"

definition fetched_post :: "int \<Rightarrow> database \<Rightarrow> sql_error + post_record" where
  "fetched_post pid d =
     (case find_post pid d of
        None \<Rightarrow> Inl RowNotFound
      | Some p \<Rightarrow> (case decode_post d p of None \<Rightarrow> Inl RowNotFound | Some r \<Rightarrow> r))"

definition fetch_post :: "int \<Rightarrow> (database, sql_error, post_record) tx" where
  "fetch_post pid = statement (\<lambda>d. (fetched_post pid d, d))"

subsection \<open>Tags\<close>

definition post_tag_diff :: "post_tag list \<Rightarrow> ustr list \<Rightarrow> ustr list \<times> ustr list" where
  "post_tag_diff existing desired =
     (sort_key label_slug (filter (\<lambda>label. label_slug label \<notin> post_tag_slug ` set existing) desired),
      map post_tag_slug (filter (\<lambda>t. post_tag_slug t \<notin> label_slug ` set desired) existing))"

definition upsert_tag :: "ustr \<Rightarrow> (database, sql_error, int) tx" where
  "upsert_tag slug = statement (\<lambda>d.
     case find (\<lambda>t. tag_slug t = slug) (stored_tags d) of
       Some t \<Rightarrow> (Inr (tag_id t), d)
     | None \<Rightarrow> (Inr (next_tag_id d), d\<lparr>
         stored_tags := stored_tags d @ [\<lparr>tag_id = next_tag_id d, tag_slug = slug\<rparr>],
         next_tag_id := next_tag_id d + 1\<rparr>))"

definition insert_post_tag :: "int \<Rightarrow> int \<Rightarrow> ustr \<Rightarrow> (database, sql_error, unit) tx" where
  "insert_post_tag pid tid label = statement (\<lambda>d.
     if \<exists>r \<in> set (post_tags d). pt_post r = pid \<and> pt_tag r = tid then (Inr (), d)
     else if find_post pid d = None \<or> tag_slug_of d tid = None then (Inl ForeignKeyViolation, d)
     else (Inr (), d\<lparr>post_tags := post_tags d @
       [\<lparr>pt_post = pid, pt_tag = tid, pt_display = label\<rparr>]\<rparr>))"

definition delete_post_tag_by_slug :: "int \<Rightarrow> ustr \<Rightarrow> (database, sql_error, unit) tx" where
  "delete_post_tag_by_slug pid slug = execute (\<lambda>d. d\<lparr>post_tags := delete_where
     (\<lambda>r. pt_post r = pid \<and>
        (\<exists>t. find (\<lambda>t. tag_slug t = slug) (stored_tags d) = Some t \<and> pt_tag r = tag_id t)) (post_tags d)\<rparr>)"

fun add_post_tags :: "int \<Rightarrow> ustr list \<Rightarrow> (database, sql_error, unit) tx" where
  "add_post_tags pid [] = tx_return ()"
| "add_post_tags pid (label # labels) =
     tx_bind (upsert_tag (label_slug label)) (\<lambda>tid.
     tx_bind (insert_post_tag pid tid label) (\<lambda>_. add_post_tags pid labels))"

fun remove_post_tags :: "int \<Rightarrow> ustr list \<Rightarrow> (database, sql_error, unit) tx" where
  "remove_post_tags pid [] = tx_return ()"
| "remove_post_tags pid (slug # slugs) =
     tx_bind (delete_post_tag_by_slug pid slug) (\<lambda>_. remove_post_tags pid slugs)"

definition insert_post_tags :: "int \<Rightarrow> ustr list \<Rightarrow> (database, sql_error, unit) tx" where
  "insert_post_tags pid desired = add_post_tags pid (sort_key label_slug desired)"

subsection \<open>Media references\<close>

definition current_media :: "int \<Rightarrow> post_media_row \<Rightarrow> bool" where
  "current_media pid r \<longleftrightarrow> pm_post r = pid \<and> pm_subject r = Current_Media"

definition media_references_of :: "int \<Rightarrow> database \<Rightarrow> media_reference list" where
  "media_references_of pid d = map pm_reference (filter (current_media pid) (post_media d))"

text \<open>The rows of the references are a set; an empty batch issues no statement.\<close>

definition insert_post_media_rows :: "int \<Rightarrow> media_reference list \<Rightarrow> (database, sql_error, unit) tx" where
  "insert_post_media_rows pid references =
     (if references = [] then tx_return ()
      else execute (\<lambda>d. d\<lparr>post_media := post_media d @
        map (\<lambda>m. \<lparr>pm_post = pid, pm_subject = Current_Media, pm_reference = m\<rparr>) (remdups references)\<rparr>))"

definition replace_post_media :: "int \<Rightarrow> media_reference list \<Rightarrow> (database, sql_error, unit) tx" where
  "replace_post_media pid references =
     tx_bind (execute (\<lambda>d. d\<lparr>post_media := delete_where (current_media pid) (post_media d)\<rparr>))
       (\<lambda>_. insert_post_media_rows pid references)"

subsection \<open>Revisions\<close>

text \<open>
  \<^verbatim>\<open>capture_complete_post_revision\<close>: the locked row and its children are copied before a
  mutation. The indexes on the audiences of a revision compare the null audience as well.
\<close>

definition insert_revision :: "int \<Rightarrow> instant \<Rightarrow> (database, sql_error, int) tx" where
  "insert_revision pid captured_at = statement (\<lambda>d.
     case find_post pid d of
       None \<Rightarrow> (Inl RowNotFound, d)
     | Some p \<Rightarrow> (Inr (next_revision_id d), d\<lparr>
         post_revisions := post_revisions d @ [\<lparr>revision_id = next_revision_id d,
           revision_state = post_state.truncate p, revision_captured_at = captured_at\<rparr>],
         next_revision_id := next_revision_id d + 1\<rparr>))"

definition insert_revision_tags :: "int \<Rightarrow> int \<Rightarrow> (database, sql_error, unit) tx" where
  "insert_revision_tags pid rid = statement (\<lambda>d.
     let rows = map (\<lambda>t. \<lparr>rt_revision = rid, rt_slug = post_tag_slug t, rt_display = post_tag_display t\<rparr>)
       (tags_of_post pid d)
     in if distinct (map rt_slug rows)
        then (Inr (), d\<lparr>post_revision_tags := post_revision_tags d @ rows\<rparr>)
        else (Inl UniqueViolation, d))"

definition revision_audience_valid :: "post_revision_audience_row \<Rightarrow> bool" where
  "revision_audience_valid r \<longleftrightarrow> (ra_kind r = Named_Target \<longleftrightarrow> ra_audience r \<noteq> None)"

definition insert_revision_audiences :: "int \<Rightarrow> int \<Rightarrow> (database, sql_error, unit) tx" where
  "insert_revision_audiences pid rid = statement (\<lambda>d.
     let rows = map (\<lambda>r. \<lparr>ra_revision = rid, ra_kind = pa_kind r, ra_audience = pa_audience r\<rparr>)
       (filter (\<lambda>r. pa_post r = pid) (post_audiences d))
     in if \<not> list_all revision_audience_valid rows then (Inl CheckViolation, d)
        else if \<not> distinct rows then (Inl UniqueViolation, d)
        else (Inr (), d\<lparr>post_revision_audiences := post_revision_audiences d @ rows\<rparr>))"

definition insert_revision_media :: "int \<Rightarrow> int \<Rightarrow> (database, sql_error, unit) tx" where
  "insert_revision_media pid rid = execute (\<lambda>d. d\<lparr>post_media := post_media d @
     map (\<lambda>m. \<lparr>pm_post = pid, pm_subject = Revision_Media rid, pm_reference = m\<rparr>) (media_references_of pid d)\<rparr>)"

definition capture_complete_post_revision :: "int \<Rightarrow> instant \<Rightarrow> (database, sql_error, int) tx" where
  "capture_complete_post_revision pid captured_at =
     tx_bind (insert_revision pid captured_at) (\<lambda>rid.
     tx_bind (insert_revision_tags pid rid) (\<lambda>_.
     tx_bind (insert_revision_audiences pid rid) (\<lambda>_.
     tx_bind (insert_revision_media pid rid) (\<lambda>_. tx_return rid))))"

subsection \<open>Publishing, unpublishing, deleting\<close>

datatype post_lifecycle_change = Publish_Change | SoftDelete_Change | Unpublish_Change

fun changes :: "post_lifecycle_change \<Rightarrow> instant option \<Rightarrow> bool" where
  "changes Publish_Change published_at = (published_at = None)"
| "changes SoftDelete_Change published_at = True"
| "changes Unpublish_Change published_at = (published_at \<noteq> None)"

definition update_post_row :: "int \<Rightarrow> (post_row \<Rightarrow> post_row) \<Rightarrow> database \<Rightarrow> database" where
  "update_post_row pid f d = d\<lparr>posts := update_where (\<lambda>p. post_id p = pid) f (posts d)\<rparr>"

definition bump :: "post_row \<Rightarrow> post_row" where
  "bump p = p\<lparr>post_mutation_version := post_mutation_version p + 1\<rparr>"

fun lifecycle_row :: "post_lifecycle_change \<Rightarrow> instant \<Rightarrow> post_row \<Rightarrow> post_row" where
  "lifecycle_row Publish_Change now p = bump (p\<lparr>post_published_at := Some now, post_updated_at := now\<rparr>)"
| "lifecycle_row SoftDelete_Change now p = bump (p\<lparr>post_deleted_at := Some now\<rparr>)"
| "lifecycle_row Unpublish_Change now p = bump (p\<lparr>post_published_at := None, post_updated_at := now\<rparr>)"

definition has_public_audience :: "int \<Rightarrow> database \<Rightarrow> bool" where
  "has_public_audience pid d \<longleftrightarrow> (\<exists>r \<in> set (post_audiences d). pa_post r = pid \<and> pa_kind r = Public_Target)"

definition lifecycle_post :: "backend \<Rightarrow> int \<Rightarrow> int \<Rightarrow> post_lifecycle_change \<Rightarrow> instant \<Rightarrow>
    (database, sql_error, post_mutation option) tx" where
  "lifecycle_post db pid uid change now =
     tx_bind (write_connection db) (\<lambda>_.
     tx_bind (query (find_post pid)) (\<lambda>state.
     case state of
       None \<Rightarrow> tx_return None
     | Some p \<Rightarrow>
         if post_user p \<noteq> uid \<or> post_deleted_at p \<noteq> None then tx_return None
         else
           tx_bind (fetch_post pid) (\<lambda>previous.
           tx_bind (query (has_public_audience pid)) (\<lambda>was_public.
           let changed = changes change (post_published_at p)
           in tx_bind
                (if changed
                 then tx_bind (capture_complete_post_revision pid now) (\<lambda>_.
                   execute (update_post_row pid (lifecycle_row change now)))
                 else tx_return ()) (\<lambda>_.
              tx_bind (fetch_post pid) (\<lambda>record.
              tx_return (Some \<lparr>mutation_record = record, mutation_previous = previous,
                mutation_was_public = was_public, mutation_changed = changed\<rparr>)))))))"

text \<open>
  The store's entry: a change that does not apply is not authorized on a live post of another owner,
  and not found otherwise.
\<close>

definition change_post :: "backend \<Rightarrow> int \<Rightarrow> int \<Rightarrow> post_lifecycle_change \<Rightarrow> instant \<Rightarrow>
    (database, update_post_error, post_mutation) tx" where
  "change_post db pid uid change now =
     tx_bind (tx_map_err Update_Internal (lifecycle_post db pid uid change now)) (\<lambda>mutation.
     case mutation of
       Some m \<Rightarrow> tx_return m
     | None \<Rightarrow>
         tx_bind (tx_map_err Update_Internal (write_connection db)) (\<lambda>_.
         tx_bind (tx_map_err Update_Internal
           (query (\<lambda>d. \<exists>p \<in> set (posts d). post_id p = pid \<and> post_deleted_at p = None))) (\<lambda>live.
         tx_throw (if live then Update_Unauthorized else Update_NotFound))))"

definition publish_post :: "backend \<Rightarrow> int \<Rightarrow> int \<Rightarrow> instant \<Rightarrow> (database, update_post_error, post_mutation) tx" where
  "publish_post db pid uid now = change_post db pid uid Publish_Change now"

definition soft_delete_post :: "backend \<Rightarrow> int \<Rightarrow> int \<Rightarrow> instant \<Rightarrow> (database, update_post_error, post_mutation) tx" where
  "soft_delete_post db pid uid now = change_post db pid uid SoftDelete_Change now"

definition unpublish_post :: "backend \<Rightarrow> int \<Rightarrow> int \<Rightarrow> instant \<Rightarrow> (database, update_post_error, post_mutation) tx" where
  "unpublish_post db pid uid now = change_post db pid uid Unpublish_Change now"

subsection \<open>Creating a post\<close>

text \<open>
  SQLite's allocator stays above every stored id; PostgreSQL uses the sequence of the column.
\<close>

definition next_post_id :: "backend \<Rightarrow> database \<Rightarrow> int" where
  "next_post_id db d =
     (case db of
        Sqlite \<Rightarrow> max (last_post_id d) (if posts d = [] then 0 else Max (post_id ` set (posts d)))
      | Postgres \<Rightarrow> last_post_id d) + 1"

definition reserve_id :: "backend \<Rightarrow> (database, sql_error, int) tx" where
  "reserve_id db = statement (\<lambda>d. (Inr (next_post_id db d), d\<lparr>last_post_id := next_post_id db d\<rparr>))"

definition reserve_post_id :: "backend \<Rightarrow> (database, sql_error, int) tx" where
  "reserve_post_id db = tx_bind (write_connection db) (\<lambda>_. reserve_id db)"

definition idempotency_mapping :: "int \<Rightarrow> ustr \<Rightarrow> database \<Rightarrow> int option" where
  "idempotency_mapping uid key d =
     map_option ik_post (find (\<lambda>k. ik_user k = uid \<and> ik_key k = key) (idempotency_keys d))"

definition post_id_for_idempotency_key :: "int \<Rightarrow> ustr \<Rightarrow> (database, sql_error, int option) tx" where
  "post_id_for_idempotency_key uid key = pool_query (idempotency_mapping uid key)"

definition create_expectations_match :: "create_post_input \<Rightarrow> bool" where
  "create_expectations_match input \<longleftrightarrow>
     (let e = create_expectations input
      in (case expected_slug e of None \<Rightarrow> True | Some slug \<Rightarrow> slug = create_slug input) \<and>
         (case expected_format e of None \<Rightarrow> True | Some f \<Rightarrow> f = rendered_format (create_rendered input)) \<and>
         (case expected_published_at e of None \<Rightarrow> True | Some at \<Rightarrow> at = create_published_at input))"

definition new_post_row :: "post_env \<Rightarrow> int \<Rightarrow> create_post_input \<Rightarrow> instant \<Rightarrow> post_row" where
  "new_post_row E pid input now =
     (let r = create_rendered input
      in \<lparr>post_id = pid, post_user = create_author input, post_title = rendered_title r,
        post_rendered_title = rendered_title_html r, post_slug = create_slug input,
        post_body = rendered_body r, post_format = rendered_format r, post_rendered_html = rendered_html r,
        post_summary = create_summary input, post_created_at = now, post_updated_at = now,
        post_published_at = create_published_at input, post_deleted_at = None,
        post_search_text = Some (post_search_projection (case_fold E) (rendered_title r) (create_slug input)),
        post_mutation_version = 1\<rparr>)"

text \<open>
  The unique index on the slugs of a user's posts that are not deleted. A violation of it is told
  apart from other violations by its name; the insertion and the update answer it as no value.
\<close>

definition slug_taken :: "int \<Rightarrow> ustr \<Rightarrow> int \<Rightarrow> database \<Rightarrow> bool" where
  "slug_taken uid slug pid d \<longleftrightarrow>
     (\<exists>p \<in> set (posts d). post_id p \<noteq> pid \<and> post_user p = uid \<and> post_slug p = slug \<and> post_deleted_at p = None)"

definition insert_post_row :: "post_row \<Rightarrow> (database, sql_error, int option) tx" where
  "insert_post_row row = statement (\<lambda>d.
     if find_post (post_id row) d \<noteq> None then (Inl UniqueViolation, d)
     else if slug_taken (post_user row) (post_slug row) (post_id row) d then (Inr None, d)
     else if \<not> user_exists (post_user row) d then (Inl ForeignKeyViolation, d)
     else (Inr (Some (post_id row)), d\<lparr>posts := posts d @ [row]\<rparr>))"

definition insert_idempotency_key :: "int \<Rightarrow> ustr \<Rightarrow> int \<Rightarrow> instant \<Rightarrow> (database, sql_error, unit) tx" where
  "insert_idempotency_key uid key pid now = statement (\<lambda>d.
     if idempotency_mapping uid key d \<noteq> None then (Inl UniqueViolation, d)
     else if \<not> user_exists uid d \<or> find_post pid d = None then (Inl ForeignKeyViolation, d)
     else (Inr (), d\<lparr>idempotency_keys := idempotency_keys d @
       [\<lparr>ik_user = uid, ik_key = key, ik_post = pid, ik_created_at = now\<rparr>]\<rparr>))"

text \<open>The children of a new post: its audiences, its media references, its tags.\<close>

definition write_post_children :: "backend \<Rightarrow> create_post_input \<Rightarrow> int \<Rightarrow> (database, sql_error, unit) tx" where
  "write_post_children db input pid =
     tx_bind (replace_post_audiences db pid (create_audiences input)) (\<lambda>_.
     tx_bind (replace_post_media pid (rendered_media (create_rendered input))) (\<lambda>_.
     insert_post_tags pid (create_tags input)))"

definition insert_new_post :: "post_env \<Rightarrow> backend \<Rightarrow> create_post_input \<Rightarrow> instant \<Rightarrow> int \<Rightarrow>
    (database, create_post_error, int) tx" where
  "insert_new_post E db input now identity =
     tx_bind (tx_map_err Create_Internal (insert_post_row (new_post_row E identity input now))) (\<lambda>inserted.
     case inserted of
       None \<Rightarrow> tx_throw Create_SlugConflict
     | Some pid \<Rightarrow>
         if \<not> create_expectations_match input then tx_throw Create_BookkeepingMismatch
         else
           tx_bind (tx_map_err Create_Internal (write_post_children db input pid)) (\<lambda>_.
           tx_bind (tx_map_err Create_Internal
             (case create_key input of
                None \<Rightarrow> tx_return ()
              | Some key \<Rightarrow> insert_idempotency_key (create_author input) key pid now)) (\<lambda>_.
           tx_return pid)))"

definition write_post_in_tx :: "post_env \<Rightarrow> backend \<Rightarrow> create_post_input \<Rightarrow> instant \<Rightarrow>
    (database, create_post_error, int) tx" where
  "write_post_in_tx E db input now =
     tx_bind (tx_map_err Create_Internal
       (case create_key input of None \<Rightarrow> tx_return None | Some key \<Rightarrow> query (idempotency_mapping (create_author input) key)))
     (\<lambda>mapped.
     case mapped of
       Some pid \<Rightarrow> tx_throw (IdempotencyConflict pid)
     | None \<Rightarrow>
         tx_bind (tx_map_err Create_Internal
           (case create_reserved_id input of Some pid \<Rightarrow> tx_return pid | None \<Rightarrow> reserve_id db))
         (insert_new_post E db input now))"

definition create_post :: "post_env \<Rightarrow> backend \<Rightarrow> create_post_input \<Rightarrow> instant \<Rightarrow>
    (database, create_post_error, post_record) tx" where
  "create_post E db input now =
     tx_bind (tx_map_err Create_Internal (write_connection db)) (\<lambda>_.
     tx_bind (write_post_in_tx E db input now) (\<lambda>pid.
     tx_map_err Create_Internal (fetch_post pid)))"

fun write_posts :: "post_env \<Rightarrow> backend \<Rightarrow> (create_post_input \<times> instant) list \<Rightarrow>
    (database, create_post_error, int list) tx" where
  "write_posts E db [] = tx_return []"
| "write_posts E db ((input, now) # rest) =
     tx_bind (write_post_in_tx E db input now) (\<lambda>pid.
     tx_bind (write_posts E db rest) (\<lambda>pids. tx_return (pid # pids)))"

definition create_posts :: "post_env \<Rightarrow> backend \<Rightarrow> (create_post_input \<times> instant) list \<Rightarrow>
    (database, create_post_error, int list) tx" where
  "create_posts E db inputs =
     tx_bind (tx_map_err Create_Internal (write_connection db)) (\<lambda>_. write_posts E db inputs)"

subsection \<open>Updating a post\<close>

text \<open>
  The publication after an update, as the expectations compute it and as the \<^verbatim>\<open>CASE\<close> of
  the statement does; the slug of a published post is kept.
\<close>

fun final_published_at :: "publish_update \<Rightarrow> instant option \<Rightarrow> instant \<Rightarrow> instant option" where
  "final_published_at Unpublish existing clock = None"
| "final_published_at (Publish (Some t)) existing clock = Some t"
| "final_published_at (Publish None) existing clock = (case existing of Some t \<Rightarrow> Some t | None \<Rightarrow> Some clock)"

fun publication_clear :: "publish_update \<Rightarrow> bool" where
  "publication_clear Unpublish = True"
| "publication_clear (Publish at) = False"

fun explicit_published_at :: "publish_update \<Rightarrow> instant option" where
  "explicit_published_at Unpublish = None"
| "explicit_published_at (Publish at) = at"

definition case_published_at :: "bool \<Rightarrow> instant option \<Rightarrow> instant option \<Rightarrow> instant \<Rightarrow> instant option" where
  "case_published_at clear explicit existing now =
     (if clear then None
      else if explicit \<noteq> None then explicit
      else (case existing of Some t \<Rightarrow> Some t | None \<Rightarrow> Some now))"

definition update_scalar_is_noop :: "post_row \<Rightarrow> update_post_input \<Rightarrow> bool" where
  "update_scalar_is_noop p input \<longleftrightarrow>
     (let r = update_rendered input
      in post_title p = rendered_title r \<and>
         (post_published_at p \<noteq> None \<or> post_slug p = update_slug input) \<and>
         post_body p = rendered_body r \<and> post_format p = rendered_format r \<and>
         post_rendered_title p = rendered_title_html r \<and> post_rendered_html p = rendered_html r \<and>
         post_summary p = update_summary input \<and>
         post_published_at p = final_published_at (update_publish input) (post_published_at p) (update_clock input))"

definition content_of :: "post_row \<Rightarrow> ustr list \<Rightarrow> audience_target list \<Rightarrow> post_content" where
  "content_of p tags targets =
     \<lparr>content_title = post_title p, content_slug = post_slug p, content_body = post_body p,
       content_format = post_format p, content_summary = post_summary p, content_tags = tags,
       content_audiences = canonical_audience_values targets,
       content_draft = (post_published_at p = None)\<rparr>"

definition update_expectation_error :: "post_env \<Rightarrow> int \<Rightarrow> post_row \<Rightarrow> ustr list \<Rightarrow> audience_target list \<Rightarrow>
    update_post_input \<Rightarrow> update_post_error option" where
  "update_expectation_error E pid p tags targets input =
     (let e = update_expectations input;
          final_slug = (if post_published_at p \<noteq> None then post_slug p else update_slug input);
          final_at = final_published_at (update_publish input) (post_published_at p) (update_clock input)
      in if (case expected_post_id e of None \<Rightarrow> False | Some i \<Rightarrow> i \<noteq> pid) then Some Update_BookkeepingMismatch
         else if (case expected_slug e of None \<Rightarrow> False | Some slug \<Rightarrow> slug \<noteq> final_slug) \<or>
           (case expected_format e of None \<Rightarrow> False | Some f \<Rightarrow> f \<noteq> rendered_format (update_rendered input)) \<or>
           (case expected_published_at e of None \<Rightarrow> False | Some at \<Rightarrow> at \<noteq> final_at)
         then Some Update_BookkeepingMismatch
         else if (case expected_content_etag e of None \<Rightarrow> False
           | Some etag \<Rightarrow> etag \<noteq> content_digest E (content_of p tags targets))
         then Some StaleContent
         else None)"

definition updated_row :: "post_env \<Rightarrow> update_post_input \<Rightarrow> ustr \<Rightarrow> post_row \<Rightarrow> post_row" where
  "updated_row E input search_slug p =
     (let r = update_rendered input; now = update_clock input
      in bump (p\<lparr>post_title := rendered_title r,
        post_slug := (if post_published_at p = None then update_slug input else post_slug p),
        post_rendered_title := rendered_title_html r, post_body := rendered_body r,
        post_format := rendered_format r, post_rendered_html := rendered_html r,
        post_published_at := case_published_at (publication_clear (update_publish input))
          (explicit_published_at (update_publish input)) (post_published_at p) now,
        post_updated_at := now, post_summary := update_summary input,
        post_search_text := Some (post_search_projection (case_fold E) (rendered_title r) search_slug)\<rparr>))"

definition write_updated_row :: "post_env \<Rightarrow> int \<Rightarrow> update_post_input \<Rightarrow> ustr \<Rightarrow>
    (database, sql_error, unit option) tx" where
  "write_updated_row E pid input search_slug = statement (\<lambda>d.
     case find_post pid d of
       None \<Rightarrow> (Inr (Some ()), d)
     | Some p \<Rightarrow>
         let row = updated_row E input search_slug p
         in if post_deleted_at row = None \<and> slug_taken (post_user row) (post_slug row) pid d then (Inr None, d)
            else (Inr (Some ()), update_post_row pid (updated_row E input search_slug) d))"

definition apply_post_update :: "post_env \<Rightarrow> backend \<Rightarrow> int \<Rightarrow> update_post_input \<Rightarrow> ustr \<Rightarrow>
    ustr list \<times> ustr list \<Rightarrow> (database, update_post_error, unit) tx" where
  "apply_post_update E db pid input search_slug diff =
     tx_bind (tx_map_err Update_Internal (capture_complete_post_revision pid (update_clock input))) (\<lambda>_.
     tx_bind (tx_map_err Update_Internal (write_updated_row E pid input search_slug)) (\<lambda>written.
     case written of
       None \<Rightarrow> tx_throw Update_SlugConflict
     | Some _ \<Rightarrow> tx_map_err Update_Internal
         (tx_bind (replace_post_audiences db pid (update_audiences input)) (\<lambda>_.
          tx_bind (add_post_tags pid (fst diff)) (\<lambda>_.
          tx_bind (remove_post_tags pid (snd diff)) (\<lambda>_.
          replace_post_media pid (rendered_media (update_rendered input))))))))"

definition audience_rows_of :: "int \<Rightarrow> database \<Rightarrow> (target_kind \<times> int option) list" where
  "audience_rows_of pid d =
     map (\<lambda>r. (pa_kind r, pa_audience r)) (filter (\<lambda>r. pa_post r = pid) (post_audiences d))"

text \<open>The update of a post that passed its checks, with what was read for them.\<close>

definition update_checked_post :: "post_env \<Rightarrow> backend \<Rightarrow> int \<Rightarrow> update_post_input \<Rightarrow> post_row \<Rightarrow> ustr list \<Rightarrow>
    (target_kind \<times> int option) list \<Rightarrow> (database, update_post_error, post_mutation) tx" where
  "update_checked_post E db pid input p tags existing_audiences =
     tx_bind (tx_map_err Update_Internal (fetch_post pid)) (\<lambda>previous.
     tx_bind (tx_map_err Update_Internal (query (media_references_of pid))) (\<lambda>old_media.
     let desired = (case update_tags input of Some labels \<Rightarrow> labels | None \<Rightarrow> tags);
         diff = post_tag_diff (record_tags previous) desired;
         was_public = Public_Target \<in> fst ` set existing_audiences
     in if update_scalar_is_noop p input \<and> diff = ([], []) \<and>
           audiences_are_equal existing_audiences (update_audiences input) \<and>
           set old_media = set (rendered_media (update_rendered input))
        then tx_return \<lparr>mutation_record = previous, mutation_previous = previous,
          mutation_was_public = was_public, mutation_changed = False\<rparr>
        else
          tx_bind (apply_post_update E db pid input
            (if post_published_at p = None then update_slug input else post_slug p) diff) (\<lambda>_.
          tx_bind (tx_map_err Update_Internal (fetch_post pid)) (\<lambda>record.
          tx_return \<lparr>mutation_record = record, mutation_previous = previous,
            mutation_was_public = was_public, mutation_changed = True\<rparr>))))"

definition update_post :: "post_env \<Rightarrow> backend \<Rightarrow> int \<Rightarrow> int \<Rightarrow> update_post_input \<Rightarrow>
    (database, update_post_error, post_mutation) tx" where
  "update_post E db pid editor input =
     tx_bind (tx_map_err Update_Internal (write_connection db)) (\<lambda>_.
     tx_bind (tx_map_err Update_Internal (query (find_post pid))) (\<lambda>row.
     case row of
       None \<Rightarrow> tx_throw Update_NotFound
     | Some p \<Rightarrow>
         if post_user p \<noteq> editor \<or> post_deleted_at p \<noteq> None then tx_throw Update_Unauthorized
         else if \<not> titles_match (post_title p) (post_rendered_title p) then tx_throw (Update_Internal Protocol)
         else
           tx_bind (tx_map_err Update_Internal (query (\<lambda>d. map post_tag_display (tags_of_post pid d)))) (\<lambda>tags.
           tx_bind (tx_map_err Update_Internal (query (audience_rows_of pid))) (\<lambda>existing_audiences.
           case update_expectation_error E pid p tags
               (List.map_filter (\<lambda>(kind, aid). audience_target_from_row kind aid) existing_audiences) input of
             Some e \<Rightarrow> tx_throw e
           | None \<Rightarrow> update_checked_post E db pid input p tags existing_audiences))))"

definition set_post_tags :: "backend \<Rightarrow> int \<Rightarrow> int \<Rightarrow> ustr list \<Rightarrow> instant \<Rightarrow> (database, tagging_error, unit) tx" where
  "set_post_tags db pid uid desired now =
     tx_bind (tx_map_err Tagging_Internal (write_connection db)) (\<lambda>_.
     tx_bind (tx_map_err Tagging_Internal (query (find_post pid))) (\<lambda>row.
     case row of
       None \<Rightarrow> tx_throw Tagging_PostNotFound
     | Some p \<Rightarrow>
         if post_deleted_at p \<noteq> None then tx_throw Tagging_PostNotFound
         else if post_user p \<noteq> uid then tx_throw Tagging_Unauthorized
         else
           tx_bind (tx_map_err Tagging_Internal (query (tags_of_post pid))) (\<lambda>existing.
           let diff = post_tag_diff existing desired
           in if diff = ([], []) then tx_return ()
              else tx_map_err Tagging_Internal
                (tx_bind (capture_complete_post_revision pid now) (\<lambda>_.
                 tx_bind (add_post_tags pid (fst diff)) (\<lambda>_.
                 tx_bind (remove_post_tags pid (snd diff)) (\<lambda>_.
                 execute (update_post_row pid (\<lambda>p. bump (p\<lparr>post_updated_at := now\<rparr>))))))))))"

subsection \<open>The effects of the writes\<close>

lemma find_post_SomeD: "find_post pid d = Some p \<Longrightarrow> p \<in> set (posts d) \<and> post_id p = pid"
  by (auto simp: find_post_def dest: find_Some_memD)

lemma find_post_None_iff: "find_post pid d = None \<longleftrightarrow> pid \<notin> post_id ` set (posts d)"
  by (auto simp: find_post_def find_None_iff)

text \<open>A revision is captured: the prior row and its children are appended, nothing else changes.\<close>

definition captured :: "post_row \<Rightarrow> instant \<Rightarrow> database \<Rightarrow> database" where
  "captured p captured_at d =
     (let pid = post_id p; rid = next_revision_id d
      in d\<lparr>post_revisions := post_revisions d @ [\<lparr>revision_id = rid,
             revision_state = post_state.truncate p, revision_captured_at = captured_at\<rparr>],
           next_revision_id := rid + 1,
           post_revision_tags := post_revision_tags d @
             map (\<lambda>t. \<lparr>rt_revision = rid, rt_slug = post_tag_slug t, rt_display = post_tag_display t\<rparr>) (tags_of_post pid d),
           post_revision_audiences := post_revision_audiences d @
             map (\<lambda>r. \<lparr>ra_revision = rid, ra_kind = pa_kind r, ra_audience = pa_audience r\<rparr>)
               (filter (\<lambda>r. pa_post r = pid) (post_audiences d)),
           post_media := post_media d @
             map (\<lambda>m. \<lparr>pm_post = pid, pm_subject = Revision_Media rid, pm_reference = m\<rparr>) (media_references_of pid d)\<rparr>)"

lemma captured_frame [simp]:
  "posts (captured p at d) = posts d" "users (captured p at d) = users d"
  "post_audiences (captured p at d) = post_audiences d" "audiences (captured p at d) = audiences d"
  "audience_members (captured p at d) = audience_members d" "subscriptions (captured p at d) = subscriptions d"
  "channels (captured p at d) = channels d"
  "stored_tags (captured p at d) = stored_tags d" "next_tag_id (captured p at d) = next_tag_id d"
  "post_tags (captured p at d) = post_tags d" "last_post_id (captured p at d) = last_post_id d"
  "idempotency_keys (captured p at d) = idempotency_keys d"
  "next_audience_id (captured p at d) = next_audience_id d"
  "next_subscription_id (captured p at d) = next_subscription_id d"
  "find_post pid (captured p at d) = find_post pid d"
  by (simp_all add: captured_def Let_def find_post_def)

lemma captured_revisions [simp]:
  "post_revisions (captured p at d) = post_revisions d @ [\<lparr>revision_id = next_revision_id d,
     revision_state = post_state.truncate p, revision_captured_at = at\<rparr>]"
  "next_revision_id (captured p at d) = next_revision_id d + 1"
  by (simp_all add: captured_def Let_def)

lemma tags_of_post_cong:
  "post_tags d' = post_tags d \<Longrightarrow> stored_tags d' = stored_tags d \<Longrightarrow> tags_of_post pid d' = tags_of_post pid d"
  by (simp add: tags_of_post_def tag_slug_of_def [abs_def])

lemma capture_okD:
  assumes "capture_complete_post_revision pid captured_at c = (Inr rid, c')"
  obtains p where "find_post pid (working c) = Some p" "rid = next_revision_id (working c)"
    "working c' = captured p captured_at (working c)"
    "distinct (map post_tag_slug (tags_of_post pid (working c)))"
proof -
  let ?d = "working c"
  from assms obtain p where p: "find_post pid ?d = Some p"
    by (auto simp: capture_complete_post_revision_def insert_revision_def tx_simps split: option.splits)
  then have pid: "post_id p = pid" by (simp add: find_post_SomeD)
  have "rid = next_revision_id ?d \<and> working c' = captured p captured_at ?d \<and>
      distinct (map post_tag_slug (tags_of_post pid ?d))"
    using assms p pid
    by (auto simp: capture_complete_post_revision_def insert_revision_def insert_revision_tags_def
        insert_revision_audiences_def insert_revision_media_def tx_simps Let_def captured_def
        tags_of_post_def tag_slug_of_def [abs_def] media_references_of_def comp_def split: if_splits)
  with that p show thesis by blast
qed

lemma find_post_update_row:
  assumes "\<And>p. post_id (f p) = post_id p"
  shows "find_post q (update_post_row pid f d) = (if q = pid then map_option f (find_post pid d) else find_post q d)"
proof -
  have "find (\<lambda>p. post_id p = q) (update_where (\<lambda>p. post_id p = pid) f rs) =
      (if q = pid then map_option f (find (\<lambda>p. post_id p = pid) rs) else find (\<lambda>p. post_id p = q) rs)" for rs :: "post_row list"
    by (induction rs) (auto simp: update_where_def assms)
  then show ?thesis by (simp add: find_post_def update_post_row_def)
qed

lemma update_post_row_frame [simp]:
  "users (update_post_row pid f d) = users d"
  "post_audiences (update_post_row pid f d) = post_audiences d" "audiences (update_post_row pid f d) = audiences d"
  "audience_members (update_post_row pid f d) = audience_members d"
  "subscriptions (update_post_row pid f d) = subscriptions d" "channels (update_post_row pid f d) = channels d"
  "stored_tags (update_post_row pid f d) = stored_tags d" "next_tag_id (update_post_row pid f d) = next_tag_id d"
  "post_tags (update_post_row pid f d) = post_tags d" "post_media (update_post_row pid f d) = post_media d"
  "post_revisions (update_post_row pid f d) = post_revisions d"
  "next_revision_id (update_post_row pid f d) = next_revision_id d"
  "post_revision_tags (update_post_row pid f d) = post_revision_tags d"
  "post_revision_audiences (update_post_row pid f d) = post_revision_audiences d"
  "idempotency_keys (update_post_row pid f d) = idempotency_keys d"
  "last_post_id (update_post_row pid f d) = last_post_id d"
  "next_audience_id (update_post_row pid f d) = next_audience_id d"
  "next_subscription_id (update_post_row pid f d) = next_subscription_id d"
  by (simp_all add: update_post_row_def)

lemma update_post_row_ids:
  "(\<And>p. post_id (f p) = post_id p) \<Longrightarrow> map post_id (posts (update_post_row pid f d)) = map post_id (posts d)"
  by (simp add: update_post_row_def map_update_where)

lemma bump_sel [simp]:
  "post_id (bump p) = post_id p" "post_user (bump p) = post_user p" "post_slug (bump p) = post_slug p"
  "post_title (bump p) = post_title p" "post_body (bump p) = post_body p" "post_format (bump p) = post_format p"
  "post_published_at (bump p) = post_published_at p" "post_deleted_at (bump p) = post_deleted_at p"
  "post_created_at (bump p) = post_created_at p" "post_updated_at (bump p) = post_updated_at p"
  "post_mutation_version (bump p) = post_mutation_version p + 1"
  by (simp_all add: bump_def)

lemma lifecycle_row_sel [simp]:
  "post_id (lifecycle_row change now p) = post_id p" "post_user (lifecycle_row change now p) = post_user p"
  "post_slug (lifecycle_row change now p) = post_slug p"
  by (cases change; simp)+

text \<open>What a permitted change of the lifecycle does, and that any other one changes nothing.\<close>

definition owns_active :: "int \<Rightarrow> int \<Rightarrow> database \<Rightarrow> bool" where
  "owns_active uid pid d \<longleftrightarrow>
     (\<exists>p. find_post pid d = Some p \<and> post_user p = uid \<and> post_deleted_at p = None)"

lemma fetch_post_okD: "fetch_post pid c = (Inr r, c') \<Longrightarrow>
    working c' = working c \<and> committed c' = committed c \<and> held c' = held c \<and> fetched_post pid (working c) = Inr r"
  by (auto simp: fetch_post_def tx_simps)

lemma lifecycle_post_okD:
  assumes "lifecycle_post db pid uid change now c = (Inr res, c')"
  shows "(res = None \<and> \<not> owns_active uid pid (working c) \<and> working c' = working c) \<or>
    (\<exists>p m. res = Some m \<and> find_post pid (working c) = Some p \<and> owns_active uid pid (working c) \<and>
       fetched_post pid (working c) = Inr (mutation_previous m) \<and>
       fetched_post pid (working c') = Inr (mutation_record m) \<and>
       mutation_was_public m = has_public_audience pid (working c) \<and>
       mutation_changed m = changes change (post_published_at p) \<and>
       working c' = (if changes change (post_published_at p)
         then update_post_row pid (lifecycle_row change now) (captured p now (working c)) else working c))"
proof (cases "find_post pid (working c)")
  case None
  with assms show ?thesis by (auto simp: lifecycle_post_def tx_simps owns_active_def)
next
  case (Some p)
  show ?thesis
  proof (cases "owns_active uid pid (working c)")
    case False
    with Some assms show ?thesis by (auto simp: lifecycle_post_def tx_simps owns_active_def)
  next
    case True
    let ?changed = "changes change (post_published_at p)"
    have guard: "post_user p = uid" "post_deleted_at p = None"
      using True Some by (auto simp: owns_active_def)
    obtain previous c1 c2 was c3 after c4 where
      f1: "fetch_post pid c1 = (Inr previous, c2)" and w1: "working c1 = working c" and
      q: "query (has_public_audience pid) c2 = (Inr was, c3)" and
      body: "(if ?changed then tx_bind (capture_complete_post_revision pid now)
          (\<lambda>_. execute (update_post_row pid (lifecycle_row change now))) else tx_return ()) c3 = (Inr (), c4)" and
      f2: "fetch_post pid c4 = (Inr after, c')" and
      res: "res = Some \<lparr>mutation_record = after, mutation_previous = previous,
        mutation_was_public = was, mutation_changed = ?changed\<rparr>"
      using assms Some guard by (auto simp: lifecycle_post_def tx_simps Let_def simp del: split_paired_Ex)
    have w3: "working c3 = working c" "was = has_public_audience pid (working c)"
      using q fetch_post_okD [OF f1] w1 by (auto simp: tx_simps)
    have "working c4 = (if ?changed then update_post_row pid (lifecycle_row change now) (captured p now (working c)) else working c)"
    proof (cases ?changed)
      case True
      with body obtain rid c5 where cap: "capture_complete_post_revision pid now c3 = (Inr rid, c5)"
        and up: "working c4 = update_post_row pid (lifecycle_row change now) (working c5)"
        by (auto simp: tx_simps)
      from cap w3 Some have "working c5 = captured p now (working c)"
        by (auto elim!: capture_okD)
      with up True show ?thesis by simp
    next
      case False
      with body w3 show ?thesis by (simp add: tx_simps)
    qed
    moreover have "working c' = working c4" "fetched_post pid (working c4) = Inr after"
      using fetch_post_okD [OF f2] by simp_all
    moreover have "fetched_post pid (working c) = Inr previous"
      using fetch_post_okD [OF f1] w1 by simp
    ultimately show ?thesis using Some True w3(2) by (intro disjI2 exI conjI) (auto simp: res)
  qed
qed

subsection \<open>The effects on tags\<close>

definition tags_wf :: "database \<Rightarrow> bool" where
  "tags_wf d \<longleftrightarrow>
     distinct (map tag_id (stored_tags d)) \<and> distinct (map tag_slug (stored_tags d)) \<and>
     list_all (\<lambda>t. tag_id t < next_tag_id d) (stored_tags d) \<and>
     distinct (map (\<lambda>r. (pt_post r, pt_tag r)) (post_tags d)) \<and>
     list_all (\<lambda>r. pt_post r \<in> post_id ` set (posts d) \<and>
       (\<exists>t \<in> set (stored_tags d). tag_id t = pt_tag r \<and> tag_slug t = label_slug (pt_display r))) (post_tags d)"

definition post_slugs :: "int \<Rightarrow> database \<Rightarrow> ustr set" where
  "post_slugs pid d = {slug. \<exists>r \<in> set (post_tags d). pt_post r = pid \<and> tag_slug_of d (pt_tag r) = Some slug}"

lemma set_tags_of_post: "post_tag_slug ` set (tags_of_post pid d) = post_slugs pid d"
  by (force simp: tags_of_post_def post_slugs_def List.map_filter_def image_iff)

lemma tag_slug_of_Some_iff:
  "distinct (map tag_id (stored_tags d)) \<Longrightarrow>
     tag_slug_of d tid = Some slug \<longleftrightarrow> (\<exists>t \<in> set (stored_tags d). tag_id t = tid \<and> tag_slug t = slug)"
  unfolding tag_slug_of_def by (auto dest: find_Some_memD find_key_unique [of tag_id])

lemma find_append_Some: "find P xs = Some x \<Longrightarrow> find P (xs @ ys) = Some x"
  by (induction xs) (auto split: if_splits)

lemma upsert_tag_okD:
  assumes "upsert_tag slug c = (Inr tid, c')" and "tags_wf (working c)"
  shows "\<exists>new. working c' = (working c)\<lparr>stored_tags := stored_tags (working c) @ new,
      next_tag_id := next_tag_id (working c) + int (length new)\<rparr> \<and>
    tags_wf (working c') \<and> tag_slug_of (working c') tid = Some slug"
proof (cases "find (\<lambda>t. tag_slug t = slug) (stored_tags (working c))")
  case None
  then have fresh: "slug \<notin> tag_slug ` set (stored_tags (working c))" by (auto simp: find_None_iff)
  let ?new = "\<lparr>tag_id = next_tag_id (working c), tag_slug = slug\<rparr>"
  from None assms(1) have eff: "tid = next_tag_id (working c)"
    "working c' = (working c)\<lparr>stored_tags := stored_tags (working c) @ [?new], next_tag_id := next_tag_id (working c) + 1\<rparr>"
    by (auto simp: upsert_tag_def tx_simps)
  have "tags_wf (working c')"
    using assms(2) fresh unfolding tags_wf_def list_all_iff eff(2) by fastforce
  moreover from this have "tag_slug_of (working c') tid = Some slug"
    by (subst tag_slug_of_Some_iff) (auto simp: tags_wf_def eff)
  ultimately show ?thesis using eff(2) by (intro exI [of _ "[?new]"]) simp
next
  case (Some t)
  with assms(1) have eff: "tid = tag_id t" "working c' = working c" by (auto simp: upsert_tag_def tx_simps)
  from find_Some_memD [OF Some] have "tag_slug_of (working c') tid = Some slug"
    using assms(2) by (subst tag_slug_of_Some_iff) (auto simp: tags_wf_def eff)
  with assms(2) eff(2) show ?thesis by (intro exI [of _ "[]"]) simp
qed

lemma insert_post_tag_okD:
  assumes "insert_post_tag pid tid label c = (Inr u, c')" and "tags_wf (working c)"
    and "tag_slug_of (working c) tid = Some slug" and "slug = label_slug label"
  shows "\<exists>new. working c' = (working c)\<lparr>post_tags := post_tags (working c) @ new\<rparr> \<and>
    (\<forall>r \<in> set new. pt_post r = pid \<and> pt_display r = label) \<and> tags_wf (working c') \<and>
    post_slugs pid (working c') = insert slug (post_slugs pid (working c))"
proof (cases "\<exists>r \<in> set (post_tags (working c)). pt_post r = pid \<and> pt_tag r = tid")
  case True
  with assms(1) have "working c' = working c" by (auto simp: insert_post_tag_def tx_simps)
  with True assms(2,3) show ?thesis by (intro exI [of _ "[]"]) (auto simp: post_slugs_def)
next
  case False
  let ?new = "\<lparr>pt_post = pid, pt_tag = tid, pt_display = label\<rparr>"
  from False assms(1) have eff: "working c' = (working c)\<lparr>post_tags := post_tags (working c) @ [?new]\<rparr>"
    "pid \<in> post_id ` set (posts (working c))"
    by (auto simp: insert_post_tag_def tx_simps find_post_None_iff split: if_splits)
  have "\<exists>t \<in> set (stored_tags (working c)). tag_id t = tid \<and> tag_slug t = label_slug label"
    using assms(2-4) by (auto simp: tags_wf_def tag_slug_of_Some_iff)
  then have "tags_wf (working c')"
    using assms(2) False eff(2) unfolding tags_wf_def list_all_iff eff(1) by fastforce
  moreover have "post_slugs pid (working c') = insert slug (post_slugs pid (working c))"
    using assms(3) by (auto simp: eff(1) post_slugs_def tag_slug_of_def)
  ultimately show ?thesis using eff(1) by (intro exI [of _ "[?new]"]) simp
qed

text \<open>Adding labels extends the two tables, and the slugs of the post by theirs.\<close>

lemma add_post_tags_okD:
  "add_post_tags pid labels c = (Inr u, c') \<Longrightarrow> tags_wf (working c) \<Longrightarrow>
     \<exists>tags nt rows. working c' = (working c)\<lparr>stored_tags := stored_tags (working c) @ tags, next_tag_id := nt,
         post_tags := post_tags (working c) @ rows\<rparr> \<and>
       (\<forall>r \<in> set rows. pt_post r = pid) \<and> tags_wf (working c') \<and>
       post_slugs pid (working c') = post_slugs pid (working c) \<union> label_slug ` set labels"
proof (induction labels arbitrary: c)
  case Nil
  then show ?case
    by (intro exI [of _ "[]"] exI [of _ "next_tag_id (working c)"]) (simp add: tx_simps)
next
  case (Cons label labels)
  obtain tid c1 c2 where up: "upsert_tag (label_slug label) c = (Inr tid, c1)"
    and ins: "insert_post_tag pid tid label c1 = (Inr (), c2)"
    and rest: "add_post_tags pid labels c2 = (Inr u, c')"
    using Cons.prems(1) by (auto simp: tx_simps)
  from upsert_tag_okD [OF up Cons.prems(2)] obtain new where
    1: "working c1 = (working c)\<lparr>stored_tags := stored_tags (working c) @ new,
      next_tag_id := next_tag_id (working c) + int (length new)\<rparr>"
    "tags_wf (working c1)" "tag_slug_of (working c1) tid = Some (label_slug label)" by blast
  from insert_post_tag_okD [OF ins 1(2,3) refl] obtain row where
    2: "working c2 = (working c1)\<lparr>post_tags := post_tags (working c1) @ row\<rparr>"
    "\<forall>r \<in> set row. pt_post r = pid" "tags_wf (working c2)"
    "post_slugs pid (working c2) = insert (label_slug label) (post_slugs pid (working c1))" by blast
  from Cons.IH [OF rest 2(3)] obtain tags nt rows where
    3: "working c' = (working c2)\<lparr>stored_tags := stored_tags (working c2) @ tags, next_tag_id := nt,
      post_tags := post_tags (working c2) @ rows\<rparr>"
    "\<forall>r \<in> set rows. pt_post r = pid" "tags_wf (working c')"
    "post_slugs pid (working c') = post_slugs pid (working c2) \<union> label_slug ` set labels" by blast
  have "tag_slug_of (working c1) t = tag_slug_of (working c) t" if "t \<in> tag_id ` set (stored_tags (working c))" for t
  proof -
    from that have "find (\<lambda>x. tag_id x = t) (stored_tags (working c)) \<noteq> None" by (auto simp: find_None_iff)
    then show ?thesis
      by (auto simp: tag_slug_of_def 1(1) find_append_Some)
  qed
  moreover have "pt_tag r \<in> tag_id ` set (stored_tags (working c))" if "r \<in> set (post_tags (working c))" for r
    using Cons.prems(2) that by (force simp: tags_wf_def list_all_iff)
  moreover have "post_tags (working c1) = post_tags (working c)" by (simp add: 1(1))
  ultimately have "post_slugs pid (working c1) = post_slugs pid (working c)"
    unfolding post_slugs_def by (metis (no_types, lifting))
  with 2(4) 3(4) have "post_slugs pid (working c') = post_slugs pid (working c) \<union> label_slug ` set (label # labels)"
    by auto
  moreover have "working c' = (working c)\<lparr>stored_tags := stored_tags (working c) @ (new @ tags), next_tag_id := nt,
      post_tags := post_tags (working c) @ (row @ rows)\<rparr>"
    by (simp add: 3(1) 2(1) 1(1))
  moreover have "\<forall>r \<in> set (row @ rows). pt_post r = pid" using 2(2) 3(2) by auto
  ultimately show ?case using 3(3) by blast
qed

lemma delete_post_tag_okD:
  assumes "delete_post_tag_by_slug pid slug c = (Inr u, c')" and "tags_wf (working c)"
  shows "working c' = (working c)\<lparr>post_tags := delete_where
      (\<lambda>r. pt_post r = pid \<and> tag_slug_of (working c) (pt_tag r) = Some slug) (post_tags (working c))\<rparr>"
    and "tags_wf (working c')" and "post_slugs pid (working c') = post_slugs pid (working c) - {slug}"
proof -
  have ids: "distinct (map tag_id (stored_tags (working c)))" "distinct (map tag_slug (stored_tags (working c)))"
    using assms(2) by (auto simp: tags_wf_def)
  have "(\<exists>t. find (\<lambda>t. tag_slug t = slug) (stored_tags (working c)) = Some t \<and> tid = tag_id t) \<longleftrightarrow>
      tag_slug_of (working c) tid = Some slug" for tid
    using ids by (auto simp: tag_slug_of_Some_iff dest: find_Some_memD find_key_unique [OF ids(2)])
  then show eff: "working c' = (working c)\<lparr>post_tags := delete_where
      (\<lambda>r. pt_post r = pid \<and> tag_slug_of (working c) (pt_tag r) = Some slug) (post_tags (working c))\<rparr>"
    using assms(1) by (auto simp: delete_post_tag_by_slug_def tx_simps)
  show "tags_wf (working c')"
    using assms(2) unfolding tags_wf_def list_all_iff eff by (auto simp: table_simps distinct_map_delete_where)
  show "post_slugs pid (working c') = post_slugs pid (working c) - {slug}"
    by (auto simp: eff post_slugs_def table_simps tag_slug_of_def)
qed

lemma remove_post_tags_okD:
  "remove_post_tags pid slugs c = (Inr u, c') \<Longrightarrow> tags_wf (working c) \<Longrightarrow>
     working c' = (working c)\<lparr>post_tags := delete_where
       (\<lambda>r. pt_post r = pid \<and> (\<exists>slug \<in> set slugs. tag_slug_of (working c) (pt_tag r) = Some slug)) (post_tags (working c))\<rparr> \<and>
     tags_wf (working c') \<and> post_slugs pid (working c') = post_slugs pid (working c) - set slugs"
proof (induction slugs arbitrary: c)
  case Nil
  then show ?case by (simp add: tx_simps delete_where_def)
next
  case (Cons slug slugs)
  obtain c1 where del: "delete_post_tag_by_slug pid slug c = (Inr (), c1)"
    and rest: "remove_post_tags pid slugs c1 = (Inr u, c')"
    using Cons.prems(1) by (auto simp: tx_simps)
  note 1 = delete_post_tag_okD [OF del Cons.prems(2)]
  note 2 = Cons.IH [OF rest 1(2)]
  have same: "tag_slug_of (working c1) = tag_slug_of (working c)" by (simp add: 1(1) tag_slug_of_def [abs_def])
  have rows: "post_tags (working c1) =
      delete_where (\<lambda>r. pt_post r = pid \<and> tag_slug_of (working c) (pt_tag r) = Some slug) (post_tags (working c))"
    by (subst 1(1)) simp
  from 2 have "working c' = (working c1)\<lparr>post_tags := delete_where
       (\<lambda>r. pt_post r = pid \<and> (\<exists>s \<in> set slugs. tag_slug_of (working c1) (pt_tag r) = Some s)) (post_tags (working c1))\<rparr>"
    by (rule conjunct1)
  also have "\<dots> = (working c1)\<lparr>post_tags := delete_where
       (\<lambda>r. pt_post r = pid \<and> (\<exists>s \<in> set (slug # slugs). tag_slug_of (working c) (pt_tag r) = Some s)) (post_tags (working c))\<rparr>"
    unfolding same rows delete_where_delete_where
    by (rule arg_cong [where f = "\<lambda>P. (working c1)\<lparr>post_tags := delete_where P (post_tags (working c))\<rparr>"]) auto
  also have "\<dots> = (working c)\<lparr>post_tags := delete_where
       (\<lambda>r. pt_post r = pid \<and> (\<exists>s \<in> set (slug # slugs). tag_slug_of (working c) (pt_tag r) = Some s)) (post_tags (working c))\<rparr>"
    by (subst 1(1)) simp
  finally have "working c' = (working c)\<lparr>post_tags := delete_where
       (\<lambda>r. pt_post r = pid \<and> (\<exists>s \<in> set (slug # slugs). tag_slug_of (working c) (pt_tag r) = Some s)) (post_tags (working c))\<rparr>" .
  moreover have "tags_wf (working c')" using 2 by blast
  moreover have "post_slugs pid (working c') = post_slugs pid (working c1) - set slugs" using 2 by blast
  then have "post_slugs pid (working c') = post_slugs pid (working c) - set (slug # slugs)"
    unfolding 1(3) by auto
  ultimately show ?case by (intro conjI)
qed

text \<open>Reconciling the difference to the desired labels leaves exactly their slugs.\<close>

lemma reconcile_tags_okD:
  assumes "add_post_tags pid (fst diff) c = (Inr u, c1)" and "remove_post_tags pid (snd diff) c1 = (Inr v, c2)"
    and "diff = post_tag_diff (tags_of_post pid (working c)) desired" and "tags_wf (working c)"
  shows "\<exists>tags nt rows. working c2 = (working c)\<lparr>stored_tags := stored_tags (working c) @ tags,
        next_tag_id := nt, post_tags := rows\<rparr> \<and>
      filter (\<lambda>r. pt_post r \<noteq> pid) rows = filter (\<lambda>r. pt_post r \<noteq> pid) (post_tags (working c))"
    and "tags_wf (working c2)" and "post_slugs pid (working c2) = label_slug ` set desired"
proof -
  from add_post_tags_okD [OF assms(1,4)] obtain tags nt rows where
    1: "working c1 = (working c)\<lparr>stored_tags := stored_tags (working c) @ tags, next_tag_id := nt,
      post_tags := post_tags (working c) @ rows\<rparr>"
    "\<forall>r \<in> set rows. pt_post r = pid" "tags_wf (working c1)"
    "post_slugs pid (working c1) = post_slugs pid (working c) \<union> label_slug ` set (fst diff)" by blast
  note 2 = remove_post_tags_okD [OF assms(2) 1(3)]
  show "tags_wf (working c2)" using 2 by blast
  have "label_slug ` set (fst diff) = label_slug ` set desired - post_slugs pid (working c)"
    "set (snd diff) = post_slugs pid (working c) - label_slug ` set desired"
    by (auto simp: assms(3) post_tag_diff_def simp flip: set_tags_of_post)
  with 1(4) 2 show "post_slugs pid (working c2) = label_slug ` set desired" by auto
  let ?rows = "delete_where (\<lambda>r. pt_post r = pid \<and>
    (\<exists>slug \<in> set (snd diff). tag_slug_of (working c1) (pt_tag r) = Some slug)) (post_tags (working c) @ rows)"
  have "filter (\<lambda>r. pt_post r \<noteq> pid) ?rows = filter (\<lambda>r. pt_post r \<noteq> pid) (post_tags (working c))"
    using 1(2) by (auto simp: delete_where_def filter_empty_conv intro!: filter_cong)
  moreover have "working c2 = (working c)\<lparr>stored_tags := stored_tags (working c) @ tags, next_tag_id := nt, post_tags := ?rows\<rparr>"
    using 2 by (simp add: 1(1))
  ultimately show "\<exists>tags nt rows. working c2 = (working c)\<lparr>stored_tags := stored_tags (working c) @ tags,
        next_tag_id := nt, post_tags := rows\<rparr> \<and>
      filter (\<lambda>r. pt_post r \<noteq> pid) rows = filter (\<lambda>r. pt_post r \<noteq> pid) (post_tags (working c))" by blast
qed

end
