(* ===== verification/Post_History.thy ===== *)
theory Post_History
  imports Post_Store "HOL-Library.Sublist"
begin

section \<open>Posts as versioned documents\<close>

text \<open>
  What the post store of \<^verbatim>\<open>storage/src/posts\<close> promises, over all its writes: a post is a
  document with a history. A view is everything an author sees of a post: its text, slug, dates,
  tags, audiences and media. A write that asks for the view that is there changes nothing; any other
  one replaces the view and appends the former one to the history, where it stays. The refinement
  says the writes of theory \<^verbatim>\<open>Post_Store\<close> do exactly this, for every sequence of write
  scopes.
\<close>

subsection \<open>The specification\<close>

record post_view =
  view_owner :: int
  view_title :: "ustr option"
  view_rendered_title :: "ustr option"
  view_slug :: ustr
  view_body :: ustr
  view_format :: post_format
  view_html :: ustr
  view_summary :: "ustr option"
  view_published_at :: "instant option"
  view_deleted_at :: "instant option"
  view_tags :: "ustr set"
  view_targets :: "(target_kind \<times> int option) set"
  view_media :: "media_reference set"

type_synonym document = "post_view \<times> post_view list"

definition revise :: "post_view \<Rightarrow> document \<Rightarrow> document" where
  "revise v' = (\<lambda>(v, former). if v' = v then (v, former) else (v', former @ [v]))"

datatype post_request =
    Create_Post create_post_input instant
  | Lifecycle_Request post_lifecycle_change int int instant
  | Update_Request int int update_post_input
  | Tags_Request int int "ustr list" instant

datatype post_answer = Created int | Changed bool | Retagged

fun lifecycle_view :: "post_lifecycle_change \<Rightarrow> instant \<Rightarrow> post_view \<Rightarrow> post_view" where
  "lifecycle_view Publish_Change now v =
     v\<lparr>view_published_at := (case view_published_at v of None \<Rightarrow> Some now | Some t \<Rightarrow> Some t)\<rparr>"
| "lifecycle_view SoftDelete_Change now v = v\<lparr>view_deleted_at := Some now\<rparr>"
| "lifecycle_view Unpublish_Change now v = v\<lparr>view_published_at := None\<rparr>"

text \<open>The slug of a published post is kept.\<close>

definition updated_view :: "update_post_input \<Rightarrow> post_view \<Rightarrow> post_view" where
  "updated_view input v =
     (let r = update_rendered input
      in v\<lparr>view_title := rendered_title r, view_rendered_title := rendered_title_html r,
        view_slug := (if view_published_at v = None then update_slug input else view_slug v),
        view_body := rendered_body r, view_format := rendered_format r, view_html := rendered_html r,
        view_summary := update_summary input,
        view_published_at := final_published_at (update_publish input) (view_published_at v) (update_clock input),
        view_targets := set (target_rows (update_audiences input)),
        view_tags := (case update_tags input of None \<Rightarrow> view_tags v | Some labels \<Rightarrow> label_slug ` set labels),
        view_media := set (rendered_media r)\<rparr>)"

definition created_view :: "create_post_input \<Rightarrow> post_view" where
  "created_view input =
     (let r = create_rendered input
      in \<lparr>view_owner = create_author input, view_title = rendered_title r,
        view_rendered_title = rendered_title_html r, view_slug = create_slug input,
        view_body = rendered_body r, view_format = rendered_format r, view_html = rendered_html r,
        view_summary = create_summary input, view_published_at = create_published_at input,
        view_deleted_at = None, view_tags = label_slug ` set (create_tags input),
        view_targets = set (target_rows (create_audiences input)), view_media = set (rendered_media r)\<rparr>)"

text \<open>Only its owner changes a post, and only until it is deleted.\<close>

definition revised :: "int \<Rightarrow> int \<Rightarrow> (post_view \<Rightarrow> post_view) \<Rightarrow> (int \<Rightarrow> document option) \<Rightarrow>
    (bool \<times> (int \<Rightarrow> document option)) option" where
  "revised pid uid f docs =
     (case docs pid of
        None \<Rightarrow> None
      | Some (v, former) \<Rightarrow>
          if view_owner v = uid \<and> view_deleted_at v = None
          then Some (f v \<noteq> v, docs(pid \<mapsto> revise (f v) (v, former)))
          else None)"

fun document_spec :: "post_request \<Rightarrow> post_answer \<Rightarrow> (int \<Rightarrow> document option) \<Rightarrow> (int \<Rightarrow> document option) \<Rightarrow> bool" where
  "document_spec (Create_Post input now) (Created pid) docs docs' \<longleftrightarrow>
     docs pid = None \<and> docs' = docs(pid \<mapsto> (created_view input, []))"
| "document_spec (Lifecycle_Request change pid uid now) (Changed b) docs docs' \<longleftrightarrow>
     revised pid uid (lifecycle_view change now) docs = Some (b, docs')"
| "document_spec (Update_Request pid uid input) (Changed b) docs docs' \<longleftrightarrow>
     revised pid uid (updated_view input) docs = Some (b, docs')"
| "document_spec (Tags_Request pid uid labels now) Retagged docs docs' \<longleftrightarrow>
     map_option snd (revised pid uid (\<lambda>v. v\<lparr>view_tags := label_slug ` set labels\<rparr>) docs) = Some docs'"
| "document_spec _ _ docs docs' \<longleftrightarrow> False"

subsection \<open>The documents in the database\<close>

definition state_view :: "'a post_state_scheme \<Rightarrow> ustr set \<Rightarrow> (target_kind \<times> int option) set \<Rightarrow>
    media_reference set \<Rightarrow> post_view" where
  "state_view p tags targets media =
     \<lparr>view_owner = post_user p, view_title = post_title p, view_rendered_title = post_rendered_title p,
       view_slug = post_slug p, view_body = post_body p, view_format = post_format p,
       view_html = post_rendered_html p, view_summary = post_summary p,
       view_published_at = post_published_at p, view_deleted_at = post_deleted_at p,
       view_tags = tags, view_targets = targets, view_media = media\<rparr>"

definition current_view :: "database \<Rightarrow> post_row \<Rightarrow> post_view" where
  "current_view d p = state_view p (post_slugs (post_id p) d) (set (audience_rows_of (post_id p) d))
     (set (media_references_of (post_id p) d))"

definition revision_view :: "database \<Rightarrow> post_revision_row \<Rightarrow> post_view" where
  "revision_view d r = state_view (revision_state r)
     (rt_slug ` {t \<in> set (post_revision_tags d). rt_revision t = revision_id r})
     ((\<lambda>a. (ra_kind a, ra_audience a)) ` {a \<in> set (post_revision_audiences d). ra_revision a = revision_id r})
     (pm_reference ` {m \<in> set (post_media d). pm_subject m = Revision_Media (revision_id r)})"

definition former_views :: "int \<Rightarrow> database \<Rightarrow> post_view list" where
  "former_views pid d =
     map (revision_view d) (filter (\<lambda>r. post_id (revision_state r) = pid) (post_revisions d))"

definition documents :: "database \<Rightarrow> int \<Rightarrow> document option" where
  "documents d pid = map_option (\<lambda>p. (current_view d p, former_views pid d)) (find_post pid d)"

subsection \<open>The writes as a store\<close>

definition discard_error :: "('db, 'e, 'a) tx \<Rightarrow> ('db, unit, 'a) tx" where
  "discard_error m = tx_map_err (\<lambda>_. ()) m"

fun serve_post :: "post_env \<Rightarrow> backend \<Rightarrow> post_request \<Rightarrow> (database, unit, post_answer) tx" where
  "serve_post E db (Create_Post input now) = discard_error
     (tx_bind (create_post E db input now) (\<lambda>r. tx_return (Created (post_id (record_state r)))))"
| "serve_post E db (Lifecycle_Request change pid uid now) = discard_error
     (tx_bind (change_post db pid uid change now) (\<lambda>m. tx_return (Changed (mutation_changed m))))"
| "serve_post E db (Update_Request pid uid input) = discard_error
     (tx_bind (update_post E db pid uid input) (\<lambda>m. tx_return (Changed (mutation_changed m))))"
| "serve_post E db (Tags_Request pid uid labels now) = discard_error
     (tx_bind (set_post_tags db pid uid labels now) (\<lambda>_. tx_return Retagged))"

text \<open>
  No caller selects one target twice (the SQLite tables would store the rows twice, since their key
  does not compare null audiences).
\<close>

fun post_request_ok :: "post_request \<Rightarrow> bool" where
  "post_request_ok (Create_Post input now) = distinct (target_rows (create_audiences input))"
| "post_request_ok (Update_Request pid uid input) = distinct (target_rows (update_audiences input))"
| "post_request_ok _ = True"

text \<open>What the keys and the references of the tables say.\<close>

definition rows_wf :: "database \<Rightarrow> bool" where
  "rows_wf d \<longleftrightarrow>
     distinct (map post_id (posts d)) \<and> distinct (post_audiences d) \<and>
     list_all (\<lambda>r. pa_post r \<in> post_id ` set (posts d)) (post_audiences d) \<and>
     list_all (\<lambda>m. pm_post m \<in> post_id ` set (posts d)) (post_media d)"

definition revisions_wf :: "database \<Rightarrow> bool" where
  "revisions_wf d \<longleftrightarrow>
     distinct (map revision_id (post_revisions d)) \<and>
     list_all (\<lambda>r. revision_id r < next_revision_id d \<and> post_id (revision_state r) \<in> post_id ` set (posts d))
       (post_revisions d) \<and>
     list_all (\<lambda>t. rt_revision t < next_revision_id d) (post_revision_tags d) \<and>
     list_all (\<lambda>a. ra_revision a < next_revision_id d) (post_revision_audiences d) \<and>
     list_all (\<lambda>m. case pm_subject m of Current_Media \<Rightarrow> True | Revision_Media rid \<Rightarrow> rid < next_revision_id d)
       (post_media d)"

definition posts_wf :: "database \<Rightarrow> bool" where
  "posts_wf d \<longleftrightarrow> tags_wf d \<and> rows_wf d \<and> revisions_wf d"

subsection \<open>Edits\<close>

text \<open>
  Between the capture of a revision and the end of a write the current view of one post changes, and
  nothing else.
\<close>

definition edits :: "int \<Rightarrow> (post_view \<Rightarrow> post_view) \<Rightarrow> database \<Rightarrow> database \<Rightarrow> bool" where
  "edits pid f d d' \<longleftrightarrow>
     posts_wf d' \<and> documents d' = (documents d)(pid := map_option (\<lambda>(v, former). (f v, former)) (documents d pid))"

lemma edits_trans: "edits pid f d1 d2 \<Longrightarrow> edits pid g d2 d3 \<Longrightarrow> edits pid (\<lambda>v. g (f v)) d1 d3"
  by (simp add: edits_def option.map_comp comp_def case_prod_unfold)

lemma edits_wf: "edits pid f d d' \<Longrightarrow> posts_wf d'"
  by (simp add: edits_def)

lemma edits_found:
  assumes "edits pid f d d'" and "find_post pid d = Some p"
  obtains p' where "find_post pid d' = Some p'"
proof -
  have "documents d' pid \<noteq> None" using assms by (simp add: edits_def documents_def)
  with that show thesis by (cases "find_post pid d'") (simp_all add: documents_def)
qed

lemma former_views_cong:
  assumes "post_revisions d' = post_revisions d" and "post_revision_tags d' = post_revision_tags d"
    and "post_revision_audiences d' = post_revision_audiences d"
    and "\<And>m. pm_subject m \<noteq> Current_Media \<Longrightarrow> m \<in> set (post_media d') \<longleftrightarrow> m \<in> set (post_media d)"
  shows "former_views q d' = former_views q d"
proof -
  have "{m \<in> set (post_media d'). pm_subject m = Revision_Media rid} =
      {m \<in> set (post_media d). pm_subject m = Revision_Media rid}" for rid
    using assms(4) by fastforce
  then show ?thesis by (simp add: former_views_def revision_view_def assms(1-3) [abs_def])
qed

lemma editsI:
  assumes "posts_wf d'" and "\<And>q. former_views q d' = former_views q d"
    and "\<And>q p. q \<noteq> pid \<Longrightarrow> find_post q d' = find_post q d"
    and "\<And>q p. q \<noteq> pid \<Longrightarrow> find_post q d = Some p \<Longrightarrow> current_view d' p = current_view d p"
    and "map_option (current_view d') (find_post pid d') = map_option (\<lambda>p. f (current_view d p)) (find_post pid d)"
  shows "edits pid f d d'"
proof -
  have "documents d' q = ((documents d)(pid := map_option (\<lambda>(v, former). (f v, former)) (documents d pid))) q" for q
  proof (cases "q = pid")
    case True
    with assms(2,5) show ?thesis
      by (cases "find_post pid d"; cases "find_post pid d'") (auto simp: documents_def)
  next
    case False
    with assms(2-4) show ?thesis by (cases "find_post q d") (auto simp: documents_def)
  qed
  with assms(1) show ?thesis by (auto simp: edits_def)
qed

lemma find_post_id: "find_post pid d = Some p \<Longrightarrow> post_id p = pid"
  by (simp add: find_post_SomeD)

lemma edits_viewI:
  assumes "posts_wf d'" and "\<And>q. former_views q d' = former_views q d"
    and "\<And>q. find_post q d' = find_post q d"
    and "\<And>p. current_view d' p = (if post_id p = pid then f (current_view d p) else current_view d p)"
  shows "edits pid f d d'"
  by (rule editsI) (use assms in \<open>auto simp: find_post_id dest: find_post_id intro!: option.map_cong0\<close>)

lemma edits_row:
  assumes "posts_wf d" and "find_post pid d = Some p" and "\<And>p. post_id (g p) = post_id p"
    and "\<And>tags targets media. state_view (g p) tags targets media = f (state_view p tags targets media)"
  shows "edits pid f d (update_post_row pid g d)"
proof (rule editsI)
  have ids: "map post_id (posts (update_post_row pid g d)) = map post_id (posts d)"
    by (rule update_post_row_ids [OF assms(3)])
  have ids': "post_id ` set (posts (update_post_row pid g d)) = post_id ` set (posts d)"
    using arg_cong [OF ids, of set] by simp
  show "posts_wf (update_post_row pid g d)"
    using assms(1) unfolding posts_wf_def tags_wf_def rows_wf_def revisions_wf_def update_post_row_frame ids ids' by blast
  show "former_views q (update_post_row pid g d) = former_views q d" for q
    by (rule former_views_cong) simp_all
  have same: "current_view (update_post_row pid g d) q = current_view d q" for q
    by (simp add: current_view_def post_slugs_def tag_slug_of_def [abs_def] audience_rows_of_def media_references_of_def)
  then show "current_view (update_post_row pid g d) q = current_view d q" for q .
  show "find_post q (update_post_row pid g d) = find_post q d" if "q \<noteq> pid" for q
    using that by (simp add: find_post_update_row [OF assms(3)])
  have "current_view d (g p) = f (current_view d p)"
    by (simp add: current_view_def assms(3,4))
  then show "map_option (current_view (update_post_row pid g d)) (find_post pid (update_post_row pid g d)) =
      map_option (\<lambda>p. f (current_view d p)) (find_post pid d)"
    by (simp add: find_post_update_row [OF assms(3)] assms(2) same)
qed

lemma edits_targets:
  assumes "posts_wf (working c)" and "replace_post_audiences db pid targets c = (Inr u, c')"
    and "distinct (target_rows targets)"
  shows "edits pid (\<lambda>v. v\<lparr>view_targets := set (target_rows targets)\<rparr>) (working c) (working c')"
proof -
  let ?d = "working c"
  let ?new = "map (\<lambda>(kind, aid). \<lparr>pa_post = pid, pa_kind = kind, pa_audience = aid\<rparr>) (target_rows targets)"
  note ok = replace_post_audiences_okD [OF assms(2)]
  have eff: "working c' = ?d\<lparr>post_audiences := delete_where (\<lambda>r. pa_post r = pid) (post_audiences ?d) @ ?new\<rparr>"
    by (rule ok(1))
  have "distinct ?new"
    using assms(3) by (auto simp: distinct_map inj_on_def)
  moreover have "\<forall>r \<in> set ?new. pa_post r = pid" by auto
  ultimately have "distinct (post_audiences (working c'))"
    using assms(1) by (auto simp: eff posts_wf_def rows_wf_def delete_where_def)
  moreover have "pid \<in> post_id ` set (posts ?d)" if "row \<in> set (target_rows targets)" for row
    using that ok(3) by (force simp: image_iff)
  then have "list_all (\<lambda>r. pa_post r \<in> post_id ` set (posts ?d)) (post_audiences (working c'))"
    using assms(1) by (auto simp: eff posts_wf_def rows_wf_def list_all_iff table_simps split: prod.splits)
  ultimately have "rows_wf (working c')"
    using assms(1) by (simp add: eff posts_wf_def rows_wf_def)
  moreover have "tags_wf (working c')" "revisions_wf (working c')"
    using assms(1) by (simp_all add: eff posts_wf_def tags_wf_def revisions_wf_def cong: media_subject.case_cong)
  ultimately have wf: "posts_wf (working c')" by (simp add: posts_wf_def)
  have rows: "set (audience_rows_of q (working c')) =
      (if q = pid then set (target_rows targets) else set (audience_rows_of q ?d))" for q
  proof (cases "q = pid")
    case True
    have "filter (\<lambda>r. pa_post r = pid) (delete_where (\<lambda>r. pa_post r = pid) (post_audiences ?d)) = []"
      by (simp add: filter_empty_conv table_simps)
    with True show ?thesis
      by (simp add: eff audience_rows_of_def filter_map comp_def case_prod_unfold image_image)
  next
    case False
    then have "filter (\<lambda>r. pa_post r = q) (delete_where (\<lambda>r. pa_post r = pid) (post_audiences ?d)) =
        filter (\<lambda>r. pa_post r = q) (post_audiences ?d)"
      by (auto simp: delete_where_def intro!: filter_cong)
    with False show ?thesis
      by (simp add: eff audience_rows_of_def filter_map comp_def case_prod_unfold)
  qed
  have view: "current_view (working c') p = (if post_id p = pid
      then (current_view ?d p)\<lparr>view_targets := set (target_rows targets)\<rparr> else current_view ?d p)" for p
    by (simp add: current_view_def rows state_view_def) (simp add: eff post_slugs_def tag_slug_of_def [abs_def] media_references_of_def)
  show ?thesis
  proof (rule edits_viewI [OF wf])
    show "former_views q (working c') = former_views q ?d" for q
      by (rule former_views_cong) (simp_all add: eff)
  qed (simp_all add: view, simp_all add: eff find_post_def)
qed

lemma edits_media:
  assumes "posts_wf (working c)" and "replace_post_media pid references c = (Inr u, c')"
    and "pid \<in> post_id ` set (posts (working c))"
  shows "edits pid (\<lambda>v. v\<lparr>view_media := set references\<rparr>) (working c) (working c')"
proof -
  let ?d = "working c"
  let ?new = "map (\<lambda>m. \<lparr>pm_post = pid, pm_subject = Current_Media, pm_reference = m\<rparr>) (remdups references)"
  have eff: "working c' = ?d\<lparr>post_media := delete_where (current_media pid) (post_media ?d) @ ?new\<rparr>"
    using assms(2) by (auto simp: replace_post_media_def insert_post_media_rows_def tx_simps split: if_splits)
  have subjects: "list_all (\<lambda>m. P (pm_subject m)) (post_media (working c'))"
    if "list_all (\<lambda>m. P (pm_subject m)) (post_media ?d)" and "P Current_Media" for P
    using that by (auto simp: eff list_all_iff table_simps)
  have "revisions_wf (working c')"
    using assms(1) subjects [of "case_media_subject True (\<lambda>rid. rid < next_revision_id ?d)"]
    by (simp add: eff posts_wf_def revisions_wf_def cong: media_subject.case_cong)
  moreover have "rows_wf (working c')"
    using assms(1,3) by (auto simp: eff posts_wf_def rows_wf_def list_all_iff table_simps)
  moreover have "tags_wf (working c')"
    using assms(1) by (simp add: eff posts_wf_def tags_wf_def)
  ultimately have wf: "posts_wf (working c')" by (simp add: posts_wf_def)
  have media: "set (media_references_of q (working c')) =
      (if q = pid then set references else set (media_references_of q ?d))" for q
    by (force simp: eff media_references_of_def current_media_def table_simps image_iff)
  have view: "current_view (working c') p = (if post_id p = pid
      then (current_view ?d p)\<lparr>view_media := set references\<rparr> else current_view ?d p)" for p
    by (simp add: current_view_def media state_view_def) (simp add: eff post_slugs_def tag_slug_of_def [abs_def] audience_rows_of_def)
  show ?thesis
  proof (rule edits_viewI [OF wf])
    show "former_views q (working c') = former_views q ?d" for q
      by (rule former_views_cong) (auto simp: eff table_simps current_media_def)
  qed (simp_all add: view, simp_all add: eff find_post_def)
qed

lemma tag_slug_of_extended:
  assumes "stored_tags d' = stored_tags d @ tags" and "tags_wf d" and "r \<in> set (post_tags d)"
  shows "tag_slug_of d' (pt_tag r) = tag_slug_of d (pt_tag r)"
proof -
  from assms(2,3) have "find (\<lambda>t. tag_id t = pt_tag r) (stored_tags d) \<noteq> None"
    by (auto simp: tags_wf_def list_all_iff find_None_iff)
  then show ?thesis by (auto simp: tag_slug_of_def assms(1) find_append_Some)
qed

lemma edits_tag_tables:
  assumes "posts_wf d" and "tags_wf d'" and "d' = d\<lparr>stored_tags := stored_tags d @ tags, next_tag_id := nt, post_tags := rows\<rparr>"
    and "filter (\<lambda>r. pt_post r \<noteq> pid) rows = filter (\<lambda>r. pt_post r \<noteq> pid) (post_tags d)"
    and "post_slugs pid d' = slugs"
  shows "edits pid (\<lambda>v. v\<lparr>view_tags := slugs\<rparr>) d d'"
proof -
  note eff = assms(3)
  have wf: "posts_wf d'"
    using assms(1,2) by (simp add: eff posts_wf_def rows_wf_def revisions_wf_def cong: media_subject.case_cong)
  have slugs: "post_slugs q d' = post_slugs q d" if "q \<noteq> pid" for q
  proof -
    have "r \<in> set rows \<longleftrightarrow> r \<in> set (post_tags d)" if "pt_post r = q" for r
      using arg_cong [OF assms(4), of set] \<open>q \<noteq> pid\<close> that by auto
    moreover have "tag_slug_of d' (pt_tag r) = tag_slug_of d (pt_tag r)" if "r \<in> set (post_tags d)" for r
      by (rule tag_slug_of_extended [OF _ _ that]) (use assms(1) in \<open>simp_all add: eff posts_wf_def\<close>)
    moreover have "post_tags d' = rows" by (simp add: eff)
    ultimately show ?thesis by (fastforce simp: post_slugs_def)
  qed
  have others: "audience_rows_of q d' = audience_rows_of q d" "media_references_of q d' = media_references_of q d" for q
    by (simp_all add: eff audience_rows_of_def media_references_of_def)
  show ?thesis
  proof (rule edits_viewI [OF wf])
    show "former_views q d' = former_views q d" for q
      by (rule former_views_cong) (simp_all add: eff)
    show "find_post q d' = find_post q d" for q by (simp add: eff find_post_def)
    show "current_view d' p = (if post_id p = pid then (current_view d p)\<lparr>view_tags := slugs\<rparr> else current_view d p)" for p
      by (simp add: current_view_def state_view_def others slugs assms(5))
  qed
qed

lemma edits_tags:
  assumes "posts_wf (working c)"
    and "add_post_tags pid (fst diff) c = (Inr u, c1)" and "remove_post_tags pid (snd diff) c1 = (Inr v, c2)"
    and "diff = post_tag_diff (tags_of_post pid (working c)) desired"
  shows "edits pid (\<lambda>v. v\<lparr>view_tags := label_slug ` set desired\<rparr>) (working c) (working c2)"
proof -
  have "tags_wf (working c)" using assms(1) by (simp add: posts_wf_def)
  note ok = reconcile_tags_okD [OF assms(2-4) this]
  from ok(1) obtain tags nt rows where
    "working c2 = (working c)\<lparr>stored_tags := stored_tags (working c) @ tags, next_tag_id := nt, post_tags := rows\<rparr>"
    "filter (\<lambda>r. pt_post r \<noteq> pid) rows = filter (\<lambda>r. pt_post r \<noteq> pid) (post_tags (working c))" by blast
  then show ?thesis by (rule edits_tag_tables [OF assms(1) ok(2) _ _ ok(3)])
qed

text \<open>The revision that is captured has the view of the post.\<close>

lemma set_audience_rows_of:
  "set (audience_rows_of pid d) = (\<lambda>r. (pa_kind r, pa_audience r)) ` {r \<in> set (post_audiences d). pa_post r = pid}"
  by (auto simp: audience_rows_of_def)

lemma captured_documents:
  assumes "posts_wf d" and "find_post pid d = Some p"
  shows "posts_wf (captured p at d)"
    and "documents (captured p at d) =
      (documents d)(pid := map_option (\<lambda>(v, former). (v, former @ [v])) (documents d pid))"
proof -
  let ?d' = "captured p at d" and ?rid = "next_revision_id d"
  have pid: "post_id p = pid" "pid \<in> post_id ` set (posts d)"
    using find_post_SomeD [OF assms(2)] by auto
  note parts = captured_def Let_def pid(1)
  have subjects: "list_all (\<lambda>m. P (pm_subject m)) (post_media ?d')"
    if "list_all (\<lambda>m. P (pm_subject m)) (post_media d)" and "P (Revision_Media ?rid)" for P
    using that by (auto simp: parts list_all_iff)
  have media_wf: "list_all (\<lambda>m. case pm_subject m of Current_Media \<Rightarrow> True | Revision_Media rid \<Rightarrow> rid < ?rid + 1) (post_media ?d')"
    by (rule subjects) (use assms(1) in \<open>auto simp: posts_wf_def revisions_wf_def list_all_iff split: media_subject.splits\<close>)
  have less: "n < ?rid \<Longrightarrow> n < ?rid + 1" for n :: int by simp
  have "distinct (map revision_id (post_revisions ?d'))"
    using assms(1) by (auto simp: posts_wf_def revisions_wf_def list_all_iff)
  moreover have "list_all (\<lambda>r. revision_id r < ?rid + 1 \<and> post_id (revision_state r) \<in> post_id ` set (posts d)) (post_revisions ?d')"
    using assms(1) pid by (auto simp: posts_wf_def revisions_wf_def list_all_iff post_state.defs dest: less)
  moreover have "list_all (\<lambda>t. rt_revision t < ?rid + 1) (post_revision_tags ?d')"
    using assms(1) by (auto simp: parts posts_wf_def revisions_wf_def list_all_iff dest: less)
  moreover have "list_all (\<lambda>a. ra_revision a < ?rid + 1) (post_revision_audiences ?d')"
    using assms(1) by (auto simp: parts posts_wf_def revisions_wf_def list_all_iff dest: less)
  ultimately have "revisions_wf ?d'"
    using media_wf by (simp add: revisions_wf_def del: captured_revisions(1) cong: media_subject.case_cong)
  moreover have "tags_wf ?d'" "rows_wf ?d'"
    using assms(1) pid by (auto simp: posts_wf_def tags_wf_def rows_wf_def captured_def Let_def list_all_iff media_references_of_def current_media_def)
  ultimately show "posts_wf ?d'" by (simp add: posts_wf_def)
  have old: "revision_view ?d' r = revision_view d r" if "r \<in> set (post_revisions d)" for r
  proof -
    have "revision_id r \<noteq> ?rid" using assms(1) that by (auto simp: posts_wf_def revisions_wf_def list_all_iff)
    then have "{t \<in> set (post_revision_tags ?d'). rt_revision t = revision_id r} = {t \<in> set (post_revision_tags d). rt_revision t = revision_id r}"
      "{a \<in> set (post_revision_audiences ?d'). ra_revision a = revision_id r} = {a \<in> set (post_revision_audiences d). ra_revision a = revision_id r}"
      "{m \<in> set (post_media ?d'). pm_subject m = Revision_Media (revision_id r)} = {m \<in> set (post_media d). pm_subject m = Revision_Media (revision_id r)}"
      by (auto simp: parts)
    then show ?thesis by (simp add: revision_view_def)
  qed
  let ?new = "\<lparr>revision_id = ?rid, revision_state = post_state.truncate p, revision_captured_at = at\<rparr>"
  have fresh: "{t \<in> set (post_revision_tags d). rt_revision t = ?rid} = {}"
    "{a \<in> set (post_revision_audiences d). ra_revision a = ?rid} = {}"
    "{m \<in> set (post_media d). pm_subject m = Revision_Media ?rid} = {}"
    using assms(1) by (auto simp: posts_wf_def revisions_wf_def list_all_iff)
  have "rt_slug ` {t \<in> set (post_revision_tags ?d'). rt_revision t = ?rid} = post_slugs pid d"
    using fresh(1) by (force simp: parts image_iff simp flip: set_tags_of_post)
  moreover have "(\<lambda>a. (ra_kind a, ra_audience a)) ` {a \<in> set (post_revision_audiences ?d'). ra_revision a = ?rid} = set (audience_rows_of pid d)"
    using fresh(2) by (force simp: parts image_iff set_audience_rows_of)
  moreover have "pm_reference ` {m \<in> set (post_media ?d'). pm_subject m = Revision_Media ?rid} = set (media_references_of pid d)"
    using fresh(3) by (force simp: parts image_iff)
  ultimately have new: "revision_view ?d' ?new = current_view d p"
    by (simp add: revision_view_def current_view_def pid state_view_def post_state.defs)
  have former: "former_views q ?d' = former_views q d @ (if q = pid then [current_view d p] else [])" for q
    using old new pid by (auto simp: former_views_def post_state.defs)
  have "media_references_of q ?d' = media_references_of q d" for q
    by (simp add: parts media_references_of_def current_media_def comp_def)
  then have same: "current_view ?d' q = current_view d q" for q
    by (simp add: current_view_def post_slugs_def tag_slug_of_def [abs_def] audience_rows_of_def)
  show "documents ?d' = (documents d)(pid := map_option (\<lambda>(v, former). (v, former @ [v])) (documents d pid))"
    by (rule ext) (simp add: documents_def former same [abs_def] assms(2))
qed

subsection \<open>The writes refine the specification\<close>

lemma documents_found: "find_post pid d = Some p \<Longrightarrow> documents d pid = Some (current_view d p, former_views pid d)"
  by (simp add: documents_def)

lemma current_view_sel [simp]:
  "view_owner (current_view d p) = post_user p" "view_deleted_at (current_view d p) = post_deleted_at p"
  "view_published_at (current_view d p) = post_published_at p" "view_slug (current_view d p) = post_slug p"
  "view_tags (current_view d p) = post_slugs (post_id p) d"
  by (simp_all add: current_view_def state_view_def)

lemma captured_edit:
  assumes "posts_wf d" and "find_post pid d = Some p" and "edits pid f (captured p at d) d'"
  shows "documents d' = (documents d)(pid \<mapsto> (f (current_view d p), former_views pid d @ [current_view d p]))"
    and "posts_wf d'"
  using assms(3) captured_documents [OF assms(1,2)] by (auto simp: edits_def documents_found [OF assms(2)])

lemma revisedI:
  assumes "find_post pid d = Some p" and "post_user p = uid" and "post_deleted_at p = None"
    and "b \<longleftrightarrow> f (current_view d p) \<noteq> current_view d p"
    and "if b then documents d' = (documents d)(pid \<mapsto> (f (current_view d p), former_views pid d @ [current_view d p]))
      else documents d' = documents d"
  shows "revised pid uid f (documents d) = Some (b, documents d')"
proof (cases b)
  case True
  with assms show ?thesis by (simp add: revised_def documents_found revise_def)
next
  case False
  with assms have "documents d' = documents d" by simp
  with False assms(1-4) show ?thesis
    by (simp add: revised_def documents_found revise_def fun_upd_idem)
qed

lemma changes_iff:
  "view_deleted_at v = None \<Longrightarrow> changes change (view_published_at v) \<longleftrightarrow> lifecycle_view change now v \<noteq> v"
  by (cases v; cases change; cases "view_published_at v") auto

lemma lifecycle_refines:
  assumes "posts_wf (working c)" and "change_post db pid uid change now c = (Inr m, c')"
  shows "posts_wf (working c')"
    and "revised pid uid (lifecycle_view change now) (documents (working c)) =
      Some (mutation_changed m, documents (working c'))"
proof -
  let ?d = "working c"
  from assms(2) have "lifecycle_post db pid uid change now c = (Inr (Some m), c')"
    by (auto simp: change_post_def tx_simps split: option.splits)
  from lifecycle_post_okD [OF this] obtain p where p: "find_post pid ?d = Some p" "owns_active uid pid ?d"
    and ch: "mutation_changed m = changes change (post_published_at p)"
    and eff: "working c' = (if changes change (post_published_at p)
      then update_post_row pid (lifecycle_row change now) (captured p now ?d) else ?d)" by blast
  have own: "post_user p = uid" "post_deleted_at p = None" using p by (auto simp: owns_active_def)
  note cap = captured_documents [OF assms(1) p(1), of now]
  define f where "f = (case change of
      Publish_Change \<Rightarrow> (\<lambda>v. v\<lparr>view_published_at := Some now\<rparr>)
    | _ \<Rightarrow> lifecycle_view change now)"
  have "edits pid f (captured p now ?d) (update_post_row pid (lifecycle_row change now) (captured p now ?d))"
    by (rule edits_row) (use cap(1) p(1) in \<open>auto simp: f_def state_view_def bump_def split: post_lifecycle_change.splits\<close>)
  note 1 = captured_edit [OF assms(1) p(1) this]
  have same: "f (current_view ?d p) = lifecycle_view change now (current_view ?d p)" if "changes change (post_published_at p)"
    using that by (auto simp: f_def split: post_lifecycle_change.splits)
  show "posts_wf (working c')" using 1(2) assms(1) by (simp add: eff)
  show "revised pid uid (lifecycle_view change now) (documents ?d) = Some (mutation_changed m, documents (working c'))"
    by (rule revisedI [OF p(1) own]) (use 1(1) same own changes_iff [of "current_view ?d p" change now] in \<open>auto simp: eff ch\<close>)
qed

lemma sort_key_Nil_iff: "sort_key k xs = [] \<longleftrightarrow> xs = []"
proof -
  have "length (sort_key k xs) = length xs" by simp
  then show ?thesis by (cases xs; cases "sort_key k xs") simp_all
qed

lemma diff_empty_iff:
  "post_tag_diff (tags_of_post pid d) desired = ([], []) \<longleftrightarrow> label_slug ` set desired = post_slugs pid d"
proof -
  have "post_tag_diff (tags_of_post pid d) desired = ([], []) \<longleftrightarrow>
      (\<forall>label \<in> set desired. label_slug label \<in> post_slugs pid d) \<and>
      (\<forall>t \<in> set (tags_of_post pid d). post_tag_slug t \<in> label_slug ` set desired)"
    by (simp add: post_tag_diff_def set_tags_of_post sort_key_Nil_iff filter_empty_conv)
  also have "\<dots> \<longleftrightarrow> label_slug ` set desired \<subseteq> post_slugs pid d \<and> post_tag_slug ` set (tags_of_post pid d) \<subseteq> label_slug ` set desired"
    by blast
  finally show ?thesis unfolding set_tags_of_post by blast
qed

lemma set_tags_refines:
  assumes "posts_wf (working c)" and "set_post_tags db pid uid labels now c = (Inr u, c')"
  shows "posts_wf (working c') \<and>
    map_option snd (revised pid uid (\<lambda>v. v\<lparr>view_tags := label_slug ` set labels\<rparr>) (documents (working c))) =
      Some (documents (working c'))"
proof -
  let ?d = "working c" and ?f = "\<lambda>v. v\<lparr>view_tags := label_slug ` set labels\<rparr>"
  let ?diff = "post_tag_diff (tags_of_post pid ?d) labels"
  obtain p where p: "find_post pid ?d = Some p" and own: "post_user p = uid" "post_deleted_at p = None"
    using assms(2) by (auto simp: set_post_tags_def tx_simps split: if_splits)
  have view: "?f (current_view ?d p) \<noteq> current_view ?d p \<longleftrightarrow> ?diff \<noteq> ([], [])"
    using p by (auto simp: diff_empty_iff current_view_def state_view_def find_post_id)
  show ?thesis
  proof (cases "?diff = ([], [])")
    case True
    with assms(2) p own have "working c' = ?d" by (auto simp: set_post_tags_def tx_simps Let_def split: if_splits)
    with revisedI [OF p own, where b = False and f = ?f and d' = "working c'"] view True assms(1)
    show ?thesis by simp
  next
    case False
    with assms(2) p own obtain c0 rid c1 c2 c3 where
      cap: "capture_complete_post_revision pid now c0 = (Inr rid, c1)" and
      add: "add_post_tags pid (fst ?diff) c1 = (Inr (), c2)" and
      rem: "remove_post_tags pid (snd ?diff) c2 = (Inr (), c3)" and w0: "working c0 = ?d" and
      eff: "working c' = update_post_row pid (\<lambda>p. bump (p\<lparr>post_updated_at := now\<rparr>)) (working c3)"
      by (auto simp: set_post_tags_def tx_simps Let_def intro: that split: if_splits)
    have w1: "working c1 = captured p now ?d" using cap w0 p by (auto elim!: capture_okD)
    note wf1 = captured_documents(1) [OF assms(1) p, of now]
    have diff: "?diff = post_tag_diff (tags_of_post pid (working c1)) labels"
      by (simp add: w1 tags_of_post_cong [of "captured p now ?d" ?d])
    have tags: "edits pid ?f (captured p now ?d) (working c3)"
      using edits_tags [OF _ add rem diff] wf1 by (simp add: w1)
    then obtain p3 where "find_post pid (working c3) = Some p3" "posts_wf (working c3)"
      using p by (auto elim: edits_found simp: edits_wf)
    then have "edits pid (\<lambda>v. v) (working c3) (working c')"
      unfolding eff by (intro edits_row) (auto simp: state_view_def bump_def)
    from captured_edit [OF assms(1) p edits_trans [OF tags this]]
    have "documents (working c') = (documents ?d)(pid \<mapsto> (?f (current_view ?d p), former_views pid ?d @ [current_view ?d p]))"
      "posts_wf (working c')" .
    with revisedI [OF p own, where b = True and f = ?f and d' = "working c'"] view False show ?thesis by simp
  qed
qed

text \<open>Updating: what is compared, and the writes when it differs.\<close>

definition desired_diff :: "int \<Rightarrow> update_post_input \<Rightarrow> database \<Rightarrow> ustr list \<times> ustr list" where
  "desired_diff pid input d = post_tag_diff (tags_of_post pid d)
     (case update_tags input of Some labels \<Rightarrow> labels | None \<Rightarrow> map post_tag_display (tags_of_post pid d))"

definition update_is_noop :: "int \<Rightarrow> post_row \<Rightarrow> update_post_input \<Rightarrow> database \<Rightarrow> bool" where
  "update_is_noop pid p input d \<longleftrightarrow>
     update_scalar_is_noop p input \<and>
     desired_diff pid input d = ([], []) \<and>
     audiences_are_equal (audience_rows_of pid d) (update_audiences input) \<and>
     set (media_references_of pid d) = set (rendered_media (update_rendered input))"

lemma fetched_post_tags: "fetched_post pid d = Inr r \<Longrightarrow> record_tags r = tags_of_post pid d"
  by (auto simp: fetched_post_def decode_post_def find_post_id split: option.splits if_splits)

lemma update_checked_post_okD:
  assumes "update_checked_post E db pid input p (map post_tag_display (tags_of_post pid d)) (audience_rows_of pid d) c = (Inr m, c')"
    and "working c = d"
  shows "mutation_changed m \<longleftrightarrow> \<not> update_is_noop pid p input d"
    and "update_is_noop pid p input d \<Longrightarrow> working c' = d"
    and "\<not> update_is_noop pid p input d \<Longrightarrow> \<exists>c0 c1. working c0 = d \<and> working c' = working c1 \<and>
      apply_post_update E db pid input (if post_published_at p = None then update_slug input else post_slug p)
        (desired_diff pid input d) c0 = (Inr (), c1)"
proof -
  obtain previous c1 where f: "fetch_post pid c = (Inr previous, c1)"
    using assms(1) by (auto simp: update_checked_post_def tx_simps)
  have tags: "record_tags previous = tags_of_post pid d" and w1: "working c1 = d"
    using fetch_post_okD [OF f] assms(2) by (auto dest: fetched_post_tags)
  note body = assms(1) [unfolded update_checked_post_def]
  show "mutation_changed m \<longleftrightarrow> \<not> update_is_noop pid p input d"
    using body f tags w1 by (auto simp: update_is_noop_def tx_simps Let_def desired_diff_def split: if_splits)
  show "working c' = d" if "update_is_noop pid p input d"
    using that body f tags w1 by (auto simp: update_is_noop_def tx_simps Let_def desired_diff_def split: if_splits)
  assume changed: "\<not> update_is_noop pid p input d"
  obtain c4 c5 r where
    up: "apply_post_update E db pid input (if post_published_at p = None then update_slug input else post_slug p)
        (desired_diff pid input d) ((spend_fault c1)\<lparr>working := working c1\<rparr>) = (Inr (), c4)"
    and f2: "fetch_post pid c4 = (Inr r, c5)" and "c' = c5"
    using body f changed tags w1 by (auto simp: update_is_noop_def tx_simps Let_def desired_diff_def split: if_splits)
  with w1 fetch_post_okD [OF f2]
  show "\<exists>c0 c1. working c0 = d \<and> working c' = working c1 \<and>
      apply_post_update E db pid input (if post_published_at p = None then update_slug input else post_slug p)
        (desired_diff pid input d) c0 = (Inr (), c1)"
    by (intro exI [of _ "(spend_fault c1)\<lparr>working := working c1\<rparr>"] exI [of _ c4]) simp
qed

lemma update_post_okD:
  assumes "update_post E db pid editor input c = (Inr m, c')"
  obtains p c1 where "find_post pid (working c) = Some p"
    "update_checked_post E db pid input p (map post_tag_display (tags_of_post pid (working c)))
       (audience_rows_of pid (working c)) c1 = (Inr m, c')"
    "working c1 = working c" "post_user p = editor" "post_deleted_at p = None"
  using assms by (auto simp: update_post_def tx_simps intro: that split: if_splits)

text \<open>The labels of a post spell the tags they belong to.\<close>

lemma displayed_slugs:
  assumes "tags_wf d"
  shows "label_slug ` set (map post_tag_display (tags_of_post pid d)) = post_slugs pid d"
proof -
  have "label_slug (post_tag_display t) = post_tag_slug t" if "t \<in> set (tags_of_post pid d)" for t
  proof -
    from that obtain r where r: "r \<in> set (post_tags d)" "tag_slug_of d (pt_tag r) = Some (post_tag_slug t)"
      and "post_tag_display t = pt_display r"
      by (auto simp: tags_of_post_def List.map_filter_def)
    moreover have "tag_slug_of d (pt_tag r) = Some (label_slug (pt_display r))"
      using assms r(1) by (auto simp: tags_wf_def list_all_iff tag_slug_of_Some_iff)
    ultimately show ?thesis by simp
  qed
  then show ?thesis by (force simp: image_iff simp flip: set_tags_of_post)
qed

lemma case_published_at_final:
  "case_published_at (publication_clear u) (explicit_published_at u) existing now = final_published_at u existing now"
  by (cases "(u, existing, now)" rule: final_published_at.cases) (auto simp: case_published_at_def)

lemma desired_slugs:
  assumes "tags_wf d"
  shows "label_slug ` set (case update_tags input of Some labels \<Rightarrow> labels
      | None \<Rightarrow> map post_tag_display (tags_of_post pid d)) =
    (case update_tags input of None \<Rightarrow> post_slugs pid d | Some labels \<Rightarrow> label_slug ` set labels)"
  using displayed_slugs [OF assms, of pid] by (cases "update_tags input") simp_all

lemma distinct_audience_rows: "posts_wf d \<Longrightarrow> distinct (audience_rows_of pid d)"
  unfolding audience_rows_of_def posts_wf_def rows_wf_def
  by (auto simp: distinct_map inj_on_def intro!: post_audience_row.equality)

text \<open>A write is skipped exactly when the post has the view that is asked for.\<close>

lemma update_is_noop_iff:
  assumes "posts_wf d" and "find_post pid d = Some p"
  shows "update_is_noop pid p input d \<longleftrightarrow> updated_view input (current_view d p) = current_view d p"
proof -
  have tags: "tags_wf d" using assms(1) by (simp add: posts_wf_def)
  have "desired_diff pid input d = ([], []) \<longleftrightarrow>
      (case update_tags input of None \<Rightarrow> post_slugs pid d | Some labels \<Rightarrow> label_slug ` set labels) = post_slugs pid d"
    unfolding desired_diff_def diff_empty_iff desired_slugs [OF tags] ..
  moreover have "audiences_are_equal (audience_rows_of pid d) (update_audiences input) \<longleftrightarrow>
      set (target_rows (update_audiences input)) = set (audience_rows_of pid d)"
    unfolding audiences_are_equal_rows [OF distinct_audience_rows [OF assms(1)]] by (rule eq_commute)
  moreover have "update_scalar_is_noop p input \<longleftrightarrow>
      (let r = update_rendered input in
         rendered_title r = post_title p \<and> rendered_title_html r = post_rendered_title p \<and>
         (if post_published_at p = None then update_slug input else post_slug p) = post_slug p \<and>
         rendered_body r = post_body p \<and> rendered_format r = post_format p \<and>
         rendered_html r = post_rendered_html p \<and> update_summary input = post_summary p \<and>
         final_published_at (update_publish input) (post_published_at p) (update_clock input) = post_published_at p)"
    unfolding update_scalar_is_noop_def Let_def by (cases "post_published_at p") (intro iffI; elim conjE; intro conjI; simp)+
  moreover have "updated_view input (current_view d p) = current_view d p \<longleftrightarrow>
      (let r = update_rendered input in
         rendered_title r = post_title p \<and> rendered_title_html r = post_rendered_title p \<and>
         (if post_published_at p = None then update_slug input else post_slug p) = post_slug p \<and>
         rendered_body r = post_body p \<and> rendered_format r = post_format p \<and>
         rendered_html r = post_rendered_html p \<and> update_summary input = post_summary p \<and>
         final_published_at (update_publish input) (post_published_at p) (update_clock input) = post_published_at p \<and>
         (case update_tags input of None \<Rightarrow> post_slugs pid d | Some labels \<Rightarrow> label_slug ` set labels) = post_slugs pid d \<and>
         set (target_rows (update_audiences input)) = set (audience_rows_of pid d) \<and>
         set (rendered_media r) = set (media_references_of pid d))"
    using find_post_id [OF assms(2)]
    by (cases "update_tags input") (simp_all add: updated_view_def Let_def current_view_def state_view_def conj_ac)
  moreover have "set (media_references_of pid d) = set (rendered_media (update_rendered input)) \<longleftrightarrow>
      set (rendered_media (update_rendered input)) = set (media_references_of pid d)" by (rule eq_commute)
  ultimately show ?thesis unfolding update_is_noop_def Let_def by (simp only: conj_ac)
qed

lemma apply_post_update_okD:
  assumes "apply_post_update E db pid input slug diff c = (Inr (), c')"
  obtains c1 c2 c3 c4 c5 rid where
    "capture_complete_post_revision pid (update_clock input) c = (Inr rid, c1)"
    "write_updated_row E pid input slug c1 = (Inr (Some ()), c2)"
    "replace_post_audiences db pid (update_audiences input) c2 = (Inr (), c3)"
    "add_post_tags pid (fst diff) c3 = (Inr (), c4)"
    "remove_post_tags pid (snd diff) c4 = (Inr (), c5)"
    "replace_post_media pid (rendered_media (update_rendered input)) c5 = (Inr (), c')"
  using assms by (auto simp: apply_post_update_def tx_simps)

lemma edits_updated_row:
  assumes "posts_wf (working c)" and "find_post pid (working c) = Some p"
    and "write_updated_row E pid input slug c = (Inr (Some ()), c')"
  shows "edits pid (\<lambda>v. v\<lparr>view_title := rendered_title (update_rendered input),
      view_rendered_title := rendered_title_html (update_rendered input),
      view_slug := (if view_published_at v = None then update_slug input else view_slug v),
      view_body := rendered_body (update_rendered input), view_format := rendered_format (update_rendered input),
      view_html := rendered_html (update_rendered input), view_summary := update_summary input,
      view_published_at := final_published_at (update_publish input) (view_published_at v) (update_clock input)\<rparr>)
    (working c) (working c')"
proof -
  have eff: "working c' = update_post_row pid (updated_row E input slug) (working c)"
    using assms(2,3) by (auto simp: write_updated_row_def tx_simps Let_def split: if_splits)
  show ?thesis unfolding eff
    by (rule edits_row [OF assms(1,2)])
      (simp_all add: updated_row_def Let_def state_view_def case_published_at_final, simp_all add: bump_def)
qed

lemma apply_post_update_documents:
  assumes "posts_wf (working c)" and "find_post pid (working c) = Some p"
    and "apply_post_update E db pid input slug (desired_diff pid input (working c)) c = (Inr (), c')"
    and "distinct (target_rows (update_audiences input))"
  shows "documents (working c') = (documents (working c))(pid \<mapsto>
      (updated_view input (current_view (working c) p), former_views pid (working c) @ [current_view (working c) p]))"
    and "posts_wf (working c')"
proof -
  let ?d = "working c" and ?r = "update_rendered input"
  let ?labels = "case update_tags input of Some labels \<Rightarrow> labels | None \<Rightarrow> map post_tag_display (tags_of_post pid ?d)"
  obtain c1 c2 c3 c4 c5 rid where
    cap: "capture_complete_post_revision pid (update_clock input) c = (Inr rid, c1)" and
    row: "write_updated_row E pid input slug c1 = (Inr (Some ()), c2)" and
    aud: "replace_post_audiences db pid (update_audiences input) c2 = (Inr (), c3)" and
    add: "add_post_tags pid (fst (desired_diff pid input ?d)) c3 = (Inr (), c4)" and
    rem: "remove_post_tags pid (snd (desired_diff pid input ?d)) c4 = (Inr (), c5)" and
    med: "replace_post_media pid (rendered_media ?r) c5 = (Inr (), c')"
    using assms(3) by (rule apply_post_update_okD)
  have w1: "working c1 = captured p (update_clock input) ?d"
    using cap assms(2) by (auto elim!: capture_okD)
  note wf1 = captured_documents(1) [OF assms(1,2), of "update_clock input"]
  note e1 = edits_updated_row [of c1 pid p, OF _ _ row, unfolded w1, OF wf1, simplified, OF assms(2)]
  note e2 = edits_targets [OF edits_wf [OF e1] aud assms(4)]
  have "working c2 = update_post_row pid (updated_row E input slug) (working c1)"
    using row assms(2) by (auto simp: write_updated_row_def w1 tx_simps Let_def split: if_splits)
  then have "tags_of_post pid (working c3) = tags_of_post pid ?d"
    by (intro tags_of_post_cong) (simp_all add: replace_post_audiences_okD(1) [OF aud] w1)
  then have "desired_diff pid input ?d = post_tag_diff (tags_of_post pid (working c3)) ?labels"
    by (simp add: desired_diff_def)
  note e3 = edits_tags [OF edits_wf [OF e2] add rem this]
  note e13 = edits_trans [OF edits_trans [OF e1 e2] e3]
  obtain p5 where p5: "find_post pid (working c5) = Some p5"
    using e13 by (rule edits_found) (simp add: assms(2))
  then have "pid \<in> post_id ` set (posts (working c5))" by (auto dest: find_post_SomeD)
  note e = edits_trans [OF e13 edits_media [OF edits_wf [OF e13] med this]]
  note cap_edit = captured_edit [OF assms(1,2) e]
  show "posts_wf (working c')" by (rule cap_edit(2))
  have "label_slug ` set ?labels = (case update_tags input of None \<Rightarrow> post_slugs pid ?d | Some labels \<Rightarrow> label_slug ` set labels)"
    by (rule desired_slugs) (use assms(1) in \<open>simp add: posts_wf_def\<close>)
  then show "documents (working c') = (documents ?d)(pid \<mapsto>
      (updated_view input (current_view ?d p), former_views pid ?d @ [current_view ?d p]))"
    using find_post_id [OF assms(2)]
    by (cases "update_tags input") (simp_all add: cap_edit(1) updated_view_def Let_def)
qed

lemma update_refines:
  assumes "posts_wf (working c)" and "update_post E db pid uid input c = (Inr m, c')"
    and "distinct (target_rows (update_audiences input))"
  shows "posts_wf (working c') \<and> revised pid uid (updated_view input) (documents (working c)) =
      Some (mutation_changed m, documents (working c'))"
proof -
  let ?d = "working c"
  obtain p c1 where p: "find_post pid ?d = Some p" and
    up: "update_checked_post E db pid input p (map post_tag_display (tags_of_post pid ?d)) (audience_rows_of pid ?d) c1 = (Inr m, c')"
    and w1: "working c1 = ?d" and own: "post_user p = uid" "post_deleted_at p = None"
    using assms(2) by (rule update_post_okD)
  note checked = update_checked_post_okD [OF up w1] and noop = update_is_noop_iff [OF assms(1) p, of input]
  show ?thesis
  proof (cases "update_is_noop pid p input ?d")
    case True
    with revisedI [OF p own, where b = False and f = "updated_view input" and d' = "working c'"] checked noop assms(1)
    show ?thesis by simp
  next
    case False
    with checked(3) obtain c2 c3 where w2: "working c2 = ?d" "working c' = working c3" and
      app: "apply_post_update E db pid input (if post_published_at p = None then update_slug input else post_slug p)
        (desired_diff pid input ?d) c2 = (Inr (), c3)" by blast
    note docs = apply_post_update_documents [where c = c2, unfolded w2(1), OF assms(1) p app assms(3)]
    with revisedI [OF p own, where b = True and f = "updated_view input" and d' = "working c'"] checked(1) noop False w2
    show ?thesis by simp
  qed
qed

text \<open>Creating: the row, its children, and the key that was used for it.\<close>

lemma insert_new_post_okD:
  assumes "insert_new_post E db input now identity c = (Inr pid, c')"
  obtains c1 c2 where "write_post_children db input pid c1 = (Inr (), c2)"
    "(case create_key input of None \<Rightarrow> tx_return () | Some key \<Rightarrow> insert_idempotency_key (create_author input) key pid now) c2 = (Inr (), c')"
    "identity = pid" "find_post pid (working c) = None"
    "working c1 = (working c)\<lparr>posts := posts (working c) @ [new_post_row E pid input now]\<rparr>"
proof -
  have id: "post_id (new_post_row E pid input now) = pid" for pid by (simp add: new_post_row_def Let_def)
  obtain c1 c2 where "insert_post_row (new_post_row E identity input now) c = (Inr (Some pid), c1)"
    and ch: "write_post_children db input pid c1 = (Inr (), c2)"
    and key: "(case create_key input of None \<Rightarrow> tx_return () | Some key \<Rightarrow> insert_idempotency_key (create_author input) key pid now) c2 = (Inr (), c')"
    using assms unfolding insert_new_post_def
    by (cases "create_key input")
      (auto simp: tx_bind_ok_iff tx_map_err_ok_iff tx_throw_ok_iff tx_return_ok_iff tx_case_option_ok_iff split: if_splits)
  then have "identity = pid" "find_post pid (working c) = None"
    "working c1 = (working c)\<lparr>posts := posts (working c) @ [new_post_row E pid input now]\<rparr>"
    by (auto simp: insert_post_row_def tx_simps id split: if_splits)
  with that ch key show thesis by blast
qed

lemma write_post_in_tx_okD:
  assumes "write_post_in_tx E db input now c = (Inr pid, c')"
  obtains c0 c1 where "insert_new_post E db input now pid c1 = (Inr pid, c')" "working c0 = working c"
    "(case create_reserved_id input of Some pid \<Rightarrow> tx_return pid | None \<Rightarrow> reserve_id db) c0 = (Inr pid, c1)"
    "working c1 = (working c)\<lparr>last_post_id := last_post_id (working c1)\<rparr>"
    "\<forall>key. create_key input = Some key \<longrightarrow> idempotency_mapping (create_author input) key (working c) = None"
proof -
  obtain identity c0 c1 where new: "insert_new_post E db input now identity c1 = (Inr pid, c')"
    and "(case create_reserved_id input of Some pid \<Rightarrow> tx_return pid | None \<Rightarrow> reserve_id db) c0 = (Inr identity, c1)"
    and c0: "working c0 = working c"
    and key: "\<forall>key. create_key input = Some key \<longrightarrow> idempotency_mapping (create_author input) key (working c) = None"
    using assms unfolding write_post_in_tx_def
    by (cases "create_key input"; cases "create_reserved_id input") (auto simp: tx_simps intro: that)
  moreover from this(2) c0 have "working c1 = (working c)\<lparr>last_post_id := last_post_id (working c1)\<rparr>"
    by (auto simp: reserve_id_def tx_simps split: option.splits)
  moreover have "identity = pid" using new by (rule insert_new_post_okD)
  ultimately show thesis using that by blast
qed

lemma post_slugs_absent: "tags_wf d \<Longrightarrow> find_post pid d = None \<Longrightarrow> post_slugs pid d = {}"
  by (auto simp: tags_wf_def list_all_iff post_slugs_def find_post_None_iff)

lemma inserted_post:
  assumes "posts_wf d" and "find_post (post_id row) d = None"
    and "d' = d\<lparr>last_post_id := lid, posts := posts d @ [row]\<rparr>"
  shows "posts_wf d'" and "documents d' = (documents d)(post_id row \<mapsto> (state_view row {} {} {}, []))"
proof -
  let ?pid = "post_id row"
  have fresh: "?pid \<notin> post_id ` set (posts d)" using assms(2) by (simp add: find_post_None_iff)
  have "rows_wf d'" using assms(1) fresh by (auto simp: assms(3) posts_wf_def rows_wf_def list_all_iff)
  moreover have "tags_wf d'" using assms(1) by (auto simp: assms(3) posts_wf_def tags_wf_def list_all_iff)
  moreover have "revisions_wf d'"
    using assms(1) by (simp add: assms(3) posts_wf_def revisions_wf_def list_all_iff cong: media_subject.case_cong)
  ultimately show "posts_wf d'" by (simp add: posts_wf_def)
  have former: "former_views q d' = former_views q d" for q
    by (rule former_views_cong) (simp_all add: assms(3))
  have view: "current_view d' p = current_view d p" for p
    by (simp add: assms(3) current_view_def post_slugs_def tag_slug_of_def [abs_def] audience_rows_of_def media_references_of_def)
  have found: "find_post q d' = (if q = ?pid then Some row else find_post q d)" for q
    using assms(2) by (auto simp: find_post_def assms(3) find_append split: option.split)
  have none: "post_slugs ?pid d = {}" "audience_rows_of ?pid d = []" "media_references_of ?pid d = []" "former_views ?pid d = []"
  proof -
    have refs: "\<forall>r \<in> set (post_audiences d). pa_post r \<in> post_id ` set (posts d)"
      "\<forall>m \<in> set (post_media d). pm_post m \<in> post_id ` set (posts d)"
      "\<forall>r \<in> set (post_revisions d). post_id (revision_state r) \<in> post_id ` set (posts d)"
      using assms(1) by (simp_all add: posts_wf_def rows_wf_def revisions_wf_def list_all_iff)
    then have apart: "\<forall>r \<in> set (post_audiences d). pa_post r \<noteq> ?pid" "\<forall>m \<in> set (post_media d). pm_post m \<noteq> ?pid"
      "\<forall>r \<in> set (post_revisions d). post_id (revision_state r) \<noteq> ?pid"
      using fresh by metis+
    show "post_slugs ?pid d = {}" using assms(1,2) by (simp add: posts_wf_def post_slugs_absent)
    show "audience_rows_of ?pid d = []" using apart(1) by (simp add: audience_rows_of_def filter_empty_conv)
    show "media_references_of ?pid d = []"
      using apart(2) by (simp add: media_references_of_def current_media_def filter_empty_conv)
    show "former_views ?pid d = []" using apart(3) by (simp add: former_views_def filter_empty_conv)
  qed
  then have "current_view d row = state_view row {} {} {}" by (simp add: current_view_def)
  then show "documents d' = (documents d)(?pid \<mapsto> (state_view row {} {} {}, []))"
    by (rule_tac ext) (simp add: documents_def former view [abs_def] found none)
qed

lemma edits_new_tags:
  assumes "posts_wf (working c)" and "insert_post_tags pid labels c = (Inr u, c')"
  shows "edits pid (\<lambda>v. v\<lparr>view_tags := post_slugs pid (working c) \<union> label_slug ` set labels\<rparr>) (working c) (working c')"
proof -
  have "tags_wf (working c)" using assms(1) by (simp add: posts_wf_def)
  from add_post_tags_okD [OF assms(2) [unfolded insert_post_tags_def] this] obtain tags nt rows where
    eff: "working c' = (working c)\<lparr>stored_tags := stored_tags (working c) @ tags, next_tag_id := nt, post_tags := post_tags (working c) @ rows\<rparr>"
    and own: "\<forall>r \<in> set rows. pt_post r = pid" and wf: "tags_wf (working c')"
    and slugs: "post_slugs pid (working c') = post_slugs pid (working c) \<union> label_slug ` set labels"
    unfolding set_sort by blast
  show ?thesis
    by (rule edits_tag_tables [OF assms(1) wf eff _ slugs]) (use own in \<open>simp add: filter_empty_conv\<close>)
qed

lemma insert_key_documents:
  assumes "insert_idempotency_key uid key pid now c = (Inr u, c')"
  shows "documents (working c') = documents (working c)" and "posts_wf (working c') = posts_wf (working c)"
proof -
  have eff: "working c' = (working c)\<lparr>idempotency_keys := idempotency_keys (working c) @
      [\<lparr>ik_user = uid, ik_key = key, ik_post = pid, ik_created_at = now\<rparr>]\<rparr>"
    using assms by (auto simp: insert_idempotency_key_def tx_simps split: if_splits)
  show "documents (working c') = documents (working c)"
    by (rule ext) (simp add: eff documents_def find_post_def current_view_def [abs_def] former_views_def revision_view_def [abs_def]
        post_slugs_def tag_slug_of_def [abs_def] audience_rows_of_def media_references_of_def)
  show "posts_wf (working c') = posts_wf (working c)"
    by (simp add: eff posts_wf_def tags_wf_def rows_wf_def revisions_wf_def cong: media_subject.case_cong)
qed

lemma write_post_documents:
  assumes "posts_wf (working c)" and "write_post_in_tx E db input now c = (Inr pid, c')"
    and "distinct (target_rows (create_audiences input))"
  shows "documents (working c) pid = None"
    and "documents (working c') = (documents (working c))(pid \<mapsto> (created_view input, []))"
    and "posts_wf (working c')"
proof -
  let ?d = "working c" and ?row = "new_post_row E pid input now"
  obtain c0 c1 where new: "insert_new_post E db input now pid c1 = (Inr pid, c')"
    and w1: "working c1 = ?d\<lparr>last_post_id := last_post_id (working c1)\<rparr>"
    using assms(2) by (rule write_post_in_tx_okD)
  obtain c2 c3 where ch: "write_post_children db input pid c2 = (Inr (), c3)"
    and key: "(case create_key input of None \<Rightarrow> tx_return () | Some key \<Rightarrow> insert_idempotency_key (create_author input) key pid now) c3 = (Inr (), c')"
    and none1: "find_post pid (working c1) = None"
    and w2: "working c2 = (working c1)\<lparr>posts := posts (working c1) @ [?row]\<rparr>"
    using new by (rule insert_new_post_okD)
  have id: "post_id ?row = pid" by (simp add: new_post_row_def Let_def)
  have none: "find_post pid ?d = None" using none1 by (subst (asm) w1) (simp add: find_post_def)
  then show "documents ?d pid = None" by (simp add: documents_def)
  have eff2: "working c2 = ?d\<lparr>last_post_id := last_post_id (working c1), posts := posts ?d @ [?row]\<rparr>"
    unfolding w2 by (subst w1, subst w1) simp
  note ins = inserted_post [OF assms(1) _ eff2, unfolded id, OF none]
  obtain c4 c5 where a: "replace_post_audiences db pid (create_audiences input) c2 = (Inr (), c4)"
    and m: "replace_post_media pid (rendered_media (create_rendered input)) c4 = (Inr (), c5)"
    and t: "insert_post_tags pid (create_tags input) c5 = (Inr (), c3)"
    using ch by (auto simp: write_post_children_def tx_simps)
  note e1 = edits_targets [OF ins(1) a assms(3)]
  have "posts (working c4) = posts ?d @ [?row]" by (simp add: replace_post_audiences_okD(1) [OF a] eff2)
  then have "pid \<in> post_id ` set (posts (working c4))" using id by simp
  note e2 = edits_trans [OF e1 edits_media [OF edits_wf [OF e1] m this]]
  note e3 = edits_trans [OF e2 edits_new_tags [OF edits_wf [OF e2] t]]
  have "documents (working c5) pid = Some ((state_view ?row {} {} {})\<lparr>view_targets := set (target_rows (create_audiences input)),
      view_media := set (rendered_media (create_rendered input))\<rparr>, [])"
    using e2 by (simp add: edits_def ins(2))
  then have "post_slugs pid (working c5) = {}"
    by (auto simp: documents_def current_view_def state_view_def dest: find_post_id)
  then have docs3: "documents (working c3) = (documents ?d)(pid \<mapsto> (created_view input, []))"
    using e3 by (simp add: edits_def ins(2)) (simp add: created_view_def state_view_def new_post_row_def Let_def)
  have "documents (working c') = documents (working c3) \<and> posts_wf (working c') = posts_wf (working c3)"
    using key insert_key_documents by (cases "create_key input") (auto simp: tx_return_ok_iff)
  with docs3 edits_wf [OF e3] show "documents (working c') = (documents ?d)(pid \<mapsto> (created_view input, []))" "posts_wf (working c')"
    by simp_all
qed

text \<open>Every request of the store does what the specification says.\<close>

lemma discard_error_ok_iff: "discard_error m c = (Inr a, c') \<longleftrightarrow> m c = (Inr a, c')"
  by (simp add: discard_error_def tx_map_err_ok_iff)

lemma fetched_post_id: "fetched_post pid d = Inr r \<Longrightarrow> post_id (record_state r) = pid"
  by (auto simp: fetched_post_def decode_post_def post_state.defs find_post_id split: option.splits if_splits)

lemma create_refines:
  assumes "posts_wf (working c)" and "create_post E db input now c = (Inr r, c')"
    and "distinct (target_rows (create_audiences input))"
  shows "posts_wf (working c')"
    and "document_spec (Create_Post input now) (Created (post_id (record_state r))) (documents (working c)) (documents (working c'))"
proof -
  obtain pid c1 where w: "write_post_in_tx E db input now c = (Inr pid, c1)" and f: "fetch_post pid c1 = (Inr r, c')"
    using assms(2) by (auto simp: create_post_def tx_bind_ok_iff tx_map_err_ok_iff write_connection_ok_iff)
  note docs = write_post_documents [OF assms(1) w assms(3)] and fetched = fetch_post_okD [OF f]
  show "posts_wf (working c')" using docs(3) fetched by simp
  show "document_spec (Create_Post input now) (Created (post_id (record_state r))) (documents (working c)) (documents (working c'))"
    using docs(1,2) fetched fetched_post_id [of pid "working c1" r] by simp
qed

interpretation document_store: refining_store "serve_post E db" posts_wf post_request_ok documents document_spec
proof
  fix q :: post_request and c :: "database connection" and a c'
  assume ok: "post_request_ok q" and wf: "posts_wf (working c)" and step: "serve_post E db q c = (Inr a, c')"
  have "posts_wf (working c') \<and> document_spec q a (documents (working c)) (documents (working c'))"
  proof (cases q)
    case (Create_Post input now)
    with step obtain r where "create_post E db input now c = (Inr r, c')" "a = Created (post_id (record_state r))"
      by (auto simp: discard_error_ok_iff tx_bind_ok_iff tx_return_ok_iff)
    with create_refines [OF wf this(1)] ok Create_Post show ?thesis by simp
  next
    case (Lifecycle_Request change pid uid now)
    with step obtain m where "change_post db pid uid change now c = (Inr m, c')" "a = Changed (mutation_changed m)"
      by (auto simp: discard_error_ok_iff tx_bind_ok_iff tx_return_ok_iff)
    with lifecycle_refines [OF wf this(1)] Lifecycle_Request show ?thesis by simp
  next
    case (Update_Request pid uid input)
    with step obtain m where "update_post E db pid uid input c = (Inr m, c')" "a = Changed (mutation_changed m)"
      by (auto simp: discard_error_ok_iff tx_bind_ok_iff tx_return_ok_iff)
    with update_refines [OF wf this(1)] ok Update_Request show ?thesis by simp
  next
    case (Tags_Request pid uid labels now)
    with step obtain u where "set_post_tags db pid uid labels now c = (Inr u, c')" "a = Retagged"
      by (auto simp: discard_error_ok_iff tx_bind_ok_iff tx_return_ok_iff)
    with set_tags_refines [OF wf this(1)] Tags_Request show ?thesis by simp
  qed
  then show "posts_wf (working c')" "document_spec q a (documents (working c)) (documents (working c'))" by blast+
qed

text \<open>What a step of the specification keeps of every document.\<close>

definition keeps_versions :: "(int \<Rightarrow> document option) \<Rightarrow> (int \<Rightarrow> document option) \<Rightarrow> bool" where
  "keeps_versions docs docs' \<longleftrightarrow>
     (\<forall>pid v former. docs pid = Some (v, former) \<longrightarrow>
        (\<exists>v' former'. docs' pid = Some (v', former') \<and> prefix (former @ [v]) (former' @ [v']) \<and>
           view_owner v' = view_owner v \<and> (view_deleted_at v \<noteq> None \<longrightarrow> (v', former') = (v, former))))"

lemma keeps_versions_refl: "keeps_versions docs docs"
  by (simp add: keeps_versions_def)

lemma keeps_versions_trans:
  assumes "keeps_versions docs docs1" and "keeps_versions docs1 docs2"
  shows "keeps_versions docs docs2"
  unfolding keeps_versions_def
proof (intro allI impI)
  fix pid v former
  assume "docs pid = Some (v, former)"
  with assms(1) obtain v1 former1 where 1: "docs1 pid = Some (v1, former1)" "prefix (former @ [v]) (former1 @ [v1])"
    "view_owner v1 = view_owner v" "view_deleted_at v \<noteq> None \<Longrightarrow> (v1, former1) = (v, former)"
    unfolding keeps_versions_def by blast
  with assms(2) obtain v2 former2 where 2: "docs2 pid = Some (v2, former2)" "prefix (former1 @ [v1]) (former2 @ [v2])"
    "view_owner v2 = view_owner v1" "view_deleted_at v1 \<noteq> None \<Longrightarrow> (v2, former2) = (v1, former1)"
    unfolding keeps_versions_def by blast
  from prefix_order.trans [OF 1(2) 2(2)] 1(3,4) 2
  show "\<exists>v' former'. docs2 pid = Some (v', former') \<and> prefix (former @ [v]) (former' @ [v']) \<and>
      view_owner v' = view_owner v \<and> (view_deleted_at v \<noteq> None \<longrightarrow> (v', former') = (v, former))" by auto
qed

lemma revised_keeps_versions:
  assumes "revised pid uid f docs = Some (b, docs')" and "\<And>v. view_owner (f v) = view_owner v"
  shows "keeps_versions docs docs'"
proof -
  obtain v former where doc: "docs pid = Some (v, former)" "view_deleted_at v = None"
    "docs' = docs(pid \<mapsto> revise (f v) (v, former))"
    using assms(1) by (auto simp: revised_def split: option.splits if_splits)
  show ?thesis
    unfolding keeps_versions_def doc(3)
    using doc(1,2) assms(2) by (auto simp: revise_def prefix_def)
qed

lemma lifecycle_view_owner [simp]: "view_owner (lifecycle_view change now v) = view_owner v"
  by (cases change) simp_all

lemma document_spec_keeps_versions:
  assumes "document_spec q a docs docs'"
  shows "keeps_versions docs docs'"
proof (cases q)
  case (Create_Post input now)
  with assms show ?thesis by (cases a) (auto simp: keeps_versions_def)
next
  case (Lifecycle_Request change pid uid now)
  with assms show ?thesis by (cases a) (auto elim!: revised_keeps_versions)
next
  case (Update_Request pid uid input)
  with assms show ?thesis by (cases a) (auto elim!: revised_keeps_versions simp: updated_view_def Let_def)
next
  case (Tags_Request pid uid labels now)
  with assms show ?thesis by (cases a) (auto elim!: revised_keeps_versions)
qed

subsection \<open>Idempotent creation\<close>

text \<open>Only a creation writes the keys, and it appends its own.\<close>

lemma replace_media_keys:
  "replace_post_media pid references c = (Inr u, c') \<Longrightarrow> idempotency_keys (working c') = idempotency_keys (working c)"
  by (auto simp: replace_post_media_def insert_post_media_rows_def tx_simps split: if_splits)

lemma replace_audiences_keys:
  "replace_post_audiences db pid targets c = (Inr u, c') \<Longrightarrow> idempotency_keys (working c') = idempotency_keys (working c)"
  by (drule replace_post_audiences_okD(1)) simp

lemma delete_tag_keys:
  "delete_post_tag_by_slug pid slug c = (Inr u, c') \<Longrightarrow> idempotency_keys (working c') = idempotency_keys (working c)"
  by (auto simp: delete_post_tag_by_slug_def tx_simps)

lemma remove_tags_keys:
  "remove_post_tags pid slugs c = (Inr u, c') \<Longrightarrow> idempotency_keys (working c') = idempotency_keys (working c)"
  by (induction slugs arbitrary: c) (auto simp: tx_simps dest: delete_tag_keys)

lemma upsert_tag_keys:
  "upsert_tag slug c = (Inr u, c') \<Longrightarrow> idempotency_keys (working c') = idempotency_keys (working c)"
  by (auto simp: upsert_tag_def tx_simps split: option.splits)

lemma insert_tag_keys:
  "insert_post_tag pid tid label c = (Inr u, c') \<Longrightarrow> idempotency_keys (working c') = idempotency_keys (working c)"
  by (auto simp: insert_post_tag_def tx_simps split: if_splits)

lemma add_post_tags_keys:
  "add_post_tags pid labels c = (Inr u, c') \<Longrightarrow> idempotency_keys (working c') = idempotency_keys (working c)"
  by (induction labels arbitrary: c) (auto simp: tx_simps dest!: upsert_tag_keys insert_tag_keys)

lemma capture_keys:
  "capture_complete_post_revision pid now c = (Inr rid, c') \<Longrightarrow> idempotency_keys (working c') = idempotency_keys (working c)"
  by (erule capture_okD) simp

lemma apply_update_keys:
  assumes "apply_post_update E db pid input slug diff c = (Inr (), c')"
  shows "idempotency_keys (working c') = idempotency_keys (working c)"
proof -
  have "write_updated_row E pid input slug c1 = (Inr u, c2) \<Longrightarrow> idempotency_keys (working c2) = idempotency_keys (working c1)"
    for c1 c2 u by (auto simp: write_updated_row_def tx_simps Let_def split: option.splits if_splits)
  with assms show ?thesis
    by (elim apply_post_update_okD) (simp add: capture_keys replace_audiences_keys add_post_tags_keys remove_tags_keys replace_media_keys)
qed

lemma write_children_keys:
  "write_post_children db input pid c = (Inr (), c') \<Longrightarrow> idempotency_keys (working c') = idempotency_keys (working c)"
  by (auto simp: write_post_children_def insert_post_tags_def tx_bind_ok_iff
      dest!: replace_audiences_keys replace_media_keys add_post_tags_keys)

fun written_keys :: "post_request \<Rightarrow> int \<Rightarrow> idempotency_key_row list" where
  "written_keys (Create_Post input now) pid =
     (case create_key input of
        None \<Rightarrow> []
      | Some key \<Rightarrow> [\<lparr>ik_user = create_author input, ik_key = key, ik_post = pid, ik_created_at = now\<rparr>])"
| "written_keys _ pid = []"

fun creation_key :: "post_request \<Rightarrow> (int \<times> ustr) option" where
  "creation_key (Create_Post input now) = map_option (Pair (create_author input)) (create_key input)"
| "creation_key _ = None"

definition key_unused :: "int \<times> ustr \<Rightarrow> database \<Rightarrow> bool" where
  "key_unused = (\<lambda>(uid, key) d. idempotency_mapping uid key d = None)"

lemma create_post_keys:
  assumes "create_post E db input now c = (Inr r, c')"
  shows "\<exists>pid. idempotency_keys (working c') = idempotency_keys (working c) @ written_keys (Create_Post input now) pid"
    and "creation_key (Create_Post input now) = Some k \<Longrightarrow> key_unused k (working c)"
proof -
  obtain pid c1 where w: "write_post_in_tx E db input now c = (Inr pid, c1)" and f: "fetch_post pid c1 = (Inr r, c')"
    using assms by (auto simp: create_post_def tx_bind_ok_iff tx_map_err_ok_iff write_connection_ok_iff)
  obtain c2 where new: "insert_new_post E db input now pid c2 = (Inr pid, c1)"
    and w2: "working c2 = (working c)\<lparr>last_post_id := last_post_id (working c2)\<rparr>"
    and free: "\<forall>key. create_key input = Some key \<longrightarrow> idempotency_mapping (create_author input) key (working c) = None"
    using w by (rule write_post_in_tx_okD)
  obtain c3 c4 where ch: "write_post_children db input pid c3 = (Inr (), c4)"
    and key: "(case create_key input of None \<Rightarrow> tx_return () | Some key \<Rightarrow> insert_idempotency_key (create_author input) key pid now) c4 = (Inr (), c1)"
    and w3: "working c3 = (working c2)\<lparr>posts := posts (working c2) @ [new_post_row E pid input now]\<rparr>"
    using new by (rule insert_new_post_okD)
  have "idempotency_keys (working c2) = idempotency_keys (working c)" by (subst w2) simp
  with write_children_keys [OF ch] have "idempotency_keys (working c4) = idempotency_keys (working c)"
    by (simp add: w3)
  moreover have "idempotency_keys (working c1) = idempotency_keys (working c4) @ written_keys (Create_Post input now) pid"
    using key by (cases "create_key input") (auto simp: insert_idempotency_key_def tx_simps split: if_splits)
  ultimately show "\<exists>pid. idempotency_keys (working c') = idempotency_keys (working c) @ written_keys (Create_Post input now) pid"
    using fetch_post_okD [OF f] by (intro exI [of _ pid]) simp
  show "key_unused k (working c)" if "creation_key (Create_Post input now) = Some k"
    using that free by (auto simp: key_unused_def)
qed

lemma served_keys:
  assumes "serve_post E db q c = (Inr a, c')"
  shows "\<exists>pid. idempotency_keys (working c') = idempotency_keys (working c) @ written_keys q pid"
    and "creation_key q = Some k \<Longrightarrow> key_unused k (working c)"
proof -
  have "(\<exists>pid. idempotency_keys (working c') = idempotency_keys (working c) @ written_keys q pid) \<and>
      (creation_key q = Some k \<longrightarrow> key_unused k (working c))" for k
  proof (cases q)
    case (Create_Post input now)
    with assms obtain r where "create_post E db input now c = (Inr r, c')"
      by (auto simp: discard_error_ok_iff tx_bind_ok_iff tx_return_ok_iff)
    from create_post_keys [OF this] Create_Post show ?thesis by simp
  next
    case (Lifecycle_Request change pid uid now)
    with assms obtain m where "lifecycle_post db pid uid change now c = (Inr (Some m), c')"
      by (auto simp: discard_error_ok_iff change_post_def tx_bind_ok_iff tx_return_ok_iff tx_map_err_ok_iff
          tx_throw_ok_iff split: option.splits if_splits)
    from lifecycle_post_okD [OF this] have "idempotency_keys (working c') = idempotency_keys (working c)"
      by (auto split: if_splits)
    with Lifecycle_Request show ?thesis by simp
  next
    case (Update_Request pid uid input)
    with assms obtain m where "update_post E db pid uid input c = (Inr m, c')"
      by (auto simp: discard_error_ok_iff tx_bind_ok_iff tx_return_ok_iff)
    then obtain p c1 where up: "update_checked_post E db pid input p (map post_tag_display (tags_of_post pid (working c)))
        (audience_rows_of pid (working c)) c1 = (Inr m, c')" and w1: "working c1 = working c"
      by (rule update_post_okD)
    from update_checked_post_okD(2,3) [OF up w1] have "idempotency_keys (working c') = idempotency_keys (working c)"
      by (cases "update_is_noop pid p input (working c)") (auto dest!: apply_update_keys)
    with Update_Request show ?thesis by simp
  next
    case (Tags_Request pid uid labels now)
    with assms obtain u where "set_post_tags db pid uid labels now c = (Inr u, c')"
      by (auto simp: discard_error_ok_iff tx_bind_ok_iff tx_return_ok_iff)
    then have "idempotency_keys (working c') = idempotency_keys (working c)"
      by (auto simp: set_post_tags_def tx_simps Let_def split: if_splits dest!: capture_keys add_post_tags_keys remove_tags_keys)
    with Tags_Request show ?thesis by simp
  qed
  then show "\<exists>pid. idempotency_keys (working c') = idempotency_keys (working c) @ written_keys q pid"
    "creation_key q = Some k \<Longrightarrow> key_unused k (working c)" by blast+
qed

lemma key_unused_iff: "key_unused (uid, key) d \<longleftrightarrow> (\<forall>r \<in> set (idempotency_keys d). \<not> (ik_user r = uid \<and> ik_key r = key))"
  by (auto simp: key_unused_def idempotency_mapping_def find_None_iff)

interpretation creation_keys: single_use "serve_post E db" "\<lambda>_. True" creation_key key_unused
proof
  fix q :: post_request and c :: "database connection" and a c' and k :: "int \<times> ustr"
  assume step: "serve_post E db q c = (Inr a, c')"
  note keys = served_keys [OF step]
  obtain uid key where k: "k = (uid, key)" by (cases k)
  from keys(1) obtain pid where eff: "idempotency_keys (working c') = idempotency_keys (working c) @ written_keys q pid" ..
  show "creation_key q = Some k \<Longrightarrow> key_unused k (working c)" by (rule keys(2))
  show "creation_key q = Some k \<Longrightarrow> \<not> key_unused k (working c')"
    by (cases q) (auto simp: k key_unused_iff eff)
  show "\<not> key_unused k (working c) \<Longrightarrow> \<not> key_unused k (working c')"
    by (auto simp: k key_unused_iff eff)
qed simp

subsection \<open>Properties\<close>

text \<open>
  C2: the post store refines the specification. For every sequence of creations, updates, changes of
  the life cycle and tag replacements, in scopes that fail anywhere, the database stays well-formed
  and what happened to the posts is what the specification of versioned documents does for the
  requests that were confirmed (and for those whose acknowledgement was lost and that were
  committed): only the owner of a live post changes it, a request for the view that is there changes
  nothing and says so, every other one replaces the view and appends the former one to the history.
\<close>

theorem post_store_refines_documents:
  assumes "posts_wf d" and "list_all (\<lambda>(env, q). post_request_ok q) qs"
  shows "posts_wf (snd (run_all db (map (\<lambda>(env, q). (env, serve_post E db q)) qs) d)) \<and>
    explains document_spec (map snd qs) (fst (run_all db (map (\<lambda>(env, q). (env, serve_post E db q)) qs) d))
      (documents d) (documents (snd (run_all db (map (\<lambda>(env, q). (env, serve_post E db q)) qs) d)))"
  by (rule document_store.run_all_refines [OF assms]) simp

text \<open>
  C3: no version of a post is ever lost. Whatever sequence of requests runs, a post keeps its owner,
  and its former versions with the current one are a prefix of the versions afterwards; a deleted
  post never changes again.
\<close>

theorem versions_never_lost:
  assumes "posts_wf d" and "list_all (\<lambda>(env, q). post_request_ok q) qs"
  shows "keeps_versions (documents d) (documents (snd (run_all db (map (\<lambda>(env, q). (env, serve_post E db q)) qs) d)))"
proof -
  obtain rs d' where run: "run_all db (map (\<lambda>(env, q). (env, serve_post E db q)) qs) d = (rs, d')" by fastforce
  with document_store.run_all_refines [OF assms run]
  have "explains document_spec (map snd qs) rs (documents d) (documents d')" by blast
  then have "keeps_versions (documents d) (documents d')"
    by (rule explains_rel) (auto intro: keeps_versions_refl keeps_versions_trans document_spec_keeps_versions)
  with run show ?thesis by simp
qed

text \<open>
  C24: an idempotency key creates at most one post. Of all the creations of one author with one key, in
  any sequence of scopes with any other requests between them, at most one is confirmed.
\<close>

theorem created_once_per_key:
  "confirmed_count (\<lambda>(env, q). creation_key q = Some k) qs
     (fst (run_all db (map (\<lambda>(env, q). (env, serve_post E db q)) qs) d)) \<le> 1"
  by (rule creation_keys.confirmed_at_most_once) simp

text \<open>Witnesses: deleting the post of \<open>subscribers_post\<close> twice.\<close>

definition example_post_env :: post_env where
  "example_post_env = \<lparr>case_fold = (\<lambda>c. [c]), content_digest = (\<lambda>_. lit ''tag'')\<rparr>"

definition two_deletions :: "(scope_env \<times> post_request) list" where
  "two_deletions = [(clean_env, Lifecycle_Request SoftDelete_Change 7 1 5), (clean_env, Lifecycle_Request SoftDelete_Change 7 1 6)]"

lemma subscribers_post_posts_wf: "posts_wf subscribers_post"
  by (simp add: posts_wf_def tags_wf_def rows_wf_def revisions_wf_def subscribers_post_defs)

lemma run_two_deletions:
  "fst (run_all Sqlite (map (\<lambda>(env, q). (env, serve_post example_post_env Sqlite q)) two_deletions) subscribers_post) =
     [Inr (Confirmed (Changed True)), Inl (Operation ())]"
  by (simp add: two_deletions_def run_def clean_env_def open_connection_def discard_error_def change_post_def
      lifecycle_post_def capture_complete_post_revision_def insert_revision_def insert_revision_tags_def
      insert_revision_audiences_def insert_revision_media_def fetch_post_def fetched_post_def decode_post_def find_post_def
      find_user_def tags_of_post_def List.map_filter_simps tx_eval classify_commit_result_def subscribers_post_defs
      update_post_row_def update_where_def bump_def post_state.defs titles_match_def
      Let_def revision_audience_valid_def media_references_of_def current_media_def has_public_audience_def)

lemma post_store_refines_documents_witness:
  "explains document_spec
     [Lifecycle_Request SoftDelete_Change 7 1 5, Lifecycle_Request SoftDelete_Change 7 1 6]
     [Inr (Confirmed (Changed True)), Inl (Operation ())] (documents subscribers_post)
     (documents (snd (run_all Sqlite
       (map (\<lambda>(env, q). (env, serve_post example_post_env Sqlite q)) two_deletions) subscribers_post)))"
  using post_store_refines_documents [OF subscribers_post_posts_wf, of two_deletions Sqlite example_post_env]
  unfolding run_two_deletions by (simp add: two_deletions_def)

lemma versions_never_lost_witness:
  "keeps_versions (documents subscribers_post) (documents (snd (run_all Sqlite
       (map (\<lambda>(env, q). (env, serve_post example_post_env Sqlite q)) two_deletions) subscribers_post))) \<and>
   documents subscribers_post 7 \<noteq> None"
  using versions_never_lost [OF subscribers_post_posts_wf, of two_deletions Sqlite example_post_env]
  by (simp add: two_deletions_def documents_def find_post_def subscribers_post_defs)

end
