(* ===== verification/Permalinks.thy ===== *)
theory Permalinks
  imports Audiences
begin

section \<open>Permalinks\<close>

text \<open>
  The calendar dates of \<^verbatim>\<open>common/src/time.rs\<close> and the routes of
  \<^verbatim>\<open>common/src/permalink_route.rs\<close>. The calendar itself belongs to the time library and
  to the database: which dates exist, the UTC date of an instant, and what \<^verbatim>\<open>date()\<close> of a
  stored instant spells in SQL are the fields of a parameter. A byte of a date that is not ASCII
  fails the parser wherever it stands, so it reads code points.
\<close>

record civil_date =
  civil_year :: int
  civil_month :: nat
  civil_day :: nat

record calendar =
  civil_valid :: "int \<Rightarrow> nat \<Rightarrow> nat \<Rightarrow> bool"
  utc_date :: "instant \<Rightarrow> civil_date"
  sql_date :: "instant \<Rightarrow> ustr"

definition date_valid :: "calendar \<Rightarrow> civil_date \<Rightarrow> bool" where
  "date_valid C date \<longleftrightarrow> civil_valid C (civil_year date) (civil_month date) (civil_day date)"

subsection \<open>The text of a date\<close>

definition pad :: "nat \<Rightarrow> ustr \<Rightarrow> ustr" where
  "pad w s = replicate (w - length s) 48 @ s"

text \<open>\<^verbatim>\<open>{:0w}\<close> counts the sign; the ISO form has six digits after a minus.\<close>

definition pad_signed :: "nat \<Rightarrow> int \<Rightarrow> ustr" where
  "pad_signed w n = (if n < 0 then 45 # pad (w - 1) (decimal (nat (- n))) else pad w (decimal (nat n)))"

definition date_text :: "civil_date \<Rightarrow> ustr" where
  "date_text date =
     (if civil_year date < 0 then 45 # pad 6 (decimal (nat (- civil_year date)))
      else pad 4 (decimal (nat (civil_year date)))) @
     [45] @ pad 2 (decimal (civil_month date)) @ [45] @ pad 2 (decimal (civil_day date))"

definition from_ymd :: "calendar \<Rightarrow> int \<Rightarrow> nat \<Rightarrow> nat \<Rightarrow> civil_date option" where
  "from_ymd C year month day =
     (if - 32768 \<le> year \<and> year \<le> 32767 \<and> month \<le> 127 \<and> day \<le> 127 \<and> civil_valid C year month day
      then Some \<lparr>civil_year = year, civil_month = month, civil_day = day\<rparr> else None)"

definition parse_decimal :: "ustr \<Rightarrow> nat option" where
  "parse_decimal s =
     (if list_all is_ascii_digit s then Some (foldl (\<lambda>n c. 10 * n + (c - 48)) 0 s) else None)"

definition slice :: "nat \<Rightarrow> nat \<Rightarrow> ustr \<Rightarrow> ustr" where
  "slice i j s = take (j - i) (drop i s)"

definition parse_permalink_date :: "calendar \<Rightarrow> ustr \<Rightarrow> civil_date option" where
  "parse_permalink_date C s =
     (if length s = 10 \<and> s ! 4 = 45 \<and> s ! 7 = 45 then
        Option.bind (parse_decimal (slice 0 4 s)) (\<lambda>year.
        Option.bind (parse_decimal (slice 5 7 s)) (\<lambda>month.
        Option.bind (parse_decimal (slice 8 10 s)) (\<lambda>day. from_ymd C (int year) month day)))
      else if length s = 13 \<and> s ! 0 = 45 \<and> s ! 7 = 45 \<and> s ! 10 = 45 then
        Option.bind (parse_decimal (slice 1 7 s)) (\<lambda>year.
        if year = 0 then None
        else
          Option.bind (parse_decimal (slice 8 10 s)) (\<lambda>month.
          Option.bind (parse_decimal (slice 11 13 s)) (\<lambda>day. from_ymd C (- int year) month day)))
      else None)"

subsection \<open>Routes\<close>

record permalink_route =
  route_username :: ustr
  route_date :: civil_date
  route_slug :: ustr

definition parse_i32 :: "ustr \<Rightarrow> int option" where
  "parse_i32 s =
     (if s \<noteq> [] \<and> hd s = 45 then
        (case digits_value (tl s) of
           None \<Rightarrow> None
         | Some n \<Rightarrow> if n \<le> 2147483648 then Some (- int n) else None)
      else map_option int (parse_unsigned 2147483647 s))"

definition parse_u32 :: "ustr \<Rightarrow> nat option" where
  "parse_u32 = parse_unsigned 4294967295"

text \<open>The parser of slugs normalizes with Unicode libraries and is an argument.\<close>

definition parse_permalink_route :: "calendar \<Rightarrow> (ustr \<Rightarrow> ustr option) \<Rightarrow>
    ustr \<Rightarrow> ustr \<Rightarrow> ustr \<Rightarrow> ustr \<Rightarrow> ustr \<Rightarrow> permalink_route option" where
  "parse_permalink_route C parse_slug username year month day slug =
     Option.bind (parse_username username) (\<lambda>u.
     Option.bind (parse_i32 year) (\<lambda>y.
     Option.bind (parse_u32 month) (\<lambda>m.
     Option.bind (parse_u32 day) (\<lambda>d.
     Option.bind (from_ymd C y m d) (\<lambda>date.
     map_option (\<lambda>sl. \<lparr>route_username = u, route_date = date, route_slug = sl\<rparr>) (parse_slug slug))))))"

definition canonical_permalink_path :: "ustr \<Rightarrow> civil_date \<Rightarrow> ustr \<Rightarrow> ustr" where
  "canonical_permalink_path username date slug =
     [47, 126] @ username @ [47] @ pad_signed 4 (civil_year date) @ [47] @
     pad 2 (decimal (civil_month date)) @ [47] @ pad 2 (decimal (civil_day date)) @ [47] @ slug"

definition canonical_path :: "permalink_route \<Rightarrow> ustr" where
  "canonical_path route = canonical_permalink_path (route_username route) (route_date route) (route_slug route)"

subsection \<open>Padded numbers\<close>

lemma length_decimal: "0 < w \<Longrightarrow> n < 10 ^ w \<Longrightarrow> length (decimal n) \<le> w"
proof (induction w arbitrary: n)
  case 0
  then show ?case by simp
next
  case (Suc w)
  show ?case
  proof (cases "n < 10")
    case True
    then show ?thesis by (simp add: decimal.simps [of n])
  next
    case False
    with Suc.prems have "0 < w" by (cases w) auto
    moreover have "n div 10 < 10 ^ w" using Suc.prems by (simp add: less_mult_imp_div_less mult.commute)
    ultimately show ?thesis using Suc.IH False by (simp add: decimal.simps [of n])
  qed
qed

lemma length_pad: "0 < w \<Longrightarrow> n < 10 ^ w \<Longrightarrow> length (pad w (decimal n)) = w"
  using length_decimal [of w n] by (simp add: pad_def)

lemma pad_digits: "list_all is_ascii_digit (pad w (decimal n))"
  using decimal_digits [of n] by (auto simp: pad_def list_all_iff is_ascii_digit_def)

lemma value_pad: "foldl (\<lambda>n c. 10 * n + (c - 48)) 0 (pad w (decimal n)) = n"
proof -
  have "foldl (\<lambda>n c. 10 * n + (c - 48)) 0 (replicate k 48) = (0::nat)" for k
    by (induction k) auto
  moreover have "foldl (\<lambda>n c. 10 * n + (c - 48)) 0 (decimal n) = n"
    using digits_value_decimal [of n] decimal_digits [of n] by (simp add: digits_value_def)
  ultimately show ?thesis by (simp add: pad_def)
qed

lemma parse_decimal_pad [simp]: "parse_decimal (pad w (decimal n)) = Some n"
  by (simp add: parse_decimal_def pad_digits value_pad)

lemma pad_not_Nil [simp]: "pad w (decimal n) \<noteq> []"
  using decimal_digits [of n] by (simp add: pad_def)

lemma digits_value_pad [simp]: "digits_value (pad w (decimal n)) = Some n"
  by (simp add: digits_value_def pad_digits value_pad)

lemma hd_pad: "hd (pad w (decimal n)) \<noteq> 43" "hd (pad w (decimal n)) \<noteq> 45"
proof -
  have "is_ascii_digit (hd (pad w (decimal n)))"
    using pad_digits [of w n] hd_in_set [OF pad_not_Nil, of w n] unfolding list_all_iff by blast
  then show "hd (pad w (decimal n)) \<noteq> 43" "hd (pad w (decimal n)) \<noteq> 45" by (auto simp: is_ascii_digit_def)
qed

lemma parse_unsigned_pad: "n \<le> limit \<Longrightarrow> parse_unsigned limit (pad w (decimal n)) = Some n"
  by (simp add: parse_unsigned_def hd_pad)

lemma parse_i32_pad_signed: "- 9999 \<le> n \<Longrightarrow> n \<le> 9999 \<Longrightarrow> parse_i32 (pad_signed w n) = Some n"
  by (auto simp: parse_i32_def pad_signed_def hd_pad parse_unsigned_pad)

subsection \<open>Round trips\<close>

text \<open>What the time library documents of its dates.\<close>

definition calendar_ok :: "calendar \<Rightarrow> bool" where
  "calendar_ok C \<longleftrightarrow>
     (\<forall>y m d. civil_valid C y m d \<longrightarrow> - 9999 \<le> y \<and> y \<le> 9999 \<and> 1 \<le> m \<and> m \<le> 12 \<and> 1 \<le> d \<and> d \<le> 31) \<and>
     (\<forall>t. date_valid C (utc_date C t))"

lemma calendar_okD:
  assumes "calendar_ok C" and "date_valid C date"
  shows "- 9999 \<le> civil_year date" "civil_year date \<le> 9999" "1 \<le> civil_month date" "civil_month date \<le> 12"
    "1 \<le> civil_day date" "civil_day date \<le> 31"
  using assms by (auto simp: calendar_ok_def date_valid_def)

lemma from_ymd_date:
  "calendar_ok C \<Longrightarrow> date_valid C date \<Longrightarrow>
     from_ymd C (civil_year date) (civil_month date) (civil_day date) = Some date"
  using calendar_okD [of C date] by (simp add: from_ymd_def date_valid_def)

lemma slice_append:
  "slice (length xs + i) (length xs + j) (xs @ ys) = slice i j ys"
  "j \<le> length xs \<Longrightarrow> slice i j (xs @ ys) = slice i j xs"
  by (auto simp: slice_def)

lemma split_date:
  assumes "length y = w" and "length m = 2" and "length d = 2"
  shows "length (y @ [45] @ m @ [45] @ d) = w + 6"
    and "(y @ [45] @ m @ [45] @ d) ! w = 45" and "(y @ [45] @ m @ [45] @ d) ! (w + 3) = 45"
    and "slice 0 w (y @ [45] @ m @ [45] @ d) = y"
    and "slice (w + 1) (w + 3) (y @ [45] @ m @ [45] @ d) = m"
    and "slice (w + 4) (w + 6) (y @ [45] @ m @ [45] @ d) = d"
  using assms by (auto simp: slice_def nth_append)

lemma parse_date_text:
  assumes "calendar_ok C" and "date_valid C date"
  shows "parse_permalink_date C (date_text date) = Some date"
proof -
  note B = calendar_okD [OF assms]
  let ?m = "pad 2 (decimal (civil_month date))" and ?d = "pad 2 (decimal (civil_day date))"
  have md: "length ?m = 2" "length ?d = 2" using B by (simp_all add: length_pad)
  show ?thesis
  proof (cases "civil_year date < 0")
    case False
    let ?y = "pad 4 (decimal (nat (civil_year date)))"
    have y: "length ?y = 4" using B False by (simp add: length_pad)
    have t: "date_text date = ?y @ [45] @ ?m @ [45] @ ?d" using False by (simp add: date_text_def)
    show ?thesis
      using split_date [OF y md] False B from_ymd_date [OF assms]
      unfolding t parse_permalink_date_def by simp
  next
    case True
    let ?y = "45 # pad 6 (decimal (nat (- civil_year date)))"
    have y: "length ?y = 7" using B True by (simp add: length_pad)
    have t: "date_text date = ?y @ [45] @ ?m @ [45] @ ?d" using True by (simp add: date_text_def)
    have s: "slice 1 7 (date_text date) = pad 6 (decimal (nat (- civil_year date)))"
      using y by (simp add: t slice_def)
    have "length (date_text date) = 13" "date_text date ! 0 = 45" "date_text date ! 7 = 45" "date_text date ! 10 = 45"
      "slice 8 10 (date_text date) = ?m" "slice 11 13 (date_text date) = ?d"
      using split_date [OF y md] unfolding t by simp_all
    then show ?thesis
      unfolding parse_permalink_date_def s using True B from_ymd_date [OF assms] by simp
  qed
qed

lemma parse_route_segments:
  assumes "calendar_ok C" and "date_valid C date" and "parse_username u = Some u" and "parse_slug slug = Some slug"
  shows "parse_permalink_route C parse_slug u (pad_signed 4 (civil_year date)) (pad 2 (decimal (civil_month date)))
      (pad 2 (decimal (civil_day date))) slug =
    Some \<lparr>route_username = u, route_date = date, route_slug = slug\<rparr>"
  using calendar_okD [OF assms(1,2)] from_ymd_date [OF assms(1,2)] assms(3,4)
  by (simp add: parse_permalink_route_def parse_i32_pad_signed parse_u32_def parse_unsigned_pad)

text \<open>
  the text a date is stored, compared and sent as reads back as the date, for every date the
  time library has, years before the common era included; so the date clause of a permalink query
  compares dates and not spellings.
\<close>

theorem permalink_date_roundtrip:
  assumes "calendar_ok C" and "date_valid C date"
  shows "parse_permalink_date C (date_text date) = Some date"
  by (rule parse_date_text [OF assms])

text \<open>
  C36: the five segments of the canonical path of a post parse to the route they were made from.
\<close>

theorem permalink_route_roundtrip:
  assumes "calendar_ok C" and "date_valid C date" and "parse_username u = Some u" and "parse_slug slug = Some slug"
  shows "\<exists>year month day.
    canonical_permalink_path u date slug = [47, 126] @ u @ [47] @ year @ [47] @ month @ [47] @ day @ [47] @ slug \<and>
    parse_permalink_route C parse_slug u year month day slug =
      Some \<lparr>route_username = u, route_date = date, route_slug = slug\<rparr>"
  unfolding canonical_permalink_path_def using parse_route_segments [of C date u parse_slug slug] assms by blast

subsection \<open>An instance\<close>

definition example_calendar :: calendar where
  "example_calendar = \<lparr>
     civil_valid = (\<lambda>y m d. - 9999 \<le> y \<and> y \<le> 9999 \<and> 1 \<le> m \<and> m \<le> 12 \<and> 1 \<le> d \<and> d \<le> 28),
     utc_date = (\<lambda>t. \<lparr>civil_year = 2026, civil_month = 1, civil_day = 2\<rparr>),
     sql_date = (\<lambda>t. lit ''2026-01-02'')\<rparr>"

lemma example_calendar_ok: "calendar_ok example_calendar"
  by (simp add: calendar_ok_def example_calendar_def date_valid_def)

lemma permalink_date_roundtrip_witness:
  "parse_permalink_date example_calendar (lit ''-000044-03-15'') =
     Some \<lparr>civil_year = - 44, civil_month = 3, civil_day = 15\<rparr>"
proof -
  let ?date = "\<lparr>civil_year = - 44, civil_month = 3, civil_day = 15\<rparr>"
  have d4: "decimal 4 = [52]" and d3: "decimal 3 = [51]" and d1: "decimal 1 = [49]"
    by (subst decimal.simps, simp)+
  have four: "replicate 4 x = [x, x, x, x]" for x :: nat by (simp add: numeral_eq_Suc)
  have d44: "decimal 44 = [52, 52]" and d15: "decimal 15 = [49, 53]"
    by (subst decimal.simps, simp add: d4 d1 [simplified])+
  have "date_text ?date = lit ''-000044-03-15''"
    by (simp add: date_text_def pad_def d44 d3 d15 four)
  moreover have "parse_permalink_date example_calendar (date_text ?date) = Some ?date"
    by (rule permalink_date_roundtrip [OF example_calendar_ok]) (simp add: date_valid_def example_calendar_def)
  ultimately show ?thesis by simp
qed

lemma permalink_route_roundtrip_witness:
  "\<exists>year month day.
     parse_permalink_route example_calendar Some (lit ''ada'') year month day (lit ''hello'') =
     Some \<lparr>route_username = lit ''ada'', route_date = \<lparr>civil_year = 2026, civil_month = 1, civil_day = 2\<rparr>,
       route_slug = lit ''hello''\<rparr>"
proof -
  let ?date = "\<lparr>civil_year = 2026, civil_month = 1, civil_day = 2\<rparr>"
  have "date_valid example_calendar ?date" by (simp add: date_valid_def example_calendar_def)
  moreover have "parse_username (lit ''ada'') = Some (lit ''ada'')"
    by (simp add: parse_username_def is_token_char_def ascii_defs)
  ultimately show ?thesis
    using permalink_route_roundtrip [OF example_calendar_ok, of ?date "lit ''ada''" Some "lit ''hello''"] by blast
qed

end
