(* ===== verification/User_Config.thy ===== *)
theory User_Config
  imports Site_Config Audiences
begin

section \<open>Per-user configuration\<close>

text \<open>
  \<^verbatim>\<open>storage/src/user_config.rs\<close> with the values of
  \<^verbatim>\<open>common/src/content_license.rs\<close> and the validators of
  \<^verbatim>\<open>host/src/config_key.rs\<close>. An enum of tokens (\<^verbatim>\<open>text_enum\<close>) parses
  exactly the spellings of its variants.
\<close>

definition parse_token :: "('a \<Rightarrow> ustr) \<Rightarrow> 'a list \<Rightarrow> ustr \<Rightarrow> 'a option" where
  "parse_token token variants s = find (\<lambda>v. token v = s) variants"

lemma parse_token_roundtrip:
  "inj_on token (set variants) \<Longrightarrow> v \<in> set variants \<Longrightarrow> parse_token token variants (token v) = Some v"
  by (induction variants) (auto simp: parse_token_def inj_on_def)

lemma parse_token_SomeD: "parse_token token variants s = Some v \<Longrightarrow> token v = s \<and> v \<in> set variants"
  by (auto simp: parse_token_def dest: find_Some_memD)

subsection \<open>Values\<close>

datatype content_license =
    AllRightsReserved | Cc0_1_0 | CcBy4_0 | CcBySa4_0 | CcByNd4_0 | CcByNc4_0 | CcByNcSa4_0 | CcByNcNd4_0

fun license_token :: "content_license \<Rightarrow> ustr" where
  "license_token AllRightsReserved = lit ''all-rights-reserved''"
| "license_token Cc0_1_0 = lit ''CC0-1.0''"
| "license_token CcBy4_0 = lit ''CC-BY-4.0''"
| "license_token CcBySa4_0 = lit ''CC-BY-SA-4.0''"
| "license_token CcByNd4_0 = lit ''CC-BY-ND-4.0''"
| "license_token CcByNc4_0 = lit ''CC-BY-NC-4.0''"
| "license_token CcByNcSa4_0 = lit ''CC-BY-NC-SA-4.0''"
| "license_token CcByNcNd4_0 = lit ''CC-BY-NC-ND-4.0''"

definition license_variants :: "content_license list" where
  "license_variants =
     [AllRightsReserved, Cc0_1_0, CcBy4_0, CcBySa4_0, CcByNd4_0, CcByNc4_0, CcByNcSa4_0, CcByNcNd4_0]"

definition parse_content_license :: "ustr \<Rightarrow> content_license option" where
  "parse_content_license = parse_token license_token license_variants"

fun default_audience_token :: "default_audience \<Rightarrow> ustr" where
  "default_audience_token Default_Public = lit ''public''"
| "default_audience_token Default_Subscribers = lit ''subscribers''"
| "default_audience_token Default_Private = lit ''private''"

definition parse_default_audience :: "ustr \<Rightarrow> default_audience option" where
  "parse_default_audience =
     parse_token default_audience_token [Default_Public, Default_Subscribers, Default_Private]"

fun post_format_token :: "post_format \<Rightarrow> ustr" where
  "post_format_token Markdown = lit ''markdown''"
| "post_format_token Org = lit ''org''"
| "post_format_token Html = lit ''html''"

definition parse_post_format :: "ustr \<Rightarrow> post_format option" where
  "parse_post_format = parse_token post_format_token [Markdown, Org, Html]"

fun user_config_valid :: "user_config_key \<Rightarrow> ustr \<Rightarrow> bool" where
  "user_config_valid DefaultPostFormat raw \<longleftrightarrow> parse_post_format raw \<noteq> None"
| "user_config_valid DefaultAudience raw \<longleftrightarrow> parse_default_audience raw \<noteq> None"
| "user_config_valid ContentLicense raw \<longleftrightarrow> parse_content_license raw \<noteq> None"

lemma tokens_roundtrip [simp]:
  "parse_content_license (license_token l) = Some l"
  "parse_default_audience (default_audience_token a) = Some a"
  "parse_post_format (post_format_token f) = Some f"
proof -
  show "parse_content_license (license_token l) = Some l"
    by (cases l) (simp_all add: parse_content_license_def parse_token_def license_variants_def)
  show "parse_default_audience (default_audience_token a) = Some a"
    by (cases a) (simp_all add: parse_default_audience_def parse_token_def)
  show "parse_post_format (post_format_token f) = Some f"
    by (cases f) (simp_all add: parse_post_format_def parse_token_def)
qed

lemma parsed_tokens:
  "parse_content_license s = Some l \<Longrightarrow> s = license_token l"
  "parse_default_audience s = Some a \<Longrightarrow> s = default_audience_token a"
  "parse_post_format s = Some f \<Longrightarrow> s = post_format_token f"
  by (auto simp: parse_content_license_def parse_default_audience_def parse_post_format_def
      dest!: parse_token_SomeD)

subsection \<open>The store\<close>

definition user_config_get :: "int \<Rightarrow> user_config_key \<Rightarrow> (database, sql_error, ustr option) tx" where
  "user_config_get uid key = pool_query (\<lambda>d. user_config d (uid, key))"

text \<open>The row references its user.\<close>

definition user_config_set :: "backend \<Rightarrow> int \<Rightarrow> user_config_key \<Rightarrow> ustr \<Rightarrow> (database, sql_error, unit) tx" where
  "user_config_set db uid key value =
     tx_bind (write_connection db) (\<lambda>_.
     statement (\<lambda>d. if user_exists uid d
       then (Inr (), d\<lparr>user_config := (user_config d)((uid, key) \<mapsto> value)\<rparr>)
       else (Inl ForeignKeyViolation, d)))"

definition user_config_delete :: "backend \<Rightarrow> int \<Rightarrow> user_config_key \<Rightarrow> (database, sql_error, unit) tx" where
  "user_config_delete db uid key =
     tx_bind (write_connection db) (\<lambda>_.
     execute (\<lambda>d. d\<lparr>user_config := (user_config d)((uid, key) := None)\<rparr>))"

definition license_of_row :: "ustr option \<Rightarrow> sql_error + content_license" where
  "license_of_row row =
     (case row of
        None \<Rightarrow> Inr AllRightsReserved
      | Some value \<Rightarrow> (case parse_content_license value of None \<Rightarrow> Inl Decode | Some l \<Rightarrow> Inr l))"

definition get_content_license :: "int \<Rightarrow> (database, sql_error, content_license) tx" where
  "get_content_license uid =
     tx_bind (user_config_get uid ContentLicense) (\<lambda>row. tx_of_result (license_of_row row))"

definition get_content_license_for_update ::
  "backend \<Rightarrow> int \<Rightarrow> (database, sql_error, content_license) tx" where
  "get_content_license_for_update db uid =
     tx_bind (write_connection db) (\<lambda>_.
     tx_bind (query (\<lambda>d. user_config d (uid, ContentLicense))) (\<lambda>row.
       tx_of_result (license_of_row row)))"

definition get_default_post_format :: "int \<Rightarrow> (database, sql_error, post_format) tx" where
  "get_default_post_format uid =
     tx_bind (user_config_get uid DefaultPostFormat) (\<lambda>raw.
     tx_return (case Option.bind raw parse_post_format of None \<Rightarrow> Markdown | Some f \<Rightarrow> f))"

definition get_user_default_audience :: "int \<Rightarrow> (database, sql_error, default_audience option) tx" where
  "get_user_default_audience uid =
     tx_bind (user_config_get uid DefaultAudience) (\<lambda>raw.
     case raw of
       None \<Rightarrow> tx_return None
     | Some value \<Rightarrow>
         (case parse_default_audience value of None \<Rightarrow> tx_throw Decode | Some a \<Rightarrow> tx_return (Some a)))"

definition get_site_default_audience :: "(database, sql_error, default_audience) tx" where
  "get_site_default_audience =
     tx_bind (get_raw PostsDefaultAudience) (\<lambda>raw.
     tx_return (case Option.bind raw parse_default_audience of None \<Rightarrow> Default_Private | Some a \<Rightarrow> a))"

definition set_site_default_audience :: "backend \<Rightarrow> default_audience \<Rightarrow> (database, sql_error, unit) tx" where
  "set_site_default_audience db audience =
     site_config_set db PostsDefaultAudience (default_audience_token audience)"

definition get_effective_default_audience :: "int \<Rightarrow> (database, sql_error, default_audience) tx" where
  "get_effective_default_audience uid =
     tx_bind (get_user_default_audience uid) (\<lambda>own.
     case own of Some audience \<Rightarrow> tx_return audience | None \<Rightarrow> get_site_default_audience)"

definition set_user_default_audience ::
  "backend \<Rightarrow> int \<Rightarrow> default_audience option \<Rightarrow> (database, sql_error, unit) tx" where
  "set_user_default_audience db uid audience =
     (case audience of
        Some a \<Rightarrow> user_config_set db uid DefaultAudience (default_audience_token a)
      | None \<Rightarrow> user_config_delete db uid DefaultAudience)"

definition set_default_post_format ::
  "backend \<Rightarrow> int \<Rightarrow> post_format \<Rightarrow> (database, sql_error, unit) tx" where
  "set_default_post_format db uid f = user_config_set db uid DefaultPostFormat (post_format_token f)"

subsection \<open>What a reader of a committed setting sees\<close>

text \<open>The audience a user's next post gets, as a function of the database.\<close>

definition effective_audience :: "database \<Rightarrow> int \<Rightarrow> sql_error + default_audience" where
  "effective_audience d uid =
     (case user_config d (uid, DefaultAudience) of
        Some value \<Rightarrow> (case parse_default_audience value of None \<Rightarrow> Inl Decode | Some a \<Rightarrow> Inr a)
      | None \<Rightarrow> Inr (case Option.bind (site_config d PostsDefaultAudience) parse_default_audience of
                      None \<Rightarrow> Default_Private | Some a \<Rightarrow> a))"

lemma get_effective_default_audience_eq:
  "faults c = [] \<Longrightarrow> get_effective_default_audience uid c = (effective_audience (committed c) uid, c)"
  by (auto simp: get_effective_default_audience_def get_user_default_audience_def user_config_get_def
      get_site_default_audience_def get_raw_def effective_audience_def tx_eval split: option.splits)

end
