(* ===== verification/Keyset.thy ===== *)
theory Keyset
  imports Jaunder_Prelude Pagination "HOL-Library.Product_Lexorder"
begin

section \<open>Keyset pagination\<close>

text \<open>
  Every listing of posts is walked in pages. A query returns the rows behind a cursor in the order of
  a key and one row more than a page holds, the page keeps all but that probe, and its last row is
  the next cursor. \<open>keyset_listing\<close> is what a listing promises, \<open>follow\<close> a reader that turns
  the pages while the database changes under it.
\<close>

definition keyset_rows ::
  "('r \<Rightarrow> 'k::linorder) \<Rightarrow> ('c \<Rightarrow> 'r \<Rightarrow> bool) \<Rightarrow> 'c option \<Rightarrow> nat \<Rightarrow> 'r list \<Rightarrow> 'r list" where
  "keyset_rows key after cursor limit rows =
     top_by key limit (filter (\<lambda>r. case cursor of None \<Rightarrow> True | Some c \<Rightarrow> after c r) rows)"

record ('p, 'c) page =
  page_posts :: "'p list"
  page_next :: "'c option"
  page_has_more :: bool

definition page_of :: "nat \<Rightarrow> ('p \<Rightarrow> 'c) \<Rightarrow> 'p list \<Rightarrow> ('p, 'c) page" where
  "page_of n cursor_of xs =
     \<lparr>page_posts = take n xs,
      page_next = (if n < length xs then Some (cursor_of (last (take n xs))) else None),
      page_has_more = n < length xs\<rparr>"

text \<open>A reader visits one state of the database per page, until a page has no next cursor.\<close>

fun follow :: "('c option \<Rightarrow> 's \<Rightarrow> 'e + ('p, 'c) page) \<Rightarrow> 's list \<Rightarrow> 'c option \<Rightarrow> ('e + 'p list) option" where
  "follow fetch [] cursor = None"
| "follow fetch (s # ss) cursor =
     (case fetch cursor s of
        Inl e \<Rightarrow> Some (Inl e)
      | Inr page \<Rightarrow>
          (case page_next page of
             None \<Rightarrow> Some (Inr (page_posts page))
           | Some c \<Rightarrow> map_option (map_sum id ((@) (page_posts page))) (follow fetch ss (Some c))))"

subsection \<open>Rows in the order of a key\<close>

lemma page_of_limit: "page_of n cursor_of (take (fetch_limit n) xs) = page_of n cursor_of xs"
  by (auto simp: page_of_def fetch_limit_def)

lemma page_of_map: "0 < n \<Longrightarrow> page_of n cursor_of (map f xs) =
    (let page = page_of n (\<lambda>x. cursor_of (f x)) xs
     in \<lparr>page_posts = map f (page_posts page), page_next = page_next page, page_has_more = page_has_more page\<rparr>)"
proof -
  assume "0 < n"
  then have "n < length xs \<Longrightarrow> last (map f (take n xs)) = f (last (take n xs))"
    by (intro last_map) auto
  then show ?thesis by (auto simp: page_of_def take_map)
qed

lemma strictly_sorted_by:
  "distinct (map key rows) \<Longrightarrow> sorted_wrt (<) (map key (sort_key key rows))"
  by (simp add: strict_sorted_iff distinct_map)

lemma keyset_rows_eq:
  assumes "\<And>r. r \<in> set rows \<Longrightarrow> (case cursor of None \<Rightarrow> True | Some c \<Rightarrow> after c r) \<longleftrightarrow> p (key r)"
  shows "keyset_rows key after cursor limit rows = take limit (filter (\<lambda>r. p (key r)) (sort_key key rows))"
proof -
  have "filter (\<lambda>r. case cursor of None \<Rightarrow> True | Some c \<Rightarrow> after c r) rows = filter (\<lambda>r. p (key r)) rows"
    using assms by (intro filter_cong) auto
  then show ?thesis
    by (simp add: keyset_rows_def top_by_def filter_sort)
qed

lemma sorted_split:
  fixes key :: "'p \<Rightarrow> 'k::linorder"
  assumes "sorted_wrt (<) (map key xs)" and "n < length xs" and "0 < n"
  shows "last (take n xs) \<in> set xs"
    and "q \<in> set (take n xs) \<Longrightarrow> key q \<le> key (last (take n xs))"
    and "filter (\<lambda>q. key (last (take n xs)) < key q) xs = drop n xs"
proof -
  have ne: "take n xs \<noteq> []" using assms(2,3) by auto
  then have l: "last (take n xs) \<in> set (take n xs)" by simp
  then show "last (take n xs) \<in> set xs" by (rule in_set_takeD)
  have split: "sorted_wrt (<) (map key (take n xs @ drop n xs))" using assms(1) by simp
  have above: "key p < key q" if "p \<in> set (take n xs)" "q \<in> set (drop n xs)" for p q
    using split that unfolding map_append sorted_wrt_append by auto
  have below: "key q \<le> key (last (take n xs))" if q: "q \<in> set (take n xs)" for q
  proof -
    have "sorted_wrt (<) (map key (take n xs))"
      using split unfolding map_append sorted_wrt_append by blast
    then have "sorted_wrt (<) (map key (butlast (take n xs) @ [last (take n xs)]))"
      unfolding append_butlast_last_id [OF ne] .
    then have "p \<in> set (butlast (take n xs)) \<Longrightarrow> key p < key (last (take n xs))" for p
      by (simp add: sorted_wrt_append)
    moreover have "q \<in> set (butlast (take n xs) @ [last (take n xs)])" using q ne by simp
    ultimately show ?thesis by (auto intro: less_imp_le)
  qed
  then show "q \<in> set (take n xs) \<Longrightarrow> key q \<le> key (last (take n xs))" .
  have "filter (\<lambda>q. key (last (take n xs)) < key q) (take n xs @ drop n xs) = drop n xs"
    unfolding filter_append using above [OF l] below by (auto simp: filter_id_conv filter_empty_conv leD)
  then show "filter (\<lambda>q. key (last (take n xs)) < key q) xs = drop n xs" by simp
qed

subsection \<open>The contract of a listing\<close>

text \<open>
  \<open>good\<close> are the states in which every row decodes. Whatever row the cursor was made from, even one
  that has left the listing since, a page shows the rows behind it.
\<close>

locale keyset_listing =
  fixes fetch :: "'c option \<Rightarrow> 's \<Rightarrow> 'e + ('p, 'c) page"
    and listing :: "'s \<Rightarrow> 'p list"
    and key :: "'p \<Rightarrow> 'k::linorder"
    and cursor_of :: "'p \<Rightarrow> 'c"
    and cursor_ok :: "'p \<Rightarrow> bool"
    and good :: "'s \<Rightarrow> bool"
    and size :: nat
  assumes page_size_pos: "good s \<Longrightarrow> 0 < size"
    and listing_sorted: "good s \<Longrightarrow> sorted_wrt (<) (map key (listing s))"
    and listing_ok: "good s \<Longrightarrow> p \<in> set (listing s) \<Longrightarrow> cursor_ok p"
    and fetch_first: "good s \<Longrightarrow> fetch None s = Inr (page_of size cursor_of (listing s))"
    and fetch_after: "good s \<Longrightarrow> cursor_ok p \<Longrightarrow>
      fetch (Some (cursor_of p)) s = Inr (page_of size cursor_of (filter (\<lambda>q. key p < key q) (listing s)))"
begin

definition rest :: "'p option \<Rightarrow> 's \<Rightarrow> 'p list" where
  "rest p s = (case p of None \<Rightarrow> listing s | Some p \<Rightarrow> filter (\<lambda>q. key p < key q) (listing s))"

lemma rest_simps:
  "rest None s = listing s"
  "rest (Some p) s = filter (\<lambda>q. key p < key q) (listing s)"
  by (simp_all add: rest_def)

lemma fetch_rest:
  "good s \<Longrightarrow> pred_option cursor_ok p \<Longrightarrow> fetch (map_option cursor_of p) s = Inr (page_of size cursor_of (rest p s))"
  by (cases p) (simp_all add: rest_simps fetch_first fetch_after)

lemma rest_sorted: "good s \<Longrightarrow> sorted_wrt (<) (map key (rest p s))"
  using listing_sorted [of s] by (cases p) (auto simp: rest_simps sorted_wrt_map sorted_wrt_filter)

lemma rest_subset: "set (rest p s) \<subseteq> set (listing s)"
  by (cases p) (auto simp: rest_simps)

lemma rest_above: "q \<in> set (rest (Some p) s) \<Longrightarrow> key p < key q"
  by (simp add: rest_simps)

lemma rest_mono: "key p < key p' \<Longrightarrow> rest (Some p') s = filter (\<lambda>q. key p' < key q) (rest (Some p) s)"
  by (auto simp: rest_simps intro!: filter_cong)

lemma rest_last:
  assumes "good s" and "size < length (rest p s)"
  shows "last (take size (rest p s)) \<in> set (rest p s)" and "cursor_ok (last (take size (rest p s)))"
    and "q \<in> set (take size (rest p s)) \<Longrightarrow> key q \<le> key (last (take size (rest p s)))"
  using sorted_split(1,2) [OF rest_sorted [OF assms(1)] assms(2) page_size_pos [OF assms(1)]] assms(1)
    listing_ok rest_subset by blast+

lemma rest_narrow:
  assumes "r \<in> set (rest p s)"
  shows "rest (Some r) s' = filter (\<lambda>q. key r < key q) (rest p s')"
proof (cases p)
  case None
  then show ?thesis by (simp add: rest_simps)
next
  case (Some p')
  with assms have "key p' < key r" by (simp add: rest_above)
  with Some show ?thesis by (simp add: rest_mono)
qed

lemma rest_next:
  assumes "good s" and "size < length (rest p s)"
  shows "rest (Some (last (take size (rest p s)))) s = drop size (rest p s)"
  by (simp only: rest_narrow [OF rest_last(1) [OF assms]]
      sorted_split(3) [OF rest_sorted [OF assms(1)] assms(2) page_size_pos [OF assms(1)]])

text \<open>On a database that stays as it is the walk ends and shows the listing.\<close>

lemma follow_complete_from:
  "good s \<Longrightarrow> pred_option cursor_ok p \<Longrightarrow> 0 < m \<Longrightarrow> length (rest p s) \<le> m * size \<Longrightarrow>
     follow fetch (replicate m s) (map_option cursor_of p) = Some (Inr (rest p s))"
proof (induction m arbitrary: p)
  case 0
  then show ?case by simp
next
  case (Suc m)
  show ?case
  proof (cases "size < length (rest p s)")
    case False
    with Suc.prems show ?thesis by (simp add: fetch_rest page_of_def)
  next
    case True
    let ?q = "last (take size (rest p s))"
    have "0 < m" using Suc.prems(4) True by (cases m) auto
    moreover have "length (rest (Some ?q) s) \<le> m * size"
      using Suc.prems(4) by (simp add: rest_next [OF Suc.prems(1) True])
    ultimately have "follow fetch (replicate m s) (Some (cursor_of ?q)) = Some (Inr (rest (Some ?q) s))"
      using Suc.IH [of "Some ?q"] Suc.prems(1) rest_last(2) [OF Suc.prems(1) True] by simp
    with True Suc.prems show ?thesis
      by (simp add: fetch_rest page_of_def rest_next)
  qed
qed

lemma follow_complete:
  "good s \<Longrightarrow> length (listing s) < m \<Longrightarrow> follow fetch (replicate m s) None = Some (Inr (listing s))"
proof -
  assume good: "good s" and len: "length (listing s) < m"
  have "m * 1 \<le> m * size" using page_size_pos [OF good] by (intro mult_le_mono2) (simp add: Suc_le_eq)
  then have "m \<le> m * size" by simp
  with len have "length (rest None s) \<le> m * size" unfolding rest_simps by linarith
  with good len follow_complete_from [of s None m] show ?thesis by (simp add: rest_simps)
qed

text \<open>
  While the database changes: no position is shown twice, everything shown was in a listing the
  reader visited, and what stays in its place is shown, if the walk ends.
\<close>

lemma follow_step:
  assumes "good s" and "pred_option cursor_ok p" and "size < length (rest p s)"
    and "follow fetch (s # ss) (map_option cursor_of p) = Some (Inr out)"
  shows "\<exists>out'. follow fetch ss (Some (cursor_of (last (take size (rest p s))))) = Some (Inr out') \<and>
    out = take size (rest p s) @ out'"
proof -
  let ?q = "last (take size (rest p s))"
  from assms(4) fetch_rest [OF assms(1,2)] assms(3)
  have *: "map_option (map_sum id ((@) (take size (rest p s)))) (follow fetch ss (Some (cursor_of ?q))) = Some (Inr out)"
    by (simp add: page_of_def)
  then obtain y where y: "follow fetch ss (Some (cursor_of ?q)) = Some y" by auto
  with * show ?thesis by (cases y) auto
qed

lemma follow_out_above:
  assumes "\<forall>s \<in> set ss. good s" and "cursor_ok p"
    and "follow fetch ss (Some (cursor_of p)) = Some (Inr out)" and "q \<in> set out"
  shows "key p < key q"
  using assms
proof (induction ss arbitrary: p out)
  case Nil
  then show ?case by simp
next
  case (Cons s ss)
  have good: "good s" and ok: "pred_option cursor_ok (Some p)" using Cons.prems by simp_all
  show ?case
  proof (cases "size < length (rest (Some p) s)")
    case False
    with Cons.prems fetch_rest [OF good ok] have "q \<in> set (rest (Some p) s)" by (simp add: page_of_def)
    then show ?thesis by (rule rest_above)
  next
    case True
    let ?l = "last (take size (rest (Some p) s))"
    obtain out' where out': "follow fetch ss (Some (cursor_of ?l)) = Some (Inr out')"
      and out: "out = take size (rest (Some p) s) @ out'"
      using follow_step [OF good ok True] Cons.prems(3) by auto
    have l: "?l \<in> set (rest (Some p) s)" by (rule rest_last(1) [OF good True])
    from out Cons.prems(4) consider "q \<in> set (take size (rest (Some p) s))" | "q \<in> set out'" by auto
    then show ?thesis
    proof cases
      case 1
      then show ?thesis by (meson in_set_takeD rest_above)
    next
      case 2
      with Cons.IH [OF _ rest_last(2) [OF good True] out'] Cons.prems(1) have "key ?l < key q" by simp
      with rest_above [OF l] show ?thesis by simp
    qed
  qed
qed

lemma follow_changing:
  assumes "\<forall>s \<in> set ss. good s" and "pred_option cursor_ok p"
    and "follow fetch ss (map_option cursor_of p) = Some (Inr out)"
  shows "sorted_wrt (<) (map key out) \<and> set out \<subseteq> (\<Union>s \<in> set ss. set (rest p s)) \<and>
    (\<forall>k. (\<forall>s \<in> set ss. k \<in> key ` set (rest p s)) \<longrightarrow> k \<in> key ` set out)"
  using assms
proof (induction ss arbitrary: p out)
  case Nil
  then show ?case by simp
next
  case (Cons s ss)
  have good: "good s" and ok: "pred_option cursor_ok p" using Cons.prems by simp_all
  show ?case
  proof (cases "size < length (rest p s)")
    case False
    with Cons.prems fetch_rest [OF good ok] have "out = rest p s" by (simp add: page_of_def)
    with rest_sorted [OF good] show ?thesis by auto
  next
    case True
    let ?l = "last (take size (rest p s))"
    obtain out' where out': "follow fetch ss (Some (cursor_of ?l)) = Some (Inr out')"
      and out: "out = take size (rest p s) @ out'"
      using follow_step [OF good ok True] Cons.prems(3) by auto
    have goods: "\<forall>s \<in> set ss. good s" using Cons.prems(1) by simp
    note lok = rest_last(2) [OF good True]
    from Cons.IH [OF goods, of "Some ?l"] lok out'
    have sorted': "sorted_wrt (<) (map key out')" and sub': "set out' \<subseteq> (\<Union>s \<in> set ss. set (rest (Some ?l) s))"
      and stay': "\<forall>k. (\<forall>s \<in> set ss. k \<in> key ` set (rest (Some ?l) s)) \<longrightarrow> k \<in> key ` set out'"
      by auto
    have above: "key ?l < key q" if "q \<in> set out'" for q
      by (rule follow_out_above [OF goods lok out' that])
    have l_in: "?l \<in> set (rest p s)" by (rule rest_last(1) [OF good True])
    have narrower: "set (rest (Some ?l) s') = {q \<in> set (rest p s'). key ?l < key q}" for s'
      by (simp add: rest_narrow [OF l_in])
    have "sorted_wrt (<) (map key (take size (rest p s)))"
      using rest_sorted [OF good, of p] by (metis take_map sorted_wrt_take)
    moreover have "key q < key q'" if "q \<in> set (take size (rest p s))" "q' \<in> set out'" for q q'
      using rest_last(3) [OF good True that(1)] above [OF that(2)] by simp
    ultimately have "sorted_wrt (<) (map key out)"
      using sorted' by (simp add: out sorted_wrt_append)
    moreover have "set out \<subseteq> (\<Union>s \<in> set (s # ss). set (rest p s))"
      using sub' by (fastforce simp: out narrower dest: in_set_takeD)
    moreover have "k \<in> key ` set out" if k: "\<forall>s' \<in> set (s # ss). k \<in> key ` set (rest p s')" for k
    proof (cases "key ?l < k")
      case True
      with k have "\<forall>s' \<in> set ss. k \<in> key ` set (rest (Some ?l) s')" by (auto simp: narrower)
      with stay' show ?thesis by (auto simp: out)
    next
      case False
      from k obtain q where q: "q \<in> set (rest p s)" "k = key q" by auto
      with False have "q \<notin> set (drop size (rest p s))"
        unfolding rest_next [OF good True, symmetric] narrower by simp
      moreover have "q \<in> set (take size (rest p s)) \<union> set (drop size (rest p s))"
        using q unfolding set_append [symmetric] by simp
      ultimately have "q \<in> set (take size (rest p s))" by blast
      with q(2) show ?thesis by (simp add: out image_Un)
    qed
    ultimately show ?thesis by blast
  qed
qed

end

end
