(* ===== verification/Post_Listings.thy ===== *)
theory Post_Listings
  imports Post_History Permalinks User_Config Keyset Feed_Events
begin

section \<open>Reading posts\<close>

text \<open>
  The reads of \<^verbatim>\<open>storage/src/posts/store.rs\<close> with the cursors of
  \<^verbatim>\<open>cursors.rs\<close>, the public projection of \<^verbatim>\<open>public_presentation.rs\<close> and the
  revision history of \<^verbatim>\<open>lifecycle.rs\<close>. The reads run on the pool. A row that does not
  decode fails the whole read. A descending order is the ascending order of the negated columns; a
  join on the users keeps the posts whose author is there.
\<close>

subsection \<open>Cursors\<close>

datatype timeline_order = Newest | Oldest

record post_cursor =
  cursor_published_at :: instant
  cursor_post :: int
  cursor_order :: timeline_order

record timeline_cursor =
  wire_published_at :: instant
  wire_post :: int
  wire_order :: timeline_order

record page_cursor =
  page_created_at :: instant
  page_post :: int

record draft_post_cursor =
  draft_created_at :: instant
  draft_post :: int

record scheduled_post_cursor =
  scheduled_published_at :: instant
  scheduled_post :: int

record collection_cursor =
  collection_updated_at :: instant
  collection_post :: int

record published_page_request =
  request_cursor :: "post_cursor option"
  request_order :: timeline_order
  request_limit :: nat

definition first_page :: "timeline_order \<Rightarrow> nat \<Rightarrow> published_page_request" where
  "first_page order limit = \<lparr>request_cursor = None, request_order = order, request_limit = limit\<rparr>"

definition page_after :: "post_cursor \<Rightarrow> nat \<Rightarrow> published_page_request" where
  "page_after cursor limit =
     \<lparr>request_cursor = Some cursor, request_order = cursor_order cursor, request_limit = limit\<rparr>"

datatype cursor_error = MissingPublishedAt

definition to_post_cursor :: "post_record \<Rightarrow> timeline_order \<Rightarrow> cursor_error + post_cursor" where
  "to_post_cursor post order =
     (case post_published_at (record_state post) of
        None \<Rightarrow> Inl MissingPublishedAt
      | Some t \<Rightarrow> Inr \<lparr>cursor_published_at = t, cursor_post = post_id (record_state post), cursor_order = order\<rparr>)"

definition timeline_keyset_cursor :: "timeline_cursor option \<Rightarrow> post_cursor option" where
  "timeline_keyset_cursor = map_option (\<lambda>c.
     \<lparr>cursor_published_at = wire_published_at c, cursor_post = wire_post c, cursor_order = wire_order c\<rparr>)"

definition wire_cursor :: "post_cursor \<Rightarrow> timeline_cursor" where
  "wire_cursor c = \<lparr>wire_published_at = cursor_published_at c, wire_post = cursor_post c, wire_order = cursor_order c\<rparr>"

definition keyset_cursor :: "page_cursor option \<Rightarrow> draft_post_cursor option" where
  "keyset_cursor = map_option (\<lambda>c. \<lparr>draft_created_at = page_created_at c, draft_post = page_post c\<rparr>)"

definition scheduled_keyset_cursor :: "page_cursor option \<Rightarrow> scheduled_post_cursor option" where
  "scheduled_keyset_cursor =
     map_option (\<lambda>c. \<lparr>scheduled_published_at = page_created_at c, scheduled_post = page_post c\<rparr>)"

definition to_scheduled_post_cursor :: "post_record \<Rightarrow> cursor_error + scheduled_post_cursor" where
  "to_scheduled_post_cursor post =
     (case post_published_at (record_state post) of
        None \<Rightarrow> Inl MissingPublishedAt
      | Some t \<Rightarrow> Inr \<lparr>scheduled_published_at = t, scheduled_post = post_id (record_state post)\<rparr>)"

definition wire_scheduled_cursor :: "scheduled_post_cursor \<Rightarrow> page_cursor" where
  "wire_scheduled_cursor c = \<lparr>page_created_at = scheduled_published_at c, page_post = scheduled_post c\<rparr>"

lemma cursor_roundtrips:
  "timeline_keyset_cursor (Some (wire_cursor c)) = Some c"
  "scheduled_keyset_cursor (Some (wire_scheduled_cursor s)) = Some s"
  by (simp_all add: timeline_keyset_cursor_def wire_cursor_def scheduled_keyset_cursor_def wire_scheduled_cursor_def)

subsection \<open>Rows and their projections\<close>

type_synonym public_post = "post_record \<times> content_license"

text \<open>The current licence of the author rides along with every public projection.\<close>

definition license_column :: "database \<Rightarrow> int \<Rightarrow> sql_error + content_license" where
  "license_column d author =
     (case parse_content_license
        (case user_config d (author, ContentLicense) of None \<Rightarrow> lit ''all-rights-reserved'' | Some v \<Rightarrow> v) of
        None \<Rightarrow> Inl ColumnDecode
      | Some l \<Rightarrow> Inr l)"

definition decode_public :: "database \<Rightarrow> post_row \<Rightarrow> (sql_error + public_post) option" where
  "decode_public d p = map_option (\<lambda>r. case r of
       Inl e \<Rightarrow> Inl e
     | Inr post \<Rightarrow> map_sum id (Pair post) (license_column d (post_user p))) (decode_post d p)"

definition fetch_rows :: "(database \<Rightarrow> 'r \<Rightarrow> (sql_error + 'a) option) \<Rightarrow> (database \<Rightarrow> 'r list) \<Rightarrow>
    (database, sql_error, 'a list) tx" where
  "fetch_rows decode rows =
     tx_bind (pool_query (\<lambda>d. collect_results (List.map_filter (decode d) (rows d)))) tx_of_result"

definition fetch_optional :: "(database \<Rightarrow> 'r \<Rightarrow> (sql_error + 'a) option) \<Rightarrow> (database \<Rightarrow> 'r list) \<Rightarrow>
    (database, sql_error, 'a option) tx" where
  "fetch_optional decode rows =
     tx_bind (pool_query (\<lambda>d. case List.map_filter (decode d) (rows d) of
         [] \<Rightarrow> Inr None | r # _ \<Rightarrow> map_sum id Some r)) tx_of_result"

definition authored_posts :: "database \<Rightarrow> post_row list" where
  "authored_posts d = filter (\<lambda>p. find_user (post_user p) d \<noteq> None) (posts d)"

definition author_named :: "database \<Rightarrow> ustr \<Rightarrow> post_row \<Rightarrow> bool" where
  "author_named d username p \<longleftrightarrow> map_option user_username (find_user (post_user p) d) = Some username"

text \<open>The join with the tags repeats a post for every tag row of the slug.\<close>

definition tagged_posts :: "ustr \<Rightarrow> database \<Rightarrow> post_row list \<Rightarrow> post_row list" where
  "tagged_posts slug d ps = concat (map (\<lambda>p. map (\<lambda>_. p)
     (filter (\<lambda>r. pt_post r = post_id p \<and> tag_slug_of d (pt_tag r) = Some slug) (post_tags d))) ps)"

definition live_at :: "instant \<Rightarrow> post_row \<Rightarrow> bool" where
  "live_at now p \<longleftrightarrow>
     (case post_published_at p of None \<Rightarrow> False | Some t \<Rightarrow> t \<le> now) \<and> post_deleted_at p = None"

definition readable :: "viewer_identity \<Rightarrow> database \<Rightarrow> post_row \<Rightarrow> bool" where
  "readable viewer d p \<longleftrightarrow> resolves viewer d (post_id p) (post_user p)"

definition unpublished_at :: "instant \<Rightarrow> post_row \<Rightarrow> bool" where
  "unpublished_at now p \<longleftrightarrow>
     (case post_published_at p of None \<Rightarrow> True | Some t \<Rightarrow> now < t) \<and> post_deleted_at p = None"

subsection \<open>One post\<close>

definition get_post_by_id :: "int \<Rightarrow> viewer_identity \<Rightarrow> (database, sql_error, post_record option) tx" where
  "get_post_by_id pid viewer =
     fetch_optional decode_post (\<lambda>d. filter (\<lambda>p. post_id p = pid \<and> readable viewer d p) (authored_posts d))"

definition permalink_instant :: "'a post_state_scheme \<Rightarrow> instant" where
  "permalink_instant p = (case post_published_at p of None \<Rightarrow> post_created_at p | Some t \<Rightarrow> t)"

definition dated :: "calendar \<Rightarrow> civil_date \<Rightarrow> post_row \<Rightarrow> bool" where
  "dated C date p \<longleftrightarrow> sql_date C (permalink_instant p) = date_text date"

definition get_post_by_permalink :: "calendar \<Rightarrow> ustr \<Rightarrow> civil_date \<Rightarrow> ustr \<Rightarrow> viewer_identity \<Rightarrow> instant \<Rightarrow>
    (database, sql_error, public_post option) tx" where
  "get_post_by_permalink C username date slug viewer now =
     fetch_optional decode_public (\<lambda>d. filter (\<lambda>p. author_named d username p \<and> post_slug p = slug \<and>
       live_at now p \<and> dated C date p \<and> readable viewer d p) (authored_posts d))"

definition get_unpublished_post_by_permalink :: "calendar \<Rightarrow> int \<Rightarrow> civil_date \<Rightarrow> ustr \<Rightarrow> instant \<Rightarrow>
    (database, sql_error, post_record option) tx" where
  "get_unpublished_post_by_permalink C uid date slug now =
     fetch_optional decode_post (\<lambda>d. filter (\<lambda>p. post_user p = uid \<and> post_slug p = slug \<and>
       dated C date p \<and> unpublished_at now p) (authored_posts d))"

datatype post_permalink_alias_match = Missing | Unique ustr | Ambiguous

definition resolve_post_permalink_alias :: "calendar \<Rightarrow> civil_date \<Rightarrow> ustr \<Rightarrow> instant \<Rightarrow>
    (database, sql_error, post_permalink_alias_match) tx" where
  "resolve_post_permalink_alias C date slug now =
     pool_query (\<lambda>d. case List.map_filter (\<lambda>p. map_option user_username (find_user (post_user p) d))
         (take 2 (filter (\<lambda>p. post_slug p = slug \<and> live_at now p \<and> dated C date p \<and>
           readable Anonymous d p) (authored_posts d))) of
       [] \<Rightarrow> Missing | [username] \<Rightarrow> Unique username | _ \<Rightarrow> Ambiguous)"

text \<open>
  A former address of a post leads to its current one, unless a post of the author that is not
  deleted has that address now.
\<close>

definition alias_shadowed :: "calendar \<Rightarrow> database \<Rightarrow> post_permalink_alias_row \<Rightarrow> bool" where
  "alias_shadowed C d a \<longleftrightarrow> (\<exists>p \<in> set (posts d). post_user p = alias_user a \<and> post_slug p = alias_slug a \<and>
     post_deleted_at p = None \<and> sql_date C (permalink_instant p) = alias_date a)"

definition alias_targets :: "calendar \<Rightarrow> ustr \<Rightarrow> civil_date \<Rightarrow> ustr \<Rightarrow> instant \<Rightarrow> database \<Rightarrow> post_row list" where
  "alias_targets C username date slug now d =
     concat (map (\<lambda>a. filter (\<lambda>p. post_id p = alias_post a \<and> post_user p = alias_user a \<and>
         author_named d username p \<and> live_at now p \<and> readable Anonymous d p) (authored_posts d))
       (filter (\<lambda>a. alias_slug a = slug \<and> alias_date a = date_text date \<and> \<not> alias_shadowed C d a)
         (post_permalink_aliases d)))"

definition resolve_historical_post_permalink_alias :: "calendar \<Rightarrow> ustr \<Rightarrow> civil_date \<Rightarrow> ustr \<Rightarrow> instant \<Rightarrow>
    (database, sql_error, permalink_route option) tx" where
  "resolve_historical_post_permalink_alias C username date slug now =
     tx_bind (fetch_optional decode_post (alias_targets C username date slug now)) (\<lambda>row.
     tx_return (map_option (\<lambda>post. \<lparr>route_username = record_username post,
       route_date = utc_date C (permalink_instant (record_state post)),
       route_slug = post_slug (record_state post)\<rparr>) row))"

subsection \<open>Timelines\<close>

definition published_key :: "post_row \<Rightarrow> int \<times> int" where
  "published_key p = (case post_published_at p of None \<Rightarrow> 0 | Some t \<Rightarrow> t, post_id p)"

fun order_key :: "timeline_order \<Rightarrow> int \<times> int \<Rightarrow> int \<times> int" where
  "order_key Newest (t, pid) = (- t, - pid)"
| "order_key Oldest (t, pid) = (t, pid)"

fun timeline_clause :: "timeline_order \<Rightarrow> post_cursor \<Rightarrow> post_row \<Rightarrow> bool" where
  "timeline_clause Newest c p =
     (case post_published_at p of
        None \<Rightarrow> False
      | Some t \<Rightarrow> t < cursor_published_at c \<or> (t = cursor_published_at c \<and> post_id p < cursor_post c))"
| "timeline_clause Oldest c p =
     (case post_published_at p of
        None \<Rightarrow> False
      | Some t \<Rightarrow> cursor_published_at c < t \<or> (t = cursor_published_at c \<and> cursor_post c < post_id p))"

definition timeline_rows :: "published_page_request \<Rightarrow> viewer_identity \<Rightarrow> instant \<Rightarrow> database \<Rightarrow>
    post_row list \<Rightarrow> post_row list" where
  "timeline_rows page viewer now d source =
     keyset_rows (\<lambda>p. order_key (request_order page) (published_key p)) (timeline_clause (request_order page))
       (request_cursor page) (request_limit page) (filter (\<lambda>p. live_at now p \<and> readable viewer d p) source)"

definition list_published_by_user :: "ustr \<Rightarrow> published_page_request \<Rightarrow> viewer_identity \<Rightarrow> instant \<Rightarrow>
    (database, sql_error, public_post list) tx" where
  "list_published_by_user username page viewer now =
     fetch_rows decode_public
       (\<lambda>d. timeline_rows page viewer now d (filter (author_named d username) (authored_posts d)))"

definition list_published :: "published_page_request \<Rightarrow> viewer_identity \<Rightarrow> instant \<Rightarrow>
    (database, sql_error, public_post list) tx" where
  "list_published page viewer now =
     fetch_rows decode_public (\<lambda>d. timeline_rows page viewer now d (authored_posts d))"

datatype list_by_tag_error = TagNotFound | ListByTag_Internal sql_error

definition tag_exists :: "ustr \<Rightarrow> (database, sql_error, bool) tx" where
  "tag_exists slug = pool_query (\<lambda>d. \<exists>t \<in> set (stored_tags d). tag_slug t = slug)"

definition list_posts_by_tag :: "ustr \<Rightarrow> published_page_request \<Rightarrow> viewer_identity \<Rightarrow> instant \<Rightarrow>
    (database, list_by_tag_error, public_post list) tx" where
  "list_posts_by_tag slug page viewer now =
     tx_bind (tx_map_err ListByTag_Internal (tag_exists slug)) (\<lambda>exists.
     if \<not> exists then tx_throw TagNotFound
     else tx_map_err ListByTag_Internal (fetch_rows decode_public
       (\<lambda>d. timeline_rows page viewer now d (tagged_posts slug d (authored_posts d)))))"

definition list_user_posts_by_tag :: "int \<Rightarrow> ustr \<Rightarrow> published_page_request \<Rightarrow> viewer_identity \<Rightarrow> instant \<Rightarrow>
    (database, list_by_tag_error, public_post list) tx" where
  "list_user_posts_by_tag uid slug page viewer now =
     tx_bind (tx_map_err ListByTag_Internal (tag_exists slug)) (\<lambda>exists.
     if \<not> exists then tx_throw TagNotFound
     else tx_map_err ListByTag_Internal (fetch_rows decode_public
       (\<lambda>d. timeline_rows page viewer now d
         (tagged_posts slug d (filter (\<lambda>p. post_user p = uid) (authored_posts d))))))"

text \<open>An unknown tag is an empty listing.\<close>

definition list_by_tag_rows :: "(database, list_by_tag_error, public_post list) tx \<Rightarrow>
    (database, sql_error, public_post list) tx" where
  "list_by_tag_rows listing c =
     (case listing c of
        (Inr rows, c') \<Rightarrow> (Inr rows, c')
      | (Inl TagNotFound, c') \<Rightarrow> (Inr [], c')
      | (Inl (ListByTag_Internal e), c') \<Rightarrow> (Inl e, c'))"

subsection \<open>The author's own listings\<close>

definition draft_key :: "post_row \<Rightarrow> int \<times> int" where
  "draft_key p = (- post_created_at p, - post_id p)"

definition draft_clause :: "draft_post_cursor \<Rightarrow> post_row \<Rightarrow> bool" where
  "draft_clause c p \<longleftrightarrow> post_created_at p < draft_created_at c \<or>
     (post_created_at p = draft_created_at c \<and> post_id p < draft_post c)"

definition list_drafts_by_user :: "int \<Rightarrow> draft_post_cursor option \<Rightarrow> nat \<Rightarrow> instant \<Rightarrow>
    (database, sql_error, post_record list) tx" where
  "list_drafts_by_user uid cursor limit now =
     fetch_rows decode_post (\<lambda>d. keyset_rows draft_key draft_clause cursor limit
       (filter (\<lambda>p. post_user p = uid \<and> unpublished_at now p) (authored_posts d)))"

definition scheduled_at :: "instant \<Rightarrow> post_row \<Rightarrow> bool" where
  "scheduled_at now p \<longleftrightarrow>
     (case post_published_at p of None \<Rightarrow> False | Some t \<Rightarrow> now < t) \<and> post_deleted_at p = None"

definition scheduled_clause :: "scheduled_post_cursor \<Rightarrow> post_row \<Rightarrow> bool" where
  "scheduled_clause c p \<longleftrightarrow>
     (case post_published_at p of
        None \<Rightarrow> False
      | Some t \<Rightarrow> scheduled_published_at c < t \<or> (t = scheduled_published_at c \<and> scheduled_post c < post_id p))"

definition list_scheduled_by_user :: "int \<Rightarrow> scheduled_post_cursor option \<Rightarrow> nat \<Rightarrow> instant \<Rightarrow>
    (database, sql_error, post_record list) tx" where
  "list_scheduled_by_user uid cursor limit now =
     fetch_rows decode_post (\<lambda>d. keyset_rows published_key scheduled_clause cursor limit
       (filter (\<lambda>p. post_user p = uid \<and> scheduled_at now p) (authored_posts d)))"

definition collection_key :: "post_row \<Rightarrow> int \<times> int" where
  "collection_key p = (- post_updated_at p, - post_id p)"

definition collection_clause :: "collection_cursor \<Rightarrow> post_row \<Rightarrow> bool" where
  "collection_clause c p \<longleftrightarrow> (post_updated_at p, post_id p) < (collection_updated_at c, collection_post c)"

definition list_collection_by_user :: "int \<Rightarrow> collection_cursor option \<Rightarrow> nat \<Rightarrow>
    (database, sql_error, post_record list) tx" where
  "list_collection_by_user uid cursor limit =
     fetch_rows decode_post (\<lambda>d. keyset_rows collection_key collection_clause cursor limit
       (filter (\<lambda>p. post_user p = uid \<and> post_deleted_at p = None) (authored_posts d)))"

subsection \<open>The revision history\<close>

datatype post_lifecycle = Lifecycle_Draft | Lifecycle_Scheduled | Lifecycle_Published | Lifecycle_Deleted

definition post_lifecycle :: "instant option \<Rightarrow> instant option \<Rightarrow> instant \<Rightarrow> post_lifecycle" where
  "post_lifecycle deleted_at published_at now =
     (if deleted_at \<noteq> None then Lifecycle_Deleted
      else case published_at of
        None \<Rightarrow> Lifecycle_Draft
      | Some t \<Rightarrow> if now < t then Lifecycle_Scheduled else Lifecycle_Published)"

record post_revision_metadata =
  meta_revision :: int
  meta_post :: int
  meta_title :: "ustr option"
  meta_slug :: ustr
  meta_captured_at :: instant
  meta_lifecycle :: post_lifecycle
  meta_current_deleted :: bool

definition revision_metadata :: "database \<Rightarrow> post_revision_row \<Rightarrow> (sql_error + post_revision_metadata) option" where
  "revision_metadata d r =
     map_option (\<lambda>p. let s = revision_state r in Inr
       \<lparr>meta_revision = revision_id r, meta_post = post_id s, meta_title = post_title s,
        meta_slug = post_slug s, meta_captured_at = revision_captured_at r,
        meta_lifecycle = post_lifecycle (post_deleted_at s) (post_published_at s) (revision_captured_at r),
        meta_current_deleted = (post_deleted_at p \<noteq> None)\<rparr>)
       (find_post (post_id (revision_state r)) d)"

definition revision_metadata_rows :: "int \<Rightarrow> int option \<Rightarrow> int option \<Rightarrow> nat \<Rightarrow>
    (database, sql_error, post_revision_metadata list) tx" where
  "revision_metadata_rows uid pid cursor limit =
     (let after = (case cursor of None \<Rightarrow> 9223372036854775807 | Some rid \<Rightarrow> rid)
      in fetch_rows revision_metadata (\<lambda>d. top_by (\<lambda>r. - revision_id r) limit
        (filter (\<lambda>r. find_post (post_id (revision_state r)) d \<noteq> None \<and> post_user (revision_state r) = uid \<and>
          (case pid of None \<Rightarrow> True | Some i \<Rightarrow> post_id (revision_state r) = i) \<and> revision_id r < after)
          (post_revisions d))))"

text \<open>The next cursor is the id of the last revision shown.\<close>

definition revision_page :: "nat \<Rightarrow> post_revision_metadata list \<Rightarrow> (post_revision_metadata, int) page" where
  "revision_page page_size rows =
     (let more = has_more page_size (length rows); shown = take (page_len page_size) rows
      in \<lparr>page_posts = shown,
          page_next = (if more \<and> shown \<noteq> [] then Some (meta_revision (last shown)) else None),
          page_has_more = more\<rparr>)"

definition list_owned_revision_history :: "int \<Rightarrow> int option \<Rightarrow> nat \<Rightarrow>
    (database, sql_error, (post_revision_metadata, int) page) tx" where
  "list_owned_revision_history uid cursor page_size =
     tx_bind (revision_metadata_rows uid None cursor (fetch_limit page_size)) (\<lambda>rows.
     tx_return (revision_page page_size rows))"

definition list_post_revision_history :: "int \<Rightarrow> int \<Rightarrow> int option \<Rightarrow> nat \<Rightarrow>
    (database, sql_error, (post_revision_metadata, int) page option) tx" where
  "list_post_revision_history uid pid cursor page_size =
     tx_bind (pool_query (\<lambda>d. \<exists>p \<in> set (posts d). post_id p = pid \<and> post_user p = uid)) (\<lambda>owned.
     if \<not> owned then tx_return None
     else
       tx_bind (revision_metadata_rows uid (Some pid) cursor (fetch_limit page_size)) (\<lambda>rows.
       tx_return (Some (revision_page page_size rows))))"

record current_post_revision_summary =
  summary_state :: post_state
  summary_lifecycle :: post_lifecycle

definition get_current_revision_summary :: "int \<Rightarrow> int \<Rightarrow> instant \<Rightarrow>
    (database, sql_error, current_post_revision_summary option) tx" where
  "get_current_revision_summary uid pid now =
     pool_query (\<lambda>d. map_option (\<lambda>p. \<lparr>summary_state = post_state.truncate p,
         summary_lifecycle = post_lifecycle (post_deleted_at p) (post_published_at p) now\<rparr>)
       (find (\<lambda>p. post_id p = pid \<and> post_user p = uid) (posts d)))"

record post_revision_detail =
  detail_state :: post_state
  detail_revision :: int
  detail_captured_at :: instant
  detail_tags :: "(ustr \<times> ustr) list"
  detail_audiences :: "audience_target list"
  detail_media :: "media_reference list"

text \<open>
  The children come in an order of their own, given by a key of the columns; the media are parsed
  from the form they were stored with, which is how a reference is spelled.
\<close>

definition revision_detail :: "(post_revision_audience_row \<Rightarrow> int) \<Rightarrow> (media_reference \<Rightarrow> int) \<Rightarrow>
    (media_reference \<Rightarrow> media_reference) \<Rightarrow> database \<Rightarrow> post_revision_row \<Rightarrow> post_revision_detail" where
  "revision_detail audience_order media_order parsed d r =
     \<lparr>detail_state = revision_state r, detail_revision = revision_id r,
      detail_captured_at = revision_captured_at r,
      detail_tags = map (\<lambda>t. (rt_slug t, rt_display t))
        (sort_key rt_slug (filter (\<lambda>t. rt_revision t = revision_id r) (post_revision_tags d))),
      detail_audiences = List.map_filter (\<lambda>a. audience_target_from_row (ra_kind a) (ra_audience a))
        (sort_key audience_order (filter (\<lambda>a. ra_revision a = revision_id r) (post_revision_audiences d))),
      detail_media = map parsed (sort_key media_order
        (map pm_reference (filter (\<lambda>m. pm_post m = post_id (revision_state r) \<and>
          pm_subject m = Revision_Media (revision_id r)) (post_media d))))\<rparr>"

definition get_post_revision_detail :: "(post_revision_audience_row \<Rightarrow> int) \<Rightarrow> (media_reference \<Rightarrow> int) \<Rightarrow>
    (media_reference \<Rightarrow> media_reference) \<Rightarrow> int \<Rightarrow> int \<Rightarrow> int \<Rightarrow>
    (database, sql_error, post_revision_detail option) tx" where
  "get_post_revision_detail audience_order media_order parsed uid pid rid =
     tx_bind (pool_query (\<lambda>d. find (\<lambda>r. revision_id r = rid \<and> post_id (revision_state r) = pid \<and>
         post_user (revision_state r) = uid) (post_revisions d))) (\<lambda>row.
     case row of
       None \<Rightarrow> tx_return None
     | Some r \<Rightarrow>
         if \<not> titles_match (post_title (revision_state r)) (post_rendered_title (revision_state r))
         then tx_throw Protocol
         else
           tx_bind (pool_query (\<lambda>d. detail_tags (revision_detail audience_order media_order parsed d r))) (\<lambda>tags.
           tx_bind (pool_query (\<lambda>d. detail_audiences (revision_detail audience_order media_order parsed d r))) (\<lambda>targets.
           tx_bind (pool_query (\<lambda>d. detail_media (revision_detail audience_order media_order parsed d r))) (\<lambda>media.
           tx_return (Some
             \<lparr>detail_state = revision_state r, detail_revision = revision_id r,
              detail_captured_at = revision_captured_at r, detail_tags = tags,
              detail_audiences = targets, detail_media = media\<rparr>)))))"

end
