(* ===== verification/Timelines.thy ===== *)
theory Timelines
  imports Post_Listings
begin

section \<open>Timelines\<close>

text \<open>
  \<^verbatim>\<open>web/src/timeline\<close> and the row projections of
  \<^verbatim>\<open>web/src/posts/server.rs\<close>: the pages a browser turns, over the reads of theory
  \<^verbatim>\<open>Post_Listings\<close>, and the author's own lists of \<^verbatim>\<open>web/src/posts/api.rs\<close> up to the
  labels their rows get. The clock of a request is an argument.
\<close>

subsection \<open>Rows\<close>

record rendered_post =
  rendered_post_id :: int
  rendered_username :: ustr
  rendered_display_name :: "ustr option"
  rendered_license :: "content_license option"
  rendered_post_title :: "ustr option"
  rendered_summary :: "ustr option"
  rendered_slug :: ustr
  rendered_post_html :: ustr
  rendered_created_at :: instant
  rendered_published_at :: "instant option"
  rendered_permalink :: "ustr option"
  rendered_is_author :: bool
  rendered_tags :: "(ustr \<times> ustr) list"

definition record_permalink :: "calendar \<Rightarrow> post_record \<Rightarrow> ustr" where
  "record_permalink C post = canonical_permalink_path (record_username post)
     (utc_date C (permalink_instant (record_state post))) (post_slug (record_state post))"

definition rendered_post_from_record ::
  "post_record \<Rightarrow> bool \<Rightarrow> ustr option \<Rightarrow> content_license option \<Rightarrow> rendered_post" where
  "rendered_post_from_record post is_author permalink license =
     (let s = record_state post
      in \<lparr>rendered_post_id = post_id s, rendered_username = record_username post,
        rendered_display_name = record_display_name post, rendered_license = license,
        rendered_post_title = post_rendered_title s, rendered_summary = post_summary s,
        rendered_slug = post_slug s, rendered_post_html = post_rendered_html s,
        rendered_created_at = post_created_at s, rendered_published_at = post_published_at s,
        rendered_permalink = permalink, rendered_is_author = is_author,
        rendered_tags = map (\<lambda>t. (post_tag_slug t, post_tag_display t)) (record_tags post)\<rparr>)"

definition rendered_post :: "calendar \<Rightarrow> int option \<Rightarrow> public_post \<Rightarrow> rendered_post option" where
  "rendered_post C viewer_uid = (\<lambda>(post, license).
     if post_published_at (record_state post) = None then None
     else Some (rendered_post_from_record post (viewer_uid = Some (post_user (record_state post)))
       (Some (record_permalink C post)) (Some license)))"

definition rendered_home_post :: "calendar \<Rightarrow> int option \<Rightarrow> post_record \<Rightarrow> rendered_post option" where
  "rendered_home_post C viewer_uid post =
     (if post_published_at (record_state post) = None then None
      else Some (rendered_post_from_record post (viewer_uid = Some (post_user (record_state post)))
        (Some (record_permalink C post)) None))"

definition display_time :: "rendered_post \<Rightarrow> instant" where
  "display_time r = (case rendered_published_at r of None \<Rightarrow> rendered_created_at r | Some t \<Rightarrow> t)"

definition is_draft :: "rendered_post \<Rightarrow> bool" where
  "is_draft r \<longleftrightarrow> rendered_published_at r = None"

datatype content_rights_projection = Public_Rights | Withheld

fun project_row :: "content_rights_projection \<Rightarrow> calendar \<Rightarrow> int option \<Rightarrow> public_post \<Rightarrow> rendered_post option" where
  "project_row Public_Rights C uid row = rendered_post C uid row"
| "project_row Withheld C uid row = rendered_home_post C uid (fst row)"

subsection \<open>Pages\<close>

datatype timeline_error =
    Timeline_Storage sql_error
  | CursorOrderMismatch
  | Timeline_Server
  | UserNotFound

definition default_page_size :: nat where
  "default_page_size = 50"

definition page_from_rows :: "calendar \<Rightarrow> public_post list \<Rightarrow> nat \<Rightarrow> int option \<Rightarrow> timeline_order \<Rightarrow>
    content_rights_projection \<Rightarrow> timeline_error + (rendered_post, timeline_cursor) page" where
  "page_from_rows C rows page_size uid order rights =
     (let more = has_more page_size (length rows); shown = take (page_len page_size) rows
      in case (if more \<and> shown \<noteq> [] then map_sum id (\<lambda>c. Some (wire_cursor c)) (to_post_cursor (fst (last shown)) order)
               else Inr None) of
           Inl e \<Rightarrow> Inl Timeline_Server
         | Inr cursor \<Rightarrow> Inr \<lparr>page_posts = List.map_filter (project_row rights C uid) shown,
             page_next = cursor, page_has_more = more\<rparr>)"

definition timeline_page_request ::
  "post_cursor option \<Rightarrow> timeline_order \<Rightarrow> nat \<Rightarrow> timeline_error + published_page_request" where
  "timeline_page_request cursor order limit =
     (case cursor of
        None \<Rightarrow> Inr (first_page order limit)
      | Some c \<Rightarrow> if cursor_order c \<noteq> order then Inl CursorOrderMismatch else Inr (page_after c limit))"

type_synonym timeline_page = "(rendered_post, timeline_cursor) page"

definition fetch_user_posts :: "calendar \<Rightarrow> viewer_identity \<Rightarrow> ustr \<Rightarrow> post_cursor option \<Rightarrow> timeline_order \<Rightarrow>
    nat option \<Rightarrow> instant \<Rightarrow> (database, timeline_error, timeline_page) tx" where
  "fetch_user_posts C viewer username cursor order limit now =
     (let page_size = case_option default_page_size id limit
      in tx_bind (tx_of_result (timeline_page_request cursor order (fetch_limit page_size))) (\<lambda>page.
         tx_bind (tx_map_err Timeline_Storage (list_published_by_user username page viewer now)) (\<lambda>rows.
         tx_of_result (page_from_rows C rows page_size (viewer_user_id viewer) order Public_Rights))))"

definition fetch_local_timeline :: "calendar \<Rightarrow> post_cursor option \<Rightarrow> timeline_order \<Rightarrow>
    nat option \<Rightarrow> instant \<Rightarrow> (database, timeline_error, timeline_page) tx" where
  "fetch_local_timeline C cursor order limit now =
     (let page_size = case_option default_page_size id limit
      in tx_bind (tx_of_result (timeline_page_request cursor order (fetch_limit page_size))) (\<lambda>page.
         tx_bind (tx_map_err Timeline_Storage (list_published page Anonymous now)) (\<lambda>rows.
         tx_of_result (page_from_rows C rows page_size None order Public_Rights))))"

definition fetch_posts_by_tag :: "calendar \<Rightarrow> viewer_identity \<Rightarrow> ustr \<Rightarrow> post_cursor option \<Rightarrow> timeline_order \<Rightarrow>
    nat option \<Rightarrow> instant \<Rightarrow> (database, timeline_error, timeline_page) tx" where
  "fetch_posts_by_tag C viewer tag cursor order limit now =
     (let page_size = case_option default_page_size id limit
      in tx_bind (tx_of_result (timeline_page_request cursor order (fetch_limit page_size))) (\<lambda>page.
         tx_bind (tx_map_err Timeline_Storage (list_by_tag_rows (list_posts_by_tag tag page viewer now))) (\<lambda>rows.
         tx_of_result (page_from_rows C rows page_size (viewer_user_id viewer) order Public_Rights))))"

definition fetch_user_posts_by_tag :: "calendar \<Rightarrow> viewer_identity \<Rightarrow> ustr \<Rightarrow> ustr \<Rightarrow> post_cursor option \<Rightarrow>
    timeline_order \<Rightarrow> nat option \<Rightarrow> instant \<Rightarrow> (database, timeline_error, timeline_page) tx" where
  "fetch_user_posts_by_tag C viewer username tag cursor order limit now =
     tx_bind (tx_map_err Timeline_Storage (get_user_by_username username)) (\<lambda>author.
     case author of
       None \<Rightarrow> tx_throw UserNotFound
     | Some u \<Rightarrow>
         (let page_size = case_option default_page_size id limit
          in tx_bind (tx_of_result (timeline_page_request cursor order (fetch_limit page_size))) (\<lambda>page.
             tx_bind (tx_map_err Timeline_Storage
               (list_by_tag_rows (list_user_posts_by_tag (ur_user_id u) tag page viewer now))) (\<lambda>rows.
             tx_of_result (page_from_rows C rows page_size (viewer_user_id viewer) order Public_Rights)))))"

text \<open>The signed-in user's own posts, with the viewer the request resolves to.\<close>

definition list_home_timeline :: "calendar \<Rightarrow> int \<Rightarrow> ustr \<Rightarrow> viewer_identity \<Rightarrow> post_cursor option \<Rightarrow>
    timeline_order \<Rightarrow> nat option \<Rightarrow> instant \<Rightarrow> (database, timeline_error, timeline_page) tx" where
  "list_home_timeline C uid username viewer cursor order limit now =
     (let page_size = case_option default_page_size id limit
      in tx_bind (tx_of_result (timeline_page_request cursor order (fetch_limit page_size))) (\<lambda>page.
         tx_bind (tx_map_err Timeline_Storage (list_published_by_user username page viewer now)) (\<lambda>rows.
         tx_of_result (page_from_rows C rows page_size (Some uid) order Withheld))))"

text \<open>The author's drafts and scheduled posts; the rows are shown as their records.\<close>

definition list_drafts :: "int \<Rightarrow> page_cursor option \<Rightarrow> nat option \<Rightarrow> instant \<Rightarrow>
    (database, timeline_error, (post_record, page_cursor) page) tx" where
  "list_drafts uid cursor limit now =
     (let page_size = case_option default_page_size id limit
      in tx_bind (tx_map_err Timeline_Storage
           (list_drafts_by_user uid (keyset_cursor cursor) (fetch_limit page_size) now)) (\<lambda>rows.
         let more = has_more page_size (length rows); shown = take (page_len page_size) rows
         in tx_return \<lparr>page_posts = shown,
              page_next = (if more \<and> shown \<noteq> []
                then Some \<lparr>page_created_at = post_created_at (record_state (last shown)),
                  page_post = post_id (record_state (last shown))\<rparr> else None),
              page_has_more = more\<rparr>))"

definition list_scheduled :: "int \<Rightarrow> page_cursor option \<Rightarrow> nat option \<Rightarrow> instant \<Rightarrow>
    (database, timeline_error, (post_record, page_cursor) page) tx" where
  "list_scheduled uid cursor limit now =
     (let page_size = case_option default_page_size id limit
      in tx_bind (tx_map_err Timeline_Storage
           (list_scheduled_by_user uid (scheduled_keyset_cursor cursor) (fetch_limit page_size) now)) (\<lambda>rows.
         let more = has_more page_size (length rows); shown = take (page_len page_size) rows
         in case (if more \<and> shown \<noteq> []
                  then map_sum id (\<lambda>c. Some (wire_scheduled_cursor c)) (to_scheduled_post_cursor (last shown))
                  else Inr None) of
              Inl e \<Rightarrow> tx_throw Timeline_Server
            | Inr c \<Rightarrow> tx_return \<lparr>page_posts = shown, page_next = c, page_has_more = more\<rparr>))"

subsection \<open>One shape for all timelines\<close>

datatype timeline =
    Local_Timeline
  | User_Timeline ustr
  | Tag_Timeline ustr
  | UserTag_Timeline ustr ustr
  | Home_Timeline int ustr

fun timeline_page :: "calendar \<Rightarrow> timeline \<Rightarrow> viewer_identity \<Rightarrow> timeline_order \<Rightarrow> nat option \<Rightarrow>
    timeline_cursor option \<Rightarrow> instant \<Rightarrow> (database, timeline_error, timeline_page) tx" where
  "timeline_page C Local_Timeline viewer order limit c now =
     fetch_local_timeline C (timeline_keyset_cursor c) order limit now"
| "timeline_page C (User_Timeline u) viewer order limit c now =
     fetch_user_posts C viewer u (timeline_keyset_cursor c) order limit now"
| "timeline_page C (Tag_Timeline tag) viewer order limit c now =
     fetch_posts_by_tag C viewer tag (timeline_keyset_cursor c) order limit now"
| "timeline_page C (UserTag_Timeline u tag) viewer order limit c now =
     fetch_user_posts_by_tag C viewer u tag (timeline_keyset_cursor c) order limit now"
| "timeline_page C (Home_Timeline uid u) viewer order limit c now =
     list_home_timeline C uid u viewer (timeline_keyset_cursor c) order limit now"

text \<open>The posts of a timeline, who reads it, and how its rows are shown.\<close>

definition user_named :: "ustr \<Rightarrow> database \<Rightarrow> user_row option" where
  "user_named username d = find (\<lambda>u. user_username u = username) (users d)"

fun timeline_source :: "timeline \<Rightarrow> database \<Rightarrow> post_row list" where
  "timeline_source Local_Timeline d = authored_posts d"
| "timeline_source (User_Timeline u) d = filter (author_named d u) (authored_posts d)"
| "timeline_source (Tag_Timeline tag) d = tagged_posts tag d (authored_posts d)"
| "timeline_source (UserTag_Timeline u tag) d =
     tagged_posts tag d (filter (\<lambda>p. map_option user_id (user_named u d) = Some (post_user p)) (authored_posts d))"
| "timeline_source (Home_Timeline uid u) d = filter (author_named d u) (authored_posts d)"

fun timeline_viewer :: "timeline \<Rightarrow> viewer_identity \<Rightarrow> viewer_identity" where
  "timeline_viewer Local_Timeline viewer = Anonymous"
| "timeline_viewer _ viewer = viewer"

fun timeline_rights :: "timeline \<Rightarrow> content_rights_projection" where
  "timeline_rights (Home_Timeline _ _) = Withheld"
| "timeline_rights _ = Public_Rights"

fun timeline_uid :: "timeline \<Rightarrow> viewer_identity \<Rightarrow> int option" where
  "timeline_uid Local_Timeline viewer = None"
| "timeline_uid (Home_Timeline uid _) viewer = Some uid"
| "timeline_uid _ viewer = viewer_user_id viewer"

definition visible_posts :: "timeline \<Rightarrow> viewer_identity \<Rightarrow> instant \<Rightarrow> database \<Rightarrow> post_row list" where
  "visible_posts t viewer now d =
     filter (\<lambda>p. live_at now p \<and> readable (timeline_viewer t viewer) d p) (timeline_source t d)"

definition public_record :: "database \<Rightarrow> post_row \<Rightarrow> public_post" where
  "public_record d p = projr (the (decode_public d p))"

definition shown_post :: "calendar \<Rightarrow> timeline \<Rightarrow> viewer_identity \<Rightarrow> database \<Rightarrow> post_row \<Rightarrow> rendered_post" where
  "shown_post C t viewer d p =
     the (project_row (timeline_rights t) C (timeline_uid t viewer) (public_record d p))"

definition timeline_listing :: "calendar \<Rightarrow> timeline \<Rightarrow> viewer_identity \<Rightarrow> timeline_order \<Rightarrow>
    database \<times> instant \<Rightarrow> rendered_post list" where
  "timeline_listing C t viewer order = (\<lambda>(d, now). map (shown_post C t viewer d)
     (sort_key (\<lambda>p. order_key order (published_key p)) (visible_posts t viewer now d)))"

definition shown_key :: "timeline_order \<Rightarrow> rendered_post \<Rightarrow> int \<times> int" where
  "shown_key order r =
     order_key order (case rendered_published_at r of None \<Rightarrow> 0 | Some t \<Rightarrow> t, rendered_post_id r)"

definition shown_cursor :: "timeline_order \<Rightarrow> rendered_post \<Rightarrow> timeline_cursor" where
  "shown_cursor order r = \<lparr>wire_published_at = display_time r, wire_post = rendered_post_id r, wire_order = order\<rparr>"

text \<open>
  Every stored row decodes: the titles of a post match and the licence of its author is a licence. The
  page size is one the wire type admits, and the author of a tag timeline exists.
\<close>

definition listing_ok :: "database \<Rightarrow> bool" where
  "listing_ok d \<longleftrightarrow> distinct (map post_id (posts d)) \<and> tags_wf d \<and>
     (\<forall>p \<in> set (posts d). titles_match (post_title p) (post_rendered_title p) \<and>
        (\<exists>l. license_column d (post_user p) = Inr l))"

fun timeline_author_known :: "timeline \<Rightarrow> database \<Rightarrow> bool" where
  "timeline_author_known (UserTag_Timeline u tag) d \<longleftrightarrow> user_named u d \<noteq> None"
| "timeline_author_known _ d \<longleftrightarrow> True"

definition timeline_good :: "timeline \<Rightarrow> nat \<Rightarrow> database \<times> instant \<Rightarrow> bool" where
  "timeline_good t n = (\<lambda>(d, now). page_size_of n \<noteq> None \<and> listing_ok d \<and> timeline_author_known t d)"

definition reader :: "backend \<Rightarrow> database \<Rightarrow> database connection" where
  "reader db d = \<lparr>held = db, committed = d, working = d, faults = []\<rparr>"

lemma reader_sel [simp]:
  "committed (reader db d) = d" "working (reader db d) = d" "faults (reader db d) = []" "held (reader db d) = db"
  by (simp_all add: reader_def)

lemma pool_query_reader [simp]: "pool_query q (reader db d) = (Inr (q d), reader db d)"
  by (simp add: pool_query_def spend_fault_none)

definition read_timeline :: "calendar \<Rightarrow> backend \<Rightarrow> timeline \<Rightarrow> viewer_identity \<Rightarrow> timeline_order \<Rightarrow> nat \<Rightarrow>
    timeline_cursor option \<Rightarrow> database \<times> instant \<Rightarrow> timeline_error + timeline_page" where
  "read_timeline C db t viewer order n c =
     (\<lambda>(d, now). fst (timeline_page C t viewer order (Some n) c now (reader db d)))"

lemma collect_results_Inr: "collect_results (map (\<lambda>x. Inr (f x)) xs) = Inr (map f xs)"
  by (induction xs) auto

lemma fetch_rows_ok:
  assumes "faults c = []" and "\<And>r. r \<in> set (rows (committed c)) \<Longrightarrow> decode (committed c) r = Some (Inr (f r))"
  shows "fetch_rows decode rows c = (Inr (map f (rows (committed c))), c)"
proof -
  have "List.map_filter (decode (committed c)) rs = map (\<lambda>r. Inr (f r)) rs"
    if "\<And>r. r \<in> set rs \<Longrightarrow> decode (committed c) r = Some (Inr (f r))" for rs
    using that by (induction rs) auto
  with assms(2) have "List.map_filter (decode (committed c)) (rows (committed c)) = map (\<lambda>r. Inr (f r)) (rows (committed c))"
    by blast
  with assms(1) show ?thesis
    by (simp add: fetch_rows_def tx_bind_def pool_query_def spend_fault_none tx_of_result_def tx_return_def
        collect_results_Inr)
qed

lemma authored_subset: "set (authored_posts d) \<subseteq> set (posts d)"
  by (auto simp: authored_posts_def)

lemma tagged_posts_eq:
  assumes "tags_wf d"
  shows "tagged_posts slug d ps = filter (\<lambda>p. slug \<in> post_slugs (post_id p) d) ps"
proof -
  have one: "length (filter (\<lambda>r. pt_post r = pid \<and> tag_slug_of d (pt_tag r) = Some slug) (post_tags d)) =
      (if slug \<in> post_slugs pid d then 1 else 0)" for pid
  proof -
    let ?P = "\<lambda>r. pt_post r = pid \<and> tag_slug_of d (pt_tag r) = Some slug"
    have dist: "distinct (map (\<lambda>r. (pt_post r, pt_tag r)) (post_tags d))" and tags: "distinct (map tag_slug (stored_tags d))"
      using assms by (simp_all add: tags_wf_def)
    have tag_unique: "t = t'" if "tag_slug_of d t = Some slug" "tag_slug_of d t' = Some slug" for t t'
    proof -
      from that obtain a b where "find (\<lambda>x. tag_id x = t) (stored_tags d) = Some a" "tag_slug a = slug"
        "find (\<lambda>x. tag_id x = t') (stored_tags d) = Some b" "tag_slug b = slug"
        by (auto simp: tag_slug_of_def)
      then have "a \<in> set (stored_tags d)" "tag_id a = t" "b \<in> set (stored_tags d)" "tag_id b = t'" "tag_slug a = tag_slug b"
        by (auto dest: find_Some_memD)
      with tags show ?thesis by (metis distinct_map inj_onD)
    qed
    have "inj_on (\<lambda>r. (pt_post r, pt_tag r)) (set (post_tags d))" using dist by (simp add: distinct_map)
    then have same: "r = r'" if "r \<in> set (filter ?P (post_tags d))" "r' \<in> set (filter ?P (post_tags d))" for r r'
      using that tag_unique by (auto dest: inj_onD)
    have "distinct (filter ?P (post_tags d))" using dist by (simp add: distinct_map)
    then have card: "length (filter ?P (post_tags d)) = card (set (filter ?P (post_tags d)))"
      by (rule distinct_card [symmetric])
    show ?thesis
    proof (cases "slug \<in> post_slugs pid d")
      case True
      then obtain r where "r \<in> set (filter ?P (post_tags d))" by (auto simp: post_slugs_def)
      with same have "set (filter ?P (post_tags d)) = {r}" by blast
      then show ?thesis unfolding card using True by simp
    next
      case False
      then have "filter ?P (post_tags d) = []" by (auto simp: post_slugs_def filter_empty_conv)
      with False show ?thesis by simp
    qed
  qed
  have rows: "map (\<lambda>_. p) (filter (\<lambda>r. pt_post r = post_id p \<and> tag_slug_of d (pt_tag r) = Some slug) (post_tags d)) =
      (if slug \<in> post_slugs (post_id p) d then [p] else [])" for p
    using one [of "post_id p"] by (simp add: map_replicate_const)
  show ?thesis unfolding tagged_posts_def rows by (induction ps) auto
qed

lemma decode_public_ok:
  assumes "listing_ok d" and "p \<in> set (authored_posts d)"
  shows "decode_public d p = Some (Inr (public_record d p))"
    and "record_state (fst (public_record d p)) = post_state.truncate p"
proof -
  from assms(2) obtain u where u: "find_user (post_user p) d = Some u" by (auto simp: authored_posts_def)
  from assms authored_subset obtain l where l: "license_column d (post_user p) = Inr l"
    and t: "titles_match (post_title p) (post_rendered_title p)"
    unfolding listing_ok_def by blast
  have e: "decode_public d p = Some (Inr (\<lparr>record_state = post_state.truncate p, record_username = user_username u,
      record_display_name = user_display_name u, record_tags = tags_of_post (post_id p) d\<rparr>, l))"
    by (simp add: decode_public_def decode_post_def u t l)
  then show "decode_public d p = Some (Inr (public_record d p))" by (simp add: public_record_def)
  from e show "record_state (fst (public_record d p)) = post_state.truncate p" by (simp add: public_record_def)
qed

lemma timeline_source_subset:
  "listing_ok d \<Longrightarrow> set (timeline_source t d) \<subseteq> set (authored_posts d)"
  by (cases t) (auto simp: listing_ok_def tagged_posts_eq)

lemma timeline_source_distinct:
  "listing_ok d \<Longrightarrow> distinct (map post_id (timeline_source t d))"
  by (cases t) (auto simp: listing_ok_def tagged_posts_eq authored_posts_def intro!: distinct_map_filter)

lemma visible_published:
  "p \<in> set (visible_posts t viewer now d) \<Longrightarrow> \<exists>at. post_published_at p = Some at"
  by (auto simp: visible_posts_def live_at_def split: option.splits)

lemma visible_authored:
  "listing_ok d \<Longrightarrow> p \<in> set (visible_posts t viewer now d) \<Longrightarrow> p \<in> set (authored_posts d)"
  using timeline_source_subset [of d t] by (auto simp: visible_posts_def)

lemma timeline_clause_iff:
  "post_published_at p = Some at \<Longrightarrow> timeline_clause order c p \<longleftrightarrow>
     order_key order (cursor_published_at c, cursor_post c) < order_key order (published_key p)"
  by (cases order) (auto simp: published_key_def less_prod_def)

text \<open>How a visible post is shown.\<close>

lemma shown_post_sel:
  assumes "listing_ok d" and "p \<in> set (visible_posts t viewer now d)"
  shows "project_row (timeline_rights t) C (timeline_uid t viewer) (public_record d p) = Some (shown_post C t viewer d p)"
    and "rendered_post_id (shown_post C t viewer d p) = post_id p"
    and "rendered_published_at (shown_post C t viewer d p) = post_published_at p"
proof -
  obtain at where at: "post_published_at p = Some at" using visible_published [OF assms(2)] by blast
  note state = decode_public_ok(2) [OF assms(1) visible_authored [OF assms]]
  obtain post l where pr: "public_record d p = (post, l)" by (cases "public_record d p")
  with state have st: "record_state post = post_state.truncate p" by simp
  have sel: "post_published_at (post_state.truncate p) = Some at" "post_id (post_state.truncate p) = post_id p"
    by (simp_all add: post_state.defs at)
  show "project_row (timeline_rights t) C (timeline_uid t viewer) (public_record d p) = Some (shown_post C t viewer d p)"
    by (cases t) (simp_all add: shown_post_def pr rendered_post_def rendered_home_post_def st sel)
  show "rendered_post_id (shown_post C t viewer d p) = post_id p"
    "rendered_published_at (shown_post C t viewer d p) = post_published_at p"
    by (cases t; simp add: shown_post_def pr rendered_post_def rendered_home_post_def rendered_post_from_record_def
        Let_def st sel at)+
qed

lemma shown_key_post:
  "listing_ok d \<Longrightarrow> p \<in> set (visible_posts t viewer now d) \<Longrightarrow>
     shown_key order (shown_post C t viewer d p) = order_key order (published_key p)"
  by (simp add: shown_key_def shown_post_sel published_key_def)

lemma page_from_rows_eq:
  assumes "0 < n" and "listing_ok d" and "set ps \<subseteq> set (visible_posts t viewer now d)"
  shows "page_from_rows C (map (public_record d) (take (fetch_limit n) ps)) n (timeline_uid t viewer) order (timeline_rights t) =
    Inr (page_of n (shown_cursor order) (map (shown_post C t viewer d) ps))"
proof -
  have mem: "p \<in> set (visible_posts t viewer now d)" if "p \<in> set (take n ps)" for p
    using that assms(3) by (auto dest: in_set_takeD)
  have shown: "List.map_filter (project_row (timeline_rights t) C (timeline_uid t viewer)) (map (public_record d) qs) =
      map (shown_post C t viewer d) qs" if "set qs \<subseteq> set (visible_posts t viewer now d)" for qs
    using that by (induction qs) (auto simp: shown_post_sel [OF assms(2)])
  have trunc: "take (page_len n) (map (public_record d) (take (fetch_limit n) ps)) = map (public_record d) (take n ps)"
    by (simp add: page_len_def fetch_limit_def take_map)
  have more: "has_more n (length (map (public_record d) (take (fetch_limit n) ps))) \<longleftrightarrow> n < length ps"
    using page_of_over_fetch(2) [of n ps] by (simp add: not_le)
  have rows: "set (take n ps) \<subseteq> set (visible_posts t viewer now d)" using mem by blast
  show ?thesis
  proof (cases "n < length ps")
    case False
    then show ?thesis
      using shown [OF rows] unfolding page_from_rows_def Let_def more trunc by (simp add: page_of_def)
  next
    case True
    with assms(1) have ne: "take n ps \<noteq> []" by auto
    then have l: "last (take n ps) \<in> set (visible_posts t viewer now d)" by (intro mem last_in_set)
    obtain at where at: "post_published_at (last (take n ps)) = Some at" using visible_published [OF l] by blast
    have "to_post_cursor (fst (public_record d (last (take n ps)))) order =
        Inr \<lparr>cursor_published_at = at, cursor_post = post_id (last (take n ps)), cursor_order = order\<rparr>"
      using decode_public_ok(2) [OF assms(2) visible_authored [OF assms(2) l]] at
      by (simp add: to_post_cursor_def post_state.defs)
    moreover have "shown_cursor order (shown_post C t viewer d (last (take n ps))) =
        \<lparr>wire_published_at = at, wire_post = post_id (last (take n ps)), wire_order = order\<rparr>"
      using shown_post_sel(2,3) [OF assms(2) l] at by (simp add: shown_cursor_def display_time_def)
    moreover have "take n (map (shown_post C t viewer d) ps) = map (shown_post C t viewer d) (take n ps)"
      by (rule take_map)
    ultimately show ?thesis
      using shown [OF rows] True ne unfolding page_from_rows_def Let_def more trunc
      by (simp add: page_of_def last_map wire_cursor_def)
  qed
qed

subsection \<open>Every timeline answers pages of its listing\<close>

definition timeline_answer :: "calendar \<Rightarrow> timeline \<Rightarrow> viewer_identity \<Rightarrow> timeline_order \<Rightarrow> nat \<Rightarrow>
    timeline_cursor option \<Rightarrow> database \<times> instant \<Rightarrow> timeline_error + timeline_page" where
  "timeline_answer C t viewer order n c = (\<lambda>(d, now).
     case timeline_page_request (timeline_keyset_cursor c) order (fetch_limit n) of
       Inl e \<Rightarrow> Inl e
     | Inr page \<Rightarrow> page_from_rows C (map (public_record d)
         (timeline_rows page (timeline_viewer t viewer) now d (timeline_source t d))) n (timeline_uid t viewer) order
         (timeline_rights t))"

lemma timeline_rows_visible:
  "timeline_rows page (timeline_viewer t viewer) now d (timeline_source t d) =
     keyset_rows (\<lambda>p. order_key (request_order page) (published_key p)) (timeline_clause (request_order page))
       (request_cursor page) (request_limit page) (visible_posts t viewer now d)"
  by (simp add: timeline_rows_def visible_posts_def)

lemma set_keyset_rows: "set (keyset_rows key after cursor limit rows) \<subseteq> set rows"
  using set_top_by_subset by (fastforce simp: keyset_rows_def)

lemma fetch_timeline_rows:
  assumes "listing_ok d"
  shows "fetch_rows decode_public (\<lambda>d. timeline_rows page (timeline_viewer t viewer) now d (timeline_source t d)) (reader db d) =
    (Inr (map (public_record d) (timeline_rows page (timeline_viewer t viewer) now d (timeline_source t d))), reader db d)"
proof -
  let ?rows = "\<lambda>d. timeline_rows page (timeline_viewer t viewer) now d (timeline_source t d)"
  have "decode_public d p = Some (Inr (public_record d p))" if "p \<in> set (?rows d)" for p
    by (rule decode_public_ok(1) [OF assms visible_authored [OF assms
      subsetD [OF set_keyset_rows that [unfolded timeline_rows_visible]]]])
  with fetch_rows_ok [of "reader db d" ?rows decode_public "public_record d"] show ?thesis by simp
qed

lemma no_such_tag:
  assumes "\<not> (\<exists>t \<in> set (stored_tags d). tag_slug t = slug)"
  shows "tagged_posts slug d ps = []"
proof -
  have "tag_slug_of d tid \<noteq> Some slug" for tid
    using assms by (auto simp: tag_slug_of_def dest: find_Some_memD)
  then show ?thesis by (simp add: tagged_posts_def)
qed

lemma list_by_tag_reader:
  assumes "listing_ok d"
  shows "list_by_tag_rows (list_posts_by_tag tag page viewer now) (reader db d) =
      (Inr (map (public_record d) (timeline_rows page viewer now d (timeline_source (Tag_Timeline tag) d))), reader db d)"
    and "user_named u d = Some user \<Longrightarrow>
      list_by_tag_rows (list_user_posts_by_tag (user_id user) tag page viewer now) (reader db d) =
      (Inr (map (public_record d) (timeline_rows page viewer now d (timeline_source (UserTag_Timeline u tag) d))), reader db d)"
proof -
  have empty: "timeline_rows page viewer now d [] = []"
    by (simp add: timeline_rows_def keyset_rows_def top_by_def)
  show "list_by_tag_rows (list_posts_by_tag tag page viewer now) (reader db d) =
      (Inr (map (public_record d) (timeline_rows page viewer now d (timeline_source (Tag_Timeline tag) d))), reader db d)"
    using fetch_timeline_rows [OF assms, of page "Tag_Timeline tag" viewer now db]
    by (cases "\<exists>t \<in> set (stored_tags d). tag_slug t = tag")
      (simp_all add: list_by_tag_rows_def list_posts_by_tag_def tag_exists_def tx_bind_def tx_map_err_def tx_throw_def
        no_such_tag empty)
  assume user: "user_named u d = Some user"
  have rows: "(\<lambda>d. timeline_rows page viewer now d (tagged_posts tag d (filter (\<lambda>p. post_user p = user_id user) (authored_posts d)))) d =
      timeline_rows page viewer now d (timeline_source (UserTag_Timeline u tag) d)"
    by (simp add: user eq_commute)
  have "fetch_rows decode_public (\<lambda>d. timeline_rows page viewer now d
      (tagged_posts tag d (filter (\<lambda>p. post_user p = user_id user) (authored_posts d)))) (reader db d) =
    fetch_rows decode_public (\<lambda>d. timeline_rows page viewer now d (timeline_source (UserTag_Timeline u tag) d)) (reader db d)"
    unfolding fetch_rows_def tx_bind_def pool_query_reader using rows by simp
  then show "list_by_tag_rows (list_user_posts_by_tag (user_id user) tag page viewer now) (reader db d) =
      (Inr (map (public_record d) (timeline_rows page viewer now d (timeline_source (UserTag_Timeline u tag) d))), reader db d)"
    using fetch_timeline_rows [OF assms, of page "UserTag_Timeline u tag" viewer now db]
    by (cases "\<exists>t \<in> set (stored_tags d). tag_slug t = tag")
      (simp_all add: list_by_tag_rows_def list_user_posts_by_tag_def tag_exists_def tx_bind_def tx_map_err_def
        tx_throw_def no_such_tag empty)
qed

lemma list_published_reader:
  assumes "listing_ok d"
  shows "list_published page Anonymous now (reader db d) =
      (Inr (map (public_record d) (timeline_rows page Anonymous now d (timeline_source Local_Timeline d))), reader db d)"
    and "list_published_by_user u page viewer now (reader db d) =
      (Inr (map (public_record d) (timeline_rows page viewer now d (timeline_source (User_Timeline u) d))), reader db d)"
  using fetch_timeline_rows [OF assms, of page Local_Timeline viewer now db]
    fetch_timeline_rows [OF assms, of page "User_Timeline u" viewer now db]
  by (simp_all add: list_published_def list_published_by_user_def)

lemma tx_of_result_apply: "tx_of_result r c = (r, c)"
  by (cases r) (simp_all add: tx_of_result_def tx_throw_def tx_return_def)

lemma read_timeline_eq:
  assumes "timeline_good t n (d, now)"
  shows "read_timeline C db t viewer order n c (d, now) = timeline_answer C t viewer order n c (d, now)"
proof -
  have ok: "listing_ok d" using assms by (simp add: timeline_good_def)
  note run = read_timeline_def timeline_answer_def tx_bind_def tx_map_err_def
  note reads = list_published_reader [OF ok] list_by_tag_reader [OF ok]
  let ?request = "timeline_page_request (timeline_keyset_cursor c) order (fetch_limit n)"
  show ?thesis
  proof (cases t)
    case (UserTag_Timeline u tag)
    with assms obtain user where user: "user_named u d = Some user" by (auto simp: timeline_good_def)
    then have found: "get_user_by_username u (reader db d) = (Inr (Some (user_record_of user)), reader db d)"
      by (simp add: get_user_by_username_def user_named_def)
    have uid: "ur_user_id (user_record_of user) = user_id user" by (simp add: user_record_of_def)
    show ?thesis
      using list_by_tag_reader(2) [OF ok user]
      by (cases ?request) (simp_all add: UserTag_Timeline fetch_user_posts_by_tag_def run tx_of_result_apply found uid
          del: timeline_source.simps)
  next
    case (Local_Timeline)
    show ?thesis
      by (cases ?request) (simp_all add: Local_Timeline fetch_local_timeline_def run tx_of_result_apply reads
          del: timeline_source.simps)
  next
    case (User_Timeline u)
    show ?thesis
      by (cases ?request) (simp_all add: User_Timeline fetch_user_posts_def run tx_of_result_apply reads
          del: timeline_source.simps)
  next
    case (Tag_Timeline tag)
    show ?thesis
      by (cases ?request) (simp_all add: Tag_Timeline fetch_posts_by_tag_def run tx_of_result_apply reads
          del: timeline_source.simps)
  next
    case (Home_Timeline uid u)
    have source: "timeline_source (User_Timeline u) d = timeline_source (Home_Timeline uid u) d" by simp
    show ?thesis
      by (cases ?request) (simp_all add: Home_Timeline list_home_timeline_def run tx_of_result_apply reads source
          del: timeline_source.simps)
  qed
qed

lemma timeline_listing_sorted:
  assumes "timeline_good t n s"
  shows "sorted_wrt (<) (map (shown_key order) (timeline_listing C t viewer order s))"
proof -
  obtain d now where s: "s = (d, now)" by (cases s)
  from assms have ok: "listing_ok d" by (simp add: timeline_good_def s)
  let ?vis = "visible_posts t viewer now d" and ?key = "\<lambda>p. order_key order (published_key p)"
  have "order_key order x = order_key order y \<Longrightarrow> x = y" for x y
    by (cases order; cases x; cases y) simp_all
  moreover have "published_key p = published_key q \<Longrightarrow> post_id p = post_id q" for p q
    by (simp add: published_key_def)
  ultimately have same: "?key p = ?key q \<Longrightarrow> post_id p = post_id q" for p q by blast
  have "distinct (map post_id ?vis)"
    using timeline_source_distinct [OF ok] by (simp add: visible_posts_def distinct_map_filter)
  then have "distinct ?vis" "inj_on post_id (set ?vis)" by (simp_all add: distinct_map)
  then have "distinct (map ?key ?vis)"
    unfolding distinct_map by (intro conjI inj_onI) (blast dest: same inj_onD)+
  then have "sorted_wrt (<) (map ?key (sort_key ?key ?vis))" by (rule strictly_sorted_by)
  moreover have "map (shown_key order) (timeline_listing C t viewer order s) = map ?key (sort_key ?key ?vis)"
    using shown_key_post [OF ok] by (auto simp: timeline_listing_def s)
  ultimately show ?thesis by simp
qed

lemma timeline_listing_published:
  assumes "timeline_good t n s" and "r \<in> set (timeline_listing C t viewer order s)"
  shows "rendered_published_at r \<noteq> None"
proof -
  obtain d now where s: "s = (d, now)" by (cases s)
  from assms obtain p where "listing_ok d" "p \<in> set (visible_posts t viewer now d)" "r = shown_post C t viewer d p"
    by (auto simp: timeline_good_def s timeline_listing_def)
  then show ?thesis using visible_published [of p t viewer now d] by (auto simp: shown_post_sel)
qed

lemma timeline_answer_eq:
  assumes good: "timeline_good t n (d, now)"
    and cursor: "\<And>p. p \<in> set (visible_posts t viewer now d) \<Longrightarrow>
      (case request_cursor page of None \<Rightarrow> True | Some c \<Rightarrow> timeline_clause order c p) \<longleftrightarrow>
      P (order_key order (published_key p))"
    and page: "timeline_page_request (timeline_keyset_cursor c) order (fetch_limit n) = Inr page"
      "request_order page = order" "request_limit page = fetch_limit n"
  shows "timeline_answer C t viewer order n c (d, now) =
    Inr (page_of n (shown_cursor order) (filter (\<lambda>r. P (shown_key order r)) (timeline_listing C t viewer order (d, now))))"
proof -
  let ?vis = "visible_posts t viewer now d" and ?key = "\<lambda>p. order_key order (published_key p)"
  have ok: "listing_ok d" and n: "0 < n" using good by (auto simp: timeline_good_def page_size_of_def split: if_splits)
  have rows: "timeline_rows page (timeline_viewer t viewer) now d (timeline_source t d) =
      take (fetch_limit n) (filter (\<lambda>p. P (?key p)) (sort_key ?key ?vis))"
    unfolding timeline_rows_visible page(2,3) by (rule keyset_rows_eq [where p = P, OF cursor])
  have sub: "set (filter (\<lambda>p. P (?key p)) (sort_key ?key ?vis)) \<subseteq> set ?vis" by auto
  have "map (shown_post C t viewer d) (filter (\<lambda>p. P (?key p)) ps) =
      filter (\<lambda>r. P (shown_key order r)) (map (shown_post C t viewer d) ps)" if "set ps \<subseteq> set ?vis" for ps
    using that by (induction ps) (auto simp: shown_key_post [OF ok])
  then have "map (shown_post C t viewer d) (filter (\<lambda>p. P (?key p)) (sort_key ?key ?vis)) =
      filter (\<lambda>r. P (shown_key order r)) (timeline_listing C t viewer order (d, now))"
    by (simp add: timeline_listing_def)
  then show ?thesis
    using page_from_rows_eq [OF n ok sub] by (simp add: timeline_answer_def page(1) rows)
qed

lemma timeline_first:
  assumes "timeline_good t n s"
  shows "read_timeline C db t viewer order n None s =
    Inr (page_of n (shown_cursor order) (timeline_listing C t viewer order s))"
proof -
  obtain d now where s: "s = (d, now)" by (cases s)
  show ?thesis
    using timeline_answer_eq [where t = t and n = n and d = d and now = now and viewer = viewer and order = order and C = C
        and page = "first_page order (fetch_limit n)" and P = "\<lambda>_. True" and c = None] assms
      read_timeline_eq [of t n d now C db viewer order None]
    by (simp add: s timeline_keyset_cursor_def timeline_page_request_def first_page_def)
qed

lemma timeline_after:
  assumes "timeline_good t n s" and "rendered_published_at r \<noteq> None"
  shows "read_timeline C db t viewer order n (Some (shown_cursor order r)) s =
    Inr (page_of n (shown_cursor order)
      (filter (\<lambda>q. shown_key order r < shown_key order q) (timeline_listing C t viewer order s)))"
proof -
  obtain d now where s: "s = (d, now)" by (cases s)
  from assms(2) obtain at where at: "rendered_published_at r = Some at" by auto
  let ?c = "\<lparr>cursor_published_at = at, cursor_post = rendered_post_id r, cursor_order = order\<rparr>"
  have "timeline_page_request (timeline_keyset_cursor (Some (shown_cursor order r))) order (fetch_limit n) =
      Inr (page_after ?c (fetch_limit n))"
    by (simp add: timeline_keyset_cursor_def shown_cursor_def display_time_def at timeline_page_request_def)
  moreover have "timeline_clause order ?c p \<longleftrightarrow> shown_key order r < order_key order (published_key p)"
    if "p \<in> set (visible_posts t viewer now d)" for p
    using timeline_clause_iff [of p _ order ?c] visible_published [OF that] by (auto simp: shown_key_def at)
  ultimately show ?thesis
    using timeline_answer_eq [where t = t and n = n and d = d and now = now and viewer = viewer and order = order and C = C
        and page = "page_after ?c (fetch_limit n)" and P = "\<lambda>k. shown_key order r < k"
        and c = "Some (shown_cursor order r)"] assms(1)
      read_timeline_eq [of t n d now C db viewer order "Some (shown_cursor order r)"]
    by (simp add: s page_after_def)
qed

interpretation timelines: keyset_listing
  "read_timeline C db t viewer order n" "timeline_listing C t viewer order" "shown_key order" "shown_cursor order"
  "\<lambda>r. rendered_published_at r \<noteq> None" "timeline_good t n" n
  for C db t viewer order n
proof unfold_locales
  show "timeline_good t n s \<Longrightarrow> 0 < n" for s
    by (auto simp: timeline_good_def page_size_of_def split: prod.splits if_splits)
qed (rule timeline_listing_sorted timeline_listing_published timeline_first timeline_after; assumption)+

subsection \<open>What a reader sees\<close>

lemma length_timeline_listing:
  assumes "listing_ok d"
  shows "length (timeline_listing C t viewer order (d, now)) \<le> length (posts d)"
proof -
  have "length (visible_posts t viewer now d) \<le> length (timeline_source t d)"
    by (simp add: visible_posts_def)
  also have "\<dots> \<le> length (posts d)"
    using assms by (cases t) (auto simp: listing_ok_def tagged_posts_eq authored_posts_def
        intro: le_trans [OF length_filter_le])
  finally show ?thesis by (simp add: timeline_listing_def)
qed

text \<open>
  C26: turning the pages of a timeline ends. Whatever the page size and the direction, the local,
  author, tag and home timelines walked from their first page to the page without a next cursor show
  every post that is published by now and that the viewer may read, once and in the order of its
  publication, and nothing else, after at most as many pages as there are posts.
\<close>

theorem timeline_walk_complete:
  assumes "timeline_good t n (d, now)" and "length (posts d) < m"
  shows "follow (read_timeline C db t viewer order n) (replicate m (d, now)) None =
    Some (Inr (map (shown_post C t viewer d)
      (sort_key (\<lambda>p. order_key order (published_key p)) (visible_posts t viewer now d))))"
proof -
  have "listing_ok d" using assms(1) by (simp add: timeline_good_def)
  from length_timeline_listing [OF this] assms(2)
  have "length (timeline_listing C t viewer order (d, now)) < m" by (rule le_less_trans)
  from timelines.follow_complete [OF assms(1) this] show ?thesis by (simp add: timeline_listing_def)
qed

text \<open>
  C27: the pages stay consistent while posts are written, edited and deleted between them. If the
  walk ends, no place of the timeline was shown twice, each post shown was visible at one of the
  moments the reader asked, and each post that stayed visible and kept its publication time was
  shown.
\<close>

theorem timeline_walk_stable:
  assumes "\<forall>s \<in> set ss. timeline_good t n s"
    and "follow (read_timeline C db t viewer order n) ss None = Some (Inr out)"
  shows "distinct (map (\<lambda>r. (rendered_published_at r, rendered_post_id r)) out) \<and>
    (\<forall>r \<in> set out. \<exists>(d, now) \<in> set ss. \<exists>p \<in> set (visible_posts t viewer now d). r = shown_post C t viewer d p) \<and>
    (\<forall>pid at. (\<forall>(d, now) \<in> set ss. \<exists>p \<in> set (visible_posts t viewer now d).
        post_id p = pid \<and> post_published_at p = Some at) \<longrightarrow>
      (\<exists>r \<in> set out. rendered_post_id r = pid \<and> rendered_published_at r = Some at))"
proof -
  have start: "follow (read_timeline C db t viewer order n) ss (map_option (shown_cursor order) None) = Some (Inr out)"
    using assms(2) by simp
  have "pred_option (\<lambda>r. rendered_published_at r \<noteq> None) None" by simp
  note walk = timelines.follow_changing [OF assms(1) this start, unfolded timelines.rest_simps]
  have sorted: "sorted_wrt (<) (map (shown_key order) out)" by (rule walk [THEN conjunct1])
  have sub: "set out \<subseteq> (\<Union>s \<in> set ss. set (timeline_listing C t viewer order s))"
    by (rule walk [THEN conjunct2, THEN conjunct1])
  have stay: "\<forall>k. (\<forall>s \<in> set ss. k \<in> shown_key order ` set (timeline_listing C t viewer order s)) \<longrightarrow>
      k \<in> shown_key order ` set out"
    by (rule walk [THEN conjunct2, THEN conjunct2])
  have pub: "rendered_published_at r \<noteq> None" if "r \<in> set out" for r
    using that sub assms(1) timeline_listing_published by blast
  have key: "order_key order x = order_key order y \<Longrightarrow> x = y" for x y
    by (cases order; cases x; cases y) simp_all
  have "distinct (map (shown_key order) out)" using sorted strict_sorted_iff by blast
  also have "map (shown_key order) out =
      map (\<lambda>(at, pid). order_key order (case at of None \<Rightarrow> 0 | Some t \<Rightarrow> t, pid))
        (map (\<lambda>r. (rendered_published_at r, rendered_post_id r)) out)"
    by (simp add: shown_key_def)
  finally have "distinct (map (\<lambda>r. (rendered_published_at r, rendered_post_id r)) out)"
    unfolding distinct_map [of _ "map _ _"] by (rule conjunct1)
  moreover have "\<exists>(d, now) \<in> set ss. \<exists>p \<in> set (visible_posts t viewer now d). r = shown_post C t viewer d p"
    if "r \<in> set out" for r
    using that sub by (fastforce simp: timeline_listing_def)
  moreover have "\<exists>r \<in> set out. rendered_post_id r = pid \<and> rendered_published_at r = Some at"
    if all: "\<forall>(d, now) \<in> set ss. \<exists>p \<in> set (visible_posts t viewer now d). post_id p = pid \<and> post_published_at p = Some at"
    for pid at
  proof -
    have "order_key order (at, pid) \<in> shown_key order ` set (timeline_listing C t viewer order s)" if s: "s \<in> set ss" for s
    proof -
      obtain d now where dn: "s = (d, now)" by (cases s)
      with all s obtain p where p: "p \<in> set (visible_posts t viewer now d)" "post_id p = pid" "post_published_at p = Some at"
        by blast
      have ok: "listing_ok d" using assms(1) s dn by (auto simp: timeline_good_def)
      have "shown_key order (shown_post C t viewer d p) = order_key order (at, pid)"
        using shown_key_post [OF ok p(1)] p(2,3) by (simp add: published_key_def)
      moreover have "shown_post C t viewer d p \<in> set (timeline_listing C t viewer order s)"
        using p(1) by (simp add: timeline_listing_def dn)
      ultimately show ?thesis by (metis imageI)
    qed
    with stay obtain r where r: "r \<in> set out" "shown_key order r = order_key order (at, pid)" by (metis imageE)
    from key [OF r(2) [unfolded shown_key_def]] pub [OF r(1)] r(1) show ?thesis by auto
  qed
  ultimately show ?thesis by blast
qed

subsection \<open>No read leaks\<close>

lemma mem_map_filter: "y \<in> set (List.map_filter f xs) \<longleftrightarrow> (\<exists>x \<in> set xs. f x = Some y)"
  by (induction xs) (auto split: option.splits)

lemma fetch_rows_okD:
  assumes "fetch_rows decode rows c = (Inr xs, c')"
  shows "committed c' = committed c" and "\<forall>x \<in> set xs. \<exists>r \<in> set (rows (committed c)). decode (committed c) r = Some (Inr x)"
proof -
  have some: "collect_results rs = Inr ys \<Longrightarrow> y \<in> set ys \<Longrightarrow> Inr y \<in> set rs" for rs :: "(sql_error + 'a) list" and ys y
    by (induction rs arbitrary: ys rule: collect_results.induct) (auto split: sum.splits)
  from assms have c: "collect_results (List.map_filter (decode (committed c)) (rows (committed c))) = Inr xs"
    and c': "c' = spend_fault c"
    by (auto simp: fetch_rows_def tx_simps tx_of_result_apply)
  show "committed c' = committed c" by (simp add: c')
  show "\<forall>x \<in> set xs. \<exists>r \<in> set (rows (committed c)). decode (committed c) r = Some (Inr x)"
    using some [OF c] unfolding mem_map_filter by blast
qed

lemma decode_public_state:
  "decode_public d p = Some (Inr (post, l)) \<Longrightarrow> record_state post = post_state.truncate p"
  by (cases "license_column d (post_user p)")
    (auto simp: decode_public_def decode_post_def map_option_case split: sum.splits if_splits option.splits)

lemma public_rows_visible:
  assumes "fetch_rows decode_public (\<lambda>d. timeline_rows page viewer now d (source d)) c = (Inr rows, c')"
    and "\<And>d. set (source d) \<subseteq> set (posts d)"
  shows "committed c' = committed c" and "\<forall>row \<in> set rows. \<exists>p \<in> set (posts (committed c)).
    record_state (fst row) = post_state.truncate p \<and> live_at now p \<and> readable viewer (committed c) p"
proof -
  show "committed c' = committed c" by (rule fetch_rows_okD(1) [OF assms(1)])
  show "\<forall>row \<in> set rows. \<exists>p \<in> set (posts (committed c)).
    record_state (fst row) = post_state.truncate p \<and> live_at now p \<and> readable viewer (committed c) p"
  proof
    fix row assume "row \<in> set rows"
    with fetch_rows_okD(2) [OF assms(1)] obtain p where
      p: "p \<in> set (timeline_rows page viewer now (committed c) (source (committed c)))"
      "decode_public (committed c) p = Some (Inr row)" by blast
    from p(1) set_keyset_rows assms(2) have "p \<in> set (posts (committed c))" "live_at now p" "readable viewer (committed c) p"
      unfolding timeline_rows_def by fastforce+
    with p(2) show "\<exists>p \<in> set (posts (committed c)).
        record_state (fst row) = post_state.truncate p \<and> live_at now p \<and> readable viewer (committed c) p"
      by (cases row) (auto dest: decode_public_state)
  qed
qed

lemma project_row_SomeD:
  "project_row rights C uid row = Some r \<Longrightarrow>
     rendered_post_id r = post_id (record_state (fst row)) \<and>
     rendered_published_at r = post_published_at (record_state (fst row)) \<and>
     rendered_post_html r = post_rendered_html (record_state (fst row)) \<and>
     rendered_is_author r = (uid = Some (post_user (record_state (fst row))))"
  by (cases rights; cases row)
    (auto simp: rendered_post_def rendered_home_post_def rendered_post_from_record_def Let_def split: if_splits)

lemma page_from_rows_okD:
  assumes "page_from_rows C rows n uid order rights = Inr page"
  shows "length (page_posts page) \<le> n"
    and "r \<in> set (page_posts page) \<Longrightarrow> \<exists>row \<in> set rows. project_row rights C uid row = Some r"
proof -
  from assms have posts: "page_posts page = List.map_filter (project_row rights C uid) (take n rows)"
    by (auto simp: page_from_rows_def Let_def page_len_def split: sum.splits)
  have "length (List.map_filter f xs) \<le> length xs" for f :: "public_post \<Rightarrow> rendered_post option" and xs
    by (induction xs) (auto split: option.splits)
  from le_trans [OF this] show "length (page_posts page) \<le> n" by (simp add: posts)
  show "r \<in> set (page_posts page) \<Longrightarrow> \<exists>row \<in> set rows. project_row rights C uid row = Some r"
    unfolding posts mem_map_filter by (blast dest: in_set_takeD)
qed

lemma list_by_tag_rows_okD:
  "list_by_tag_rows listing c = (Inr rows, c') \<Longrightarrow> rows = [] \<or> listing c = (Inr rows, c')"
  by (auto simp: list_by_tag_rows_def split: prod.splits sum.splits list_by_tag_error.splits)

definition rows_visible :: "viewer_identity \<Rightarrow> instant \<Rightarrow> database \<Rightarrow> public_post list \<Rightarrow> bool" where
  "rows_visible viewer now d rows \<longleftrightarrow> (\<forall>row \<in> set rows. \<exists>p \<in> set (posts d).
     record_state (fst row) = post_state.truncate p \<and> live_at now p \<and> readable viewer d p)"

lemma listings_visible:
  "list_published page viewer now c = (Inr rows, c') \<Longrightarrow> rows_visible viewer now (committed c) rows"
  "list_published_by_user u page viewer now c = (Inr rows, c') \<Longrightarrow> rows_visible viewer now (committed c) rows"
  "list_posts_by_tag tag page viewer now c = (Inr rows, c') \<Longrightarrow> rows_visible viewer now (committed c) rows"
  "list_user_posts_by_tag uid tag page viewer now c = (Inr rows, c') \<Longrightarrow> rows_visible viewer now (committed c) rows"
proof -
  have tagged: "set (tagged_posts tag d ps) \<subseteq> set ps" for tag d ps
    by (auto simp: tagged_posts_def)
  note visible = public_rows_visible(2) [where page = page and viewer = viewer and now = now]
  show "list_published page viewer now c = (Inr rows, c') \<Longrightarrow> rows_visible viewer now (committed c) rows"
    unfolding rows_visible_def list_published_def by (erule visible) (rule authored_subset)
  show "list_published_by_user u page viewer now c = (Inr rows, c') \<Longrightarrow> rows_visible viewer now (committed c) rows"
    unfolding rows_visible_def list_published_by_user_def by (erule visible) (use authored_subset in auto)
  show "rows_visible viewer now (committed c) rows" if "list_posts_by_tag tag page viewer now c = (Inr rows, c')"
  proof -
    from that obtain c1 where "committed c1 = committed c" and
      "fetch_rows decode_public (\<lambda>d. timeline_rows page viewer now d (tagged_posts tag d (authored_posts d))) c1 = (Inr rows, c')"
      by (auto simp: list_posts_by_tag_def tag_exists_def tx_simps split: if_splits intro!: that [of "spend_fault c"])
    with visible [OF this(2)] tagged authored_subset show ?thesis unfolding rows_visible_def by (metis subset_trans)
  qed
  show "rows_visible viewer now (committed c) rows" if "list_user_posts_by_tag uid tag page viewer now c = (Inr rows, c')"
  proof -
    from that obtain c1 where c1: "committed c1 = committed c" and
      fetch: "fetch_rows decode_public (\<lambda>d. timeline_rows page viewer now d
        (tagged_posts tag d (filter (\<lambda>p. post_user p = uid) (authored_posts d)))) c1 = (Inr rows, c')"
      by (auto simp: list_user_posts_by_tag_def tag_exists_def tx_simps split: if_splits intro!: that [of "spend_fault c"])
    have "set (tagged_posts tag d (filter (\<lambda>p. post_user p = uid) (authored_posts d))) \<subseteq> set (posts d)" for d
      using tagged [of tag d] authored_subset [of d] by fastforce
    from visible [OF fetch this] c1 show ?thesis unfolding rows_visible_def by simp
  qed
qed

lemma by_tag_visible:
  assumes "list_by_tag_rows listing c = (Inr rows, c')"
    and "listing c = (Inr rows, c') \<Longrightarrow> rows_visible viewer now d rows"
  shows "rows_visible viewer now d rows"
  using list_by_tag_rows_okD [OF assms(1)] assms(2) by (auto simp: rows_visible_def)

lemma timeline_page_rows:
  assumes "timeline_page C t viewer order limit c now k = (Inr page, k')"
  shows "\<exists>rows. page_from_rows C rows (case_option default_page_size id limit) (timeline_uid t viewer) order (timeline_rights t) = Inr page \<and>
    rows_visible (timeline_viewer t viewer) now (committed k) rows"
proof (cases t)
  case Local_Timeline
  with assms show ?thesis
    by (auto simp: fetch_local_timeline_def Let_def tx_simps tx_of_result_apply dest: listings_visible)
next
  case (User_Timeline u)
  with assms show ?thesis
    by (auto simp: fetch_user_posts_def Let_def tx_simps tx_of_result_apply dest: listings_visible)
next
  case (Tag_Timeline tag)
  with assms obtain page' rows k2 where "list_by_tag_rows (list_posts_by_tag tag page' viewer now) k = (Inr rows, k2)"
    "page_from_rows C rows (case_option default_page_size id limit) (viewer_user_id viewer) order Public_Rights = Inr page"
    by (auto simp: fetch_posts_by_tag_def Let_def tx_simps tx_of_result_apply)
  with by_tag_visible [OF this(1) listings_visible(3)] show ?thesis by (auto simp: Tag_Timeline)
next
  case (UserTag_Timeline u tag)
  from assms have "\<exists>author page' rows. list_by_tag_rows (list_user_posts_by_tag author tag page' viewer now) (spend_fault k) = (Inr rows, k') \<and>
    page_from_rows C rows (case_option default_page_size id limit) (viewer_user_id viewer) order Public_Rights = Inr page"
    unfolding UserTag_Timeline timeline_page.simps fetch_user_posts_by_tag_def Let_def get_user_by_username_def
    by (auto simp: tx_simps tx_of_result_apply)
  then show ?thesis using by_tag_visible [OF _ listings_visible(4)] by (fastforce simp: UserTag_Timeline)
next
  case (Home_Timeline uid u)
  with assms show ?thesis
    by (auto simp: list_home_timeline_def Let_def tx_simps tx_of_result_apply dest: listings_visible)
qed

text \<open>
  C25: no page leaks. Whatever a timeline answers, with whatever cursor and on any database, its rows
  are stored posts that are published by now, are not deleted and resolve for the reader; the public
  local timeline resolves for an anonymous reader whoever asks. A page is never longer than its size,
  and only the reader's own posts are marked as theirs.
\<close>

theorem timeline_page_visible:
  assumes "timeline_page C t viewer order limit c now k = (Inr page, k')"
  shows "length (page_posts page) \<le> (case limit of None \<Rightarrow> 50 | Some n \<Rightarrow> n) \<and>
    (\<forall>r \<in> set (page_posts page). \<exists>p \<in> set (posts (committed k)).
       rendered_post_id r = post_id p \<and> rendered_post_html r = post_rendered_html p \<and>
       live_at now p \<and> resolves (timeline_viewer t viewer) (committed k) (post_id p) (post_user p) \<and>
       (rendered_is_author r \<longleftrightarrow> timeline_uid t viewer = Some (post_user p)))"
proof -
  from timeline_page_rows [OF assms] obtain rows where
    rows: "page_from_rows C rows (case_option default_page_size id limit) (timeline_uid t viewer) order (timeline_rights t) = Inr page"
    and visible: "rows_visible (timeline_viewer t viewer) now (committed k) rows" by blast
  have "length (page_posts page) \<le> (case limit of None \<Rightarrow> 50 | Some n \<Rightarrow> n)"
    using page_from_rows_okD(1) [OF rows] by (cases limit) (simp_all add: default_page_size_def)
  moreover have "\<exists>p \<in> set (posts (committed k)).
       rendered_post_id r = post_id p \<and> rendered_post_html r = post_rendered_html p \<and>
       live_at now p \<and> resolves (timeline_viewer t viewer) (committed k) (post_id p) (post_user p) \<and>
       (rendered_is_author r \<longleftrightarrow> timeline_uid t viewer = Some (post_user p))" if "r \<in> set (page_posts page)" for r
  proof -
    from page_from_rows_okD(2) [OF rows that] obtain row where "row \<in> set rows"
      and r: "project_row (timeline_rights t) C (timeline_uid t viewer) row = Some r" by blast
    with visible obtain p where p: "p \<in> set (posts (committed k))" "record_state (fst row) = post_state.truncate p"
      "live_at now p" "readable (timeline_viewer t viewer) (committed k) p"
      unfolding rows_visible_def by blast
    with project_row_SomeD [OF r] show ?thesis
      by (intro bexI [of _ p]) (simp_all add: post_state.defs readable_def)
  qed
  ultimately show ?thesis by blast
qed

subsection \<open>Ada's timeline as Bo reads it\<close>

lemma subscribers_post_listing_ok: "listing_ok subscribers_post"
  by (simp add: listing_ok_def tags_wf_def titles_match_def license_column_def parse_content_license_def
      parse_token_def license_variants_def subscribers_post_defs)

lemma bo_sees: "visible_posts (User_Timeline (lit ''ada'')) (Local 2) 5 subscribers_post = [example_post 7 1 ''hello'' (Some 2)]"
proof -
  have "readable (Local 2) subscribers_post (example_post 7 1 ''hello'' (Some 2))"
    using bo_reads_subscribers_post by (simp add: readable_def example_post_def)
  then show ?thesis
    by (simp add: visible_posts_def authored_posts_def author_named_def find_user_def live_at_def subscribers_post_def
        after_bo_follows_def two_users_def example_user_def) (simp add: example_post_def)
qed

lemma bo_reads_well: "timeline_good (User_Timeline (lit ''ada'')) 1 (subscribers_post, 5)"
  by (simp add: timeline_good_def subscribers_post_listing_ok page_size_of_def)

lemma timeline_walk_complete_witness:
  "\<exists>r. follow (read_timeline example_calendar Sqlite (User_Timeline (lit ''ada'')) (Local 2) Newest 1)
      (replicate 2 (subscribers_post, 5)) None = Some (Inr [r]) \<and> rendered_post_id r = 7"
proof -
  let ?p = "example_post 7 1 ''hello'' (Some 2)"
  let ?r = "shown_post example_calendar (User_Timeline (lit ''ada'')) (Local 2) subscribers_post ?p"
  have "length (posts subscribers_post) < 2" by (simp add: subscribers_post_defs)
  from timeline_walk_complete [OF bo_reads_well this, of example_calendar Sqlite "Local 2" Newest] bo_sees
  have "follow (read_timeline example_calendar Sqlite (User_Timeline (lit ''ada'')) (Local 2) Newest 1)
      (replicate 2 (subscribers_post, 5)) None = Some (Inr [?r])" by simp
  moreover have "rendered_post_id ?r = post_id ?p"
    by (rule shown_post_sel(2) [OF subscribers_post_listing_ok, where now = 5]) (simp add: bo_sees [simplified])
  ultimately show ?thesis by (auto simp: example_post_def)
qed

lemma bo_walks: "\<exists>out. follow (read_timeline example_calendar Sqlite (User_Timeline (lit ''ada'')) (Local 2) Newest 1)
    [(subscribers_post, 5), (subscribers_post, 6)] None = Some (Inr out)"
proof -
  have "length (timeline_listing example_calendar (User_Timeline (lit ''ada'')) (Local 2) Newest (subscribers_post, 5)) = 1"
    by (simp add: timeline_listing_def bo_sees [simplified])
  with timeline_first [OF bo_reads_well, of example_calendar Sqlite "Local 2" Newest] show ?thesis
    by (simp add: page_of_def)
qed

lemma timeline_walk_stable_witness:
  "\<exists>out. follow (read_timeline example_calendar Sqlite (User_Timeline (lit ''ada'')) (Local 2) Newest 1)
      [(subscribers_post, 5), (subscribers_post, 6)] None = Some (Inr out) \<and>
    distinct (map (\<lambda>r. (rendered_published_at r, rendered_post_id r)) out)"
proof -
  from bo_walks obtain out where out: "follow (read_timeline example_calendar Sqlite (User_Timeline (lit ''ada''))
    (Local 2) Newest 1) [(subscribers_post, 5), (subscribers_post, 6)] None = Some (Inr out)" ..
  have "\<forall>s \<in> set [(subscribers_post, 5), (subscribers_post, 6)]. timeline_good (User_Timeline (lit ''ada'')) 1 s"
    by (simp add: timeline_good_def subscribers_post_listing_ok page_size_of_def)
  from timeline_walk_stable [OF this out] out show ?thesis by blast
qed

lemma timeline_page_visible_witness:
  "\<exists>page k' r. timeline_page example_calendar (User_Timeline (lit ''ada'')) (Local 2) Newest (Some 1) None 5
      (reader Sqlite subscribers_post) = (Inr page, k') \<and> r \<in> set (page_posts page) \<and>
    (\<exists>p \<in> set (posts subscribers_post). rendered_post_id r = post_id p \<and> resolves (Local 2) subscribers_post (post_id p) (post_user p))"
proof -
  let ?t = "User_Timeline (lit ''ada'')"
  let ?page = "page_of 1 (shown_cursor Newest) (timeline_listing example_calendar ?t (Local 2) Newest (subscribers_post, 5))"
  from timeline_first [OF bo_reads_well, of example_calendar Sqlite "Local 2" Newest]
  obtain k' where ran: "timeline_page example_calendar ?t (Local 2) Newest (Some 1) None 5 (reader Sqlite subscribers_post) =
      (Inr ?page, k')"
    unfolding read_timeline_def by (cases "timeline_page example_calendar ?t (Local 2) Newest (Some 1) None 5 (reader Sqlite subscribers_post)") simp
  have "length (page_posts ?page) = 1" by (simp add: page_of_def timeline_listing_def bo_sees [simplified])
  then obtain r where r: "r \<in> set (page_posts ?page)" by (metis length_greater_0_conv less_one nth_mem)
  from timeline_page_visible [OF ran] r ran show ?thesis
    by (intro exI [of _ ?page] exI [of _ k'] exI [of _ r]) auto
qed

end
