(* ===== verification/Author_Reads.thy ===== *)
theory Author_Reads
  imports Timelines
begin

section \<open>What authors read of their own posts\<close>

text \<open>
  Drafts, scheduled posts and the revision history are keyset listings like the timelines; a revision
  shows what its version was; and the reads of single posts resolve like the listings.
\<close>

lemma keyset_fetch:
  assumes "\<And>p. p \<in> set (source d) \<Longrightarrow> decode d p = Some (Inr (f p))"
    and "\<And>p. p \<in> set (source d) \<Longrightarrow> (case cursor of None \<Rightarrow> True | Some c \<Rightarrow> after c p) \<longleftrightarrow> P (key p)"
  shows "fetch_rows decode (\<lambda>d. keyset_rows key after cursor limit (source d)) (reader db d) =
    (Inr (map f (take limit (filter (\<lambda>p. P (key p)) (sort_key key (source d))))), reader db d)"
proof -
  have "fetch_rows decode (\<lambda>d. keyset_rows key after cursor limit (source d)) (reader db d) =
      (Inr (map f (keyset_rows key after cursor limit (source d))), reader db d)"
    using fetch_rows_ok [of "reader db d" "\<lambda>d. keyset_rows key after cursor limit (source d)" decode f]
      assms(1) subsetD [OF set_keyset_rows] by fastforce
  also have "keyset_rows key after cursor limit (source d) = take limit (filter (\<lambda>p. P (key p)) (sort_key key (source d)))"
    by (rule keyset_rows_eq [where p = P, OF assms(2)])
  finally show ?thesis .
qed

lemma page_of_record:
  assumes "0 < n" and "rows = take (fetch_limit n) xs"
  shows "\<lparr>page_posts = take (page_len n) rows,
      page_next = (if has_more n (length rows) \<and> take (page_len n) rows \<noteq> []
        then Some (cursor_of (last (take (page_len n) rows))) else None),
      page_has_more = has_more n (length rows)\<rparr> = page_of n cursor_of xs"
proof -
  have more: "has_more n (length rows) \<longleftrightarrow> n < length xs"
    using page_of_over_fetch(2) [of n xs] by (simp add: not_le assms(2))
  have shown: "take (page_len n) rows = take n xs" by (simp only: assms(2) page_of_over_fetch(1))
  show ?thesis unfolding more shown page_of_def using assms(1) by auto
qed

lemma filter_map_key:
  "(\<And>p. p \<in> set ps \<Longrightarrow> key' (f p) = key p) \<Longrightarrow>
     map f (filter (\<lambda>p. P (key p)) ps) = filter (\<lambda>r. P (key' r)) (map f ps)"
  by (induction ps) auto

lemma sorted_listing:
  assumes "distinct (map key ps)" and "\<And>p. p \<in> set ps \<Longrightarrow> key' (f p) = key p"
  shows "sorted_wrt (<) (map key' (map f (sort_key key ps)))"
proof -
  have "map key' (map f (sort_key key ps)) = map key (sort_key key ps)" using assms(2) by simp
  with strictly_sorted_by [OF assms(1)] show ?thesis by (simp only:)
qed

lemma distinct_map_finer:
  "distinct (map f xs) \<Longrightarrow> (\<And>x y. g x = g y \<Longrightarrow> f x = f y) \<Longrightarrow> distinct (map g xs)"
  unfolding distinct_map inj_on_def by blast

subsection \<open>Drafts and scheduled posts\<close>

definition own_record :: "database \<Rightarrow> post_row \<Rightarrow> post_record" where
  "own_record d p = projr (the (decode_post d p))"

lemma decode_post_ok:
  assumes "listing_ok d" and "p \<in> set (authored_posts d)"
  shows "decode_post d p = Some (Inr (own_record d p))" and "record_state (own_record d p) = post_state.truncate p"
proof -
  from assms(2) obtain u where u: "find_user (post_user p) d = Some u" by (auto simp: authored_posts_def)
  from assms authored_subset have t: "titles_match (post_title p) (post_rendered_title p)"
    unfolding listing_ok_def by blast
  have "decode_post d p = Some (Inr \<lparr>record_state = post_state.truncate p, record_username = user_username u,
      record_display_name = user_display_name u, record_tags = tags_of_post (post_id p) d\<rparr>)"
    by (simp add: decode_post_def u t)
  then show "decode_post d p = Some (Inr (own_record d p))" "record_state (own_record d p) = post_state.truncate p"
    by (simp_all add: own_record_def)
qed

definition drafts_of :: "int \<Rightarrow> instant \<Rightarrow> database \<Rightarrow> post_row list" where
  "drafts_of uid now d = filter (\<lambda>p. post_user p = uid \<and> unpublished_at now p) (authored_posts d)"

definition scheduled_of :: "int \<Rightarrow> instant \<Rightarrow> database \<Rightarrow> post_row list" where
  "scheduled_of uid now d = filter (\<lambda>p. post_user p = uid \<and> scheduled_at now p) (authored_posts d)"

definition draft_listing :: "int \<Rightarrow> database \<times> instant \<Rightarrow> post_record list" where
  "draft_listing uid = (\<lambda>(d, now). map (own_record d) (sort_key draft_key (drafts_of uid now d)))"

definition scheduled_listing :: "int \<Rightarrow> database \<times> instant \<Rightarrow> post_record list" where
  "scheduled_listing uid = (\<lambda>(d, now). map (own_record d) (sort_key published_key (scheduled_of uid now d)))"

definition draft_record_key :: "post_record \<Rightarrow> int \<times> int" where
  "draft_record_key r = (- post_created_at (record_state r), - post_id (record_state r))"

definition scheduled_record_key :: "post_record \<Rightarrow> int \<times> int" where
  "scheduled_record_key r = (case post_published_at (record_state r) of None \<Rightarrow> 0 | Some t \<Rightarrow> t, post_id (record_state r))"

definition draft_cursor_of :: "post_record \<Rightarrow> page_cursor" where
  "draft_cursor_of r = \<lparr>page_created_at = post_created_at (record_state r), page_post = post_id (record_state r)\<rparr>"

definition scheduled_cursor_of :: "post_record \<Rightarrow> page_cursor" where
  "scheduled_cursor_of r = \<lparr>page_created_at = fst (scheduled_record_key r), page_post = post_id (record_state r)\<rparr>"

definition own_good :: "nat \<Rightarrow> database \<times> instant \<Rightarrow> bool" where
  "own_good n s \<longleftrightarrow> page_size_of n \<noteq> None \<and> listing_ok (fst s)"

definition read_drafts :: "backend \<Rightarrow> int \<Rightarrow> nat \<Rightarrow> page_cursor option \<Rightarrow> database \<times> instant \<Rightarrow>
    timeline_error + (post_record, page_cursor) page" where
  "read_drafts db uid n c = (\<lambda>(d, now). fst (list_drafts uid c (Some n) now (reader db d)))"

definition read_scheduled :: "backend \<Rightarrow> int \<Rightarrow> nat \<Rightarrow> page_cursor option \<Rightarrow> database \<times> instant \<Rightarrow>
    timeline_error + (post_record, page_cursor) page" where
  "read_scheduled db uid n c = (\<lambda>(d, now). fst (list_scheduled uid c (Some n) now (reader db d)))"

lemma own_record_key:
  assumes "listing_ok d" and "p \<in> set (authored_posts d)"
  shows "draft_record_key (own_record d p) = draft_key p" "scheduled_record_key (own_record d p) = published_key p"
  using decode_post_ok(2) [OF assms]
  by (simp_all add: draft_record_key_def draft_key_def scheduled_record_key_def published_key_def post_state.defs)

lemma own_distinct:
  assumes "listing_ok d" and "\<And>p q. key p = key q \<Longrightarrow> post_id p = post_id q"
  shows "distinct (map key (filter P (authored_posts d)))"
proof (rule distinct_map_finer [where f = post_id])
  show "distinct (map post_id (filter P (authored_posts d)))"
    using assms(1) by (simp add: listing_ok_def authored_posts_def distinct_map_filter)
qed (rule assms(2))

lemma read_drafts_eq:
  assumes "own_good n (d, now)"
    and "\<And>p. (case c of None \<Rightarrow> True | Some c \<Rightarrow> draft_clause \<lparr>draft_created_at = page_created_at c, draft_post = page_post c\<rparr> p)
      \<longleftrightarrow> P (draft_key p)"
  shows "read_drafts db uid n c (d, now) =
    Inr (page_of n draft_cursor_of (filter (\<lambda>r. P (draft_record_key r)) (draft_listing uid (d, now))))"
proof -
  have ok: "listing_ok d" and n: "0 < n" using assms(1) by (auto simp: own_good_def page_size_of_def split: if_splits)
  let ?ps = "sort_key draft_key (drafts_of uid now d)"
  have "list_drafts_by_user uid (keyset_cursor c) (fetch_limit n) now (reader db d) =
      (Inr (map (own_record d) (take (fetch_limit n) (filter (\<lambda>p. P (draft_key p)) ?ps))), reader db d)"
    unfolding list_drafts_by_user_def drafts_of_def
    by (rule keyset_fetch) (use decode_post_ok(1) [OF ok] assms(2) in \<open>auto simp: keyset_cursor_def split: option.splits\<close>)
  moreover have "map (own_record d) (filter (\<lambda>p. P (draft_key p)) ?ps) =
      filter (\<lambda>r. P (draft_record_key r)) (draft_listing uid (d, now))"
    unfolding draft_listing_def prod.case by (rule filter_map_key) (simp add: own_record_key [OF ok] drafts_of_def)
  moreover define rows where "rows = take (fetch_limit n) (filter (\<lambda>r. P (draft_record_key r)) (draft_listing uid (d, now)))"
  ultimately have run: "list_drafts_by_user uid (keyset_cursor c) (fetch_limit n) now (reader db d) = (Inr rows, reader db d)"
    by (simp add: take_map [symmetric])
  show ?thesis
    unfolding page_of_record [OF n rows_def, of draft_cursor_of, symmetric]
    by (simp add: read_drafts_def list_drafts_def tx_bind_def tx_map_err_def run tx_return_def draft_cursor_of_def Let_def)
qed

lemma read_scheduled_eq:
  assumes "own_good n (d, now)"
    and "\<And>p. p \<in> set (scheduled_of uid now d) \<Longrightarrow>
      (case c of None \<Rightarrow> True
       | Some c \<Rightarrow> scheduled_clause \<lparr>scheduled_published_at = page_created_at c, scheduled_post = page_post c\<rparr> p)
      \<longleftrightarrow> P (published_key p)"
  shows "read_scheduled db uid n c (d, now) =
    Inr (page_of n scheduled_cursor_of (filter (\<lambda>r. P (scheduled_record_key r)) (scheduled_listing uid (d, now))))"
proof -
  have ok: "listing_ok d" and n: "0 < n" using assms(1) by (auto simp: own_good_def page_size_of_def split: if_splits)
  let ?ps = "sort_key published_key (scheduled_of uid now d)"
  have "list_scheduled_by_user uid (scheduled_keyset_cursor c) (fetch_limit n) now (reader db d) =
      (Inr (map (own_record d) (take (fetch_limit n) (filter (\<lambda>p. P (published_key p)) ?ps))), reader db d)"
    unfolding list_scheduled_by_user_def scheduled_of_def
    by (rule keyset_fetch) (use decode_post_ok(1) [OF ok] assms(2) in \<open>auto simp: scheduled_keyset_cursor_def scheduled_of_def split: option.splits\<close>)
  moreover have "map (own_record d) (filter (\<lambda>p. P (published_key p)) ?ps) =
      filter (\<lambda>r. P (scheduled_record_key r)) (scheduled_listing uid (d, now))"
    unfolding scheduled_listing_def prod.case by (rule filter_map_key) (simp add: own_record_key [OF ok] scheduled_of_def)
  moreover define rows where
    "rows = take (fetch_limit n) (filter (\<lambda>r. P (scheduled_record_key r)) (scheduled_listing uid (d, now)))"
  ultimately have run: "list_scheduled_by_user uid (scheduled_keyset_cursor c) (fetch_limit n) now (reader db d) = (Inr rows, reader db d)"
    by (simp add: take_map [symmetric])
  have last: "to_scheduled_post_cursor r = Inr \<lparr>scheduled_published_at = fst (scheduled_record_key r),
      scheduled_post = post_id (record_state r)\<rparr>" if "r \<in> set rows" for r
  proof -
    from in_set_takeD [OF that [unfolded rows_def]] obtain p where
      p: "p \<in> set (scheduled_of uid now d)" "r = own_record d p"
      by (auto simp: scheduled_listing_def)
    then have "post_published_at (record_state r) \<noteq> None"
      using decode_post_ok(2) [OF ok, of p] by (auto simp: scheduled_of_def scheduled_at_def post_state.defs split: option.splits)
    then show ?thesis by (auto simp: to_scheduled_post_cursor_def scheduled_record_key_def)
  qed
  have cursor: "to_scheduled_post_cursor (last (take (page_len n) rows)) =
      Inr \<lparr>scheduled_published_at = fst (scheduled_record_key (last (take (page_len n) rows))),
        scheduled_post = post_id (record_state (last (take (page_len n) rows)))\<rparr>" if "take (page_len n) rows \<noteq> []"
    by (rule last) (use that last_in_set in \<open>blast dest: in_set_takeD\<close>)
  show ?thesis
    unfolding page_of_record [OF n rows_def, of scheduled_cursor_of, symmetric]
    using cursor by (simp add: read_scheduled_def list_scheduled_def tx_bind_def tx_map_err_def run tx_return_def
        scheduled_cursor_of_def wire_scheduled_cursor_def Let_def)
qed

lemma draft_clause_iff:
  "draft_clause \<lparr>draft_created_at = t, draft_post = pid\<rparr> p \<longleftrightarrow> (- t, - pid) < draft_key p"
  by (auto simp: draft_clause_def draft_key_def less_prod_def)

lemma scheduled_clause_iff:
  "post_published_at p \<noteq> None \<Longrightarrow>
     scheduled_clause \<lparr>scheduled_published_at = t, scheduled_post = pid\<rparr> p \<longleftrightarrow> (t, pid) < published_key p"
  by (auto simp: scheduled_clause_def published_key_def less_prod_def)

lemma own_sorted:
  assumes "own_good n s"
  shows "sorted_wrt (<) (map draft_record_key (draft_listing uid s))"
    and "sorted_wrt (<) (map scheduled_record_key (scheduled_listing uid s))"
proof -
  obtain d now where s: "s = (d, now)" by (cases s)
  have ok: "listing_ok d" using assms by (simp add: own_good_def s)
  show "sorted_wrt (<) (map draft_record_key (draft_listing uid s))"
    unfolding s draft_listing_def prod.case drafts_of_def
    by (rule sorted_listing) (auto simp: own_record_key [OF ok] draft_key_def intro!: own_distinct [OF ok])
  show "sorted_wrt (<) (map scheduled_record_key (scheduled_listing uid s))"
    unfolding s scheduled_listing_def prod.case scheduled_of_def
    by (rule sorted_listing) (auto simp: own_record_key [OF ok] published_key_def intro!: own_distinct [OF ok])
qed

interpretation drafts: keyset_listing
  "read_drafts db uid n" "draft_listing uid" draft_record_key draft_cursor_of "\<lambda>r. True" "own_good n" n
  for db uid n
proof unfold_locales
  show "own_good n s \<Longrightarrow> 0 < n" for s by (auto simp: own_good_def page_size_of_def split: if_splits)
  show "own_good n s \<Longrightarrow> sorted_wrt (<) (map draft_record_key (draft_listing uid s))" for s by (rule own_sorted)
  show "own_good n s \<Longrightarrow> read_drafts db uid n None s = Inr (page_of n draft_cursor_of (draft_listing uid s))" for s
    using read_drafts_eq [of n "fst s" "snd s" None "\<lambda>_. True"] by simp
  show "own_good n s \<Longrightarrow> read_drafts db uid n (Some (draft_cursor_of p)) s =
      Inr (page_of n draft_cursor_of (filter (\<lambda>q. draft_record_key p < draft_record_key q) (draft_listing uid s)))" for s p
    using read_drafts_eq [of n "fst s" "snd s" "Some (draft_cursor_of p)" "\<lambda>k. draft_record_key p < k"]
    by (simp add: draft_clause_iff draft_cursor_of_def draft_record_key_def)
qed simp

lemma scheduled_listing_published:
  assumes "own_good n s" and "r \<in> set (scheduled_listing uid s)"
  shows "post_published_at (record_state r) \<noteq> None"
proof -
  obtain d now where s: "s = (d, now)" by (cases s)
  have ok: "listing_ok d" using assms by (simp add: own_good_def s)
  from assms(2) obtain p where "p \<in> set (scheduled_of uid now d)" "r = own_record d p"
    by (auto simp: s scheduled_listing_def)
  then show ?thesis
    using decode_post_ok(2) [OF ok, of p] by (auto simp: scheduled_of_def scheduled_at_def post_state.defs split: option.splits)
qed

interpretation scheduled: keyset_listing
  "read_scheduled db uid n" "scheduled_listing uid" scheduled_record_key scheduled_cursor_of
  "\<lambda>r. post_published_at (record_state r) \<noteq> None" "own_good n" n
  for db uid n
proof unfold_locales
  show "own_good n s \<Longrightarrow> 0 < n" for s by (auto simp: own_good_def page_size_of_def split: if_splits)
  show "own_good n s \<Longrightarrow> sorted_wrt (<) (map scheduled_record_key (scheduled_listing uid s))" for s by (rule own_sorted)
  show "own_good n s \<Longrightarrow> r \<in> set (scheduled_listing uid s) \<Longrightarrow> post_published_at (record_state r) \<noteq> None" for s r
    by (rule scheduled_listing_published)
  show "own_good n s \<Longrightarrow> read_scheduled db uid n None s = Inr (page_of n scheduled_cursor_of (scheduled_listing uid s))" for s
    using read_scheduled_eq [of n "fst s" "snd s" uid None "\<lambda>_. True"] by simp
  show "own_good n s \<Longrightarrow> post_published_at (record_state p) \<noteq> None \<Longrightarrow>
      read_scheduled db uid n (Some (scheduled_cursor_of p)) s =
      Inr (page_of n scheduled_cursor_of (filter (\<lambda>q. scheduled_record_key p < scheduled_record_key q) (scheduled_listing uid s)))" for s p
  proof -
    assume good: "own_good n s" and pub: "post_published_at (record_state p) \<noteq> None"
    have k: "(fst (scheduled_record_key p), post_id (record_state p)) = scheduled_record_key p"
      by (simp add: scheduled_record_key_def)
    have clause: "scheduled_clause \<lparr>scheduled_published_at = page_created_at (scheduled_cursor_of p),
        scheduled_post = page_post (scheduled_cursor_of p)\<rparr> q \<longleftrightarrow> scheduled_record_key p < published_key q"
      if "q \<in> set (scheduled_of uid (snd s) (fst s))" for q
    proof -
      from that have "post_published_at q \<noteq> None" by (auto simp: scheduled_of_def scheduled_at_def split: option.splits)
      then show ?thesis by (simp add: scheduled_clause_iff scheduled_cursor_of_def k)
    qed
    show ?thesis
      using read_scheduled_eq [of n "fst s" "snd s" uid "Some (scheduled_cursor_of p)" "\<lambda>k. scheduled_record_key p < k"]
        good clause by simp
  qed
qed

subsection \<open>The revision history\<close>

text \<open>
  A history is read for all posts of the author or for one of them, which has to be theirs. Revision
  ids are 64-bit and positive; the first page asks for those below the largest.
\<close>

definition history_rows :: "int \<Rightarrow> int option \<Rightarrow> database \<Rightarrow> post_revision_row list" where
  "history_rows uid pid d = filter (\<lambda>r. find_post (post_id (revision_state r)) d \<noteq> None \<and>
     post_user (revision_state r) = uid \<and>
     (case pid of None \<Rightarrow> True | Some i \<Rightarrow> post_id (revision_state r) = i)) (post_revisions d)"

definition metadata_of :: "database \<Rightarrow> post_revision_row \<Rightarrow> post_revision_metadata" where
  "metadata_of d r = projr (the (revision_metadata d r))"

definition history_listing :: "int \<Rightarrow> int option \<Rightarrow> database \<Rightarrow> post_revision_metadata list" where
  "history_listing uid pid d = map (metadata_of d) (sort_key (\<lambda>r. - revision_id r) (history_rows uid pid d))"

definition read_history :: "backend \<Rightarrow> int \<Rightarrow> int option \<Rightarrow> nat \<Rightarrow> int option \<Rightarrow> database \<Rightarrow>
    sql_error option + (post_revision_metadata, int) page" where
  "read_history db uid pid n c d =
     (case pid of
        None \<Rightarrow> map_sum Some id (fst (list_owned_revision_history uid c n (reader db d)))
      | Some i \<Rightarrow>
          (case fst (list_post_revision_history uid i c n (reader db d)) of
             Inl e \<Rightarrow> Inl (Some e) | Inr None \<Rightarrow> Inl None | Inr (Some page) \<Rightarrow> Inr page))"

definition history_good :: "int \<Rightarrow> int option \<Rightarrow> nat \<Rightarrow> database \<Rightarrow> bool" where
  "history_good uid pid n d \<longleftrightarrow> page_size_of n \<noteq> None \<and> distinct (map revision_id (post_revisions d)) \<and>
     (\<forall>r \<in> set (post_revisions d). revision_id r < 9223372036854775807) \<and>
     (case pid of None \<Rightarrow> True | Some i \<Rightarrow> \<exists>p \<in> set (posts d). post_id p = i \<and> post_user p = uid)"

lemma metadata_of_ok:
  assumes "r \<in> set (history_rows uid pid d)"
  shows "revision_metadata d r = Some (Inr (metadata_of d r))" and "meta_revision (metadata_of d r) = revision_id r"
  using assms by (auto simp: history_rows_def metadata_of_def revision_metadata_def Let_def)

lemma revision_metadata_rows_eq:
  assumes "\<And>r. r \<in> set (history_rows uid pid d) \<Longrightarrow>
      revision_id r < (case c of None \<Rightarrow> 9223372036854775807 | Some rid \<Rightarrow> rid) \<longleftrightarrow> P (- revision_id r)"
  shows "revision_metadata_rows uid pid c limit (reader db d) =
    (Inr (take limit (filter (\<lambda>m. P (- meta_revision m)) (history_listing uid pid d))), reader db d)"
proof -
  let ?after = "case c of None \<Rightarrow> 9223372036854775807 | Some rid \<Rightarrow> rid"
  have "revision_metadata_rows uid pid c limit (reader db d) = fetch_rows revision_metadata
      (\<lambda>d. keyset_rows (\<lambda>r. - revision_id r) (\<lambda>c r. revision_id r < c) (Some ?after) limit (history_rows uid pid d)) (reader db d)"
    by (simp add: revision_metadata_rows_def keyset_rows_def history_rows_def conj_assoc Let_def)
  also have "\<dots> = (Inr (map (metadata_of d) (take limit
      (filter (\<lambda>r. P (- revision_id r)) (sort_key (\<lambda>r. - revision_id r) (history_rows uid pid d))))), reader db d)"
    by (rule keyset_fetch) (simp_all add: metadata_of_ok assms)
  also have "map (metadata_of d) (take limit
      (filter (\<lambda>r. P (- revision_id r)) (sort_key (\<lambda>r. - revision_id r) (history_rows uid pid d)))) =
      take limit (filter (\<lambda>m. P (- meta_revision m)) (history_listing uid pid d))"
    using filter_map_key [of "sort_key (\<lambda>r. - revision_id r) (history_rows uid pid d)" "\<lambda>m. - meta_revision m"
        "metadata_of d" "\<lambda>r. - revision_id r" P] metadata_of_ok(2)
    by (simp add: history_listing_def take_map [symmetric])
  finally show ?thesis .
qed

lemma read_history_eq:
  assumes "history_good uid pid n d"
    and "\<And>r. r \<in> set (history_rows uid pid d) \<Longrightarrow>
      revision_id r < (case c of None \<Rightarrow> 9223372036854775807 | Some rid \<Rightarrow> rid) \<longleftrightarrow> P (- revision_id r)"
  shows "read_history db uid pid n c d =
    Inr (page_of n meta_revision (filter (\<lambda>m. P (- meta_revision m)) (history_listing uid pid d)))"
proof -
  have n: "0 < n" using assms(1) by (auto simp: history_good_def page_size_of_def split: if_splits)
  define rows where "rows = take (fetch_limit n) (filter (\<lambda>m. P (- meta_revision m)) (history_listing uid pid d))"
  have run: "revision_metadata_rows uid pid c (fetch_limit n) (reader db d) = (Inr rows, reader db d)"
    unfolding rows_def by (rule revision_metadata_rows_eq [OF assms(2)])
  have page: "revision_page n rows = page_of n meta_revision (filter (\<lambda>m. P (- meta_revision m)) (history_listing uid pid d))"
    unfolding page_of_record [OF n rows_def, of meta_revision, symmetric] by (simp add: revision_page_def Let_def)
  show ?thesis
  proof (cases pid)
    case None
    with run page show ?thesis
      by (simp add: read_history_def list_owned_revision_history_def tx_bind_def tx_return_def)
  next
    case (Some i)
    with assms(1) have "\<exists>p \<in> set (posts d). post_id p = i \<and> post_user p = uid" by (simp add: history_good_def)
    with run page Some show ?thesis
      by (simp add: read_history_def list_post_revision_history_def tx_bind_def tx_return_def)
  qed
qed

interpretation histories: keyset_listing
  "read_history db uid pid n" "history_listing uid pid" "\<lambda>m. - meta_revision m" meta_revision "\<lambda>m. True"
  "history_good uid pid n" n
  for db uid pid n
proof unfold_locales
  show "history_good uid pid n d \<Longrightarrow> 0 < n" for d by (auto simp: history_good_def page_size_of_def split: if_splits)
  show "history_good uid pid n d \<Longrightarrow> sorted_wrt (<) (map (\<lambda>m. - meta_revision m) (history_listing uid pid d))" for d
    unfolding history_listing_def
  proof (rule sorted_listing)
    assume "history_good uid pid n d"
    then have "distinct (map revision_id (history_rows uid pid d))"
      by (simp add: history_good_def history_rows_def distinct_map_filter)
    then show "distinct (map (\<lambda>r. - revision_id r) (history_rows uid pid d))"
      by (rule distinct_map_finer) simp
  qed (simp add: metadata_of_ok)
  show "history_good uid pid n d \<Longrightarrow> read_history db uid pid n None d = Inr (page_of n meta_revision (history_listing uid pid d))" for d
    using read_history_eq [of uid pid n d None "\<lambda>_. True"] by (simp add: history_good_def history_rows_def)
  show "history_good uid pid n d \<Longrightarrow> read_history db uid pid n (Some (meta_revision p)) d =
      Inr (page_of n meta_revision (filter (\<lambda>q. - meta_revision p < - meta_revision q) (history_listing uid pid d)))" for d p
    using read_history_eq [of uid pid n d "Some (meta_revision p)" "\<lambda>k. - meta_revision p < k"] by simp
qed simp

text \<open>
  C28: the lists an author manages posts from are complete. Walked to the end, the drafts list shows
  every post of the author that is not deleted and not published by now, newest first; the schedule
  shows those with a publication time in the future, in the order they will appear; and the history
  shows every version ever captured of the author's posts, or of the one asked for, newest first. Each
  walk takes at most one page per row and shows no row twice.
\<close>

theorem author_lists_complete:
  assumes "own_good n (d, now)" and "history_good uid pid n d"
    and "length (posts d) < m" and "length (post_revisions d) < m"
  shows "follow (read_drafts db uid n) (replicate m (d, now)) None =
      Some (Inr (map (own_record d) (sort_key draft_key
        (filter (\<lambda>p. post_user p = uid \<and> unpublished_at now p) (authored_posts d))))) \<and>
    follow (read_scheduled db uid n) (replicate m (d, now)) None =
      Some (Inr (map (own_record d) (sort_key published_key
        (filter (\<lambda>p. post_user p = uid \<and> scheduled_at now p) (authored_posts d))))) \<and>
    follow (read_history db uid pid n) (replicate m d) None =
      Some (Inr (map (metadata_of d) (sort_key (\<lambda>r. - revision_id r) (history_rows uid pid d))))"
proof -
  have posts: "length (filter P (authored_posts d)) \<le> length (posts d)" for P
    unfolding authored_posts_def filter_filter by (rule length_filter_le)
  have revisions: "length (history_rows uid pid d) \<le> length (post_revisions d)"
    unfolding history_rows_def by (rule length_filter_le)
  have "length (draft_listing uid (d, now)) < m" "length (scheduled_listing uid (d, now)) < m"
    using posts assms(3) by (auto simp: draft_listing_def scheduled_listing_def drafts_of_def scheduled_of_def
        intro: le_less_trans)
  moreover have "length (history_listing uid pid d) < m"
    using revisions assms(4) by (simp add: history_listing_def)
  ultimately show ?thesis
    using drafts.follow_complete [OF assms(1)] scheduled.follow_complete [OF assms(1)]
      histories.follow_complete [OF assms(2)]
    by (simp add: draft_listing_def scheduled_listing_def drafts_of_def scheduled_of_def history_listing_def)
qed

subsection \<open>A revision is the version it captured\<close>

text \<open>
  The checks and keys of the tables of revisions: a target names an audience exactly when it is a
  named one, and the media of a revision belong to its post.
\<close>

definition revision_children_ok :: "database \<Rightarrow> bool" where
  "revision_children_ok d \<longleftrightarrow> (\<forall>a \<in> set (post_revision_audiences d). revision_audience_valid a) \<and>
     (\<forall>m \<in> set (post_media d). \<forall>r \<in> set (post_revisions d).
        pm_subject m = Revision_Media (revision_id r) \<longrightarrow> pm_post m = post_id (revision_state r))"

definition detail_view :: "post_revision_detail \<Rightarrow> post_view" where
  "detail_view detail = state_view (detail_state detail) (fst ` set (detail_tags detail))
     {row. \<exists>t \<in> set (detail_audiences detail). audience_target_row t = Some row} (set (detail_media detail))"

lemma valid_target_rows:
  assumes "\<And>a. a \<in> A \<Longrightarrow> revision_audience_valid a"
  shows "{row. \<exists>a \<in> A. \<exists>t. audience_target_from_row (ra_kind a) (ra_audience a) = Some t \<and> audience_target_row t = Some row} =
    (\<lambda>a. (ra_kind a, ra_audience a)) ` A"
proof -
  have "(\<exists>t. audience_target_from_row (ra_kind a) (ra_audience a) = Some t \<and> audience_target_row t = Some row) \<longleftrightarrow>
      row = (ra_kind a, ra_audience a)" if "a \<in> A" for a row
    using assms [OF that]
    by (cases "ra_kind a"; cases "ra_audience a") (auto simp: revision_audience_valid_def)
  then show ?thesis by auto
qed

lemma detail_view_eq:
  assumes "revision_children_ok d" and "r \<in> set (post_revisions d)"
  shows "detail_view (revision_detail audience_order media_order (\<lambda>m. m) d r) = revision_view d r"
proof -
  let ?A = "{a \<in> set (post_revision_audiences d). ra_revision a = revision_id r}"
  have targets: "{row. \<exists>t \<in> set (detail_audiences (revision_detail audience_order media_order (\<lambda>m. m) d r)). audience_target_row t = Some row} =
      (\<lambda>a. (ra_kind a, ra_audience a)) ` ?A"
    using valid_target_rows [of ?A] assms(1)
    by (simp add: revision_detail_def mem_map_filter revision_children_ok_def Bex_def) blast
  have media: "set (detail_media (revision_detail audience_order media_order (\<lambda>m. m) d r)) =
      pm_reference ` {m \<in> set (post_media d). pm_subject m = Revision_Media (revision_id r)}"
    using assms by (auto simp: revision_detail_def revision_children_ok_def)
  have tags: "fst ` set (detail_tags (revision_detail audience_order media_order (\<lambda>m. m) d r)) =
      rt_slug ` {t \<in> set (post_revision_tags d). rt_revision t = revision_id r}"
    by (auto simp: revision_detail_def image_image)
  show ?thesis
    unfolding detail_view_def targets media tags revision_view_def by (simp add: revision_detail_def)
qed


subsection \<open>Single posts\<close>

lemma fetch_optional_okD:
  assumes "fetch_optional decode rows k = (Inr (Some x), k')"
  shows "\<exists>r \<in> set (rows (committed k)). decode (committed k) r = Some (Inr x)"
proof -
  from assms obtain y ys where "List.map_filter (decode (committed k)) (rows (committed k)) = y # ys" "map_sum id Some y = Inr (Some x)"
    by (auto simp: fetch_optional_def tx_simps tx_of_result_apply split: list.splits)
  then have "Inr x \<in> set (List.map_filter (decode (committed k)) (rows (committed k)))" by (cases y) auto
  then show ?thesis by (simp add: mem_map_filter)
qed

lemma decode_post_state: "decode_post d p = Some (Inr post) \<Longrightarrow>
    record_state post = post_state.truncate p \<and> (\<exists>u. find_user (post_user p) d = Some u \<and> record_username post = user_username u)"
  by (auto simp: decode_post_def split: if_splits)

text \<open>
  C30: a post is shown by its id or by its address to whom it resolves for, and by its address only
  when it is published by now. A former address leads anonymous readers to the current address of a
  public post, and never when a post of the author that is not deleted has that address.
\<close>

theorem single_reads_resolve:
  "(get_post_by_id pid viewer k = (Inr (Some post), k') \<longrightarrow>
     (\<exists>p \<in> set (posts (committed k)). record_state post = post_state.truncate p \<and> post_id p = pid \<and>
        resolves viewer (committed k) (post_id p) (post_user p))) \<and>
   (get_post_by_permalink C username date slug viewer now k = (Inr (Some (post, license)), k') \<longrightarrow>
     (\<exists>p \<in> set (posts (committed k)). record_state post = post_state.truncate p \<and> post_slug p = slug \<and>
        sql_date C (permalink_instant p) = date_text date \<and> live_at now p \<and>
        resolves viewer (committed k) (post_id p) (post_user p))) \<and>
   (resolve_historical_post_permalink_alias C username date slug now k = (Inr (Some route), k') \<longrightarrow>
     (\<exists>p \<in> set (posts (committed k)). route_slug route = post_slug p \<and>
        route_date route = utc_date C (permalink_instant p) \<and> live_at now p \<and>
        Public \<in> targets_of (post_id p) (committed k) \<and>
        \<not> (\<exists>q \<in> set (posts (committed k)). post_user q = post_user p \<and> post_slug q = slug \<and>
            post_deleted_at q = None \<and> sql_date C (permalink_instant q) = date_text date)))"
proof (intro conjI impI)
  let ?d = "committed k"
  show "\<exists>p \<in> set (posts ?d). record_state post = post_state.truncate p \<and> post_id p = pid \<and>
      resolves viewer ?d (post_id p) (post_user p)" if "get_post_by_id pid viewer k = (Inr (Some post), k')"
    using fetch_optional_okD [OF that [unfolded get_post_by_id_def]] authored_subset decode_post_state
    by (fastforce simp: readable_def)
  show "\<exists>p \<in> set (posts ?d). record_state post = post_state.truncate p \<and> post_slug p = slug \<and>
      sql_date C (permalink_instant p) = date_text date \<and> live_at now p \<and> resolves viewer ?d (post_id p) (post_user p)"
    if "get_post_by_permalink C username date slug viewer now k = (Inr (Some (post, license)), k')"
    using fetch_optional_okD [OF that [unfolded get_post_by_permalink_def]] authored_subset decode_public_state
    by (fastforce simp: readable_def dated_def)
  show "\<exists>p \<in> set (posts ?d). route_slug route = post_slug p \<and> route_date route = utc_date C (permalink_instant p) \<and>
      live_at now p \<and> Public \<in> targets_of (post_id p) ?d \<and>
      \<not> (\<exists>q \<in> set (posts ?d). post_user q = post_user p \<and> post_slug q = slug \<and>
          post_deleted_at q = None \<and> sql_date C (permalink_instant q) = date_text date)"
    if "resolve_historical_post_permalink_alias C username date slug now k = (Inr (Some route), k')"
  proof -
    from that obtain former k1 where
      row: "fetch_optional decode_post (alias_targets C username date slug now) k = (Inr (Some former), k1)"
      and route: "route = \<lparr>route_username = record_username former,
        route_date = utc_date C (permalink_instant (record_state former)), route_slug = post_slug (record_state former)\<rparr>"
      by (auto simp: resolve_historical_post_permalink_alias_def tx_simps map_option_case split: option.splits)
    from fetch_optional_okD [OF row] obtain p where p: "p \<in> set (alias_targets C username date slug now ?d)"
      and state: "record_state former = post_state.truncate p" by (blast dest: decode_post_state)
    from p obtain a where a: "alias_slug a = slug" "alias_date a = date_text date" "\<not> alias_shadowed C ?d a"
      "post_user p = alias_user a" and live: "p \<in> set (authored_posts ?d)" "live_at now p" "readable Anonymous ?d p"
      by (auto simp: alias_targets_def)
    have "admits Anonymous ?d author t \<longleftrightarrow> t = Public" for author t
      by (cases t) (auto simp: subscribed_to_def)
    with live(3) have "Public \<in> targets_of (post_id p) ?d" by (simp add: readable_def resolves_iff)
    moreover have "permalink_instant (post_state.truncate p) = permalink_instant p"
      by (cases "post_published_at p") (simp_all add: permalink_instant_def post_state.defs)
    moreover have "\<not> (\<exists>q \<in> set (posts ?d). post_user q = post_user p \<and> post_slug q = slug \<and>
        post_deleted_at q = None \<and> sql_date C (permalink_instant q) = date_text date)"
      using a by (auto simp: alias_shadowed_def)
    ultimately show ?thesis
      using live authored_subset by (intro bexI [of _ p]) (auto simp: route state post_state.defs)
  qed
qed

subsection \<open>An author with a draft and a former version\<close>

definition draft_with_history :: database where
  "draft_with_history = two_users\<lparr>posts := [example_post 7 1 ''hello'' None], last_post_id := 7,
     post_revisions := [\<lparr>revision_id = 1, revision_state = post_state.truncate (example_post 7 1 ''hullo'' None),
       revision_captured_at = 2\<rparr>], next_revision_id := 2\<rparr>"

lemmas draft_with_history_defs = draft_with_history_def two_users_def example_user_def empty_database_def

lemma draft_with_history_good:
  "own_good 1 (draft_with_history, 5)" "history_good 1 (Some 7) 1 draft_with_history"
  by (simp_all add: own_good_def history_good_def listing_ok_def tags_wf_def titles_match_def license_column_def
      parse_content_license_def parse_token_def license_variants_def page_size_of_def draft_with_history_defs
      example_post_def)

lemma author_lists_complete_witness:
  "\<exists>r m. follow (read_drafts Sqlite 1 1) (replicate 2 (draft_with_history, 5)) None = Some (Inr [r]) \<and>
    follow (read_history Sqlite 1 (Some 7) 1) (replicate 2 draft_with_history) None = Some (Inr [m])"
proof -
  have "length (posts draft_with_history) < 2" "length (post_revisions draft_with_history) < 2"
    by (simp_all add: draft_with_history_def)
  from author_lists_complete [OF draft_with_history_good this, of Sqlite]
  show ?thesis
    by (simp add: authored_posts_def unpublished_at_def find_user_def history_rows_def find_post_def
        draft_with_history_defs example_post_def post_state.defs)
qed


lemma single_reads_resolve_witness:
  "\<exists>post k'. get_post_by_id 7 (Local 2) (reader Sqlite subscribers_post) = (Inr (Some post), k') \<and>
    (\<exists>p \<in> set (posts subscribers_post). post_id p = 7 \<and> resolves (Local 2) subscribers_post (post_id p) (post_user p))"
proof -
  let ?p = "example_post 7 1 ''hello'' (Some 2)"
  have p: "?p \<in> set (authored_posts subscribers_post)"
    by (simp add: authored_posts_def find_user_def subscribers_post_def after_bo_follows_def two_users_def
        example_user_def example_post_def)
  have "filter (\<lambda>p. post_id p = 7 \<and> readable (Local 2) subscribers_post p) (authored_posts subscribers_post) = [?p]"
    using p bo_reads_subscribers_post
    by (simp add: authored_posts_def readable_def subscribers_post_def example_post_def split: if_splits)
  with decode_post_ok(1) [OF subscribers_post_listing_ok p]
  have ran: "get_post_by_id 7 (Local 2) (reader Sqlite subscribers_post) =
      (Inr (Some (own_record subscribers_post ?p)), reader Sqlite subscribers_post)"
    by (simp add: get_post_by_id_def fetch_optional_def tx_bind_def tx_of_result_apply)
  from single_reads_resolve [of 7 "Local 2" "reader Sqlite subscribers_post"] ran show ?thesis
    by fastforce
qed

end
