(* ===== verification/Syndication.thy ===== *)
theory Syndication
  imports Timelines Feed_Cache Accounts
begin

section \<open>Syndication reads\<close>

text \<open>
  \<^verbatim>\<open>storage/src/posts/syndication.rs\<close>, \<^verbatim>\<open>host/src/feed/window.rs\<close> and the
  user-wide fan-out of \<^verbatim>\<open>storage/src/account_mutations.rs\<close>: which posts a feed shows, which
  feeds a change of a user affects, which posts have gone live and which cached feeds have missed one.
\<close>

subsection \<open>The hybrid window\<close>

record hybrid_window =
  window_min_items :: int
  window_min_days :: nat

definition cutoff_date :: "timestamp_range \<Rightarrow> hybrid_window \<Rightarrow> instant \<Rightarrow> instant option" where
  "cutoff_date b w now = checked_sub b now (seconds (int (window_min_days w) * 86400))"

definition recent :: "instant option \<Rightarrow> instant \<Rightarrow> bool" where
  "recent cutoff t \<longleftrightarrow> (case cutoff of None \<Rightarrow> True | Some c \<Rightarrow> c \<le> t)"

text \<open>\<^verbatim>\<open>HybridWindow::select\<close>: the loop stops at the first post that is neither one of the
  newest items nor recent.\<close>

fun window_end :: "nat \<Rightarrow> nat \<Rightarrow> instant option \<Rightarrow> ('p \<Rightarrow> instant) \<Rightarrow> 'p list \<Rightarrow> nat" where
  "window_end i m cutoff at [] = i"
| "window_end i m cutoff at (p # ps) =
     (if i < m \<or> recent cutoff (at p) then window_end (Suc i) m cutoff at ps else i)"

definition window_items :: "hybrid_window \<Rightarrow> nat" where
  "window_items w = (if 0 \<le> window_min_items w then nat (window_min_items w) else 2 ^ 64 - 1)"

definition window_select :: "timestamp_range \<Rightarrow> hybrid_window \<Rightarrow> instant \<Rightarrow> ('p \<Rightarrow> instant) \<Rightarrow> 'p list \<Rightarrow> 'p list" where
  "window_select b w now at ps = take (window_end 0 (window_items w) (cutoff_date b w now) at ps) ps"

subsection \<open>The window query\<close>

text \<open>The four query shapes differ in the rows they rank: the joins of the surface repeat or drop rows.\<close>

fun surface_source :: "feed_surface \<Rightarrow> database \<Rightarrow> post_row list" where
  "surface_source Site d = posts d"
| "surface_source (User u) d = filter (author_named d u) (posts d)"
| "surface_source (SiteTag tag) d = tagged_posts tag d (posts d)"
| "surface_source (UserTag u tag) d = tagged_posts tag d (filter (author_named d u) (posts d))"

definition newest_key :: "post_row \<Rightarrow> int \<times> int" where
  "newest_key p = order_key Newest (published_key p)"

definition in_window :: "int \<Rightarrow> instant option \<Rightarrow> nat \<times> post_row \<Rightarrow> bool" where
  "in_window min_items cutoff = (\<lambda>(rn, p). int rn \<le> min_items \<or> cutoff = None \<or>
     (case (post_published_at p, cutoff) of (Some t, Some c) \<Rightarrow> c \<le> t | _ \<Rightarrow> False))"

definition window_rows :: "feed_surface \<Rightarrow> instant \<Rightarrow> instant option \<Rightarrow> int \<Rightarrow> viewer_identity \<Rightarrow> database \<Rightarrow>
    post_row list" where
  "window_rows surface now cutoff min_items viewer d =
     (let ranked = enumerate 1 (sort_key newest_key
            (filter (\<lambda>p. live_at now p \<and> readable viewer d p) (surface_source surface d)))
      in sort_key newest_key (concat (map (\<lambda>(rn, r). filter (\<lambda>p. post_id p = post_id r) (authored_posts d))
           (filter (in_window min_items cutoff) ranked))))"

definition list_published_in_window_rows :: "feed_surface \<Rightarrow> instant \<Rightarrow> instant option \<Rightarrow> int \<Rightarrow>
    viewer_identity \<Rightarrow> (database, sql_error, public_post list) tx" where
  "list_published_in_window_rows surface now cutoff min_items viewer =
     fetch_rows decode_public (window_rows surface now cutoff min_items viewer)"

definition list_published_in_window :: "timestamp_range \<Rightarrow> feed_surface \<Rightarrow> hybrid_window \<Rightarrow> instant \<Rightarrow>
    viewer_identity \<Rightarrow> (database, sql_error, public_post list) tx" where
  "list_published_in_window b surface window now viewer =
     list_published_in_window_rows surface now (cutoff_date b window now) (window_min_items window) viewer"

subsection \<open>What a change of a user affects\<close>

definition public_audience :: "database \<Rightarrow> post_row \<Rightarrow> bool" where
  "public_audience d p \<longleftrightarrow>
     (\<exists>r \<in> set (post_audiences d). pa_post r = post_id p \<and> pa_kind r = Public_Target)"

definition joined_slugs :: "database \<Rightarrow> post_row \<Rightarrow> ustr option list" where
  "joined_slugs d p =
     (case map (\<lambda>r. tag_slug_of d (pt_tag r)) (filter (\<lambda>r. pt_post r = post_id p) (post_tags d)) of
        [] \<Rightarrow> [None] | slugs \<Rightarrow> slugs)"

definition decode_slug :: "ustr option \<Rightarrow> sql_error + ustr option" where
  "decode_slug slug =
     (case slug of
        None \<Rightarrow> Inr None
      | Some s \<Rightarrow> (case parse_tag s of None \<Rightarrow> Inl ColumnDecode | Some t \<Rightarrow> Inr (Some t)))"

definition feed_affecting_rows :: "int \<Rightarrow> instant \<Rightarrow> database \<Rightarrow> ustr option list" where
  "feed_affecting_rows uid now d =
     sort_key (case_option [] id) (remdups (concat (map (joined_slugs d)
       (filter (\<lambda>p. post_user p = uid \<and> live_at now p \<and> public_audience d p) (posts d)))))"

definition feed_affecting_post_tags_for_user :: "backend \<Rightarrow> int \<Rightarrow> instant \<Rightarrow>
    (database, sql_error, ustr list option) tx" where
  "feed_affecting_post_tags_for_user db uid now =
     tx_bind (write_connection db) (\<lambda>_.
     tx_bind (query (\<lambda>d. collect_results (map decode_slug (feed_affecting_rows uid now d)))) (\<lambda>decoded.
     tx_bind (tx_of_result decoded) (\<lambda>rows.
     tx_return (if rows = [] then None else Some (List.map_filter id rows)))))"

fun feed_event_sql_error :: "feed_event_error \<Rightarrow> sql_error" where
  "feed_event_sql_error (FeedEvent_Db e) = e"
| "feed_event_sql_error FeedEvent_Panicked = DriverError"

definition enqueue_user_feed_events :: "backend \<Rightarrow> int \<Rightarrow> ustr \<Rightarrow> instant \<Rightarrow> instant \<Rightarrow>
    (database, sql_error, unit) tx" where
  "enqueue_user_feed_events db uid username now enqueued_at =
     tx_bind (feed_affecting_post_tags_for_user db uid now) (\<lambda>tags.
     case tags of
       None \<Rightarrow> tx_return ()
     | Some ts \<Rightarrow> tx_map_err feed_event_sql_error (enqueue_many db enqueued_at (affected_feed_urls username ts)))"

definition update_profile_with_feed_events :: "backend \<Rightarrow> int \<Rightarrow> ustr option \<Rightarrow> ustr option \<Rightarrow>
    instant \<Rightarrow> instant \<Rightarrow> (database, sql_error, unit) tx" where
  "update_profile_with_feed_events db uid display_name bio now enqueued_at =
     tx_bind (get_user_for_update db uid) (\<lambda>found.
     case found of
       None \<Rightarrow> tx_throw RowNotFound
     | Some user \<Rightarrow>
         tx_bind (update_profile db uid display_name bio) (\<lambda>_.
         if ur_display_name user \<noteq> display_name
         then enqueue_user_feed_events db uid (ur_username user) now enqueued_at
         else tx_return ()))"

definition update_content_license_with_feed_events :: "backend \<Rightarrow> int \<Rightarrow> content_license \<Rightarrow>
    instant \<Rightarrow> instant \<Rightarrow> (database, sql_error, unit) tx" where
  "update_content_license_with_feed_events db uid license now enqueued_at =
     tx_bind (get_user_for_update db uid) (\<lambda>found.
     case found of
       None \<Rightarrow> tx_throw RowNotFound
     | Some user \<Rightarrow>
         tx_bind (get_content_license_for_update db uid) (\<lambda>current.
         tx_bind (user_config_set db uid ContentLicense (license_token license)) (\<lambda>_.
         if current \<noteq> license
         then enqueue_user_feed_events db uid (ur_username user) now enqueued_at
         else tx_return ())))"

subsection \<open>Going live\<close>

record go_live_post =
  gone_live_username :: ustr
  gone_live_slugs :: "ustr list"

definition list_posts_gone_live_between :: "instant \<Rightarrow> instant \<Rightarrow> (database, sql_error, go_live_post list) tx" where
  "list_posts_gone_live_between after up_to =
     tx_bind (fetch_rows decode_post (\<lambda>d. sort_key published_key
       (filter (\<lambda>p. (case post_published_at p of None \<Rightarrow> False | Some t \<Rightarrow> after < t \<and> t \<le> up_to) \<and>
          post_deleted_at p = None \<and> public_audience d p) (authored_posts d)))) (\<lambda>rows.
     tx_return (map (\<lambda>r. \<lparr>gone_live_username = record_username r,
       gone_live_slugs = map post_tag_slug (record_tags r)\<rparr>) rows))"

definition max_published_at_for_surface :: "feed_surface \<Rightarrow> instant \<Rightarrow> (database, sql_error, instant option) tx" where
  "max_published_at_for_surface surface now =
     pool_query (\<lambda>d. case sort_key (\<lambda>p. - fst (published_key p))
         (filter (\<lambda>p. live_at now p \<and> public_audience d p) (surface_source surface d)) of
       [] \<Rightarrow> None
     | p # _ \<Rightarrow> post_published_at p)"

text \<open>
  A cached path that does not decode is skipped; a decoded one always has a surface, the code calls
  the other case unreachable (\<open>catchup_reachable\<close>).
\<close>

datatype catchup_error = Catchup_Db sql_error | Catchup_Unreachable

fun needing_catchup :: "instant \<Rightarrow> stored_feed_cache_row list \<Rightarrow> (database, catchup_error, ustr list) tx" where
  "needing_catchup now [] = tx_return []"
| "needing_catchup now (row # rows) =
     (case feed_path_from_str (fc_feed_url row) of
        None \<Rightarrow> needing_catchup now rows
      | Some path \<Rightarrow>
          (case parse_feed_path path of
             None \<Rightarrow> tx_throw Catchup_Unreachable
           | Some (surface, _) \<Rightarrow>
               tx_bind (tx_map_err Catchup_Db (max_published_at_for_surface surface now)) (\<lambda>newest.
               tx_bind (needing_catchup now rows) (\<lambda>rest.
               tx_return (case newest of
                   None \<Rightarrow> rest
                 | Some t \<Rightarrow> if fc_generated_at row < t then path # rest else rest)))))"

definition feed_urls_needing_catchup :: "instant \<Rightarrow> (database, catchup_error, ustr list) tx" where
  "feed_urls_needing_catchup now =
     tx_bind (tx_map_err Catchup_Db (pool_query feed_cache)) (needing_catchup now)"

subsection \<open>The surfaces of a post\<close>

fun on_surface :: "database \<Rightarrow> feed_surface \<Rightarrow> post_row \<Rightarrow> bool" where
  "on_surface d Site p \<longleftrightarrow> True"
| "on_surface d (User u) p \<longleftrightarrow> author_named d u p"
| "on_surface d (SiteTag tag) p \<longleftrightarrow> tag \<in> post_slugs (post_id p) d"
| "on_surface d (UserTag u tag) p \<longleftrightarrow> author_named d u p \<and> tag \<in> post_slugs (post_id p) d"

definition authors_known :: "database \<Rightarrow> bool" where
  "authors_known d \<longleftrightarrow> (\<forall>p \<in> set (posts d). find_user (post_user p) d \<noteq> None)"

definition publicly_live :: "instant \<Rightarrow> database \<Rightarrow> post_row \<Rightarrow> bool" where
  "publicly_live now d p \<longleftrightarrow> live_at now p \<and> Public \<in> targets_of (post_id p) d"

lemma public_audience_iff: "public_audience d p \<longleftrightarrow> Public \<in> targets_of (post_id p) d"
proof -
  have "audience_target_from_row k a = Some Public \<longleftrightarrow> k = Public_Target" for k a
    by (cases k) auto
  then show ?thesis by (simp add: public_audience_def targets_of_def)
qed

lemma surface_source_eq:
  "tags_wf d \<Longrightarrow> surface_source s d = filter (on_surface d s) (posts d)"
  by (cases s) (auto simp: tagged_posts_eq intro!: filter_cong)

lemma window_end_filter:
  "sorted_wrt (\<lambda>p q. at q \<le> at p) ps \<Longrightarrow>
     take (window_end i m cutoff at ps - i) ps =
       map snd (filter (\<lambda>(rn, p). rn \<le> m \<or> recent cutoff (at p)) (enumerate (Suc i) ps)) \<and>
     i \<le> window_end i m cutoff at ps"
proof (induction ps arbitrary: i)
  case (Cons p ps)
  note IH = Cons.IH [of "Suc i"]
  from Cons.prems have sorted: "sorted_wrt (\<lambda>p q. at q \<le> at p) ps" and below: "\<forall>q \<in> set ps. at q \<le> at p" by auto
  show ?case
  proof (cases "i < m \<or> recent cutoff (at p)")
    case True
    with IH sorted have le: "Suc i \<le> window_end (Suc i) m cutoff at ps" by blast
    then have "window_end (Suc i) m cutoff at ps - i = Suc (window_end (Suc i) m cutoff at ps - Suc i)" by simp
    with True IH sorted le show ?thesis by (auto simp: Suc_le_eq)
  next
    case False
    then have none: "\<not> recent cutoff (at q)" if "q \<in> set ps" for q
      using that below by (fastforce simp: recent_def split: option.splits)
    have "filter (\<lambda>(rn, q). rn \<le> m \<or> recent cutoff (at q)) (enumerate (Suc (Suc i)) ps) = []"
      using False none by (auto simp: filter_empty_conv in_set_enumerate_eq)
    with False show ?thesis by auto
  qed
qed simp


subsection \<open>The query selects the window\<close>

definition published_instant :: "post_row \<Rightarrow> instant" where
  "published_instant p = fst (published_key p)"

definition surface_posts :: "feed_surface \<Rightarrow> viewer_identity \<Rightarrow> instant \<Rightarrow> database \<Rightarrow> post_row list" where
  "surface_posts s viewer now d =
     sort_key newest_key (filter (\<lambda>p. on_surface d s p \<and> live_at now p \<and> readable viewer d p) (posts d))"

lemma surface_posts_mem:
  "p \<in> set (surface_posts s viewer now d) \<longleftrightarrow>
     p \<in> set (posts d) \<and> on_surface d s p \<and> live_at now p \<and> readable viewer d p"
  by (auto simp: surface_posts_def)

lemma surface_posts_newest_first:
  "sorted_wrt (\<lambda>p q. published_instant q \<le> published_instant p) (surface_posts s viewer now d)"
proof -
  have "sorted_wrt (\<lambda>p q. newest_key p \<le> newest_key q) (surface_posts s viewer now d)"
    using sorted_sort_key [of newest_key] by (simp add: surface_posts_def sorted_map)
  then show ?thesis
    by (rule sorted_wrt_mono_rel [rotated])
      (auto simp: newest_key_def published_instant_def published_key_def less_eq_prod_def)
qed

lemma authored_posts_all: "authors_known d \<Longrightarrow> authored_posts d = posts d"
  by (simp add: authors_known_def authored_posts_def filter_id_conv)

lemma filter_key_singleton:
  "distinct (map k xs) \<Longrightarrow> x \<in> set xs \<Longrightarrow> filter (\<lambda>y. k y = k x) xs = [x]"
  by (induction xs) (auto simp: filter_empty_conv image_iff)

lemma in_window_iff:
  assumes "live_at now p" and "0 \<le> m"
  shows "in_window m cutoff (rn, p) \<longleftrightarrow> rn \<le> nat m \<or> recent cutoff (published_instant p)"
proof -
  from assms(1) obtain t where "post_published_at p = Some t" by (auto simp: live_at_def split: option.splits)
  then have "published_instant p = t" by (simp add: published_instant_def published_key_def)
  with \<open>post_published_at p = Some t\<close> assms(2) show ?thesis
    by (cases cutoff) (auto simp: in_window_def recent_def)
qed

lemma window_rows_eq:
  assumes "listing_ok d" and "authors_known d" and "0 \<le> m"
  shows "window_rows s now cutoff m viewer d =
    take (window_end 0 (nat m) cutoff published_instant (surface_posts s viewer now d)) (surface_posts s viewer now d)"
proof -
  let ?xs = "surface_posts s viewer now d"
  let ?n = "window_end 0 (nat m) cutoff published_instant ?xs"
  have wf: "tags_wf d" "distinct (map post_id (posts d))" using assms(1) by (simp_all add: listing_ok_def)
  have source: "sort_key newest_key (filter (\<lambda>p. live_at now p \<and> readable viewer d p) (surface_source s d)) = ?xs"
    unfolding surface_source_eq [OF wf(1)] surface_posts_def
    by (rule arg_cong [where f = "sort_key newest_key"]) (simp add: conj_ac)
  have "filter (in_window m cutoff) (enumerate 1 ?xs) =
      filter (\<lambda>(rn, p). rn \<le> nat m \<or> recent cutoff (published_instant p)) (enumerate 1 ?xs)"
  proof (rule filter_cong [OF refl])
    fix x assume "x \<in> set (enumerate 1 ?xs)"
    then obtain rn p where x: "x = (rn, p)" and "p \<in> set ?xs"
      by (metis enumerate_eq_zip in_set_zipE surj_pair)
    then have "live_at now p" by (simp add: surface_posts_mem)
    from in_window_iff [OF this assms(3)] x
    show "in_window m cutoff x = (case x of (rn, p) \<Rightarrow> rn \<le> nat m \<or> recent cutoff (published_instant p))" by simp
  qed
  with window_end_filter [OF surface_posts_newest_first, of 0 "nat m" cutoff s viewer now d]
  have kept: "map snd (filter (in_window m cutoff) (enumerate 1 ?xs)) = take ?n ?xs" by simp
  have join: "concat (map (\<lambda>(rn, r). filter (\<lambda>p. post_id p = post_id r) (authored_posts d)) rs) = map snd rs"
    if "snd ` set rs \<subseteq> set (posts d)" for rs :: "(nat \<times> post_row) list"
    using that
    by (induction rs) (auto simp: authored_posts_all [OF assms(2)] filter_key_singleton [OF wf(2)])
  have "snd ` set (filter (in_window m cutoff) (enumerate 1 ?xs)) \<subseteq> set (posts d)"
    using set_take_subset [of ?n ?xs] by (subst set_map [symmetric], subst kept) (auto simp: surface_posts_mem)
  from join [OF this]
  have "window_rows s now cutoff m viewer d = sort_key newest_key (take ?n ?xs)"
    unfolding window_rows_def Let_def source by (simp only: kept)
  moreover have "sorted (map newest_key (take ?n ?xs))"
    using sorted_sort_key [of newest_key] by (simp add: surface_posts_def sorted_wrt_take take_map [symmetric])
  ultimately show ?thesis by (simp add: sort_key_id_if_sorted)
qed

lemma fetch_window:
  assumes "listing_ok d" and "authors_known d" and "1 \<le> window_min_items w"
  shows "list_published_in_window b s w now viewer (reader db d) =
    (Inr (map (public_record d) (window_select b w now published_instant (surface_posts s viewer now d))), reader db d)"
proof -
  let ?rows = "window_rows s now (cutoff_date b w now) (window_min_items w) viewer"
  have rows: "?rows d = window_select b w now published_instant (surface_posts s viewer now d)"
    using window_rows_eq [OF assms(1,2), of "window_min_items w"] assms(3)
    by (simp add: window_select_def window_items_def)
  have "set (?rows d) \<subseteq> set (authored_posts d)"
    unfolding rows window_select_def authored_posts_all [OF assms(2)]
    using set_take_subset by (fastforce simp: surface_posts_mem)
  then have "decode_public d p = Some (Inr (public_record d p))" if "p \<in> set (?rows d)" for p
    using that decode_public_ok(1) [OF assms(1)] by blast
  with fetch_rows_ok [of "reader db d" ?rows decode_public "public_record d"] show ?thesis
    by (simp add: list_published_in_window_def list_published_in_window_rows_def rows)
qed

text \<open>
  C18: the feed query and the window agree. For every surface, viewer and instant, the rows the
  ranking query returns are what \<^verbatim>\<open>HybridWindow::select\<close> takes from the visible posts of
  the surface, newest first: the newest items, and every post that is no older than the cutoff.
\<close>

theorem window_query_is_select:
  assumes "listing_ok d" and "authors_known d" and "1 \<le> window_min_items w"
  shows "list_published_in_window b s w now viewer (reader db d) =
    (Inr (map (public_record d) (window_select b w now published_instant (surface_posts s viewer now d))), reader db d)"
  by (rule fetch_window [OF assms])

subsection \<open>The fan-out of a user\<close>

definition slugs_ok :: "database \<Rightarrow> bool" where
  "slugs_ok d \<longleftrightarrow> tags_wf d \<and> list_all (\<lambda>t. tag_ok (tag_slug t)) (stored_tags d)"

lemma post_slug_ok: "slugs_ok d \<Longrightarrow> slug \<in> post_slugs pid d \<Longrightarrow> tag_ok slug"
  by (auto simp: slugs_ok_def post_slugs_def tag_slug_of_def list_all_iff dest!: find_Some_memD)

lemma joined_slugs_mem:
  assumes "tags_wf d"
  shows "Some slug \<in> set (joined_slugs d p) \<longleftrightarrow> slug \<in> post_slugs (post_id p) d"
    and "joined_slugs d p \<noteq> []"
proof -
  show "joined_slugs d p \<noteq> []" by (simp add: joined_slugs_def split: list.splits)
  show "Some slug \<in> set (joined_slugs d p) \<longleftrightarrow> slug \<in> post_slugs (post_id p) d"
  proof -
    let ?xs = "map (\<lambda>r. tag_slug_of d (pt_tag r)) (filter (\<lambda>r. pt_post r = post_id p) (post_tags d))"
    have "joined_slugs d p = (if ?xs = [] then [None] else ?xs)"
      unfolding joined_slugs_def by (cases ?xs) simp_all
    then have "Some slug \<in> set (joined_slugs d p) \<longleftrightarrow> Some slug \<in> set ?xs" by (cases "?xs = []") simp_all
    then show ?thesis by (auto simp: post_slugs_def image_iff)
  qed
qed

lemma collect_results_okD: "collect_results rs = Inr ys \<Longrightarrow> rs = map Inr ys"
  by (induction rs arbitrary: ys rule: collect_results.induct) (auto split: sum.splits)

lemma set_feed_affecting_rows:
  "set (feed_affecting_rows uid now d) = (\<Union>p \<in> {p \<in> set (posts d). post_user p = uid \<and> publicly_live now d p}.
     set (joined_slugs d p))"
  by (simp add: feed_affecting_rows_def publicly_live_def public_audience_iff)

lemma decode_slug_ok: "slugs_ok d \<Longrightarrow> decode_slug (Some s) = Inr x \<Longrightarrow> tag_ok s \<Longrightarrow> x = Some s"
  by (simp add: decode_slug_def parse_tag_id)

text \<open>The tags of a user's live public posts, or nothing when there is no such post.\<close>

lemma feed_affecting_okD:
  assumes "feed_affecting_post_tags_for_user db uid now c = (Inr tags, c')" and "slugs_ok (working c)"
  shows "working c' = working c"
    and "tags = None \<longleftrightarrow> \<not> (\<exists>p \<in> set (posts (working c)). post_user p = uid \<and> publicly_live now (working c) p)"
    and "tags = Some ts \<Longrightarrow> set ts = (\<Union>p \<in> {p \<in> set (posts (working c)). post_user p = uid \<and> publicly_live now (working c) p}.
      post_slugs (post_id p) (working c))"
    and "tags = Some ts \<Longrightarrow> distinct ts"
proof -
  let ?d = "working c"
  let ?rows = "feed_affecting_rows uid now ?d"
  let ?live = "{p \<in> set (posts ?d). post_user p = uid \<and> publicly_live now ?d p}"
  have wf: "tags_wf ?d" using assms(2) by (simp add: slugs_ok_def)
  from assms(1) obtain rows where rows: "collect_results (map decode_slug ?rows) = Inr rows"
    and tags: "tags = (if rows = [] then None else Some (List.map_filter id rows))"
    and c': "working c' = ?d"
    by (auto simp: feed_affecting_post_tags_for_user_def tx_simps tx_of_result_apply)
  show "working c' = ?d" by (rule c')
  from collect_results_okD [OF rows] have dec: "map decode_slug ?rows = map Inr rows" .
  have ok: "tag_ok s" if "Some s \<in> set ?rows" for s
    using that joined_slugs_mem(1) [OF wf] post_slug_ok [OF assms(2)] by (auto simp: set_feed_affecting_rows)
  have "decode_slug r = Inr r" if "r \<in> set ?rows" for r
  proof (cases r)
    case (Some s)
    with that ok show ?thesis by (simp add: decode_slug_def parse_tag_id)
  qed (simp add: decode_slug_def)
  then have "map decode_slug ?rows = map Inr ?rows" by simp
  with dec have eq: "rows = ?rows" by (metis inj_map_eq_map inj_Inr)
  have "?rows = [] \<longleftrightarrow> ?live = {}"
    using joined_slugs_mem(2) [OF wf] by (subst set_empty [symmetric], subst set_feed_affecting_rows) auto
  then show "tags = None \<longleftrightarrow> \<not> (\<exists>p \<in> set (posts ?d). post_user p = uid \<and> publicly_live now ?d p)"
    by (auto simp: tags eq)
  assume "tags = Some ts"
  then have "ts = List.map_filter id ?rows" by (simp add: tags eq split: if_splits)
  then have "set ts = {s. Some s \<in> set ?rows}" by (force simp: List.map_filter_def)
  then show "set ts = (\<Union>p \<in> ?live. post_slugs (post_id p) ?d)"
    by (auto simp: set_feed_affecting_rows joined_slugs_mem(1) [OF wf])
  have "distinct (List.map_filter id rs)" if "distinct rs" for rs :: "ustr option list"
    using that by (induction rs) (auto simp: List.map_filter_def image_iff split: option.splits)
  then show "distinct ts" using \<open>ts = List.map_filter id ?rows\<close> by (simp add: feed_affecting_rows_def)
qed

lemma concat_chunks: "0 < n \<Longrightarrow> concat (chunks n xs) = xs"
  by (induction n xs rule: chunks.induct) (subst chunks.simps, simp)

lemma insert_chunks_okD:
  "insert_chunks now cs c = (Inr u, c') \<Longrightarrow> working c' = fold (insert_feed_event now) (concat cs) (working c)"
proof (induction cs arbitrary: c)
  case (Cons paths rest)
  from Cons.prems obtain c1 where c1: "execute (fold (insert_feed_event now) paths) c = (Inr (), c1)"
    and rest: "insert_chunks now rest c1 = (Inr u, c')"
    by (auto simp: tx_bind_ok_iff)
  from c1 have "working c1 = fold (insert_feed_event now) paths (working c)" by (auto simp: tx_simps)
  with Cons.IH [OF rest] show ?case by simp
qed (simp add: tx_simps)

lemma enqueue_many_okD:
  "enqueue_many db now paths c = (Inr u, c') \<Longrightarrow> working c' = fold (insert_feed_event now) paths (working c)"
  by (auto simp: enqueue_many_def tx_simps concat_chunks dest!: insert_chunks_okD)

lemma insert_feed_events_eq:
  "fold (insert_feed_event now) urls d = d\<lparr>feed_events := feed_events d @
     map (\<lambda>(i, url). new_feed_event (next_feed_event_id d + int i) url now) (enumerate 0 urls),
     next_feed_event_id := next_feed_event_id d + int (length urls)\<rparr>"
proof (induction urls arbitrary: d)
  case (Cons url urls)
  have "map (\<lambda>(i, url). new_feed_event (n + 1 + int i) url now) (enumerate 0 urls) =
      map (\<lambda>(i, url). new_feed_event (n + int i) url now) (enumerate (Suc 0) urls)" for n
    by (rule nth_equalityI) (simp_all add: nth_enumerate_eq add.assoc)
  with Cons show ?case by (simp add: insert_feed_event_def)
qed simp

definition affected_paths :: "int \<Rightarrow> instant \<Rightarrow> database \<Rightarrow> ustr set" where
  "affected_paths uid now d = {canonicalize s f | s f. \<exists>p \<in> set (posts d). post_user p = uid \<and>
     publicly_live now d p \<and> on_surface d s p}"

definition enqueued :: "instant \<Rightarrow> ustr set \<Rightarrow> database \<Rightarrow> database \<Rightarrow> bool" where
  "enqueued at paths d d' \<longleftrightarrow> (\<exists>new. feed_events d' = feed_events d @ new \<and> fe_feed_url ` set new = paths \<and>
     distinct (map fe_feed_url new) \<and>
     (\<forall>e \<in> set new. fe_status e = FE_Pending \<and> fe_phase e = Regeneration \<and> fe_next_attempt_at e = at))"

lemma enqueued_none: "feed_events d' = feed_events d \<Longrightarrow> enqueued at {} d d'"
  by (simp add: enqueued_def)

lemma enqueued_insert:
  assumes "distinct urls"
  shows "enqueued at (set urls) d (fold (insert_feed_event at) urls d)"
proof -
  let ?new = "map (\<lambda>(i, url). new_feed_event (next_feed_event_id d + int i) url at) (enumerate 0 urls)"
  have "map fe_feed_url ?new = map snd (enumerate 0 urls)"
    by (simp add: new_feed_event_def split_beta' comp_def)
  then have urls: "map fe_feed_url ?new = urls" by simp
  have "fe_feed_url ` set ?new = set urls" by (subst set_map [symmetric]) (simp only: urls)
  moreover have "\<forall>e \<in> set ?new. fe_status e = FE_Pending \<and> fe_phase e = Regeneration \<and> fe_next_attempt_at e = at"
    by (simp add: new_feed_event_def split_beta')
  ultimately show ?thesis
    unfolding enqueued_def insert_feed_events_eq using urls assms by (intro exI [of _ ?new]) simp
qed

lemma set_affected_feed_urls:
  "set (affected_feed_urls name ts) = {canonicalize s f | s f. s \<in> set (affected_surfaces name ts)}"
proof -
  have formats: "{Rss, Atom, Json} = UNIV" by (auto intro: feed_format.exhaust)
  have "set (affected_feed_urls name ts) = (\<Union>s \<in> set (affected_surfaces name ts). canonicalize s ` {Rss, Atom, Json})"
    unfolding affected_feed_urls_def by simp
  then have "set (affected_feed_urls name ts) = (\<Union>s \<in> set (affected_surfaces name ts). range (canonicalize s))"
    unfolding formats .
  then show ?thesis by blast
qed

lemma affected_paths_eq:
  assumes "find_user uid d = Some u"
    and "set ts = (\<Union>p \<in> {p \<in> set (posts d). post_user p = uid \<and> publicly_live now d p}. post_slugs (post_id p) d)"
    and "\<exists>p \<in> set (posts d). post_user p = uid \<and> publicly_live now d p"
  shows "affected_paths uid now d = set (affected_feed_urls (user_username u) ts)"
proof -
  have named: "author_named d name p \<longleftrightarrow> name = user_username u" if "post_user p = uid" for name p
    using that assms(1) by (auto simp: author_named_def)
  have surfaces: "(\<exists>p \<in> set (posts d). post_user p = uid \<and> publicly_live now d p \<and> on_surface d s p) \<longleftrightarrow>
      s \<in> set (affected_surfaces (user_username u) ts)" for s
    using named assms(3) by (cases s) (auto simp: affected_surfaces_def assms(2))
  show ?thesis unfolding affected_paths_def set_affected_feed_urls surfaces [symmetric] by simp
qed

lemma distinct_affected_feed_urls:
  assumes "username_ok name" and "list_all tag_ok ts" and "distinct ts"
  shows "distinct (affected_feed_urls name ts)"
  unfolding affected_feed_urls_def using affected_surfaces_ok [OF assms(1,2)]
  by (intro distinct_formats distinct_affected_surfaces assms(3)) (simp add: list_all_iff)

lemma enqueue_user_feed_events_okD:
  assumes "enqueue_user_feed_events db uid (user_username u) now at c = (Inr r, c')" and "slugs_ok (working c)"
    and "find_user uid (working c) = Some u" and "username_ok (user_username u)"
  shows "enqueued at (affected_paths uid now (working c)) (working c) (working c')"
    and "\<exists>es n. working c' = (working c)\<lparr>feed_events := es, next_feed_event_id := n\<rparr>"
proof -
  from assms(1) obtain tags c1 where tags: "feed_affecting_post_tags_for_user db uid now c = (Inr tags, c1)"
    and rest: "(case tags of None \<Rightarrow> tx_return () | Some ts \<Rightarrow>
      tx_map_err feed_event_sql_error (enqueue_many db at (affected_feed_urls (user_username u) ts))) c1 = (Inr r, c')"
    by (auto simp: enqueue_user_feed_events_def tx_bind_ok_iff)
  note okD = feed_affecting_okD [OF tags assms(2)]
  have "enqueued at (affected_paths uid now (working c)) (working c) (working c') \<and>
    (\<exists>es n. working c' = (working c)\<lparr>feed_events := es, next_feed_event_id := n\<rparr>)"
  proof (cases tags)
    case None
    with okD(1,2) rest have "working c' = working c" "affected_paths uid now (working c) = {}"
      by (auto simp: tx_simps affected_paths_def)
    then show ?thesis by (auto simp: enqueued_none intro!: exI [of _ "feed_events (working c)"] exI [of _ "next_feed_event_id (working c)"])
  next
    case (Some ts)
    then have live: "\<exists>p \<in> set (posts (working c)). post_user p = uid \<and> publicly_live now (working c) p"
      using okD(2) by blast
    from rest Some okD(1) have c': "working c' = fold (insert_feed_event at) (affected_feed_urls (user_username u) ts) (working c)"
      by (auto simp: tx_simps dest!: enqueue_many_okD)
    have "list_all tag_ok ts"
      using okD(3) [OF Some] post_slug_ok [OF assms(2)] by (auto simp: list_all_iff)
    note distinct = distinct_affected_feed_urls [OF assms(4) this okD(4) [OF Some]]
    show ?thesis
      unfolding c' affected_paths_eq [OF assms(3) okD(3) [OF Some] live]
      by (intro conjI enqueued_insert [OF distinct] exI) (rule insert_feed_events_eq)
  qed
  then show "enqueued at (affected_paths uid now (working c)) (working c) (working c')"
    "\<exists>es n. working c' = (working c)\<lparr>feed_events := es, next_feed_event_id := n\<rparr>" by auto
qed

lemma find_update_user:
  assumes "\<And>u. user_id (f u) = user_id u"
  shows "find (\<lambda>u. user_id u = i) (update_where (\<lambda>u. user_id u = uid) f us) =
    map_option (\<lambda>u. if user_id u = uid then f u else u) (find (\<lambda>u. user_id u = i) us)"
  using assms by (induction us) (auto simp: update_where_def)

lemma affected_paths_users:
  assumes "\<And>u. user_id (f u) = user_id u" and "\<And>u. user_username (f u) = user_username u"
    and "d' = d\<lparr>users := update_where (\<lambda>u. user_id u = uid) f (users d)\<rparr>"
  shows "affected_paths i now d' = affected_paths i now d" and "slugs_ok d' = slugs_ok d"
    and "find_user uid d' = map_option f (find_user uid d)"
proof -
  have named: "author_named d' name p \<longleftrightarrow> author_named d name p" for name p
    using assms(2) by (cases "find_user (post_user p) d")
      (auto simp: author_named_def find_user_def assms(3) find_update_user [OF assms(1)])
  have rest: "posts d' = posts d" "stored_tags d' = stored_tags d" "post_tags d' = post_tags d"
    "post_audiences d' = post_audiences d" "next_tag_id d' = next_tag_id d" by (simp_all add: assms(3))
  have slugs: "post_slugs pid d' = post_slugs pid d" for pid by (simp add: post_slugs_def tag_slug_of_def rest)
  have "on_surface d' s p \<longleftrightarrow> on_surface d s p" for s p by (cases s) (simp_all add: named slugs)
  moreover have "publicly_live now d' p \<longleftrightarrow> publicly_live now d p" for p
    by (simp add: publicly_live_def targets_of_def rest)
  ultimately show "affected_paths i now d' = affected_paths i now d" by (simp add: affected_paths_def rest)
  show "slugs_ok d' = slugs_ok d" by (simp add: slugs_ok_def tags_wf_def rest)
  show "find_user uid d' = map_option f (find_user uid d)"
    by (cases "find_user uid d") (auto simp: find_user_def assms(3) find_update_user [OF assms(1)] dest: find_Some_memD)
qed

lemma affected_paths_config:
  "affected_paths i now (d\<lparr>user_config := cfg\<rparr>) = affected_paths i now d"
  "slugs_ok (d\<lparr>user_config := cfg\<rparr>) = slugs_ok d"
  "find_user uid (d\<lparr>user_config := cfg\<rparr>) = find_user uid d"
proof -
  have "post_slugs pid (d\<lparr>user_config := cfg\<rparr>) = post_slugs pid d" for pid by (simp add: post_slugs_def tag_slug_of_def)
  then have "on_surface (d\<lparr>user_config := cfg\<rparr>) s p \<longleftrightarrow> on_surface d s p" for s p
    by (cases s) (simp_all add: author_named_def find_user_def)
  then show "affected_paths i now (d\<lparr>user_config := cfg\<rparr>) = affected_paths i now d"
    by (simp add: affected_paths_def publicly_live_def targets_of_def)
qed (simp_all add: slugs_ok_def tags_wf_def find_user_def)

lemma get_user_for_update_okD:
  "get_user_for_update db uid c = (Inr found, c') \<Longrightarrow> working c' = working c \<and>
     found = map_option user_record_of (find_user uid (working c))"
  by (auto simp: get_user_for_update_def find_user_def tx_simps)

lemma user_record_of_sel: "ur_username (user_record_of u) = user_username u"
  "ur_display_name (user_record_of u) = user_display_name u"
  by (simp_all add: user_record_of_def)

lemma profile_change_okD:
  assumes "update_profile_with_feed_events db uid name bio now at c = (Inr r, c')"
    and "slugs_ok (working c)" and "find_user uid (working c) = Some u" and "username_ok (user_username u)"
  shows "find_user uid (working c') = Some (u\<lparr>user_display_name := name, user_bio := bio\<rparr>) \<and>
    enqueued at (if user_display_name u = name then {} else affected_paths uid now (working c)) (working c) (working c')"
proof -
  let ?f = "\<lambda>u. u\<lparr>user_display_name := name, user_bio := bio\<rparr>"
  let ?d1 = "(working c)\<lparr>users := update_where (\<lambda>u. user_id u = uid) ?f (users (working c))\<rparr>"
  note frame = affected_paths_users [where d = "working c" and d' = ?d1 and f = ?f and uid = uid, OF _ _ refl]
  from assms(1) obtain found c0 where found: "get_user_for_update db uid c = (Inr found, c0)"
    and k: "(case found of None \<Rightarrow> tx_throw RowNotFound | Some user \<Rightarrow>
         tx_bind (update_profile db uid name bio) (\<lambda>_.
         if ur_display_name user \<noteq> name then enqueue_user_feed_events db uid (ur_username user) now at
         else tx_return ())) c0 = (Inr r, c')"
    unfolding update_profile_with_feed_events_def tx_bind_ok_iff by blast
  note get = get_user_for_update_okD [OF found]
  from get assms(3) have "found = Some (user_record_of u)" by simp
  with k obtain c1 where up: "update_profile db uid name bio c0 = (Inr (), c1)"
    and rest: "(if user_display_name u \<noteq> name then enqueue_user_feed_events db uid (user_username u) now at
      else tx_return ()) c1 = (Inr r, c')"
    by (simp add: tx_bind_ok_iff user_record_of_sel cong: if_cong) blast
  have "working c1 = (working c0)\<lparr>users := update_where (\<lambda>u. user_id u = uid) ?f (users (working c0))\<rparr>"
    using up unfolding update_profile_def update_user_def by (auto simp: tx_simps)
  then have c1: "working c1 = ?d1" using get by simp
  have u1: "find_user uid (working c1) = Some (?f u)" using frame(3) assms(3) c1 by simp
  show ?thesis
  proof (cases "user_display_name u = name")
    case True
    with rest c1 have "working c' = ?d1" by (simp add: tx_simps)
    with True u1 c1 show ?thesis by (simp add: enqueued_none)
  next
    case False
    with rest have "enqueue_user_feed_events db uid (user_username (?f u)) now at c1 = (Inr r, c')" by simp
    from enqueue_user_feed_events_okD [OF this _ u1] assms(2,4) frame(2) c1
    have e: "enqueued at (affected_paths uid now ?d1) ?d1 (working c')"
      and "\<exists>es n. working c' = ?d1\<lparr>feed_events := es, next_feed_event_id := n\<rparr>" by simp_all
    then have "find_user uid (working c') = find_user uid ?d1" by (auto simp: find_user_def)
    with e False u1 c1 frame(1) show ?thesis by (simp add: enqueued_def)
  qed
qed

lemma license_change_okD:
  assumes "update_content_license_with_feed_events db uid l now at c = (Inr r, c')"
    and "slugs_ok (working c)" and "find_user uid (working c) = Some u" and "username_ok (user_username u)"
  shows "user_config (working c') (uid, ContentLicense) = Some (license_token l) \<and>
    enqueued at (if license_of_row (user_config (working c) (uid, ContentLicense)) = Inr l then {}
      else affected_paths uid now (working c)) (working c) (working c')"
proof -
  let ?d1 = "(working c)\<lparr>user_config := (user_config (working c))((uid, ContentLicense) \<mapsto> license_token l)\<rparr>"
  from assms(1) obtain found c0 where found: "get_user_for_update db uid c = (Inr found, c0)"
    and k: "(case found of None \<Rightarrow> tx_throw RowNotFound | Some user \<Rightarrow>
         tx_bind (get_content_license_for_update db uid) (\<lambda>current.
         tx_bind (user_config_set db uid ContentLicense (license_token l)) (\<lambda>_.
         if current \<noteq> l then enqueue_user_feed_events db uid (ur_username user) now at
         else tx_return ()))) c0 = (Inr r, c')"
    unfolding update_content_license_with_feed_events_def tx_bind_ok_iff by blast
  note get = get_user_for_update_okD [OF found]
  from get assms(3) have "found = Some (user_record_of u)" by simp
  with k obtain current c2 c1 where cur: "get_content_license_for_update db uid c0 = (Inr current, c2)"
    and set: "user_config_set db uid ContentLicense (license_token l) c2 = (Inr (), c1)"
    and rest: "(if current \<noteq> l then enqueue_user_feed_events db uid (user_username u) now at
      else tx_return ()) c1 = (Inr r, c')"
    by (simp add: tx_bind_ok_iff user_record_of_sel cong: if_cong) blast
  from cur get have current: "license_of_row (user_config (working c) (uid, ContentLicense)) = Inr current"
    and c2: "working c2 = working c"
    by (auto simp: get_content_license_for_update_def tx_simps tx_of_result_apply)
  from set c2 have c1: "working c1 = ?d1" by (auto simp: user_config_set_def tx_simps split: if_splits)
  have u1: "find_user uid (working c1) = Some u" using assms(3) c1 by (simp add: affected_paths_config)
  show ?thesis
  proof (cases "current = l")
    case True
    with rest c1 have "working c' = ?d1" by (simp add: tx_simps)
    with True current show ?thesis by (simp add: enqueued_none)
  next
    case False
    with rest have "enqueue_user_feed_events db uid (user_username u) now at c1 = (Inr r, c')" by simp
    from enqueue_user_feed_events_okD [OF this _ u1 assms(4)] assms(2) c1
    have e: "enqueued at (affected_paths uid now ?d1) ?d1 (working c')"
      and "\<exists>es n. working c' = ?d1\<lparr>feed_events := es, next_feed_event_id := n\<rparr>"
      by (simp_all add: affected_paths_config)
    then have "user_config (working c') (uid, ContentLicense) = Some (license_token l)" by auto
    with e False current show ?thesis by (simp add: affected_paths_config enqueued_def)
  qed
qed

text \<open>
  C19: a change of what every post of a user shows reaches every feed that shows one, and no other.
  When the display name or the content licence really changes, one regeneration is enqueued, due at
  once, for every format of every surface with a post of the user that is live and public; when it
  is written again unchanged, none is.
\<close>

theorem user_change_reaches_feeds:
  assumes "slugs_ok (working c)" and "find_user uid (working c) = Some u" and "username_ok (user_username u)"
  shows "(update_profile_with_feed_events db uid name bio now at c = (Inr r, c') \<longrightarrow>
      find_user uid (working c') = Some (u\<lparr>user_display_name := name, user_bio := bio\<rparr>) \<and>
      enqueued at (if user_display_name u = name then {} else affected_paths uid now (working c)) (working c) (working c')) \<and>
    (update_content_license_with_feed_events db uid l now at c = (Inr r, c') \<longrightarrow>
      user_config (working c') (uid, ContentLicense) = Some (license_token l) \<and>
      enqueued at (if license_of_row (user_config (working c) (uid, ContentLicense)) = Inr l then {}
        else affected_paths uid now (working c)) (working c) (working c'))"
  using profile_change_okD [OF _ assms] license_change_okD [OF _ assms] by blast

subsection \<open>Catching up and going live\<close>

lemma sort_key_hd:
  "sort_key k xs = p # ps \<Longrightarrow> p \<in> set xs \<and> (\<forall>q \<in> set xs. k p \<le> k q)"
proof -
  assume s: "sort_key k xs = p # ps"
  have "sorted (map k (p # ps))" unfolding s [symmetric] by simp
  moreover have "set xs = set (p # ps)" unfolding s [symmetric] by simp
  ultimately show ?thesis by auto
qed

lemma max_published_reader:
  assumes "tags_wf d"
  shows "\<exists>newest. max_published_at_for_surface s now (reader db d) = (Inr newest, reader db d) \<and>
    ((\<exists>t. newest = Some t \<and> g < t) \<longleftrightarrow>
      (\<exists>p \<in> set (posts d). publicly_live now d p \<and> on_surface d s p \<and> g < published_instant p))"
proof -
  let ?ps = "filter (\<lambda>p. live_at now p \<and> public_audience d p) (surface_source s d)"
  have mem: "p \<in> set ?ps \<longleftrightarrow> p \<in> set (posts d) \<and> publicly_live now d p \<and> on_surface d s p" for p
    by (auto simp: surface_source_eq [OF assms] publicly_live_def public_audience_iff)
  let ?newest = "case sort_key (\<lambda>p. - fst (published_key p)) ?ps of [] \<Rightarrow> None | p # _ \<Rightarrow> post_published_at p"
  have run: "max_published_at_for_surface s now (reader db d) = (Inr ?newest, reader db d)"
    by (simp add: max_published_at_for_surface_def)
  have "(\<exists>t. ?newest = Some t \<and> g < t) \<longleftrightarrow> (\<exists>p \<in> set ?ps. g < published_instant p)"
  proof (cases "sort_key (\<lambda>p. - fst (published_key p)) ?ps")
    case Nil
    then have "set ?ps = {}" by (metis set_empty set_sort)
    with Nil show ?thesis by simp
  next
    case (Cons p ps)
    from sort_key_hd [OF Cons] have p: "p \<in> set ?ps"
      and top: "\<forall>q \<in> set ?ps. published_instant q \<le> published_instant p"
      by (auto simp: published_instant_def)
    from p mem obtain t where t: "post_published_at p = Some t"
      by (auto simp: publicly_live_def live_at_def split: option.splits)
    then have "published_instant p = t" by (simp add: published_instant_def published_key_def)
    then show ?thesis using Cons p top t by (auto intro: bexI [of _ p] dest: order.strict_trans2)
  qed
  then show ?thesis using run mem by blast
qed

definition missed_post :: "instant \<Rightarrow> database \<Rightarrow> stored_feed_cache_row \<Rightarrow> ustr \<Rightarrow> bool" where
  "missed_post now d r path \<longleftrightarrow> feed_path_from_str (fc_feed_url r) = Some path \<and>
     (\<exists>s f. parse_feed_path path = Some (s, f) \<and>
        (\<exists>p \<in> set (posts d). publicly_live now d p \<and> on_surface d s p \<and> fc_generated_at r < published_instant p))"

lemma catchup_reachable: "feed_path_from_str s = Some path \<Longrightarrow> \<exists>surface f. parse_feed_path path = Some (surface, f)"
  by (auto simp: feed_path_from_str_def dest: parse_feed_path_ok parse_canonicalize)

lemma needing_catchup_reader:
  assumes "tags_wf d"
  shows "\<exists>urls. needing_catchup now rows (reader db d) = (Inr urls, reader db d) \<and>
    (\<forall>path. path \<in> set urls \<longleftrightarrow> (\<exists>r \<in> set rows. missed_post now d r path))"
proof (induction rows)
  case (Cons row rows)
  then obtain urls where urls: "needing_catchup now rows (reader db d) = (Inr urls, reader db d)"
    "\<forall>path. path \<in> set urls \<longleftrightarrow> (\<exists>r \<in> set rows. missed_post now d r path)" by blast
  show ?case
  proof (cases "feed_path_from_str (fc_feed_url row)")
    case None
    with urls show ?thesis by (auto simp: missed_post_def)
  next
    case (Some path)
    with catchup_reachable obtain s f where s: "parse_feed_path path = Some (s, f)" by blast
    from max_published_reader [OF assms, of s now db "fc_generated_at row"] obtain newest where
      newest: "max_published_at_for_surface s now (reader db d) = (Inr newest, reader db d)"
      "(\<exists>t. newest = Some t \<and> fc_generated_at row < t) \<longleftrightarrow>
        (\<exists>p \<in> set (posts d). publicly_live now d p \<and> on_surface d s p \<and> fc_generated_at row < published_instant p)"
      by blast
    have missed: "missed_post now d row q \<longleftrightarrow> q = path \<and> (\<exists>t. newest = Some t \<and> fc_generated_at row < t)" for q
      using Some s newest(2) by (auto simp: missed_post_def)
    have "needing_catchup now (row # rows) (reader db d) =
        (Inr (if \<exists>t. newest = Some t \<and> fc_generated_at row < t then path # urls else urls), reader db d)"
      by (simp add: Some s tx_bind_def tx_map_err_def newest(1) urls(1) tx_return_def split: option.splits)
    with urls(2) missed show ?thesis by auto
  qed
qed (simp add: tx_return_def)

text \<open>
  C20: the catch-up of a restarted worker finds exactly the cached feeds that have missed a post. The
  read never fails on a well-formed store, it skips cached paths that are no feed paths, and it returns
  a path just when a post that is live and public now was published on its surface after the cached
  feed was generated.
\<close>

theorem catchup_exact:
  assumes "tags_wf d"
  shows "\<exists>urls. feed_urls_needing_catchup now (reader db d) = (Inr urls, reader db d) \<and>
    (\<forall>path. path \<in> set urls \<longleftrightarrow> (\<exists>r \<in> set (feed_cache d). missed_post now d r path))"
  using needing_catchup_reader [OF assms, of now "feed_cache d" db]
  by (simp add: feed_urls_needing_catchup_def tx_bind_def tx_map_err_def)

text \<open>The posts that have gone live between two instants, and the feeds they are on.\<close>

definition gone_live :: "instant \<Rightarrow> instant \<Rightarrow> database \<Rightarrow> post_row \<Rightarrow> bool" where
  "gone_live after now d p \<longleftrightarrow> publicly_live now d p \<and> after < published_instant p"

definition gone_live_paths :: "instant \<Rightarrow> instant \<Rightarrow> database \<Rightarrow> ustr set" where
  "gone_live_paths after now d =
     {canonicalize s f | s f. \<exists>p \<in> set (posts d). gone_live after now d p \<and> on_surface d s p}"

lemma gone_live_iff:
  "(case post_published_at p of None \<Rightarrow> False | Some t \<Rightarrow> after < t \<and> t \<le> now) \<and> post_deleted_at p = None \<and>
     public_audience d p \<longleftrightarrow> gone_live after now d p"
  by (auto simp: gone_live_def publicly_live_def live_at_def public_audience_iff published_instant_def
      published_key_def split: option.splits)

lemma post_surfaces:
  assumes "decode_post d p = Some (Inr r)"
  shows "s \<in> set (affected_surfaces (record_username r) (map post_tag_slug (record_tags r))) \<longleftrightarrow> on_surface d s p"
proof -
  from assms obtain u where u: "find_user (post_user p) d = Some u" "record_username r = user_username u"
    "record_tags r = tags_of_post (post_id p) d"
    by (auto simp: decode_post_def split: if_splits)
  then show ?thesis
    by (cases s) (auto simp: affected_surfaces_def author_named_def set_tags_of_post [symmetric])
qed

lemma gone_live_reader:
  assumes "listing_ok d" and "authors_known d"
  shows "\<exists>gs. list_posts_gone_live_between after now (reader db d) = (Inr gs, reader db d) \<and>
    (\<Union>g \<in> set gs. set (affected_feed_urls (gone_live_username g) (gone_live_slugs g))) = gone_live_paths after now d"
proof -
  let ?rows = "\<lambda>d. sort_key published_key (filter (\<lambda>p. (case post_published_at p of None \<Rightarrow> False |
      Some t \<Rightarrow> after < t \<and> t \<le> now) \<and> post_deleted_at p = None \<and> public_audience d p) (authored_posts d))"
  let ?dto = "\<lambda>p. projr (the (decode_post d p))"
  let ?post = "\<lambda>r. \<lparr>gone_live_username = record_username r, gone_live_slugs = map post_tag_slug (record_tags r)\<rparr>"
  have mem: "p \<in> set (?rows d) \<longleftrightarrow> p \<in> set (posts d) \<and> gone_live after now d p" for p
    using gone_live_iff by (auto simp: authored_posts_all [OF assms(2)])
  have dec: "decode_post d p = Some (Inr (?dto p))" if "p \<in> set (?rows d)" for p
  proof -
    from that mem have p: "p \<in> set (posts d)" by blast
    with assms(2) obtain u where "find_user (post_user p) d = Some u" by (auto simp: authors_known_def)
    moreover from assms(1) p have "titles_match (post_title p) (post_rendered_title p)" by (simp add: listing_ok_def)
    ultimately show ?thesis by (simp add: decode_post_def)
  qed
  with fetch_rows_ok [of "reader db d" ?rows decode_post ?dto]
  have run: "list_posts_gone_live_between after now (reader db d) =
      (Inr (map ?post (map ?dto (?rows d))), reader db d)"
    by (simp add: list_posts_gone_live_between_def tx_bind_def tx_return_def)
  have "(\<Union>g \<in> set (map ?post (map ?dto (?rows d))). set (affected_feed_urls (gone_live_username g) (gone_live_slugs g))) =
      (\<Union>p \<in> set (?rows d). set (affected_feed_urls (record_username (?dto p)) (map post_tag_slug (record_tags (?dto p)))))"
    by (simp add: comp_def)
  also have "\<dots> = (\<Union>p \<in> set (?rows d). {canonicalize s f | s f. on_surface d s p})"
    by (rule SUP_cong [OF refl]) (simp only: set_affected_feed_urls post_surfaces [OF dec])
  also have "\<dots> = gone_live_paths after now d"
    unfolding gone_live_paths_def using mem by blast
  finally show ?thesis using run by blast
qed

subsection \<open>Ada has a public post\<close>

definition public_post :: database where
  "public_post = subscribers_post\<lparr>
     post_audiences := [\<lparr>pa_post = 7, pa_kind = Public_Target, pa_audience = None\<rparr>],
     stored_tags := [\<lparr>tag_id = 1, tag_slug = lit ''bees''\<rparr>], next_tag_id := 2,
     post_tags := [\<lparr>pt_post = 7, pt_tag = 1, pt_display = lit ''bees''\<rparr>]\<rparr>"

lemmas public_post_defs = public_post_def subscribers_post_defs

lemma public_post_listing_ok: "listing_ok public_post"
  by (simp add: listing_ok_def tags_wf_def titles_match_def license_column_def parse_content_license_def
      parse_token_def license_variants_def public_post_defs label_slug_def to_lowercase_def lower_scalar_def ascii_defs)

lemma public_post_ok: "slugs_ok public_post" "authors_known public_post"
  using public_post_listing_ok
  by (simp_all add: listing_ok_def slugs_ok_def authors_known_def find_user_def public_post_defs tag_ok_def
      is_tag_first_def is_tag_rest_def ascii_defs)

lemma public_post_live: "publicly_live 5 public_post (example_post 7 1 ''hello'' (Some 2))"
  by (auto simp: publicly_live_def live_at_def targets_of_def public_post_defs)

lemma window_query_is_select_witness:
  "list_published_in_window \<lparr>ts_min = - seconds 100000000, ts_max = seconds 100000000\<rparr> Site
      \<lparr>window_min_items = 1, window_min_days = 30\<rparr> 5 Anonymous (reader Sqlite public_post) =
    (Inr [public_record public_post (example_post 7 1 ''hello'' (Some 2))], reader Sqlite public_post)"
proof -
  let ?b = "\<lparr>ts_min = - seconds 100000000, ts_max = seconds 100000000\<rparr>"
  let ?w = "\<lparr>window_min_items = 1, window_min_days = 30\<rparr>"
  have "readable Anonymous public_post (example_post 7 1 ''hello'' (Some 2))"
    by (auto simp: readable_def resolves_iff targets_of_def public_post_defs)
  then have "surface_posts Site Anonymous 5 public_post = [example_post 7 1 ''hello'' (Some 2)]"
    using public_post_live by (simp add: surface_posts_def public_post_def subscribers_post_def publicly_live_def)
  then have "window_select ?b ?w 5 published_instant (surface_posts Site Anonymous 5 public_post) =
      [example_post 7 1 ''hello'' (Some 2)]"
    by (simp add: window_select_def window_items_def)
  with window_query_is_select [OF public_post_listing_ok public_post_ok(2), of ?w ?b Site 5 Anonymous Sqlite]
  show ?thesis by simp
qed

lemma catchup_exact_witness:
  "\<exists>urls. feed_urls_needing_catchup 5 (reader Sqlite (public_post\<lparr>feed_cache := [stored_of (example_row 2 48 1)]\<rparr>)) =
     (Inr urls, reader Sqlite (public_post\<lparr>feed_cache := [stored_of (example_row 2 48 1)]\<rparr>)) \<and> lit ''/feed.rss'' \<in> set urls"
proof -
  let ?d = "public_post\<lparr>feed_cache := [stored_of (example_row 2 48 1)]\<rparr>"
  have path: "fc_feed_url (stored_of (example_row 2 48 1)) = canonicalize Site Rss"
    and at: "fc_generated_at (stored_of (example_row 2 48 1)) = 1"
    by (simp_all add: stored_of_def example_row_def)
  have site: "parse_feed_path (canonicalize Site Rss) = Some (Site, Rss)" by (rule parse_canonicalize) simp
  have "tags_wf ?d" using public_post_ok(1) by (simp add: slugs_ok_def tags_wf_def)
  from catchup_exact [OF this, of 5 Sqlite] obtain urls
    where urls: "feed_urls_needing_catchup 5 (reader Sqlite ?d) = (Inr urls, reader Sqlite ?d)"
      and mem: "\<forall>path. path \<in> set urls \<longleftrightarrow> (\<exists>r \<in> set (feed_cache ?d). missed_post 5 ?d r path)" by blast
  have "publicly_live 5 ?d (example_post 7 1 ''hello'' (Some 2))"
    using public_post_live by (simp add: publicly_live_def targets_of_def)
  moreover have "example_post 7 1 ''hello'' (Some 2) \<in> set (posts ?d)" by (simp add: public_post_def subscribers_post_def)
  moreover have "published_instant (example_post 7 1 ''hello'' (Some 2)) = 2"
    by (simp add: published_instant_def published_key_def example_post_def)
  ultimately have "missed_post 5 ?d (stored_of (example_row 2 48 1)) (canonicalize Site Rss)"
    unfolding missed_post_def path at feed_path_from_str_def site
    by (intro conjI exI [of _ Site] exI [of _ Rss] bexI [of _ "example_post 7 1 ''hello'' (Some 2)"]) simp_all
  then have "canonicalize Site Rss \<in> set urls" using mem by simp
  then show ?thesis using urls by auto
qed

lemma tx_bind_step: "m c = (Inr a, c') \<Longrightarrow> tx_bind m k c = k a c'"
  by (simp add: tx_bind_def)

lemma rename_ada: "\<exists>c'. update_profile_with_feed_events Sqlite 1 (Some (lit ''Ada'')) None 5 6 (reader Sqlite public_post) = (Inr (), c')"
proof -
  let ?ada = "Audiences.example_user 1 ''ada''"
  let ?name = "Some (lit ''Ada'')"
  let ?c = "reader Sqlite public_post"
  let ?c1 = "?c\<lparr>working := public_post\<lparr>users := update_where (\<lambda>u. user_id u = 1)
    (\<lambda>u. u\<lparr>user_display_name := ?name, user_bio := None\<rparr>) (users public_post)\<rparr>\<rparr>"
  have user: "find (\<lambda>u. user_id u = 1) (users public_post) = Some ?ada"
    by (simp add: public_post_defs)
  have get: "get_user_for_update Sqlite 1 ?c = (Inr (Some (user_record_of ?ada)), ?c)"
    unfolding get_user_for_update_def by (simp add: tx_bind_step [where a = "()" and c' = ?c] write_connection_def
        statement_def user spend_fault_none)
  have up: "update_profile Sqlite 1 ?name None ?c = (Inr (), ?c1)"
    unfolding update_profile_def update_user_def by (simp add: tx_bind_step [where a = "()" and c' = ?c]
        write_connection_def statement_def spend_fault_none)
  have rows: "feed_affecting_rows 1 5 (working ?c1) = [Some (lit ''bees'')]"
    by (simp add: feed_affecting_rows_def live_at_def public_audience_def joined_slugs_def tag_slug_of_def public_post_defs)
  have tag: "decode_slug (Some (lit ''bees'')) = Inr (Some (lit ''bees''))"
    unfolding decode_slug_def by (simp add: parse_tag_def to_lowercase_def lower_scalar_def is_tag_first_def
        is_tag_rest_def ascii_defs)
  have tags: "feed_affecting_post_tags_for_user Sqlite 1 5 ?c1 = (Inr (Some [lit ''bees'']), ?c1)"
    unfolding feed_affecting_post_tags_for_user_def
    by (simp add: tx_bind_step [where a = "()" and c' = ?c1] write_connection_def statement_def spend_fault_none
        rows [simplified] tag [simplified] tx_bind_def tx_of_result_def tx_return_def List.map_filter_def)
  have ins: "\<exists>c'. insert_chunks at cs c = (Inr (), c')" if "faults c = []" for at cs and c :: "database connection"
    using that by (induction cs arbitrary: c) (simp_all add: tx_eval)
  from ins [of ?c1 6 "chunks 250 (affected_feed_urls (lit ''ada'') [lit ''bees''])"] obtain c'
    where "insert_chunks 6 (chunks 250 (affected_feed_urls (lit ''ada'') [lit ''bees''])) ?c1 = (Inr (), c')" by auto
  then have many: "enqueue_many Sqlite 6 (affected_feed_urls (lit ''ada'') [lit ''bees'']) ?c1 = (Inr (), c')"
    by (simp add: enqueue_many_def tx_map_err_def tx_bind_def write_connection_def)
  have "update_profile_with_feed_events Sqlite 1 ?name None 5 6 ?c = (Inr (), c')"
    unfolding update_profile_with_feed_events_def enqueue_user_feed_events_def
    by (subst tx_bind_step, rule get, simp only: option.case, subst tx_bind_step, rule up)
      (simp add: user_record_of_sel tx_bind_def tags [simplified] tx_map_err_def many [simplified] Audiences.example_user_def)
  then show ?thesis by blast
qed

lemma user_change_reaches_feeds_witness:
  "\<exists>c' :: database connection. find_user 1 (working c') \<noteq> None \<and>
     enqueued 6 (affected_paths 1 5 public_post) public_post (working c') \<and>
     canonicalize (SiteTag (lit ''bees'')) Atom \<in> affected_paths 1 5 public_post"
proof -
  have ada: "find_user 1 (working (reader Sqlite public_post)) = Some (Audiences.example_user 1 ''ada'')"
    by (simp add: find_user_def public_post_defs)
  have "username_ok (user_username (Audiences.example_user 1 ''ada''))"
    by (simp add: Audiences.example_user_def username_ok_def is_token_char_def ascii_defs)
  note change = user_change_reaches_feeds [OF _ ada this, of Sqlite "Some (lit ''Ada'')" None 5 6 "()"]
  from rename_ada obtain c' where run: "update_profile_with_feed_events Sqlite 1 (Some (lit ''Ada'')) None 5 6
      (reader Sqlite public_post) = (Inr (), c')" by blast
  have "user_display_name (Audiences.example_user 1 ''ada'') \<noteq> Some (lit ''Ada'')" by (simp add: Audiences.example_user_def)
  with change [THEN conjunct1, THEN mp, OF _ run] public_post_ok(1)
  have "find_user 1 (working c') \<noteq> None" "enqueued 6 (affected_paths 1 5 public_post) public_post (working c')" by auto
  moreover have "on_surface public_post (SiteTag (lit ''bees'')) (example_post 7 1 ''hello'' (Some 2))"
    by (simp add: post_slugs_def tag_slug_of_def public_post_defs)
  then have "canonicalize (SiteTag (lit ''bees'')) Atom \<in> affected_paths 1 5 public_post"
    unfolding affected_paths_def mem_Collect_eq using public_post_live
    by (intro exI [of _ "SiteTag (lit ''bees'')"] exI [of _ Atom] conjI refl
        bexI [of _ "example_post 7 1 ''hello'' (Some 2)"]) (simp_all add: public_post_def subscribers_post_def example_post_def)
  ultimately show ?thesis by blast
qed

end
