(* ===== verification/Feed_Identity.thy ===== *)
theory Feed_Identity
  imports Syndication "HOL-Library.Word"
begin

section \<open>The identity of a feed\<close>

text \<open>
  \<^verbatim>\<open>host/src/feed/metadata.rs\<close>, \<^verbatim>\<open>common/src/copyright_declaration.rs\<close>,
  \<^verbatim>\<open>common/src/content_license.rs\<close> and \<^verbatim>\<open>host/src/etag.rs\<close>: what a feed says
  of itself and of its items, and the byte string whose digest decides whether a rendering replaces
  the cached one. SHA-256 is a parameter; what is hashed is written out, bytes are words of 8 bits.
\<close>

subsection \<open>Metadata and items\<close>

fun license_label :: "content_license \<Rightarrow> ustr" where
  "license_label AllRightsReserved = lit ''All Rights Reserved''"
| "license_label Cc0_1_0 = lit ''CC0 1.0''"
| "license_label CcBy4_0 = lit ''CC BY 4.0''"
| "license_label CcBySa4_0 = lit ''CC BY-SA 4.0''"
| "license_label CcByNd4_0 = lit ''CC BY-ND 4.0''"
| "license_label CcByNc4_0 = lit ''CC BY-NC 4.0''"
| "license_label CcByNcSa4_0 = lit ''CC BY-NC-SA 4.0''"
| "license_label CcByNcNd4_0 = lit ''CC BY-NC-ND 4.0''"

fun license_spdx_id :: "content_license \<Rightarrow> ustr option" where
  "license_spdx_id AllRightsReserved = None"
| "license_spdx_id Cc0_1_0 = Some (lit ''CC0-1.0'')"
| "license_spdx_id CcBy4_0 = Some (lit ''CC-BY-4.0'')"
| "license_spdx_id CcBySa4_0 = Some (lit ''CC-BY-SA-4.0'')"
| "license_spdx_id CcByNd4_0 = Some (lit ''CC-BY-ND-4.0'')"
| "license_spdx_id CcByNc4_0 = Some (lit ''CC-BY-NC-4.0'')"
| "license_spdx_id CcByNcSa4_0 = Some (lit ''CC-BY-NC-SA-4.0'')"
| "license_spdx_id CcByNcNd4_0 = Some (lit ''CC-BY-NC-ND-4.0'')"

fun license_canonical_url :: "content_license \<Rightarrow> ustr option" where
  "license_canonical_url AllRightsReserved = None"
| "license_canonical_url Cc0_1_0 = Some (lit ''https://creativecommons.org/publicdomain/zero/1.0/'')"
| "license_canonical_url CcBy4_0 = Some (lit ''https://creativecommons.org/licenses/by/4.0/'')"
| "license_canonical_url CcBySa4_0 = Some (lit ''https://creativecommons.org/licenses/by-sa/4.0/'')"
| "license_canonical_url CcByNd4_0 = Some (lit ''https://creativecommons.org/licenses/by-nd/4.0/'')"
| "license_canonical_url CcByNc4_0 = Some (lit ''https://creativecommons.org/licenses/by-nc/4.0/'')"
| "license_canonical_url CcByNcSa4_0 = Some (lit ''https://creativecommons.org/licenses/by-nc-sa/4.0/'')"
| "license_canonical_url CcByNcNd4_0 = Some (lit ''https://creativecommons.org/licenses/by-nc-nd/4.0/'')"

datatype copyright_author = Author_DisplayName ustr | Author_Username ustr

fun copyright_author_name :: "copyright_author \<Rightarrow> ustr" where
  "copyright_author_name (Author_DisplayName name) = name"
| "copyright_author_name (Author_Username name) = name"

record copyright_declaration =
  declared_year :: int
  declared_author :: copyright_author
  declared_license :: content_license

definition declaration_for_post :: "calendar \<Rightarrow> instant \<Rightarrow> ustr option \<Rightarrow> ustr \<Rightarrow> content_license \<Rightarrow>
    copyright_declaration" where
  "declaration_for_post C created_at display_name username license =
     \<lparr>declared_year = civil_year (utc_date C created_at),
      declared_author = (case display_name of None \<Rightarrow> Author_Username username | Some n \<Rightarrow> Author_DisplayName n),
      declared_license = license\<rparr>"

definition declaration_copyright :: "copyright_declaration \<Rightarrow> ustr" where
  "declaration_copyright d = [0xA9, 32] @
     (if declared_year d < 0 then 45 # decimal (nat (- declared_year d)) else decimal (nat (declared_year d))) @
     [32] @ copyright_author_name (declared_author d)"

definition declaration_text :: "copyright_declaration \<Rightarrow> ustr" where
  "declaration_text d = declaration_copyright d @ [32, 0xB7, 32] @ license_label (declared_license d)"

record feed_metadata =
  meta_title :: ustr
  meta_description :: "ustr option"
  meta_canonical_url :: ustr
  meta_self_url :: ustr
  meta_hub_url :: "ustr option"
  meta_representation_modified_at :: instant

record feed_item =
  item_id :: int
  item_declaration :: copyright_declaration
  item_rendered_title :: "ustr option"
  item_visible_title :: "ustr option"
  item_permalink :: ustr
  item_summary :: "ustr option"
  item_content_html :: ustr
  item_published_at :: instant
  item_updated_at :: instant
  item_tags :: "ustr list"

text \<open>The dash of the titles is the em dash.\<close>

fun title_for_surface :: "ustr \<Rightarrow> feed_surface \<Rightarrow> ustr" where
  "title_for_surface title Site = title"
| "title_for_surface title (SiteTag tag) = title @ [32, 0x2014, 32, 35] @ tag"
| "title_for_surface title (User u) = title @ [32, 0x2014, 32, 64] @ u"
| "title_for_surface title (UserTag u tag) = title @ [32, 0x2014, 32, 64] @ u @ [32, 35] @ tag"

fun description_for_surface :: "ustr option \<Rightarrow> feed_surface \<Rightarrow> ustr option" where
  "description_for_surface tagline Site = tagline"
| "description_for_surface tagline (SiteTag _) = tagline"
| "description_for_surface tagline (User _) = None"
| "description_for_surface tagline (UserTag _ _) = None"

subsection \<open>The bytes that are hashed\<close>

type_synonym bytes = "8 word list"

text \<open>The UTF-8 encoding of a string.\<close>

definition utf8_char :: "nat \<Rightarrow> nat list" where
  "utf8_char c =
     (if c < 0x80 then [c]
      else if c < 0x800 then [0xC0 + c div 0x40, 0x80 + c mod 0x40]
      else if c < 0x10000 then [0xE0 + c div 0x1000, 0x80 + c div 0x40 mod 0x40, 0x80 + c mod 0x40]
      else [0xF0 + c div 0x40000, 0x80 + c div 0x1000 mod 0x40, 0x80 + c div 0x40 mod 0x40, 0x80 + c mod 0x40])"

definition as_bytes :: "ustr \<Rightarrow> bytes" where
  "as_bytes s = map of_nat (concat (map utf8_char s))"

definition to_be_bytes :: "nat \<Rightarrow> 'a::len word \<Rightarrow> bytes" where
  "to_be_bytes n w = map (\<lambda>k. ucast (drop_bit (8 * k) w)) (rev [0..<n])"

definition i64_bytes :: "int \<Rightarrow> bytes" where
  "i64_bytes i = to_be_bytes 8 (word_of_int i :: 64 word)"

definition i32_bytes :: "int \<Rightarrow> bytes" where
  "i32_bytes i = to_be_bytes 4 (word_of_int i :: 32 word)"

definition i16_bytes :: "int \<Rightarrow> bytes" where
  "i16_bytes i = to_be_bytes 2 (word_of_int i :: 16 word)"

definition write_bytes :: "bytes \<Rightarrow> bytes" where
  "write_bytes value = i64_bytes (int (length value)) @ value"

definition write_string :: "ustr \<Rightarrow> bytes" where
  "write_string value = write_bytes (as_bytes value)"

definition write_optional_string :: "ustr option \<Rightarrow> bytes" where
  "write_optional_string value = (case value of Some v \<Rightarrow> 1 # write_string v | None \<Rightarrow> [0])"

definition as_second :: "instant \<Rightarrow> int" where
  "as_second t = (if 0 \<le> t then t div 1000000000 else - ((- t) div 1000000000))"

definition write_timestamp :: "instant \<Rightarrow> bytes" where
  "write_timestamp t = i64_bytes (as_second t) @ i32_bytes (t - seconds (as_second t))"

definition write_declaration_identity :: "copyright_declaration \<Rightarrow> bytes" where
  "write_declaration_identity d =
     write_bytes (i16_bytes (declared_year d)) @
     write_bytes (as_bytes (copyright_author_name (declared_author d))) @
     write_bytes (as_bytes (license_token (declared_license d)))"

definition serializer_revision :: "feed_format \<Rightarrow> int" where
  "serializer_revision format = (case format of Rss \<Rightarrow> 3 | Atom \<Rightarrow> 3 | Json \<Rightarrow> 3)"

definition item_bytes :: "feed_item \<Rightarrow> bytes" where
  "item_bytes i =
     write_bytes (i64_bytes (item_id i)) @
     write_declaration_identity (item_declaration i) @
     write_optional_string (item_rendered_title i) @
     write_optional_string (item_visible_title i) @
     write_string (item_permalink i) @
     write_optional_string (item_summary i) @
     write_string (item_content_html i) @
     write_timestamp (item_published_at i) @
     write_timestamp (item_updated_at i) @
     write_bytes (i64_bytes (int (length (item_tags i)))) @
     concat (map write_string (item_tags i))"

definition fingerprint_preimage :: "feed_format \<Rightarrow> feed_metadata \<Rightarrow> feed_item list \<Rightarrow> bytes" where
  "fingerprint_preimage format m items =
     write_bytes (as_bytes (lit ''jaunder.feed.semantic-identity.v1'')) @
     write_bytes (as_bytes (feed_ext format)) @
     write_bytes (i16_bytes (serializer_revision format)) @
     write_string (meta_title m) @
     write_optional_string (meta_description m) @
     write_string (meta_canonical_url m) @
     write_string (meta_self_url m) @
     write_optional_string (meta_hub_url m) @
     write_bytes (i64_bytes (int (length items))) @
     concat (map item_bytes items)"

definition feed_semantic_fingerprint :: "(bytes \<Rightarrow> ustr) \<Rightarrow> feed_format \<Rightarrow> feed_metadata \<Rightarrow> feed_item list \<Rightarrow> ustr" where
  "feed_semantic_fingerprint sha256 format m items = sha256 (fingerprint_preimage format m items)"

definition from_content_hash :: "ustr \<Rightarrow> ustr" where
  "from_content_hash hash = [34] @ lit ''sha256-'' @ hash @ [34]"

definition feed_etag :: "(bytes \<Rightarrow> ustr) \<Rightarrow> ustr \<Rightarrow> instant \<Rightarrow> ustr" where
  "feed_etag sha256 fingerprint modified_at = from_content_hash (sha256
     (write_bytes (as_bytes (lit ''jaunder.feed.etag.v1'')) @ write_bytes (as_bytes fingerprint) @
      write_timestamp modified_at))"

subsection \<open>Codes that can be told apart\<close>

text \<open>
  A code whose words, followed by anything, determine what was encoded (up to \<open>key\<close>) and where
  it ends.
\<close>

locale prefix_code =
  fixes enc :: "'a \<Rightarrow> bytes" and ok :: "'a \<Rightarrow> bool" and key :: "'a \<Rightarrow> 'k"
  assumes uniquely: "ok x \<Longrightarrow> ok y \<Longrightarrow> enc x @ s = enc y @ t \<Longrightarrow> key x = key y \<and> s = t"
begin

lemma uniquely_list:
  "list_all ok xs \<Longrightarrow> list_all ok ys \<Longrightarrow> length xs = length ys \<Longrightarrow>
     concat (map enc xs) @ s = concat (map enc ys) @ t \<Longrightarrow> map key xs = map key ys \<and> s = t"
proof (induction xs ys rule: list_induct2')
  case (4 x xs y ys)
  then have "key x = key y \<and> concat (map enc xs) @ s = concat (map enc ys) @ t"
    by (intro uniquely) simp_all
  with 4 show ?case by simp
qed simp_all

lemma inject: "ok x \<Longrightarrow> ok y \<Longrightarrow> enc x = enc y \<Longrightarrow> key x = key y"
  using uniquely [of x y "[]" "[]"] by simp

end

lemma length_to_be_bytes [simp]: "length (to_be_bytes n w) = n"
  by (simp add: to_be_bytes_def)

lemma to_be_bytes_inject:
  fixes v w :: "'a::len word"
  assumes "to_be_bytes n v = to_be_bytes n w" and "LENGTH('a) \<le> 8 * n"
  shows "v = w"
proof (rule bit_word_eqI)
  fix i assume "i < LENGTH('a)"
  then have "i div 8 < n" using assms(2) by (simp add: less_mult_imp_div_less)
  with assms(1) have "(ucast (drop_bit (8 * (i div 8)) v) :: 8 word) = ucast (drop_bit (8 * (i div 8)) w)"
    by (simp add: to_be_bytes_def)
  then have "bit (ucast (drop_bit (8 * (i div 8)) v) :: 8 word) (i mod 8) = bit (ucast (drop_bit (8 * (i div 8)) w) :: 8 word) (i mod 8)"
    by simp
  then show "bit v i = bit w i"
    using \<open>i < LENGTH('a)\<close> by (simp add: bit_simps)
qed

subsection \<open>Numbers, strings and instants\<close>

definition in_i64 :: "int \<Rightarrow> bool" where
  "in_i64 i \<longleftrightarrow> - (2 ^ 63) \<le> i \<and> i < 2 ^ 63"

definition in_i16 :: "int \<Rightarrow> bool" where
  "in_i16 i \<longleftrightarrow> - (2 ^ 15) \<le> i \<and> i < 2 ^ 15"

lemma i64_inject: "in_i64 i \<Longrightarrow> in_i64 j \<Longrightarrow> i64_bytes i = i64_bytes j \<Longrightarrow> i = j"
proof -
  assume r: "in_i64 i" "in_i64 j" and "i64_bytes i = i64_bytes j"
  then have "(word_of_int i :: 64 word) = word_of_int j" by (auto simp: i64_bytes_def dest: to_be_bytes_inject)
  then have "sint (word_of_int i :: 64 word) = sint (word_of_int j :: 64 word)" by simp
  with r show "i = j" by (simp add: in_i64_def signed_of_int signed_take_bit_int_eq_self)
qed

lemma i16_inject: "in_i16 i \<Longrightarrow> in_i16 j \<Longrightarrow> i16_bytes i = i16_bytes j \<Longrightarrow> i = j"
proof -
  assume r: "in_i16 i" "in_i16 j" and "i16_bytes i = i16_bytes j"
  then have "(word_of_int i :: 16 word) = word_of_int j" by (auto simp: i16_bytes_def dest: to_be_bytes_inject)
  then have "sint (word_of_int i :: 16 word) = sint (word_of_int j :: 16 word)" by simp
  with r show "i = j" by (simp add: in_i16_def signed_of_int signed_take_bit_int_eq_self)
qed

lemma i32_inject: "- (2 ^ 31) \<le> i \<Longrightarrow> i < 2 ^ 31 \<Longrightarrow> - (2 ^ 31) \<le> j \<Longrightarrow> j < 2 ^ 31 \<Longrightarrow> i32_bytes i = i32_bytes j \<Longrightarrow> i = j"
proof -
  assume r: "- (2 ^ 31) \<le> i" "i < 2 ^ 31" "- (2 ^ 31) \<le> j" "j < 2 ^ 31" and "i32_bytes i = i32_bytes j"
  then have "(word_of_int i :: 32 word) = word_of_int j" by (auto simp: i32_bytes_def dest: to_be_bytes_inject)
  then have "sint (word_of_int i :: 32 word) = sint (word_of_int j :: 32 word)" by simp
  with r show "i = j" by (simp add: signed_of_int signed_take_bit_int_eq_self)
qed

lemma length_int_bytes [simp]:
  "length (i64_bytes i) = 8" "length (i32_bytes i) = 4" "length (i16_bytes i) = 2"
  by (simp_all add: i64_bytes_def i32_bytes_def i16_bytes_def)

definition value_ok :: "bytes \<Rightarrow> bool" where
  "value_ok v \<longleftrightarrow> length v < 2 ^ 63"

interpretation value_code: prefix_code write_bytes value_ok "\<lambda>v. v"
proof
  fix x y s t
  assume ok: "value_ok x" "value_ok y" and "write_bytes x @ s = write_bytes y @ t"
  then have e: "i64_bytes (int (length x)) = i64_bytes (int (length y)) \<and> x @ s = y @ t"
    by (simp add: write_bytes_def)
  have "in_i64 (int (length x))" "in_i64 (int (length y))" using ok by (simp_all add: value_ok_def in_i64_def)
  from i64_inject [OF this] e have "length x = length y" by simp
  with e show "x = y \<and> s = t" by simp
qed

text \<open>A scalar value is told apart by its encoding, and so is a string of them.\<close>

lemma utf8_char_uniquely:
  assumes "x < 0x110000" and "y < 0x110000" and "utf8_char x @ s = utf8_char y @ t"
  shows "x = y \<and> s = t"
proof -
  have digits: "a div 0x40 = b div 0x40 \<Longrightarrow> a mod 0x40 = b mod 0x40 \<Longrightarrow> a = b" for a b :: nat
    by (metis div_mult_mod_eq)
  have three: "a div 0x1000 = b div 0x1000 \<Longrightarrow> a div 0x40 mod 0x40 = b div 0x40 mod 0x40 \<Longrightarrow>
      a div 0x40 = b div 0x40" for a b :: nat
    using digits [of "a div 0x40" "b div 0x40"] by (simp add: div_mult2_eq [symmetric])
  have four: "a div 0x40000 = b div 0x40000 \<Longrightarrow> a div 0x1000 mod 0x40 = b div 0x1000 mod 0x40 \<Longrightarrow>
      a div 0x1000 = b div 0x1000" for a b :: nat
    using digits [of "a div 0x1000" "b div 0x1000"] by (simp add: div_mult2_eq [symmetric])
  have small: "z < 0x800 \<Longrightarrow> z div 0x40 < 0x20" "z < 0x10000 \<Longrightarrow> z div 0x1000 < 0x10" for z :: nat by auto
  show ?thesis
    using assms small [of x] small [of y] digits [of x y] three [of x y] four [of x y]
    unfolding utf8_char_def by (simp split: if_splits)
qed

lemma utf8_chars_inject:
  "list_all (\<lambda>c. c < 0x110000) xs \<Longrightarrow> list_all (\<lambda>c. c < 0x110000) ys \<Longrightarrow>
     concat (map utf8_char xs) = concat (map utf8_char ys) \<Longrightarrow> xs = ys"
proof (induction xs ys rule: list_induct2')
  case (4 x xs y ys)
  then have "x = y \<and> concat (map utf8_char xs) = concat (map utf8_char ys)"
    by (intro utf8_char_uniquely) simp_all
  with 4 show ?case by simp
qed (auto simp: utf8_char_def split: if_splits)

lemma utf8_char_byte: "c < 0x110000 \<Longrightarrow> b \<in> set (utf8_char c) \<Longrightarrow> b < 256"
  by (auto simp: utf8_char_def split: if_splits)

lemma as_bytes_inject:
  assumes "list_all (\<lambda>c. c < 0x110000) xs" and "list_all (\<lambda>c. c < 0x110000) ys" and "as_bytes xs = as_bytes ys"
  shows "xs = ys"
proof -
  have bytes: "map unat (as_bytes zs) = concat (map utf8_char zs)" if "list_all (\<lambda>c. c < 0x110000) zs" for zs
  proof -
    have "b mod 256 = b" if "b \<in> set (concat (map utf8_char zs))" for b
      using that \<open>list_all (\<lambda>c. c < 0x110000) zs\<close> utf8_char_byte by (auto simp: list_all_iff intro!: mod_less)
    then have "map (\<lambda>b. b mod 256) (concat (map utf8_char zs)) = concat (map utf8_char zs)" by (rule map_idI)
    moreover have "map unat (as_bytes zs) = map (\<lambda>b. b mod 256) (concat (map utf8_char zs))"
      by (simp add: as_bytes_def unat_of_nat comp_def del: map_concat)
    ultimately show ?thesis by (simp only:)
  qed
  from arg_cong [OF assms(3), of "map unat"] have "concat (map utf8_char xs) = concat (map utf8_char ys)"
    by (simp only: bytes [OF assms(1)] bytes [OF assms(2)])
  with assms(1,2) show ?thesis by (rule utf8_chars_inject)
qed

definition text_ok :: "ustr \<Rightarrow> bool" where
  "text_ok s \<longleftrightarrow> list_all (\<lambda>c. c < 0x110000) s \<and> value_ok (as_bytes s)"

interpretation string_code: prefix_code write_string text_ok "\<lambda>s. s"
proof
  fix x y s t
  assume "text_ok x" "text_ok y" "write_string x @ s = write_string y @ t"
  with value_code.uniquely [of "as_bytes x" "as_bytes y" s t] as_bytes_inject [of x y]
  show "x = y \<and> s = t" by (simp add: write_string_def text_ok_def)
qed

definition optional_ok :: "ustr option \<Rightarrow> bool" where
  "optional_ok s \<longleftrightarrow> (case s of None \<Rightarrow> True | Some v \<Rightarrow> text_ok v)"

interpretation optional_code: prefix_code write_optional_string optional_ok "\<lambda>s. s"
proof
  fix x y s t
  assume "optional_ok x" "optional_ok y" "write_optional_string x @ s = write_optional_string y @ t"
  then show "x = y \<and> s = t"
    by (cases x; cases y) (auto simp: optional_ok_def write_optional_string_def dest: string_code.uniquely)
qed

definition instant_ok :: "instant \<Rightarrow> bool" where
  "instant_ok t \<longleftrightarrow> in_i64 (as_second t)"

interpretation instant_code: prefix_code write_timestamp instant_ok "\<lambda>t. t"
proof
  fix x y s t
  assume ok: "instant_ok x" "instant_ok y" and "write_timestamp x @ s = write_timestamp y @ t"
  then have e: "i64_bytes (as_second x) = i64_bytes (as_second y)"
    "i32_bytes (x - seconds (as_second x)) = i32_bytes (y - seconds (as_second y))" "s = t"
    by (simp_all add: write_timestamp_def)
  have nanos: "- (2 ^ 31) \<le> z - seconds (as_second z) \<and> z - seconds (as_second z) < 2 ^ 31" for z
  proof -
    have big: "- (2 ^ 31) \<le> (- 1000000000 :: int)" "1000000000 \<le> (2 ^ 31 :: int)" by simp_all
    have m: "0 \<le> w mod 1000000000" "w mod 1000000000 < 1000000000" for w :: int by simp_all
    show ?thesis
    proof (cases "0 \<le> z")
      case True
      then have "z - seconds (as_second z) = z mod 1000000000"
        by (simp add: as_second_def minus_div_mult_eq_mod)
      with m [of z] big show ?thesis by (intro conjI) linarith+
    next
      case False
      then have "z - seconds (as_second z) = - ((- z) mod 1000000000)"
        using minus_div_mult_eq_mod [of "- z" 1000000000] by (simp add: as_second_def)
      with m [of "- z"] big show ?thesis by (intro conjI) linarith+
    qed
  qed
  have "as_second x = as_second y" using i64_inject e(1) ok by (simp add: instant_ok_def)
  moreover have "x - seconds (as_second x) = y - seconds (as_second y)"
    using i32_inject [OF _ _ _ _ e(2)] nanos by blast
  ultimately show "x = y \<and> s = t" using e(3) by simp
qed

subsection \<open>Declarations and items\<close>

text \<open>A declaration shows the name of its author, not whether it is a display name.\<close>

definition declaration_identity :: "copyright_declaration \<Rightarrow> copyright_declaration" where
  "declaration_identity d = d\<lparr>declared_author := Author_Username (copyright_author_name (declared_author d))\<rparr>"

definition declaration_ok :: "copyright_declaration \<Rightarrow> bool" where
  "declaration_ok d \<longleftrightarrow> in_i16 (declared_year d) \<and> text_ok (copyright_author_name (declared_author d))"

lemma license_token_ok: "text_ok (license_token l)"
  by (cases l) (simp_all add: text_ok_def value_ok_def as_bytes_def utf8_char_def)

lemma license_token_inject: "license_token l = license_token l' \<Longrightarrow> l = l'"
  by (cases l; cases l'; simp)

lemma declaration_identity_eq_iff:
  "declaration_identity d = declaration_identity e \<longleftrightarrow> declared_year d = declared_year e \<and>
     copyright_author_name (declared_author d) = copyright_author_name (declared_author e) \<and>
     declared_license d = declared_license e"
  by (cases d; cases e) (auto simp: declaration_identity_def)

interpretation declaration_code: prefix_code write_declaration_identity declaration_ok declaration_identity
proof
  fix x y s t
  assume ok: "declaration_ok x" "declaration_ok y"
    and eq: "write_declaration_identity x @ s = write_declaration_identity y @ t"
  have year: "value_ok (i16_bytes i)" for i by (simp add: value_ok_def)
  note texts = license_token_ok [of "declared_license x"] license_token_ok [of "declared_license y"]
  from eq value_code.uniquely [OF year year] have 1: "i16_bytes (declared_year x) = i16_bytes (declared_year y)"
    and r1: "write_bytes (as_bytes (copyright_author_name (declared_author x))) @ write_bytes (as_bytes (license_token (declared_license x))) @ s =
      write_bytes (as_bytes (copyright_author_name (declared_author y))) @ write_bytes (as_bytes (license_token (declared_license y))) @ t"
    unfolding write_declaration_identity_def append_assoc by blast+
  from string_code.uniquely [OF _ _ r1 [folded write_string_def]] ok
  have 2: "copyright_author_name (declared_author x) = copyright_author_name (declared_author y)"
    and r2: "write_string (license_token (declared_license x)) @ s = write_string (license_token (declared_license y)) @ t"
    by (simp_all add: declaration_ok_def write_string_def)
  from string_code.uniquely [OF texts r2] have 3: "declared_license x = declared_license y" and "s = t"
    by (auto dest: license_token_inject)
  have "declared_year x = declared_year y" using i16_inject [OF _ _ 1] ok by (simp add: declaration_ok_def)
  with 2 3 \<open>s = t\<close> show "declaration_identity x = declaration_identity y \<and> s = t"
    by (simp add: declaration_identity_eq_iff)
qed

definition item_identity :: "feed_item \<Rightarrow> feed_item" where
  "item_identity i = i\<lparr>item_declaration := declaration_identity (item_declaration i)\<rparr>"

definition item_ok :: "feed_item \<Rightarrow> bool" where
  "item_ok i \<longleftrightarrow> in_i64 (item_id i) \<and> declaration_ok (item_declaration i) \<and> optional_ok (item_rendered_title i) \<and>
     optional_ok (item_visible_title i) \<and> text_ok (item_permalink i) \<and> optional_ok (item_summary i) \<and>
     text_ok (item_content_html i) \<and> instant_ok (item_published_at i) \<and> instant_ok (item_updated_at i) \<and>
     in_i64 (int (length (item_tags i))) \<and> list_all text_ok (item_tags i)"

lemma count_uniquely:
  assumes "in_i64 i" and "in_i64 j" and "write_bytes (i64_bytes i) @ s = write_bytes (i64_bytes j) @ t"
  shows "i = j" and "s = t"
proof -
  have "value_ok (i64_bytes k)" for k by (simp add: value_ok_def)
  from value_code.uniquely [OF this this assms(3)] show "i = j" "s = t"
    using i64_inject [OF assms(1,2)] by blast+
qed

interpretation item_code: prefix_code item_bytes item_ok item_identity
proof
  fix x y s t
  assume ok: "item_ok x" "item_ok y" and eq: "item_bytes x @ s = item_bytes y @ t"
  note ok = ok [unfolded item_ok_def]
  note eq = eq [unfolded item_bytes_def append_assoc]
  from ok have "in_i64 (item_id x)" "in_i64 (item_id y)" by simp_all
  note 1 = count_uniquely [OF this eq]
  from ok have "declaration_ok (item_declaration x)" "declaration_ok (item_declaration y)" by simp_all
  note 2 = declaration_code.uniquely [OF this 1(2)]
  from ok have "optional_ok (item_rendered_title x)" "optional_ok (item_rendered_title y)" by simp_all
  note 3 = optional_code.uniquely [OF this 2 [THEN conjunct2]]
  from ok have "optional_ok (item_visible_title x)" "optional_ok (item_visible_title y)" by simp_all
  note 4 = optional_code.uniquely [OF this 3 [THEN conjunct2]]
  from ok have "text_ok (item_permalink x)" "text_ok (item_permalink y)" by simp_all
  note 5 = string_code.uniquely [OF this 4 [THEN conjunct2]]
  from ok have "optional_ok (item_summary x)" "optional_ok (item_summary y)" by simp_all
  note 6 = optional_code.uniquely [OF this 5 [THEN conjunct2]]
  from ok have "text_ok (item_content_html x)" "text_ok (item_content_html y)" by simp_all
  note 7 = string_code.uniquely [OF this 6 [THEN conjunct2]]
  from ok have "instant_ok (item_published_at x)" "instant_ok (item_published_at y)" by simp_all
  note 8 = instant_code.uniquely [OF this 7 [THEN conjunct2]]
  from ok have "instant_ok (item_updated_at x)" "instant_ok (item_updated_at y)" by simp_all
  note 9 = instant_code.uniquely [OF this 8 [THEN conjunct2]]
  from ok have "in_i64 (int (length (item_tags x)))" "in_i64 (int (length (item_tags y)))" by simp_all
  note 10 = count_uniquely [OF this 9 [THEN conjunct2]]
  from ok 10(1) have "list_all text_ok (item_tags x)" "list_all text_ok (item_tags y)"
    "length (item_tags x) = length (item_tags y)" by simp_all
  note 11 = string_code.uniquely_list [OF this 10(2)]
  from 1(1) 2 3 4 5 6 7 8 9 11 show "item_identity x = item_identity y \<and> s = t"
    unfolding item_identity_def by (intro conjI feed_item.equality) simp_all
qed

definition metadata_ok :: "feed_metadata \<Rightarrow> bool" where
  "metadata_ok m \<longleftrightarrow> text_ok (meta_title m) \<and> optional_ok (meta_description m) \<and> text_ok (meta_canonical_url m) \<and>
     text_ok (meta_self_url m) \<and> optional_ok (meta_hub_url m)"

lemma feed_ext_inject: "as_bytes (feed_ext f) = as_bytes (feed_ext g) \<Longrightarrow> f = g"
  by (cases f; cases g; simp add: as_bytes_def utf8_char_def)

text \<open>
  C11: the semantic fingerprint leaves nothing out. What is hashed determines the format, everything
  the feed says of itself except when it was last modified, and every item with its order, its rights
  and its tags: two renderings with the same hashed bytes show the same feed, so a cached row is kept
  only for a rendering that shows nothing new.
\<close>

theorem fingerprint_preimage_injective:
  assumes "metadata_ok m" and "metadata_ok m'" and "list_all item_ok items" and "list_all item_ok items'"
    and "in_i64 (int (length items))" and "in_i64 (int (length items'))"
    and "fingerprint_preimage f m items = fingerprint_preimage f' m' items'"
  shows "f = f' \<and> m\<lparr>meta_representation_modified_at := 0\<rparr> = m'\<lparr>meta_representation_modified_at := 0\<rparr> \<and>
    map item_identity items = map item_identity items'"
proof -
  have fixed: "value_ok (as_bytes (feed_ext g))" "value_ok (i16_bytes i)" for g i
    by (cases g; simp add: value_ok_def as_bytes_def utf8_char_def)+
  note ok = assms(1,2) [unfolded metadata_ok_def]
  from assms(7) have "write_bytes (as_bytes (feed_ext f)) @ write_bytes (i16_bytes (serializer_revision f)) @
      write_string (meta_title m) @ write_optional_string (meta_description m) @ write_string (meta_canonical_url m) @
      write_string (meta_self_url m) @ write_optional_string (meta_hub_url m) @
      write_bytes (i64_bytes (int (length items))) @ concat (map item_bytes items) @ [] =
    write_bytes (as_bytes (feed_ext f')) @ write_bytes (i16_bytes (serializer_revision f')) @
      write_string (meta_title m') @ write_optional_string (meta_description m') @ write_string (meta_canonical_url m') @
      write_string (meta_self_url m') @ write_optional_string (meta_hub_url m') @
      write_bytes (i64_bytes (int (length items'))) @ concat (map item_bytes items') @ []"
    unfolding fingerprint_preimage_def by (simp only: append_same_eq append_assoc same_append_eq append_Nil2)
  note 0 = value_code.uniquely [OF fixed(1,1) this]
  note 1 = value_code.uniquely [OF fixed(2,2) 0 [THEN conjunct2]]
  from ok have "text_ok (meta_title m)" "text_ok (meta_title m')" by simp_all
  note 2 = string_code.uniquely [OF this 1 [THEN conjunct2]]
  from ok have "optional_ok (meta_description m)" "optional_ok (meta_description m')" by simp_all
  note 3 = optional_code.uniquely [OF this 2 [THEN conjunct2]]
  from ok have "text_ok (meta_canonical_url m)" "text_ok (meta_canonical_url m')" by simp_all
  note 4 = string_code.uniquely [OF this 3 [THEN conjunct2]]
  from ok have "text_ok (meta_self_url m)" "text_ok (meta_self_url m')" by simp_all
  note 5 = string_code.uniquely [OF this 4 [THEN conjunct2]]
  from ok have "optional_ok (meta_hub_url m)" "optional_ok (meta_hub_url m')" by simp_all
  note 6 = optional_code.uniquely [OF this 5 [THEN conjunct2]]
  note 7 = count_uniquely [OF assms(5,6) 6 [THEN conjunct2]]
  from 7(1) have "length items = length items'" by simp
  note 8 = item_code.uniquely_list [OF assms(3,4) this 7(2)]
  from 0 have "f = f'" using feed_ext_inject by blast
  with 2 3 4 5 6 8 show ?thesis by (intro conjI feed_metadata.equality) simp_all
qed

definition example_item :: feed_item where
  "example_item = \<lparr>item_id = 7, item_declaration = \<lparr>declared_year = 2026,
     declared_author = Author_Username (lit ''ada''), declared_license = CcBy4_0\<rparr>,
     item_rendered_title = None, item_visible_title = None, item_permalink = lit ''/p'', item_summary = None,
     item_content_html = lit ''<p>'', item_published_at = 2, item_updated_at = 2, item_tags = [lit ''bees'']\<rparr>"

lemma fingerprint_preimage_injective_witness:
  "fingerprint_preimage Rss \<lparr>meta_title = lit ''T'', meta_description = None, meta_canonical_url = lit ''/'',
       meta_self_url = lit ''/feed.rss'', meta_hub_url = None, meta_representation_modified_at = 0\<rparr> [example_item] \<noteq>
   fingerprint_preimage Rss \<lparr>meta_title = lit ''T'', meta_description = None, meta_canonical_url = lit ''/'',
       meta_self_url = lit ''/feed.rss'', meta_hub_url = None, meta_representation_modified_at = 0\<rparr>
     [example_item\<lparr>item_tags := []\<rparr>]"
proof
  let ?m = "\<lparr>meta_title = lit ''T'', meta_description = None, meta_canonical_url = lit ''/'',
       meta_self_url = lit ''/feed.rss'', meta_hub_url = None, meta_representation_modified_at = 0\<rparr>"
  assume eq: "fingerprint_preimage Rss ?m [example_item] = fingerprint_preimage Rss ?m [example_item\<lparr>item_tags := []\<rparr>]"
  have m: "metadata_ok ?m" by (simp add: metadata_ok_def text_ok_def optional_ok_def value_ok_def as_bytes_def utf8_char_def)
  have i: "list_all item_ok [example_item]" "list_all item_ok [example_item\<lparr>item_tags := []\<rparr>]"
    by (simp_all add: example_item_def item_ok_def declaration_ok_def text_ok_def optional_ok_def value_ok_def
        as_bytes_def utf8_char_def in_i64_def in_i16_def instant_ok_def as_second_def)
  have "in_i64 (int (length [example_item]))" "in_i64 (int (length [example_item\<lparr>item_tags := []\<rparr>]))"
    by (simp_all add: in_i64_def)
  from fingerprint_preimage_injective [OF m m i this eq] show False
    by (simp add: item_identity_def example_item_def)
qed

end
