(* ===== verification/Feed_Render.thy ===== *)
theory Feed_Render
  imports Feed_Identity Publisher
begin

section \<open>Rendering a feed\<close>

text \<open>
  \<^verbatim>\<open>server/src/feed/regenerate.rs\<close> and the three serializers of
  \<^verbatim>\<open>host/src/feed\<close>. A serializer builds the document of its library, whose text is a
  parameter, as are the URL joiner, the percent encoding, the two readers of rendered HTML, the texts
  of instants and SHA-256.
\<close>

subsection \<open>Documents\<close>

record rss_item =
  rss_title :: "ustr option"
  rss_link :: ustr
  rss_description :: ustr
  rss_pub_date :: ustr
  rss_guid :: ustr
  rss_rights :: ustr
  rss_license :: "ustr option"

record document_link =
  link_href :: ustr
  link_rel :: ustr
  link_mime :: "ustr option"

record rss_channel =
  channel_title :: ustr
  channel_link :: ustr
  channel_description :: ustr
  channel_last_build_date :: ustr
  channel_links :: "document_link list"
  channel_items :: "rss_item list"
  channel_creative_commons :: bool

record atom_entry =
  entry_updated :: instant
  entry_published :: instant
  entry_id :: ustr
  entry_title :: ustr
  entry_links :: "document_link list"
  entry_rights :: ustr
  entry_content :: ustr
  entry_categories :: "ustr list"
  entry_summary :: "ustr option"

record atom_feed =
  atom_updated :: instant
  atom_title :: ustr
  atom_id :: ustr
  atom_subtitle :: "ustr option"
  atom_links :: "document_link list"
  atom_entries :: "atom_entry list"

datatype json = JNull | JString ustr | JArray "json list" | JObject "(ustr \<times> json) list"

record render_env =
  join_url :: "ustr \<Rightarrow> ustr \<Rightarrow> ustr"
  url_encode :: "ustr \<Rightarrow> ustr"
  title_visible_text :: "ustr \<Rightarrow> ustr"
  summarize_html :: "ustr \<Rightarrow> ustr option"
  sha256_hex :: "bytes \<Rightarrow> ustr"
  rfc2822 :: "instant \<Rightarrow> ustr"
  instant_text :: "instant \<Rightarrow> ustr"
  atom_reads :: "instant \<Rightarrow> bool"
  rss_text :: "rss_channel \<Rightarrow> ustr"
  atom_text :: "atom_feed \<Rightarrow> ustr"
  json_text :: "json \<Rightarrow> ustr"

subsection \<open>RSS\<close>

definition rss_item_of :: "render_env \<Rightarrow> feed_item \<Rightarrow> rss_item" where
  "rss_item_of E i = \<lparr>rss_title = item_visible_title i, rss_link = item_permalink i,
     rss_description = item_content_html i, rss_pub_date = rfc2822 E (item_published_at i),
     rss_guid = item_permalink i, rss_rights = declaration_text (item_declaration i),
     rss_license = license_canonical_url (declared_license (item_declaration i))\<rparr>"

definition hub_link :: "ustr option \<Rightarrow> document_link list" where
  "hub_link hub = (case hub of None \<Rightarrow> [] | Some h \<Rightarrow> [\<lparr>link_href = h, link_rel = lit ''hub'', link_mime = None\<rparr>])"

definition rss_channel_of :: "render_env \<Rightarrow> feed_metadata \<Rightarrow> feed_item list \<Rightarrow> rss_channel" where
  "rss_channel_of E m items = \<lparr>channel_title = meta_title m, channel_link = meta_canonical_url m,
     channel_description = (case meta_description m of None \<Rightarrow> [] | Some d \<Rightarrow> d),
     channel_last_build_date = rfc2822 E (meta_representation_modified_at m),
     channel_links = \<lparr>link_href = meta_self_url m, link_rel = lit ''self'',
       link_mime = Some (lit ''application/rss+xml'')\<rparr> # hub_link (meta_hub_url m),
     channel_items = map (rss_item_of E) items,
     channel_creative_commons =
       list_ex (\<lambda>i. license_canonical_url (declared_license (item_declaration i)) \<noteq> None) items\<rparr>"

definition render_rss :: "render_env \<Rightarrow> feed_metadata \<Rightarrow> feed_item list \<Rightarrow> representation" where
  "render_rss E m items = Rss_Body (rss_text E (rss_channel_of E m items))"

subsection \<open>Atom\<close>

definition atom_entry_of :: "render_env \<Rightarrow> feed_item \<Rightarrow> atom_entry option" where
  "atom_entry_of E i =
     (if atom_reads E (item_updated_at i) \<and> atom_reads E (item_published_at i)
      then Some \<lparr>entry_updated = item_updated_at i, entry_published = item_published_at i,
        entry_id = item_permalink i,
        entry_title = (case item_rendered_title i of None \<Rightarrow> [] | Some t \<Rightarrow> t),
        entry_links = \<lparr>link_href = item_permalink i, link_rel = lit ''alternate'', link_mime = None\<rparr> #
          (case license_canonical_url (declared_license (item_declaration i)) of None \<Rightarrow> []
           | Some url \<Rightarrow> [\<lparr>link_href = url, link_rel = lit ''license'', link_mime = Some (lit ''text/html'')\<rparr>]),
        entry_rights = declaration_text (item_declaration i), entry_content = item_content_html i,
        entry_categories = item_tags i, entry_summary = item_summary i\<rparr>
      else None)"

definition atom_feed_of :: "render_env \<Rightarrow> feed_metadata \<Rightarrow> feed_item list \<Rightarrow> atom_feed option" where
  "atom_feed_of E m items =
     Option.bind (those (map (atom_entry_of E) items)) (\<lambda>entries.
     if \<not> atom_reads E (meta_representation_modified_at m) then None
     else Some \<lparr>atom_updated = meta_representation_modified_at m, atom_title = meta_title m,
       atom_id = meta_self_url m, atom_subtitle = meta_description m,
       atom_links = [\<lparr>link_href = meta_canonical_url m, link_rel = lit ''alternate'', link_mime = None\<rparr>,
         \<lparr>link_href = meta_self_url m, link_rel = lit ''self'', link_mime = None\<rparr>] @ hub_link (meta_hub_url m),
       atom_entries = entries\<rparr>)"

definition render_atom :: "render_env \<Rightarrow> feed_metadata \<Rightarrow> feed_item list \<Rightarrow> representation option" where
  "render_atom E m items = map_option (\<lambda>feed. Atom_Body (atom_text E feed)) (atom_feed_of E m items)"

subsection \<open>JSON Feed\<close>

definition opt_member :: "string \<Rightarrow> ustr option \<Rightarrow> (ustr \<times> json) list" where
  "opt_member name value = (case value of None \<Rightarrow> [] | Some v \<Rightarrow> [(lit name, JString v)])"

definition json_license :: "content_license \<Rightarrow> json" where
  "json_license l = (case license_spdx_id l of
       None \<Rightarrow> JNull
     | Some spdx \<Rightarrow> JObject [(lit ''spdx_id'', JString spdx),
         (lit ''url'', case license_canonical_url l of None \<Rightarrow> JNull | Some url \<Rightarrow> JString url)])"

definition json_item_of :: "render_env \<Rightarrow> feed_item \<Rightarrow> json" where
  "json_item_of E i = JObject (
     [(lit ''id'', JString (item_permalink i)), (lit ''url'', JString (item_permalink i)),
      (lit ''content_html'', JString (item_content_html i)),
      (lit ''date_published'', JString (instant_text E (item_published_at i))),
      (lit ''date_modified'', JString (instant_text E (item_updated_at i)))] @
     opt_member ''title'' (item_visible_title i) @
     opt_member ''summary'' (item_summary i) @
     (if item_tags i = [] then [] else [(lit ''tags'', JArray (map JString (item_tags i)))]) @
     [(lit ''_jaunder'', JObject [(lit ''copyright'', JString (declaration_copyright (item_declaration i))),
       (lit ''rights'', JString (license_label (declared_license (item_declaration i)))),
       (lit ''license'', json_license (declared_license (item_declaration i)))])])"

definition json_feed_of :: "render_env \<Rightarrow> feed_metadata \<Rightarrow> feed_item list \<Rightarrow> json" where
  "json_feed_of E m items = JObject (
     [(lit ''version'', JString (lit ''https://jsonfeed.org/version/1.1'')),
      (lit ''title'', JString (meta_title m)),
      (lit ''home_page_url'', JString (meta_canonical_url m)),
      (lit ''feed_url'', JString (meta_self_url m)),
      (lit ''items'', JArray (map (json_item_of E) items))] @
     opt_member ''description'' (meta_description m) @
     (case meta_hub_url m of
        None \<Rightarrow> []
      | Some hub \<Rightarrow> [(lit ''hubs'', JArray [JObject [(lit ''type'', JString (lit ''WebSub'')), (lit ''url'', JString hub)]])]))"

definition render_json :: "render_env \<Rightarrow> feed_metadata \<Rightarrow> feed_item list \<Rightarrow> representation" where
  "render_json E m items = Json_Body (json_text E (json_feed_of E m items))"

subsection \<open>The items of a feed\<close>

definition feed_item_of :: "render_env \<Rightarrow> calendar \<Rightarrow> ustr \<Rightarrow> public_post \<Rightarrow> feed_item" where
  "feed_item_of E C base = (\<lambda>(post, license).
     (let s = record_state post
      in \<lparr>item_id = post_id s,
         item_declaration = declaration_for_post C (post_created_at s) (record_display_name post)
           (record_username post) license,
         item_rendered_title = post_rendered_title s,
         item_visible_title = (case map_option (title_visible_text E) (post_rendered_title s) of
           None \<Rightarrow> None | Some t \<Rightarrow> if t = [] then None else Some t),
         item_permalink = join_url E base (record_permalink C post),
         item_summary = (case post_summary s of None \<Rightarrow> summarize_html E (post_rendered_html s) | Some t \<Rightarrow> Some t),
         item_content_html = post_rendered_html s,
         item_published_at = (case post_published_at s of None \<Rightarrow> post_created_at s | Some t \<Rightarrow> t),
         item_updated_at = post_updated_at s,
         item_tags = map post_tag_display (record_tags post)\<rparr>))"

fun canonical_page :: "render_env \<Rightarrow> feed_surface \<Rightarrow> ustr" where
  "canonical_page E Site = lit ''/''"
| "canonical_page E (SiteTag tag) = lit ''/tags/'' @ url_encode E tag @ lit ''/''"
| "canonical_page E (User u) = lit ''/~'' @ u @ lit ''/''"
| "canonical_page E (UserTag u tag) = lit ''/~'' @ u @ lit ''/tags/'' @ url_encode E tag @ lit ''/''"

definition feed_metadata_of :: "render_env \<Rightarrow> publisher_snapshot \<Rightarrow> ustr \<Rightarrow> ustr \<Rightarrow> feed_surface \<Rightarrow> instant \<Rightarrow>
    feed_metadata" where
  "feed_metadata_of E snapshot base path surface modified_at =
     \<lparr>meta_title = title_for_surface (identity_title (snapshot_identity snapshot)) surface,
      meta_description = description_for_surface (identity_tagline (snapshot_identity snapshot)) surface,
      meta_canonical_url = join_url E base (canonical_page E surface),
      meta_self_url = join_url E base path,
      meta_hub_url = feeds_websub_hub_url (snapshot_feeds snapshot),
      meta_representation_modified_at = modified_at\<rparr>"

subsection \<open>Regeneration\<close>

datatype regenerate_error =
    BadUrl ustr
  | BaseUrlRequired
  | Render_Storage sql_error
  | Render_Publisher

definition render_body :: "render_env \<Rightarrow> feed_format \<Rightarrow> feed_metadata \<Rightarrow> feed_item list \<Rightarrow> representation option" where
  "render_body E format m items =
     (case format of
        Rss \<Rightarrow> Some (render_rss E m items)
      | Atom \<Rightarrow> render_atom E m items
      | Json \<Rightarrow> Some (render_json E m items))"

definition snapshot_window :: "publisher_snapshot \<Rightarrow> hybrid_window" where
  "snapshot_window snapshot = \<lparr>window_min_items = feeds_min_items (snapshot_feeds snapshot),
     window_min_days = feeds_min_days (snapshot_feeds snapshot)\<rparr>"

definition render_row :: "render_env \<Rightarrow> calendar \<Rightarrow> publisher_snapshot \<Rightarrow> ustr \<Rightarrow> feed_surface \<Rightarrow> feed_format \<Rightarrow>
    instant \<Rightarrow> public_post list \<Rightarrow> regenerate_error + feed_cache_row" where
  "render_row E C snapshot path surface format generated_at records =
     (let modified_at = whole_seconds generated_at
      in case identity_base_url (snapshot_identity snapshot) of
           None \<Rightarrow> Inl BaseUrlRequired
         | Some base \<Rightarrow>
             (let items = map (feed_item_of E C base) records;
                  m = feed_metadata_of E snapshot base path surface modified_at
              in case render_body E format m items of
                   None \<Rightarrow> Inl Render_Publisher
                 | Some body \<Rightarrow>
                     (let fingerprint = feed_semantic_fingerprint (sha256_hex E) format m items
                      in case feed_cache_row_new path body (feed_etag (sha256_hex E) fingerprint modified_at)
                          modified_at generated_at fingerprint of
                           Inl _ \<Rightarrow> Inl (BadUrl path)
                         | Inr row \<Rightarrow> Inr row)))"

definition render :: "render_env \<Rightarrow> calendar \<Rightarrow> timestamp_range \<Rightarrow> publisher_snapshot \<Rightarrow> ustr \<Rightarrow> instant \<Rightarrow>
    (database, regenerate_error, feed_cache_row) tx" where
  "render E C b snapshot path generated_at =
     (case parse_feed_path path of
        None \<Rightarrow> tx_throw (BadUrl path)
      | Some (surface, format) \<Rightarrow>
          tx_bind (tx_map_err Render_Storage
            (list_published_in_window b surface (snapshot_window snapshot) generated_at Anonymous)) (\<lambda>records.
          tx_of_result (render_row E C snapshot path surface format generated_at records)))"

subsection \<open>What a feed shows\<close>

lemma render_body_format: "render_body E f m items = Some body \<Longrightarrow> representation_format body = f"
  by (cases f) (auto simp: render_body_def render_rss_def render_atom_def render_json_def)

lemma render_row_Inr:
  assumes "render_row E C snapshot path s f now records = Inr row"
  obtains base items m where "identity_base_url (snapshot_identity snapshot) = Some base"
    "items = map (feed_item_of E C base) records"
    "m = feed_metadata_of E snapshot base path s (whole_seconds now)"
    "row_feed_path row = path" "row_generated_at row = now"
    "render_body E f m items = Some (row_representation row)"
    "row_semantic_fingerprint row = feed_semantic_fingerprint (sha256_hex E) f m items"
  using assms
  by (auto simp: render_row_def Let_def feed_cache_row_new_def split: option.splits sum.splits if_splits)

lemma surface_source_on: "p \<in> set (surface_source s d) \<Longrightarrow> p \<in> set (posts d) \<and> on_surface d s p"
proof (cases s)
  case (SiteTag tag)
  assume "p \<in> set (surface_source s d)"
  with SiteTag show ?thesis by (auto simp: tagged_posts_def post_slugs_def)
next
  case (UserTag u tag)
  assume "p \<in> set (surface_source s d)"
  with UserTag show ?thesis by (auto simp: tagged_posts_def post_slugs_def)
qed simp_all

lemma readable_anonymous: "readable Anonymous d p \<longleftrightarrow> Public \<in> targets_of (post_id p) d"
proof -
  have "admits Anonymous d author t \<longleftrightarrow> t = Public" for author t
    by (cases t) (auto simp: subscribed_to_def)
  then show ?thesis by (simp add: readable_def resolves_iff)
qed

lemma window_rows_public:
  assumes "p \<in> set (window_rows s now cutoff m Anonymous d)" and "distinct (map post_id (posts d))"
  shows "p \<in> set (posts d) \<and> publicly_live now d p \<and> on_surface d s p"
proof -
  from assms(1) obtain rn r where "(rn, r) \<in> set (enumerate 1 (sort_key newest_key
      (filter (\<lambda>p. live_at now p \<and> readable Anonymous d p) (surface_source s d))))"
    and p: "p \<in> set (authored_posts d)" "post_id p = post_id r"
    unfolding window_rows_def Let_def by auto
  then have "r \<in> set (sort_key newest_key (filter (\<lambda>p. live_at now p \<and> readable Anonymous d p) (surface_source s d)))"
    by (metis enumerate_eq_zip set_zip_rightD)
  then have r: "r \<in> set (posts d)" "on_surface d s r" "publicly_live now d r"
    using surface_source_on [of r s d] by (auto simp: publicly_live_def readable_anonymous)
  from p(1) have "p \<in> set (posts d)" by (simp add: authored_posts_def)
  with p(2) r(1) assms(2) have "p = r" by (auto simp: distinct_map dest: inj_onD)
  with r show ?thesis by blast
qed

lemma feed_item_of_public:
  assumes "decode_public d p = Some (Inr rec)"
  shows "item_id (feed_item_of E C base rec) = post_id p"
    and "item_content_html (feed_item_of E C base rec) = post_rendered_html p"
  using decode_public_state [of d p "fst rec" "snd rec"] assms
  by (simp_all add: feed_item_of_def Let_def split_beta' post_state.defs)

text \<open>
  C9: a feed leaks nothing. Whatever the configuration, the surface and the state of the store, a row
  that is rendered is addressed to the requested path, its body and its fingerprint are those of one
  list of items, and every item is a post that is live at the instant of the rendering, public, and on
  the surface of the feed.
\<close>

theorem rendered_feed_is_public:
  assumes "render E C b snapshot path now c = (Inr row, c')" and "distinct (map post_id (posts (committed c)))"
  shows "\<exists>s f m items. parse_feed_path path = Some (s, f) \<and> row_feed_path row = path \<and>
    render_body E f m items = Some (row_representation row) \<and>
    row_semantic_fingerprint row = feed_semantic_fingerprint (sha256_hex E) f m items \<and>
    (\<forall>i \<in> set items. \<exists>p \<in> set (posts (committed c)). item_id i = post_id p \<and>
       item_content_html i = post_rendered_html p \<and> publicly_live now (committed c) p \<and> on_surface (committed c) s p)"
proof -
  from assms(1) obtain s f where path: "parse_feed_path path = Some (s, f)"
    by (cases "parse_feed_path path") (auto simp: render_def tx_simps)
  with assms(1) obtain records c1 where
    query: "list_published_in_window b s (snapshot_window snapshot) now Anonymous c = (Inr records, c1)"
    and row: "render_row E C snapshot path s f now records = Inr row"
    by (auto simp: render_def tx_bind_ok_iff tx_map_err_ok_iff tx_of_result_apply)
  from render_row_Inr [OF row] obtain base items m where
    items: "items = map (feed_item_of E C base) records" and shown: "row_feed_path row = path"
    "render_body E f m items = Some (row_representation row)"
    "row_semantic_fingerprint row = feed_semantic_fingerprint (sha256_hex E) f m items" by metis
  have "\<exists>p \<in> set (posts (committed c)). item_id i = post_id p \<and> item_content_html i = post_rendered_html p \<and>
      publicly_live now (committed c) p \<and> on_surface (committed c) s p" if i: "i \<in> set items" for i
  proof -
    from i items obtain rec where rec: "rec \<in> set records" "i = feed_item_of E C base rec" by auto
    from fetch_rows_okD(2) [OF query [unfolded list_published_in_window_def list_published_in_window_rows_def]] rec(1)
    obtain p where p: "p \<in> set (window_rows s now (cutoff_date b (snapshot_window snapshot) now)
        (window_min_items (snapshot_window snapshot)) Anonymous (committed c))"
      "decode_public (committed c) p = Some (Inr rec)" by blast
    from window_rows_public [OF p(1) assms(2)] feed_item_of_public [OF p(2)] rec(2) show ?thesis
      by (intro bexI [of _ p]) auto
  qed
  with path shown show ?thesis by blast
qed

lemma those_map_Some: "those (map (\<lambda>x. Some (f x)) xs) = Some (map f xs)"
  by (induction xs) simp_all

lemma render_body_total:
  assumes "\<forall>t. atom_reads E t"
  shows "\<exists>body. render_body E f m items = Some body"
proof -
  have "atom_entry_of E = (\<lambda>i. Some (the (atom_entry_of E i)))" using assms by (intro ext) (simp add: atom_entry_of_def)
  then have "\<exists>es. those (map (atom_entry_of E) items) = Some es" by (metis those_map_Some)
  with assms have "\<exists>feed. atom_feed_of E m items = Some feed" by (auto simp: atom_feed_of_def)
  then show ?thesis by (cases f) (auto simp: render_body_def render_atom_def)
qed

lemma render_on_reader:
  assumes "listing_ok d" and "authors_known d" and "1 \<le> feeds_min_items (snapshot_feeds snapshot)"
    and "parse_feed_path path = Some (s, f)" and "identity_base_url (snapshot_identity snapshot) = Some base"
    and "\<forall>t. atom_reads E t"
  shows "\<exists>row. render E C b snapshot path now (reader db d) = (Inr row, reader db d) \<and>
    render_body E f (feed_metadata_of E snapshot base path s (whole_seconds now))
      (map (\<lambda>p. feed_item_of E C base (public_record d p))
        (window_select b (snapshot_window snapshot) now published_instant (surface_posts s Anonymous now d))) =
      Some (row_representation row)"
proof -
  let ?posts = "window_select b (snapshot_window snapshot) now published_instant (surface_posts s Anonymous now d)"
  let ?m = "feed_metadata_of E snapshot base path s (whole_seconds now)"
  have "1 \<le> window_min_items (snapshot_window snapshot)" using assms(3) by (simp add: snapshot_window_def)
  from fetch_window [OF assms(1,2) this, of b s now Anonymous db]
  have query: "list_published_in_window b s (snapshot_window snapshot) now Anonymous (reader db d) =
    (Inr (map (public_record d) ?posts), reader db d)" .
  from render_body_total [OF assms(6)] obtain body where
    body: "render_body E f ?m (map (\<lambda>p. feed_item_of E C base (public_record d p)) ?posts) = Some body" by blast
  with render_body_format have "representation_format body = f" by blast
  then obtain row where "render_row E C snapshot path s f now (map (public_record d) ?posts) = Inr row"
    and "row_representation row = body"
    using body assms(4,5) by (auto simp: render_row_def Let_def feed_cache_row_new_def comp_def)
  then show ?thesis
    using body query assms(4) by (auto simp: render_def tx_bind_def tx_map_err_def tx_of_result_apply)
qed


subsection \<open>The feed of Ada's public post\<close>

definition example_render_env :: render_env where
  "example_render_env = \<lparr>join_url = (@), url_encode = id, title_visible_text = id, summarize_html = (\<lambda>_. None),
     sha256_hex = (\<lambda>_. replicate 64 48), rfc2822 = (\<lambda>_. []), instant_text = (\<lambda>_. []), atom_reads = (\<lambda>_. True),
     rss_text = channel_title, atom_text = atom_title, json_text = (\<lambda>_. [])\<rparr>"

definition example_snapshot :: publisher_snapshot where
  "example_snapshot = \<lparr>
     snapshot_feeds = \<lparr>feeds_min_items = 20, feeds_min_days = 30, feeds_websub_hub_url = None\<rparr>,
     snapshot_identity = \<lparr>identity_title = lit ''Jaunder'', identity_tagline = None,
       identity_base_url = Some (lit ''https://example.org'')\<rparr>,
     snapshot_generation = 0, snapshot_malformed_hub = None\<rparr>"

definition example_range :: timestamp_range where
  "example_range = \<lparr>ts_min = - seconds 100000000, ts_max = seconds 100000000\<rparr>"

lemma public_post_window:
  "window_select example_range (snapshot_window example_snapshot) 5 published_instant
     (surface_posts Site Anonymous 5 public_post) = [example_post 7 1 ''hello'' (Some 2)]"
proof -
  have "readable Anonymous public_post (example_post 7 1 ''hello'' (Some 2))"
    using public_post_live by (simp add: readable_anonymous publicly_live_def)
  then have "surface_posts Site Anonymous 5 public_post = [example_post 7 1 ''hello'' (Some 2)]"
    using public_post_live by (simp add: surface_posts_def public_post_def subscribers_post_def publicly_live_def)
  then show ?thesis by (simp add: window_select_def window_items_def snapshot_window_def example_snapshot_def)
qed

lemma example_render_good:
  "1 \<le> feeds_min_items (snapshot_feeds example_snapshot)"
  "parse_feed_path (canonicalize Site Rss) = Some (Site, Rss)"
  "identity_base_url (snapshot_identity example_snapshot) = Some (lit ''https://example.org'')"
  "\<forall>t. atom_reads example_render_env t"
  by (simp_all add: example_snapshot_def example_render_env_def parse_canonicalize del: canonicalize.simps)


lemma rendered_feed_is_public_witness:
  "\<exists>(row :: feed_cache_row) items f m. row_feed_path row = canonicalize Site Rss \<and>
     render_body example_render_env f m items = Some (row_representation row) \<and>
     (\<forall>i \<in> set items. \<exists>p \<in> set (posts public_post). item_id i = post_id p \<and> publicly_live 5 public_post p)"
proof -
  from render_on_reader [OF public_post_listing_ok public_post_ok(2) example_render_good, of example_calendar example_range 5 Sqlite]
  obtain row where run: "render example_render_env example_calendar example_range example_snapshot (canonicalize Site Rss) 5
       (reader Sqlite public_post) = (Inr row, reader Sqlite public_post)" by blast
  have "distinct (map post_id (posts (committed (reader Sqlite public_post))))"
    using public_post_listing_ok by (simp add: listing_ok_def)
  from rendered_feed_is_public [OF run this] obtain s f m items where "row_feed_path row = canonicalize Site Rss"
    "render_body example_render_env f m items = Some (row_representation row)"
    "\<forall>i \<in> set items. \<exists>p \<in> set (posts public_post). item_id i = post_id p \<and>
       item_content_html i = post_rendered_html p \<and> publicly_live 5 public_post p \<and> on_surface public_post s p"
    unfolding reader_sel by blast
  then show ?thesis by (intro exI [of _ row] exI [of _ items] exI [of _ f] exI [of _ m]) blast
qed

end
