(* ===== verification/Websub.thy ===== *)
theory Websub
  imports Site_Config
begin

section \<open>Publishing to a WebSub hub\<close>

text \<open>
  \<^verbatim>\<open>server/src/websub/contract.rs\<close>, \<^verbatim>\<open>server/src/websub/http.rs\<close> and
  \<^verbatim>\<open>server/src/websub/noop.rs\<close>. A publish request is posted to the hub; the client follows at
  most three redirects and classifies the exchange into success, a failure to retry, possibly after a
  delay the hub asks for, and a terminal failure. The HTTP library and the URL library are
  parameters: what the hub answers to the n-th request, how a location is resolved, how a fragment is
  dropped, how an HTTP date is read. The loop has no counter of its own in its type, so it is a
  partial function, and that it returns is a theorem.
\<close>

datatype retryable_error = Transport | Retryable_Http nat

datatype terminal_error =
    Terminal_Http nat
  | MissingLocation nat
  | InvalidLocation nat
  | UnsupportedLocationScheme nat
  | RedirectLoop nat
  | TooManyRedirects nat

datatype websub_error =
    Retryable retryable_error "int option"
  | Terminal terminal_error

fun retryable_text :: "retryable_error \<Rightarrow> ustr" where
  "retryable_text Transport = lit ''WebSub transport failed''"
| "retryable_text (Retryable_Http status) = lit ''hub returned retryable HTTP '' @ decimal status"

fun terminal_text :: "terminal_error \<Rightarrow> ustr" where
  "terminal_text (Terminal_Http status) = lit ''hub returned terminal HTTP '' @ decimal status"
| "terminal_text (MissingLocation status) =
     lit ''hub returned redirect HTTP '' @ decimal status @ lit '' without Location''"
| "terminal_text (InvalidLocation status) =
     lit ''hub returned redirect HTTP '' @ decimal status @ lit '' with invalid Location''"
| "terminal_text (UnsupportedLocationScheme status) =
     lit ''hub returned redirect HTTP '' @ decimal status @ lit '' with non-HTTP(S) Location''"
| "terminal_text (RedirectLoop status) =
     lit ''hub redirect loop detected after HTTP '' @ decimal status"
| "terminal_text (TooManyRedirects status) =
     lit ''hub redirect limit exceeded after HTTP '' @ decimal status"

subsection \<open>The exchange\<close>

text \<open>A response as far as the client reads it: the status and the bytes of two headers.\<close>

record hub_response =
  hub_status :: nat
  hub_location :: "nat list option"
  hub_retry_after :: "nat list option"

datatype exchange = Transport_Failure | Response hub_response

record http_client =
  hub_answer :: "nat \<Rightarrow> url \<Rightarrow> exchange"
  join_location :: "url \<Rightarrow> ustr \<Rightarrow> url option"
  without_fragment :: "url \<Rightarrow> url"
  parse_http_date :: "ustr \<Rightarrow> instant option"
  system_time :: "nat \<Rightarrow> instant"

text \<open>\<^verbatim>\<open>HeaderValue::to_str\<close>: visible ASCII and tabs only.\<close>

definition header_text :: "nat list \<Rightarrow> ustr option" where
  "header_text bytes = (if list_all (\<lambda>b. b = 9 \<or> (32 \<le> b \<and> b < 127)) bytes then Some bytes else None)"

definition is_success :: "nat \<Rightarrow> bool" where
  "is_success status \<longleftrightarrow> 200 \<le> status \<and> status < 300"

definition is_server_error :: "nat \<Rightarrow> bool" where
  "is_server_error status \<longleftrightarrow> 500 \<le> status \<and> status < 600"

text \<open>The delay is a number of seconds or a date that is still to come, and at most a day.\<close>

definition max_retry_after :: int where
  "max_retry_after = seconds (24 * 60 * 60)"

definition http_date_delay :: "http_client \<Rightarrow> instant \<Rightarrow> ustr \<Rightarrow> int option" where
  "http_date_delay C now value =
     (case parse_http_date C value of
        None \<Rightarrow> None
      | Some at \<Rightarrow> if now \<le> at \<and> at - now \<noteq> 0 then Some (at - now) else None)"

definition retry_after :: "http_client \<Rightarrow> instant \<Rightarrow> hub_response \<Rightarrow> int option" where
  "retry_after C now r =
     Option.bind (hub_retry_after r) (\<lambda>bytes.
     Option.bind (header_text bytes) (\<lambda>value.
     Option.bind
       (case parse_unsigned 18446744073709551615 value of
          Some n \<Rightarrow> Some (seconds (int n))
        | None \<Rightarrow> http_date_delay C now value) (\<lambda>delay.
     Some (min delay max_retry_after))))"

subsection \<open>The loop\<close>

text \<open>
  One turn: what follows from the answer to the request for the current target. \<open>Inl\<close> is the
  target of the next turn, \<open>Inr\<close> the result of the exchange. The targets that were visited are a
  list here, the newest first; the code keeps a set.
\<close>

definition redirect_target :: "http_client \<Rightarrow> url list \<Rightarrow> url \<Rightarrow> nat \<Rightarrow> hub_response \<Rightarrow> terminal_error + url" where
  "redirect_target C visited target redirects r =
     (if redirects = 3 then Inl (TooManyRedirects (hub_status r))
      else
        (case hub_location r of
           None \<Rightarrow> Inl (MissingLocation (hub_status r))
         | Some bytes \<Rightarrow>
             (case header_text bytes of
                None \<Rightarrow> Inl (InvalidLocation (hub_status r))
              | Some location \<Rightarrow>
                  (case join_location C target location of
                     None \<Rightarrow> Inl (InvalidLocation (hub_status r))
                   | Some joined \<Rightarrow>
                       if url_scheme joined \<notin> {lit ''http'', lit ''https''}
                       then Inl (UnsupportedLocationScheme (hub_status r))
                       else
                         (let following = without_fragment C joined
                          in if url_text following \<in> url_text ` set visited
                             then Inl (RedirectLoop (hub_status r))
                             else Inr following)))))"

definition publish_turn :: "http_client \<Rightarrow> url list \<Rightarrow> url \<Rightarrow> nat \<Rightarrow> url + (websub_error + unit)" where
  "publish_turn C visited target redirects =
     (case hub_answer C redirects target of
        Transport_Failure \<Rightarrow> Inr (Inl (Retryable Transport None))
      | Response r \<Rightarrow>
          if is_success (hub_status r) then Inr (Inr ())
          else if hub_status r = 307 \<or> hub_status r = 308 then
            (case redirect_target C visited target redirects r of
               Inl e \<Rightarrow> Inr (Inl (Terminal e))
             | Inr following \<Rightarrow> Inl following)
          else if hub_status r = 408 \<or> hub_status r = 429 \<or> is_server_error (hub_status r) then
            Inr (Inl (Retryable (Retryable_Http (hub_status r)) (retry_after C (system_time C redirects) r)))
          else Inr (Inl (Terminal (Terminal_Http (hub_status r)))))"

partial_function (option) publish_loop ::
  "http_client \<Rightarrow> url list \<Rightarrow> url \<Rightarrow> nat \<Rightarrow> ((websub_error + unit) \<times> url list) option" where
  "publish_loop C visited target redirects =
     (case publish_turn C visited target redirects of
        Inl following \<Rightarrow> publish_loop C (following # visited) following (redirects + 1)
      | Inr result \<Rightarrow> Some (result, visited))"

text \<open>
  \<^verbatim>\<open>HttpWebSubClient::send_publish\<close>. A client that cannot be built fails the first request the
  way the transport does; the result comes with the targets that were requested.
\<close>

definition send_publish :: "url_parser \<Rightarrow> http_client \<Rightarrow> ustr \<Rightarrow> ((websub_error + unit) \<times> url list) option" where
  "send_publish parse C hub =
     (case parse hub of
        None \<Rightarrow> Some (Inl (Retryable Transport None), [])
      | Some target \<Rightarrow> publish_loop C [target] target 0)"

text \<open>The client of tests and of development: every publication succeeds.\<close>

definition noop_send_publish :: "ustr \<Rightarrow> ustr \<Rightarrow> websub_error + unit" where
  "noop_send_publish hub feed = Inr ()"

subsection \<open>What the loop does\<close>

text \<open>An answer after which the caller should try again.\<close>

fun worth_retrying :: "exchange \<Rightarrow> bool" where
  "worth_retrying Transport_Failure = True"
| "worth_retrying (Response r) \<longleftrightarrow> hub_status r \<in> {408, 429} \<or> is_server_error (hub_status r)"

fun accepted :: "exchange \<Rightarrow> bool" where
  "accepted Transport_Failure = False"
| "accepted (Response r) = is_success (hub_status r)"

fun retry_delay :: "websub_error + unit \<Rightarrow> int option" where
  "retry_delay (Inl (Retryable _ delay)) = delay"
| "retry_delay _ = None"

definition is_retryable :: "websub_error + unit \<Rightarrow> bool" where
  "is_retryable r \<longleftrightarrow> (\<exists>e delay. r = Inl (Retryable e delay))"

lemma retry_after_bounds:
  assumes "retry_after C now r = Some delay"
  shows "0 \<le> delay \<and> delay \<le> max_retry_after"
  using assms
  by (auto simp: retry_after_def http_date_delay_def max_retry_after_def bind_eq_Some_conv
      split: option.splits if_splits)

lemma redirect_target_Inr:
  assumes "redirect_target C visited target redirects r = Inr following"
  shows "redirects \<noteq> 3 \<and> url_text following \<notin> url_text ` set visited \<and>
    (\<exists>joined. following = without_fragment C joined \<and> url_scheme joined \<in> {lit ''http'', lit ''https''})"
  using assms by (auto simp: redirect_target_def Let_def split: option.splits if_split_asm)

lemma publish_turn_Inl:
  "publish_turn C visited target redirects = Inl following \<Longrightarrow>
     \<exists>r. redirect_target C visited target redirects r = Inr following"
  by (auto simp: publish_turn_def split: exchange.splits sum.splits if_split_asm)

lemma publish_turn_Inr:
  assumes "publish_turn C visited target redirects = Inr result"
  shows "(result = Inr () \<longleftrightarrow> accepted (hub_answer C redirects target)) \<and>
    (is_retryable result \<longleftrightarrow> worth_retrying (hub_answer C redirects target)) \<and>
    (case retry_delay result of None \<Rightarrow> True | Some delay \<Rightarrow> 0 \<le> delay \<and> delay \<le> max_retry_after)"
proof (cases "hub_answer C redirects target")
  case Transport_Failure
  with assms show ?thesis by (auto simp: publish_turn_def is_retryable_def)
next
  case (Response r)
  with assms show ?thesis
    by (auto simp: publish_turn_def is_retryable_def is_success_def is_server_error_def
        split: sum.splits if_split_asm option.splits dest: retry_after_bounds)
qed

text \<open>The redirects of the requests so far.\<close>

definition visits_ok :: "http_client \<Rightarrow> url list \<Rightarrow> bool" where
  "visits_ok C visited \<longleftrightarrow> distinct (map url_text visited) \<and>
     (\<forall>u \<in> set (butlast visited). \<exists>joined. u = without_fragment C joined \<and>
        url_scheme joined \<in> {lit ''http'', lit ''https''})"

lemma visits_ok_step:
  assumes "visits_ok C visited" and "visited \<noteq> []"
    and "redirect_target C visited target redirects r = Inr following"
  shows "visits_ok C (following # visited)"
  using redirect_target_Inr [OF assms(3)] assms(1,2) by (auto simp: visits_ok_def)

lemma publish_loop_returns:
  assumes "redirects \<le> 3" and "length visited = redirects + 1" and "visits_ok C visited"
    and "hd visited = target"
  shows "\<exists>result visited'. publish_loop C visited target redirects = Some (result, visited') \<and>
    visited' \<noteq> [] \<and> last visited' = last visited \<and> length visited' \<le> 4 \<and> visits_ok C visited' \<and>
    (result = Inr () \<longleftrightarrow> accepted (hub_answer C (length visited' - 1) (hd visited'))) \<and>
    (is_retryable result \<longleftrightarrow> worth_retrying (hub_answer C (length visited' - 1) (hd visited'))) \<and>
    (case retry_delay result of None \<Rightarrow> True | Some delay \<Rightarrow> 0 \<le> delay \<and> delay \<le> max_retry_after)"
  using assms
proof (induction "3 - redirects" arbitrary: redirects visited target)
  case 0
  then have "redirects = 3" by simp
  then have "publish_turn C visited target redirects \<noteq> Inl following" for following
    using publish_turn_Inl redirect_target_Inr by fast
  then obtain result where result: "publish_turn C visited target redirects = Inr result"
    by (cases "publish_turn C visited target redirects") auto
  then have "publish_loop C visited target redirects = Some (result, visited)"
    by (simp add: publish_loop.simps)
  with publish_turn_Inr [OF result] 0 \<open>redirects = 3\<close> show ?case by fastforce
next
  case (Suc n)
  show ?case
  proof (cases "publish_turn C visited target redirects")
    case (Inl following)
    then obtain r where r: "redirect_target C visited target redirects r = Inr following"
      using publish_turn_Inl by blast
    have "visited \<noteq> []" using Suc.prems by auto
    have "n = 3 - (redirects + 1)" "redirects + 1 \<le> 3" using Suc.hyps(2) Suc.prems(1) by simp_all
    moreover have "length (following # visited) = redirects + 1 + 1" using Suc.prems by simp
    moreover have "visits_ok C (following # visited)"
      by (rule visits_ok_step [OF Suc.prems(3) \<open>visited \<noteq> []\<close> r])
    moreover have "publish_loop C visited target redirects =
        publish_loop C (following # visited) following (redirects + 1)"
      using Inl by (subst publish_loop.simps) simp
    moreover have "last (following # visited) = last visited" using \<open>visited \<noteq> []\<close> by simp
    ultimately show ?thesis
      using Suc.hyps(1) [of "redirects + 1" "following # visited" following] by simp
  next
    case (Inr result)
    then have "publish_loop C visited target redirects = Some (result, visited)"
      by (simp add: publish_loop.simps)
    with publish_turn_Inr [OF Inr] Suc.prems show ?thesis by fastforce
  qed
qed

text \<open>
  C15: a publication always comes to a verdict. Whatever the hub and the hosts it redirects to
  answer, the client makes between one and four requests, the first of them to the hub itself, none
  of them twice to the same address, every redirected one to an HTTP address without its fragment; it
  reports success exactly when the last answer is a success, asks for a retry exactly when that
  answer is a transport failure, a time-out, a rate limit or a server error, and the delay it asks
  for is at most a day.
\<close>

theorem publication_comes_to_a_verdict:
  assumes "parse hub = Some target"
  shows "\<exists>result visited. send_publish parse C hub = Some (result, visited) \<and>
    visited \<noteq> [] \<and> last visited = target \<and> length visited \<le> 4 \<and> visits_ok C visited \<and>
    (result = Inr () \<longleftrightarrow> accepted (hub_answer C (length visited - 1) (hd visited))) \<and>
    (is_retryable result \<longleftrightarrow> worth_retrying (hub_answer C (length visited - 1) (hd visited))) \<and>
    (case retry_delay result of None \<Rightarrow> True | Some delay \<Rightarrow> 0 \<le> delay \<and> delay \<le> max_retry_after)"
  using publish_loop_returns [of 0 "[target]" C target] assms
  by (simp add: send_publish_def visits_ok_def)

text \<open>A hub that redirects to another host, which asks for patience.\<close>

definition example_target :: "string \<Rightarrow> url" where
  "example_target name = \<lparr>url_scheme = lit ''https'', url_host = Some (Domain (lit name)),
     url_text = lit name, url_bare = lit name\<rparr>"

definition patient_client :: http_client where
  "patient_client = \<lparr>
     hub_answer = (\<lambda>n u. if n = 0
       then Response \<lparr>hub_status = 307, hub_location = Some (lit ''other''), hub_retry_after = None\<rparr>
       else Response \<lparr>hub_status = 503, hub_location = None, hub_retry_after = Some (lit ''90000'')\<rparr>),
     join_location = (\<lambda>_ s. Some ((example_target ''hub'')\<lparr>url_text := s\<rparr>)),
     without_fragment = id, parse_http_date = (\<lambda>_. None), system_time = (\<lambda>_. 0)\<rparr>"

lemma publication_comes_to_a_verdict_witness:
  "send_publish (\<lambda>s. Some (example_target ''hub'')) patient_client (lit ''hub'') =
     Some (Inl (Retryable (Retryable_Http 503) (Some (seconds 86400))),
       [(example_target ''hub'')\<lparr>url_text := lit ''other''\<rparr>, example_target ''hub'']) \<and>
   length [(example_target ''hub'')\<lparr>url_text := lit ''other''\<rparr>, example_target ''hub''] \<le> 4"
proof -
  let ?other = "(example_target ''hub'')\<lparr>url_text := lit ''other''\<rparr>"
  have 0: "publish_turn patient_client [example_target ''hub''] (example_target ''hub'') 0 = Inl ?other"
    by (simp add: publish_turn_def patient_client_def redirect_target_def header_text_def is_success_def
        example_target_def)
  have 1: "publish_turn patient_client [?other, example_target ''hub''] ?other 1 =
      Inr (Inl (Retryable (Retryable_Http 503) (Some (seconds 86400))))"
    by (simp add: publish_turn_def patient_client_def retry_after_def header_text_def is_success_def
        is_server_error_def parse_unsigned_def digits_value_def is_ascii_digit_def max_retry_after_def)
  have "send_publish (\<lambda>s. Some (example_target ''hub'')) patient_client (lit ''hub'') =
     Some (Inl (Retryable (Retryable_Http 503) (Some (seconds 86400))), [?other, example_target ''hub''])"
    unfolding send_publish_def option.case
    by (subst publish_loop.simps, simp only: 0 sum.case, subst publish_loop.simps)
      (simp add: 1 [simplified])
  with publication_comes_to_a_verdict [of "\<lambda>s. Some (example_target ''hub'')" "lit ''hub''" _ patient_client]
  show ?thesis by simp
qed

end
