(* ===== verification/Feed_Worker.thy ===== *)
theory Feed_Worker
  imports Feed_Render Websub
begin

section \<open>The feed worker\<close>

text \<open>
  \<^verbatim>\<open>server/src/feed/worker.rs\<close> and the finalization guard of
  \<^verbatim>\<open>server/src/publisher.rs\<close>. The worker wakes up, enqueues the feeds of the posts that have
  gone live, claims a batch of feed events and takes each feed it has claimed through regeneration,
  the fenced commit to the cache and the publication to the hub. It shares the database with every
  other writer: each of its accesses to the store comes after whatever the others have committed in
  the meantime (\<open>interference\<close>), which may depend on whether the worker holds the publisher gate,
  and each may fail, at the begin, at a statement or at the commit. What the outside does in front of
  and during the n-th access is a \<open>moment\<close>. A read sees one state of the store: writes between the
  statements of one read are not modelled.
\<close>

record moment =
  interference :: "bool \<Rightarrow> database \<Rightarrow> database"
  moment_now :: instant
  moment_scope :: scope_env
  moment_locked :: "int set"
  moment_snapshot :: snapshot_env
  moment_repair :: "database \<Rightarrow> database"
  moment_gate :: bool

text \<open>
  The worker with its seams. The iteration order of the two hash maps is a parameter, and so are the
  texts of the storage errors.
\<close>

record worker =
  w_backend :: backend
  w_range :: timestamp_range
  w_url_parser :: url_parser
  w_render_env :: render_env
  w_calendar :: calendar
  w_publish :: "nat \<Rightarrow> ustr \<Rightarrow> ustr \<Rightarrow> websub_error + unit"
  w_moments :: "nat \<Rightarrow> moment"
  w_group_order :: "(ustr \<times> feed_event_record list) list \<Rightarrow> (ustr \<times> feed_event_record list) list"
  w_bucket_order :: "(nat \<times> int list) list \<Rightarrow> (nat \<times> int list) list"
  w_cause_text :: "sql_error \<Rightarrow> ustr"

text \<open>
  The state: the store, how many accesses there were, the instant of the previous go-live pass,
  whether the worker is in the region of the guard, and the publications it has sent, each with the
  store as it was at that moment.
\<close>

record ping =
  ping_hub :: ustr
  ping_feed :: ustr
  ping_path :: ustr
  ping_store :: database

record world =
  store :: database
  step_no :: nat
  last_tick :: "instant option"
  gate_held :: bool
  pings :: "ping list"

datatype worker_error = Scope_Failed | Commit_Indeterminate | Read_Failed

subsection \<open>Accesses\<close>

definition current_moment :: "worker \<Rightarrow> world \<Rightarrow> moment" where
  "current_moment W w = w_moments W (step_no w)"

definition storage_access :: "worker \<Rightarrow> (moment \<Rightarrow> database \<Rightarrow> 'a \<times> database) \<Rightarrow> world \<Rightarrow> 'a \<times> world" where
  "storage_access W f w =
     (let m = current_moment W w
      in case f m (interference m (gate_held w) (store w)) of
           (r, d) \<Rightarrow> (r, w\<lparr>store := d, step_no := step_no w + 1\<rparr>))"

definition read_store :: "worker \<Rightarrow> (moment \<Rightarrow> (database, 'e, 'a) tx) \<Rightarrow> world \<Rightarrow> ('e + 'a) \<times> world" where
  "read_store W q = storage_access W (\<lambda>m d.
     (fst (q m (open_connection (w_backend W) (moment_scope m) d)), d))"

definition require_confirmed_mutation :: "'e write_scope_error + 'a mutation_outcome \<Rightarrow> worker_error + 'a" where
  "require_confirmed_mutation r =
     (case r of
        Inl _ \<Rightarrow> Inl Scope_Failed
      | Inr (Confirmed v) \<Rightarrow> Inr v
      | Inr (CommitIndeterminate _) \<Rightarrow> Inl Commit_Indeterminate)"

definition write_store :: "worker \<Rightarrow> (moment \<Rightarrow> (database, 'e, 'a) tx) \<Rightarrow> world \<Rightarrow> (worker_error + 'a) \<times> world" where
  "write_store W t = storage_access W (\<lambda>m d.
     (case run (w_backend W) (moment_scope m) (t m) d of (r, d') \<Rightarrow> (require_confirmed_mutation r, d')))"

subsection \<open>Retry budgets\<close>

definition regen_backoffs_secs :: "nat list" where
  "regen_backoffs_secs = [60, 300, 1800, 7200, 7200, 7200]"

definition publication_backoffs_secs :: "nat list" where
  "publication_backoffs_secs = [60, 300, 1800, 7200, 14400, 28800, 43200, 86400, 86400]"

fun add_to_bucket :: "nat \<Rightarrow> int \<Rightarrow> (nat \<times> int list) list \<Rightarrow> (nat \<times> int list) list" where
  "add_to_bucket i x [] = [(i, [x])]"
| "add_to_bucket i x ((j, xs) # bs) = (if j = i then (j, xs @ [x]) # bs else (j, xs) # add_to_bucket i x bs)"

text \<open>A negative counter does not convert to an index and saturates.\<close>

definition attempt_index :: "(feed_event_record \<Rightarrow> int) \<Rightarrow> feed_event_record list \<Rightarrow> int \<Rightarrow> nat" where
  "attempt_index attempts rows i =
     (let n = (case map_of (rev (map (\<lambda>r. (fr_id r, attempts r)) rows)) i of None \<Rightarrow> 0 | Some n \<Rightarrow> n)
      in if 0 \<le> n then nat n else 2 ^ 64 - 1)"

fun partition_retry_attempts :: "int list \<Rightarrow> feed_event_record list \<Rightarrow> (feed_event_record \<Rightarrow> int) \<Rightarrow> nat \<Rightarrow>
    (nat \<times> int list) list \<times> int list \<Rightarrow> (nat \<times> int list) list \<times> int list" where
  "partition_retry_attempts [] rows attempts budget acc = acc"
| "partition_retry_attempts (i # ids) rows attempts budget (buckets, exhausted) =
     partition_retry_attempts ids rows attempts budget
       (let next_index = attempt_index attempts rows i
        in if budget \<le> next_index then (buckets, exhausted @ [i])
           else (add_to_bucket next_index i buckets, exhausted))"

text \<open>The instant of the next attempt saturates at the last instant.\<close>

definition instant_after :: "timestamp_range \<Rightarrow> instant \<Rightarrow> int \<Rightarrow> instant" where
  "instant_after b now delay = (case checked_add b now delay of None \<Rightarrow> ts_max b | Some t \<Rightarrow> t)"

subsection \<open>Writing the status of events\<close>

definition write_event_status ::
  "worker \<Rightarrow> (moment \<Rightarrow> (database, feed_event_error, unit) tx) \<Rightarrow> world \<Rightarrow> (worker_error + unit) \<times> world" where
  "write_event_status W operation = write_store W operation"

definition worker_mark_regenerated :: "worker \<Rightarrow> int list \<Rightarrow> world \<Rightarrow> bool \<times> world" where
  "worker_mark_regenerated W ids w =
     (case write_event_status W (\<lambda>m. mark_regenerated (w_backend W) ids (moment_now m)) w of
        (Inr _, w') \<Rightarrow> (True, w')
      | (Inl _, w') \<Rightarrow> (False, w'))"

definition worker_mark_pinged :: "worker \<Rightarrow> int list \<Rightarrow> world \<Rightarrow> world" where
  "worker_mark_pinged W ids w =
     snd (write_event_status W (\<lambda>m. mark_pinged (w_backend W) ids (moment_now m)) w)"

definition worker_dead_letter_regeneration :: "worker \<Rightarrow> int list \<Rightarrow> ustr \<Rightarrow> world \<Rightarrow> world" where
  "worker_dead_letter_regeneration W ids message w =
     snd (write_event_status W (\<lambda>m. dead_letter_regeneration (w_backend W) ids message (moment_now m)) w)"

definition worker_dead_letter_publication :: "worker \<Rightarrow> int list \<Rightarrow> ustr \<Rightarrow> world \<Rightarrow> world" where
  "worker_dead_letter_publication W ids message w =
     snd (write_event_status W (\<lambda>m. dead_letter_publication (w_backend W) ids message (moment_now m)) w)"

definition retry_regeneration_bucket :: "worker \<Rightarrow> ustr \<Rightarrow> nat \<times> int list \<Rightarrow> world \<Rightarrow> world" where
  "retry_regeneration_bucket W message bucket w =
     snd (write_event_status W (\<lambda>m. retry_regeneration (w_backend W) (snd bucket) message
       (instant_after (w_range W) (moment_now m) (seconds (int (regen_backoffs_secs ! fst bucket))))) w)"

definition worker_retry_regeneration ::
  "worker \<Rightarrow> int list \<Rightarrow> feed_event_record list \<Rightarrow> ustr \<Rightarrow> world \<Rightarrow> world" where
  "worker_retry_regeneration W ids rows message w =
     (case partition_retry_attempts ids rows fr_regeneration_attempts (length regen_backoffs_secs) ([], []) of
        (buckets, exhausted) \<Rightarrow>
          (let w1 = (if exhausted \<noteq> [] then worker_dead_letter_regeneration W exhausted message w else w)
           in if buckets = [] then w1
              else fold (retry_regeneration_bucket W message) (w_bucket_order W buckets) w1))"

definition publication_delay :: "int option \<Rightarrow> nat \<Rightarrow> int" where
  "publication_delay hub_delay i =
     (case hub_delay of
        None \<Rightarrow> seconds (int (publication_backoffs_secs ! i))
      | Some delay \<Rightarrow> min delay (seconds (24 * 60 * 60)))"

definition retry_publication_bucket :: "worker \<Rightarrow> ustr \<Rightarrow> int option \<Rightarrow> nat \<times> int list \<Rightarrow> world \<Rightarrow> world" where
  "retry_publication_bucket W message hub_delay bucket w =
     snd (write_event_status W (\<lambda>m. retry_publication (w_backend W) (snd bucket) message
       (instant_after (w_range W) (moment_now m) (publication_delay hub_delay (fst bucket)))) w)"

definition worker_retry_publication ::
  "worker \<Rightarrow> int list \<Rightarrow> feed_event_record list \<Rightarrow> ustr \<Rightarrow> int option \<Rightarrow> world \<Rightarrow> world" where
  "worker_retry_publication W ids rows message hub_delay w =
     (case partition_retry_attempts ids rows fr_publication_attempts (length publication_backoffs_secs) ([], []) of
        (buckets, exhausted) \<Rightarrow>
          (let w1 = (if exhausted \<noteq> [] then worker_dead_letter_publication W exhausted message w else w)
           in if buckets = [] then w1
              else fold (retry_publication_bucket W message hub_delay) (w_bucket_order W buckets) w1))"

definition worker_restart_regeneration :: "worker \<Rightarrow> int list \<Rightarrow> world \<Rightarrow> world" where
  "worker_restart_regeneration W ids w =
     snd (write_event_status W (\<lambda>m. restart_regeneration (w_backend W) ids (moment_now m)) w)"

definition worker_reset_regeneration :: "worker \<Rightarrow> int list \<Rightarrow> world \<Rightarrow> world" where
  "worker_reset_regeneration W ids w =
     snd (write_event_status W (\<lambda>m. reset_regeneration (w_backend W) ids (moment_now m)) w)"

subsection \<open>Going live\<close>

text \<open>Duplicate paths are dropped, the first of each is kept.\<close>

fun first_occurrences :: "ustr set \<Rightarrow> ustr list \<Rightarrow> ustr list" where
  "first_occurrences seen [] = []"
| "first_occurrences seen (x # xs) =
     (if x \<in> seen then first_occurrences seen xs else x # first_occurrences (insert x seen) xs)"

definition gone_live_urls :: "go_live_post list \<Rightarrow> ustr list" where
  "gone_live_urls gs = concat (map (\<lambda>g. affected_feed_urls (gone_live_username g) (gone_live_slugs g)) gs)"

definition go_live_reading :: "instant option \<Rightarrow> instant \<Rightarrow> (database, worker_error, ustr list) tx" where
  "go_live_reading previous now =
     (case previous of
        None \<Rightarrow> tx_map_err (\<lambda>_. Read_Failed) (feed_urls_needing_catchup now)
      | Some after \<Rightarrow>
          tx_bind (tx_map_err (\<lambda>_. Read_Failed) (list_posts_gone_live_between after now)) (\<lambda>gs.
          tx_return (gone_live_urls gs)))"

fun enqueue_batches :: "worker \<Rightarrow> ustr list list \<Rightarrow> world \<Rightarrow> (worker_error + unit) \<times> world" where
  "enqueue_batches W [] w = (Inr (), w)"
| "enqueue_batches W (paths # rest) w =
     (case write_store W (\<lambda>m. enqueue_many (w_backend W) (moment_now m) paths) w of
        (Inl e, w') \<Rightarrow> (Inl e, w')
      | (Inr _, w') \<Rightarrow> enqueue_batches W rest w')"

definition go_live_pass :: "worker \<Rightarrow> instant \<Rightarrow> world \<Rightarrow> (worker_error + unit) \<times> world" where
  "go_live_pass W now w =
     (case read_store W (\<lambda>_. go_live_reading (last_tick w) now) w of
        (Inl e, w1) \<Rightarrow> (Inl e, w1)
      | (Inr urls, w1) \<Rightarrow>
          (case enqueue_batches W (chunks 256 (first_occurrences {} urls)) w1 of
             (Inl e, w2) \<Rightarrow> (Inl e, w2)
           | (Inr _, w2) \<Rightarrow> (Inr (), w2\<lparr>last_tick := Some now\<rparr>)))"

subsection \<open>One feed\<close>

definition snapshot_for_group ::
  "worker \<Rightarrow> int list \<Rightarrow> feed_event_record list \<Rightarrow> world \<Rightarrow> publisher_snapshot option \<times> world" where
  "snapshot_for_group W ids rows w =
     (case storage_access W (\<lambda>m. service_snapshot (w_url_parser W) (w_backend W) (moment_snapshot m) (moment_repair m)) w of
        (Inr snapshot, w1) \<Rightarrow> (Some snapshot, w1)
      | (Inl _, w1) \<Rightarrow> (None, worker_retry_regeneration W ids rows (lit ''publisher snapshot read failed'') w1))"

fun regenerate_error_text :: "worker \<Rightarrow> regenerate_error \<Rightarrow> ustr" where
  "regenerate_error_text W (BadUrl path) = lit ''unparseable feed_url: '' @ path"
| "regenerate_error_text W BaseUrlRequired = lit ''site.base_url must be configured to regenerate feeds''"
| "regenerate_error_text W (Render_Storage e) = lit ''storage error: '' @ w_cause_text W e"
| "regenerate_error_text W Render_Publisher = lit ''publisher operation failed: '' @ w_cause_text W Protocol"

definition load_feed_row :: "worker \<Rightarrow> publisher_snapshot \<Rightarrow> ustr \<Rightarrow> int list \<Rightarrow> int list \<Rightarrow>
    feed_event_record list \<Rightarrow> world \<Rightarrow> feed_cache_row option \<times> world" where
  "load_feed_row W snapshot path regeneration_ids ids rows w =
     (if regeneration_ids = [] then
        (case read_store W (\<lambda>_. get_cached path) w of
           (Inr (Some row), w1) \<Rightarrow> (Some row, w1)
         | (Inr None, w1) \<Rightarrow> (None, worker_reset_regeneration W ids w1)
         | (Inl _, w1) \<Rightarrow> (None, worker_retry_regeneration W ids rows (lit ''publication cache read failed'') w1))
      else
        (case read_store W (\<lambda>m. render (w_render_env W) (w_calendar W) (w_range W) snapshot path (moment_now m)) w of
           (Inr row, w1) \<Rightarrow> (Some row, w1)
         | (Inl e, w1) \<Rightarrow> (None, worker_retry_regeneration W regeneration_ids rows (regenerate_error_text W e) w1)))"

definition finalize_feed_group :: "worker \<Rightarrow> publisher_snapshot \<Rightarrow> feed_cache_row \<Rightarrow> int list \<Rightarrow> int list \<Rightarrow>
    feed_event_record list \<Rightarrow> world \<Rightarrow> bool \<times> world" where
  "finalize_feed_group W snapshot row regeneration_ids ids rows w =
     (if regeneration_ids = [] then
        (case read_store W (\<lambda>_. is_current_generation (snapshot_generation snapshot)) w of
           (Inr True, w1) \<Rightarrow> (True, w1)
         | (Inr False, w1) \<Rightarrow> (False, worker_restart_regeneration W ids w1)
         | (Inl _, w1) \<Rightarrow> (False, worker_retry_regeneration W ids rows (lit ''publisher generation check failed'') w1))
      else
        (case storage_access W (\<lambda>m. finalize_commit_cache (w_backend W) (moment_scope m)
             (snapshot_generation snapshot) row) w of
           (Inr (Cache_Committed _), w1) \<Rightarrow> worker_mark_regenerated W regeneration_ids w1
         | (Inr StaleGeneration, w1) \<Rightarrow> (False, worker_restart_regeneration W ids w1)
         | (Inl _, w1) \<Rightarrow> (False, worker_retry_regeneration W ids rows (lit ''cache commit failed'') w1)))"

text \<open>The request to the hub: it is not an access to the store, but others may commit before it.\<close>

definition send_ping :: "worker \<Rightarrow> ustr \<Rightarrow> ustr \<Rightarrow> ustr \<Rightarrow> world \<Rightarrow> (websub_error + unit) \<times> world" where
  "send_ping W hub feed path w =
     (let d = interference (current_moment W w) (gate_held w) (store w)
      in (w_publish W (step_no w) hub feed,
          w\<lparr>store := d, step_no := step_no w + 1,
            pings := pings w @ [\<lparr>ping_hub = hub, ping_feed = feed, ping_path = path, ping_store = d\<rparr>]\<rparr>))"

definition publish_feed :: "worker \<Rightarrow> publisher_snapshot \<Rightarrow> ustr \<Rightarrow> int list \<Rightarrow> feed_event_record list \<Rightarrow>
    world \<Rightarrow> world" where
  "publish_feed W snapshot path ids rows w =
     (case feeds_websub_hub_url (snapshot_feeds snapshot) of
        None \<Rightarrow> worker_mark_pinged W ids w
      | Some hub \<Rightarrow>
          (case identity_base_url (snapshot_identity snapshot) of
             None \<Rightarrow> worker_retry_regeneration W ids rows (lit ''site.base_url is unset'') w
           | Some base \<Rightarrow>
               (case send_ping W hub (join_url (w_render_env W) base path) path w of
                  (Inr _, w1) \<Rightarrow> worker_mark_pinged W ids w1
                | (Inl (Terminal reason), w1) \<Rightarrow> worker_dead_letter_publication W ids (terminal_text reason) w1
                | (Inl (Retryable reason delay), w1) \<Rightarrow>
                    worker_retry_publication W ids rows (retryable_text reason) delay w1)))"

text \<open>
  The guard is taken when the row is there and dropped at the end of the group; when it cannot be
  taken the group is retried without it.
\<close>

definition finalize_and_publish :: "worker \<Rightarrow> publisher_snapshot \<Rightarrow> ustr \<Rightarrow> feed_cache_row \<Rightarrow> int list \<Rightarrow>
    int list \<Rightarrow> feed_event_record list \<Rightarrow> world \<Rightarrow> world" where
  "finalize_and_publish W snapshot path row regeneration_ids ids rows w =
     (if \<not> moment_gate (current_moment W w) then
        worker_retry_regeneration W ids rows (lit ''publisher finalization unavailable'') w
      else
        (case finalize_feed_group W snapshot row regeneration_ids ids rows (w\<lparr>gate_held := True\<rparr>) of
           (False, w1) \<Rightarrow> w1\<lparr>gate_held := False\<rparr>
         | (True, w1) \<Rightarrow> (publish_feed W snapshot path ids rows w1)\<lparr>gate_held := False\<rparr>))"

definition process_feed_group :: "worker \<Rightarrow> ustr \<times> feed_event_record list \<Rightarrow> world \<Rightarrow> world" where
  "process_feed_group W feed_group w =
     (case feed_group of
        (path, rows) \<Rightarrow>
          (let ids = map fr_id rows
           in case snapshot_for_group W ids rows w of
                (None, w1) \<Rightarrow> w1
              | (Some snapshot, w1) \<Rightarrow>
                  (let regeneration_ids = map fr_id (filter (\<lambda>r. fr_phase r = Regeneration) rows)
                   in case load_feed_row W snapshot path regeneration_ids ids rows w1 of
                        (None, w2) \<Rightarrow> w2
                      | (Some row, w2) \<Rightarrow>
                          finalize_and_publish W snapshot path row regeneration_ids ids rows w2)))"

subsection \<open>A tick\<close>

fun add_to_group :: "feed_event_record \<Rightarrow> (ustr \<times> feed_event_record list) list \<Rightarrow>
    (ustr \<times> feed_event_record list) list" where
  "add_to_group r [] = [(fr_feed_path r, [r])]"
| "add_to_group r ((path, rs) # gs) =
     (if path = fr_feed_path r then (path, rs @ [r]) # gs else (path, rs) # add_to_group r gs)"

definition group_by_path :: "feed_event_record list \<Rightarrow> (ustr \<times> feed_event_record list) list" where
  "group_by_path rows = fold add_to_group rows []"

definition worker_claim :: "worker \<Rightarrow> world \<Rightarrow> (worker_error + feed_event_record list) \<times> world" where
  "worker_claim W = write_store W (\<lambda>m. claim_pending_batch (w_backend W) (w_range W) (moment_locked m)
     (moment_now m) 200 (seconds (5 * 60)))"

definition worker_tick :: "worker \<Rightarrow> world \<Rightarrow> world" where
  "worker_tick W w =
     (let w1 = snd (go_live_pass W (moment_now (current_moment W w)) w)
      in case worker_claim W w1 of
           (Inl _, w2) \<Rightarrow> w2
         | (Inr rows, w2) \<Rightarrow> fold (process_feed_group W) (w_group_order W (group_by_path rows)) w2)"

definition initial_world :: "database \<Rightarrow> world" where
  "initial_world d = \<lparr>store = d, step_no = 0, last_tick = None, gate_held = False, pings = []\<rparr>"

end
