(* ===== verification/Worker_Runs.thy ===== *)
theory Worker_Runs
  imports Feed_Worker
begin

section \<open>The runs of the feed worker\<close>

text \<open>
  What the worker of \<^verbatim>\<open>server/src/feed/worker.rs\<close> guarantees, whatever the other writers
  commit in front of its accesses and however its accesses fail: the queue stays well formed, no post
  that goes live is lost, every publication goes to the hub that is configured at that moment, and no
  event is tried more often than its budget allows. The statements name what they ask of the other
  writers.
\<close>

subsection \<open>Invariants of the store\<close>

definition others_keep :: "worker \<Rightarrow> (database \<Rightarrow> bool) \<Rightarrow> bool" where
  "others_keep W I \<longleftrightarrow> (\<forall>n held d. I d \<longrightarrow>
     I (interference (w_moments W n) held d) \<and> I (moment_repair (w_moments W n) d))"

definition tx_keeps :: "(database \<Rightarrow> bool) \<Rightarrow> (database, 'e, 'a) tx \<Rightarrow> bool" where
  "tx_keeps I t \<longleftrightarrow> (\<forall>c a c'. I (working c) \<longrightarrow> t c = (Inr a, c') \<longrightarrow> I (working c'))"

lemma tx_keepsD: "tx_keeps I t \<Longrightarrow> I (working c) \<Longrightarrow> t c = (Inr a, c') \<Longrightarrow> I (working c')"
  unfolding tx_keeps_def by blast

lemma run_keeps:
  "tx_keeps I t \<Longrightarrow> I d \<Longrightarrow> run db env t d = (r, d') \<Longrightarrow> I d'"
  by (erule run_preserves) (simp_all add: tx_keepsD [of I t "open_connection db env d"])

lemma storage_access_keeps:
  assumes "others_keep W I" and "\<And>m d. I d \<Longrightarrow> m \<in> range (w_moments W) \<Longrightarrow> I (snd (f m d))" and "I (store w)"
  shows "I (store (snd (storage_access W f w)))"
  using assms
  by (auto simp: storage_access_def Let_def others_keep_def current_moment_def split: prod.splits)
    (metis rangeI snd_conv)

lemma read_store_keeps: "others_keep W I \<Longrightarrow> I (store w) \<Longrightarrow> I (store (snd (read_store W q w)))"
  unfolding read_store_def by (rule storage_access_keeps) simp_all

lemma write_store_keeps:
  assumes "others_keep W I" and "\<And>m. tx_keeps I (t m)" and "I (store w)"
  shows "I (store (snd (write_store W t w)))"
  unfolding write_store_def
proof (rule storage_access_keeps [OF assms(1) _ assms(3)])
  fix m d
  assume "I d"
  then show "I (snd (case run (w_backend W) (moment_scope m) (t m) d of (r, d') \<Rightarrow> (require_confirmed_mutation r, d')))"
    using run_keeps [OF assms(2)] by (auto split: prod.splits)
qed

lemma service_snapshot_keeps:
  assumes "\<And>token. tx_keeps I (repair_malformed_hub db token)" and "I d" and "I (meanwhile d)"
  shows "I (snd (service_snapshot parse db env meanwhile d))"
  using assms(2,3) run_keeps [OF assms(1)]
  by (auto simp: service_snapshot_def split: sum.split option.split prod.split mutation_outcome.split)

lemma finalize_commit_keeps:
  assumes "tx_keeps I (commit_cache db g row)" and "I d"
  shows "I (snd (finalize_commit_cache db env g row d))"
  using assms(2) run_keeps [OF assms(1)]
  by (auto simp: finalize_commit_cache_def split: sum.split prod.split mutation_outcome.split write_scope_error.split)

text \<open>A predicate that the queue and the publisher keep is kept by every step of the worker.\<close>

locale worker_invariant =
  fixes I :: "database \<Rightarrow> bool"
  assumes queue_keeps: "I (working c) \<Longrightarrow> feed_step db q c = (Inr u, c') \<Longrightarrow> I (working c')"
    and publisher_keeps: "I (working c) \<Longrightarrow> publisher_step parse db p c = (Inr u, c') \<Longrightarrow> I (working c')"
begin

lemma queue_op_keeps: "feed_step db q = answer t \<Longrightarrow> tx_keeps I t"
  unfolding tx_keeps_def
proof (intro allI impI)
  fix c a c'
  assume "feed_step db q = answer t" "I (working c)" "t c = (Inr a, c')"
  then have "feed_step db q c = (Inr (), c')" by (simp add: answer_def tx_simps)
  with \<open>I (working c)\<close> show "I (working c')" by (rule queue_keeps)
qed

lemma repair_keeps: "tx_keeps I (repair_malformed_hub db token)"
  using publisher_keeps [where p = "Repair_Hub token"]
  unfolding tx_keeps_def publisher_step_def by (simp add: tx_simps) blast

lemma commit_keeps: "tx_keeps I (commit_cache db g row)"
  using publisher_keeps [where p = "Commit_Cache g row"]
  unfolding tx_keeps_def publisher_step_def by (simp add: tx_simps) blast

lemma status_keeps:
  assumes "others_keep W I" and "I (store w)"
  shows "I (store (snd (worker_mark_regenerated W ids w)))" "I (store (worker_mark_pinged W ids w))"
    "I (store (worker_dead_letter_regeneration W ids message w))"
    "I (store (worker_dead_letter_publication W ids message w))"
    "I (store (retry_regeneration_bucket W message bucket w))"
    "I (store (retry_publication_bucket W message delay bucket w))"
    "I (store (worker_restart_regeneration W ids w))" "I (store (worker_reset_regeneration W ids w))"
proof -
  have w: "I (store (snd (write_event_status W t w)))"
    if "\<And>m. \<exists>q. feed_step (w_backend W) q = answer (t m)" for t
    unfolding write_event_status_def
    by (rule write_store_keeps [OF assms(1) _ assms(2)]) (use that queue_op_keeps in blast)
  note defs = worker_mark_pinged_def worker_dead_letter_regeneration_def worker_dead_letter_publication_def
    retry_regeneration_bucket_def retry_publication_bucket_def worker_restart_regeneration_def
    worker_reset_regeneration_def
  have "store (snd (worker_mark_regenerated W ids w)) =
      store (snd (write_event_status W (\<lambda>m. mark_regenerated (w_backend W) ids (moment_now m)) w))"
    by (cases "write_event_status W (\<lambda>m. mark_regenerated (w_backend W) ids (moment_now m)) w")
      (simp add: worker_mark_regenerated_def split: sum.split)
  moreover have "I (store (snd (write_event_status W (\<lambda>m. mark_regenerated (w_backend W) ids (moment_now m)) w)))"
    by (rule w) (metis feed_step.simps(5))
  ultimately show "I (store (snd (worker_mark_regenerated W ids w)))" by simp
  show "I (store (worker_mark_pinged W ids w))" unfolding defs by (rule w) (metis feed_step.simps(6))
  show "I (store (worker_dead_letter_regeneration W ids message w))"
    unfolding defs by (rule w) (metis feed_step.simps(8))
  show "I (store (worker_dead_letter_publication W ids message w))"
    unfolding defs by (rule w) (metis feed_step.simps(10))
  show "I (store (retry_regeneration_bucket W message bucket w))"
    unfolding defs by (rule w) (metis feed_step.simps(7))
  show "I (store (retry_publication_bucket W message delay bucket w))"
    unfolding defs by (rule w) (metis feed_step.simps(9))
  show "I (store (worker_restart_regeneration W ids w))" unfolding defs by (rule w) (metis feed_step.simps(11))
  show "I (store (worker_reset_regeneration W ids w))" unfolding defs by (rule w) (metis feed_step.simps(12))
qed

lemma fold_keeps: "(\<And>x w. I (store w) \<Longrightarrow> I (store (f x w))) \<Longrightarrow> I (store w) \<Longrightarrow> I (store (fold f xs w))"
  by (induction xs arbitrary: w) simp_all

lemma retry_keeps:
  assumes "others_keep W I" and "I (store w)"
  shows "I (store (worker_retry_regeneration W ids rows message w))"
    "I (store (worker_retry_publication W ids rows message delay w))"
  using assms
  by (auto simp: worker_retry_regeneration_def worker_retry_publication_def Let_def
      split: prod.split intro!: fold_keeps status_keeps)

lemma snapshot_keeps:
  assumes "others_keep W I" and "I (store w)"
  shows "I (store (snd (snapshot_for_group W ids rows w)))"
proof -
  have "I (store (snd (storage_access W (\<lambda>m. service_snapshot (w_url_parser W) (w_backend W)
      (moment_snapshot m) (moment_repair m)) w)))"
    by (rule storage_access_keeps [OF assms(1) _ assms(2)]) (use assms(1) in \<open>auto simp: others_keep_def intro: service_snapshot_keeps [OF repair_keeps]\<close>)
  then show ?thesis
    by (auto simp: snapshot_for_group_def split: prod.split sum.split intro: retry_keeps(1) [OF assms(1)])
qed

lemma load_keeps:
  assumes "others_keep W I" and "I (store w)"
  shows "I (store (snd (load_feed_row W snapshot path rids ids rows w)))"
proof -
  have r: "I (store w1)" if "read_store W q w = (x, w1)" for q x and w1
    using read_store_keeps [OF assms, of q] that by simp
  show ?thesis
    by (auto simp: load_feed_row_def split: prod.split sum.split option.split
        intro: retry_keeps(1) [OF assms(1)] status_keeps(8) [OF assms(1)] dest: r)
qed

lemma finalize_keeps:
  assumes "others_keep W I" and "I (store w)"
  shows "I (store (snd (finalize_feed_group W snapshot row rids ids rows w)))"
proof -
  have r: "I (store w1)" if "read_store W q w = (x, w1)" for q x w1
    using read_store_keeps [OF assms, of q] that by simp
  have c: "I (store w1)" if "storage_access W (\<lambda>m. finalize_commit_cache (w_backend W) (moment_scope m)
      (snapshot_generation snapshot) row) w = (x, w1)" for x w1
    using storage_access_keeps [OF assms(1) _ assms(2), of "\<lambda>m. finalize_commit_cache (w_backend W) (moment_scope m)
      (snapshot_generation snapshot) row"] finalize_commit_keeps [OF commit_keeps] that by simp
  show ?thesis
    by (auto simp: finalize_feed_group_def split: prod.split sum.split bool.split cache_commit_outcome.split
        intro: retry_keeps(1) [OF assms(1)] status_keeps(1,7) [OF assms(1)] dest: r c)
qed

lemma publish_keeps:
  assumes "others_keep W I" and "I (store w)"
  shows "I (store (publish_feed W snapshot path ids rows w))"
proof -
  have s: "I (store w1)" if "send_ping W hub feed path w = (x, w1)" for hub feed x w1
    using assms that by (auto simp: send_ping_def Let_def others_keep_def current_moment_def)
  show ?thesis
    by (auto simp: publish_feed_def assms(2) split: prod.split sum.split option.split websub_error.split
        intro: retry_keeps [OF assms(1)] status_keeps [OF assms(1)] dest: s)
qed

lemma group_keeps:
  assumes "others_keep W I" and "I (store w)"
  shows "I (store (process_feed_group W g w))"
proof -
  obtain path rows where g: "g = (path, rows)" by (cases g)
  have fin: "I (store (finalize_and_publish W s path row rids ids rows w'))" if "I (store w')" for s row rids ids w'
  proof -
    have "I (store (snd (finalize_feed_group W s row rids ids rows (w'\<lparr>gate_held := True\<rparr>))))"
      by (rule finalize_keeps [OF assms(1)]) (simp add: that)
    then show ?thesis
      by (auto simp: finalize_and_publish_def that split: prod.split bool.split
          intro: retry_keeps(1) [OF assms(1)] publish_keeps [OF assms(1)])
  qed
  have 1: "I (store w1)" if "snapshot_for_group W ids rows w = (x, w1)" for ids x w1
    using snapshot_keeps [OF assms, of ids rows] that by simp
  have 2: "I (store w2)" if "load_feed_row W s path rids ids rows w1 = (x, w2)" "I (store w1)" for s rids ids x w1 w2
    using load_keeps [OF assms(1) that(2), of s path rids ids rows] that(1) by simp
  show ?thesis
    unfolding process_feed_group_def g Let_def prod.case
    by (auto split: prod.split option.split dest!: 1 intro: fin dest: 2)
qed

lemma enqueue_keeps:
  "others_keep W I \<Longrightarrow> I (store w) \<Longrightarrow> I (store (snd (enqueue_batches W cs w)))"
proof (induction cs arbitrary: w)
  case (Cons paths rest)
  have "I (store (snd (write_store W (\<lambda>m. enqueue_many (w_backend W) (moment_now m) paths) w)))"
    by (rule write_store_keeps [OF Cons.prems(1) _ Cons.prems(2)]) (metis queue_op_keeps feed_step.simps(2))
  with Cons show ?case by (auto split: prod.split sum.split)
qed simp

lemma pass_keeps:
  assumes "others_keep W I" and "I (store w)"
  shows "I (store (snd (go_live_pass W now w)))"
proof -
  have r: "I (store w1)" if "read_store W q w = (x, w1)" for q x w1
    using read_store_keeps [OF assms, of q] that by simp
  have e: "I (store w2)" if "enqueue_batches W cs w1 = (x, w2)" "I (store w1)" for cs w1 x w2
    using enqueue_keeps [OF assms(1) that(2), of cs] that(1) by simp
  show ?thesis
    by (auto simp: go_live_pass_def split: prod.split sum.split dest!: r dest: e)
qed

lemma claim_keeps: "others_keep W I \<Longrightarrow> I (store w) \<Longrightarrow> I (store (snd (worker_claim W w)))"
  unfolding worker_claim_def by (rule write_store_keeps) (metis queue_op_keeps feed_step.simps(3))+

lemma tick_keeps:
  assumes "others_keep W I" and "I (store w)"
  shows "I (store (worker_tick W w))"
proof -
  let ?w1 = "snd (go_live_pass W (moment_now (current_moment W w)) w)"
  have "I (store (snd (worker_claim W ?w1)))" by (rule claim_keeps [OF assms(1) pass_keeps [OF assms]])
  then show ?thesis
    by (auto simp: worker_tick_def Let_def split: prod.split sum.split intro: fold_keeps group_keeps [OF assms(1)])
qed

lemma ticks_keep: "others_keep W I \<Longrightarrow> I (store w) \<Longrightarrow> I (store ((worker_tick W ^^ n) w))"
  by (induction n) (simp_all add: tick_keeps)

end

lemma published_frame [simp]:
  "feed_events (published cfg d) = feed_events d" "next_feed_event_id (published cfg d) = next_feed_event_id d"
  by (simp_all add: published_def)

text \<open>What a step of the publisher leaves behind.\<close>

lemma publisher_step_frame:
  assumes "publisher_step parse db q c = (Inr u, c')"
  shows "\<exists>cfg g rows. working c' = (working c)\<lparr>feed_cache := rows, site_config := cfg, publisher_generation := g\<rparr>"
  using publisher_step_effect [OF assms]
proof (elim disjE exE conjE)
  fix cfg
  assume "working c' = published cfg (working c)"
  then show ?thesis
    by (intro exI [of _ cfg] exI [of _ "publisher_generation (working c) + 1"] exI [of _ "[]"])
      (simp add: published_def)
next
  fix row c0 eff
  assume "working c0 = working c" "upsert_on_connection row c0 = (Inr eff, c')"
  with upsert_on_connection_frame [of row c0 eff c'] obtain rows
    where "working c' = (working c)\<lparr>feed_cache := rows\<rparr>" by auto
  then show ?thesis
    by (intro exI [of _ "site_config (working c)"] exI [of _ "publisher_generation (working c)"]
        exI [of _ rows]) simp
qed (intro exI [of _ "site_config (working c)"] exI [of _ "publisher_generation (working c)"]
    exI [of _ "feed_cache (working c)"], simp)

text \<open>What a step of the queue leaves behind.\<close>

lemma claim_frame:
  assumes "claim_pending_batch db b locked now limit lease c = (Inr records, c')"
  shows "\<exists>es. working c' = (working c)\<lparr>feed_events := es\<rparr>"
  by (rule claim_pending_batch_okD [OF assms]) (auto simp: claimed_database_def purged_database_def)

lemma feed_step_frame:
  assumes "feed_step db q c = (Inr u, c')"
  shows "\<exists>es n. next_feed_event_id (working c) \<le> n \<and>
    working c' = (working c)\<lparr>feed_events := es, next_feed_event_id := n\<rparr>"
proof -
  have same: ?thesis if "\<exists>es. working c' = (working c)\<lparr>feed_events := es\<rparr>"
    using that by (elim exE) (rule exI, rule exI [of _ "next_feed_event_id (working c)"], simp)
  show ?thesis
  proof (cases q)
    case (Enqueue now path)
    with assms show ?thesis
      by (auto simp: enqueue_def tx_simps insert_feed_event_def dest!: answer_okD
          intro!: exI [of _ "next_feed_event_id (working c) + 1"])
  next
    case (EnqueueMany now paths)
    with assms have "working c' = fold (insert_feed_event now) paths (working c)"
      by (auto dest!: answer_okD enqueue_many_okD)
    then show ?thesis
      by (auto simp: insert_feed_events_eq intro!: exI [of _ "next_feed_event_id (working c) + int (length paths)"])
  next
    case (Claim b locked now limit lease)
    with assms show ?thesis by (intro same) (auto dest!: answer_okD claim_frame)
  next
    case (Redrive b ids now)
    with assms show ?thesis by (intro same) (auto simp: events_updated_def dest!: answer_okD redrive_okD)
  qed (use assms in \<open>auto simp: events_updated_def dest!: answer_okD outcome_okD intro!: same\<close>)
qed

subsection \<open>The queue\<close>

interpretation queue_invariant: worker_invariant events_ok
proof
  fix c c' :: "database connection" and db q and u :: unit
  show "events_ok (working c) \<Longrightarrow> feed_step db q c = (Inr u, c') \<Longrightarrow> events_ok (working c')"
    by (rule feed_queue.step_keeps_wf)
next
  fix c c' :: "database connection" and parse db p and u :: unit
  assume "events_ok (working c)" "publisher_step parse db p c = (Inr u, c')"
  with publisher_step_frame [of parse db p c u c'] show "events_ok (working c')" by (auto simp: events_ok_def)
qed

text \<open>
  The worker keeps the queue well formed. If every other writer does, then after any number of
  ticks, whatever their accesses see and however they fail, the identifiers are distinct and below the
  next one, and every row has the claim time, the terminal time, the counters and the diagnostics that
  its status asks for.
\<close>

theorem worker_keeps_queue:
  assumes "others_keep W events_ok" and "events_ok (store w)"
  shows "events_ok (store ((worker_tick W ^^ n) w))"
  by (rule queue_invariant.ticks_keep [OF assms])

subsection \<open>Posts that go live\<close>

text \<open>A transaction that only reads the pool answers the same whatever its schedule, when it answers.\<close>

definition pool_reading :: "(database, 'e, 'a) tx \<Rightarrow> bool" where
  "pool_reading m \<longleftrightarrow> (\<forall>c a c'. m c = (Inr a, c') \<longrightarrow> committed c' = committed c \<and>
     (\<forall>db. m (reader db (committed c)) = (Inr a, reader db (committed c))))"

lemma pool_reading_return: "pool_reading (tx_return a)"
  by (simp add: pool_reading_def tx_return_def)

lemma pool_reading_throw: "pool_reading (tx_throw e)"
  by (simp add: pool_reading_def tx_throw_def)

lemma pool_reading_result: "pool_reading (tx_of_result r)"
  by (cases r) (simp_all add: tx_of_result_def pool_reading_return pool_reading_throw)

lemma pool_reading_query: "pool_reading (pool_query q)"
  by (auto simp: pool_reading_def pool_query_def spend_fault_none)

lemma pool_reading_map_err: "pool_reading m \<Longrightarrow> pool_reading (tx_map_err f m)"
  unfolding pool_reading_def tx_map_err_ok_iff by blast

lemma pool_reading_bind:
  assumes "pool_reading m" and "\<And>a. pool_reading (k a)"
  shows "pool_reading (tx_bind m k)"
  unfolding pool_reading_def tx_bind_ok_iff
proof (intro allI impI)
  fix c b c''
  assume "\<exists>a c'. m c = (Inr a, c') \<and> k a c' = (Inr b, c'')"
  then obtain a c' where m: "m c = (Inr a, c')" and k: "k a c' = (Inr b, c'')" by blast
  from assms(1) m have 1: "committed c' = committed c" "m (reader db (committed c)) = (Inr a, reader db (committed c))" for db
    unfolding pool_reading_def by blast+
  from assms(2) k have 2: "committed c'' = committed c'" "k a (reader db (committed c')) = (Inr b, reader db (committed c'))" for db
    unfolding pool_reading_def by blast+
  from 1 2 show "committed c'' = committed c \<and> (\<forall>db. \<exists>a c'. m (reader db (committed c)) = (Inr a, c') \<and>
      k a c' = (Inr b, reader db (committed c)))" by auto
qed

lemma pool_reading_catchup: "pool_reading (needing_catchup now rows)"
  by (induction now rows rule: needing_catchup.induct)
    (auto simp: max_published_at_for_surface_def pool_reading_return pool_reading_throw split: option.split
      intro!: pool_reading_bind pool_reading_map_err pool_reading_query)

lemma pool_reading_go_live: "pool_reading (go_live_reading previous now)"
  unfolding go_live_reading_def feed_urls_needing_catchup_def list_posts_gone_live_between_def fetch_rows_def
  by (auto split: option.split intro!: pool_reading_bind pool_reading_map_err pool_reading_query
      pool_reading_result pool_reading_return pool_reading_catchup)

text \<open>The state a pass reads, and the paths it must enqueue for a surface of a post.\<close>

definition seen_store :: "worker \<Rightarrow> world \<Rightarrow> database" where
  "seen_store W w = interference (current_moment W w) (gate_held w) (store w)"

lemma read_store_okD:
  assumes "read_store W q w = (Inr a, w')"
  shows "\<exists>c c'. committed c = seen_store W w \<and> q (current_moment W w) c = (Inr a, c') \<and>
    w' = w\<lparr>store := seen_store W w, step_no := step_no w + 1\<rparr>"
  using assms
  by (auto simp: read_store_def storage_access_def Let_def seen_store_def)
    (metis open_connection_sel(2) prod.collapse)

lemma write_store_okD:
  assumes "write_store W t w = (Inr a, w')"
  shows "\<exists>c c'. working c = seen_store W w \<and> t (current_moment W w) c = (Inr a, c') \<and>
    w' = w\<lparr>store := working c', step_no := step_no w + 1\<rparr>"
proof -
  obtain r d where r: "run (w_backend W) (moment_scope (current_moment W w)) (t (current_moment W w)) (seen_store W w) = (r, d)"
    by fastforce
  with assms have "require_confirmed_mutation r = Inr a" and w': "w' = w\<lparr>store := d, step_no := step_no w + 1\<rparr>"
    by (simp_all add: write_store_def storage_access_def Let_def seen_store_def)
  then have "r = Inr (Confirmed a)"
    by (auto simp: require_confirmed_mutation_def split: sum.splits mutation_outcome.splits)
  with r w' show ?thesis
    by (metis run_confirmedD open_connection_sel(3))
qed

lemma seen_store_keeps: "others_keep W I \<Longrightarrow> I (store w) \<Longrightarrow> I (seen_store W w)"
  by (simp add: others_keep_def seen_store_def current_moment_def)

lemma set_first_occurrences: "set (first_occurrences seen xs) = set xs - seen"
  by (induction xs arbitrary: seen) auto

text \<open>An event for the path, no older than a given identifier.\<close>

definition queued_since :: "int \<Rightarrow> ustr \<Rightarrow> database \<Rightarrow> bool" where
  "queued_since n path d \<longleftrightarrow> (\<exists>r \<in> set (feed_events d). fe_feed_url r = path \<and> n \<le> fe_id r)"

definition numbered_from :: "int \<Rightarrow> database \<Rightarrow> bool" where
  "numbered_from n d \<longleftrightarrow> n \<le> next_feed_event_id d"

interpretation numbering: worker_invariant "numbered_from n" for n
proof
  fix c c' :: "database connection" and db q and u :: unit
  assume "numbered_from n (working c)" "feed_step db q c = (Inr u, c')"
  with feed_step_frame [of db q c u c'] show "numbered_from n (working c')" by (auto simp: numbered_from_def)
next
  fix c c' :: "database connection" and parse db p and u :: unit
  assume "numbered_from n (working c)" "publisher_step parse db p c = (Inr u, c')"
  with publisher_step_frame [of parse db p c u c'] show "numbered_from n (working c')" by (auto simp: numbered_from_def)
qed

lemma queued_since_insert:
  assumes "numbered_from n d"
  shows "path \<in> set urls \<Longrightarrow> queued_since n path (fold (insert_feed_event now) urls d)"
    and "queued_since n path d \<Longrightarrow> queued_since n path (fold (insert_feed_event now) urls d)"
proof -
  assume "path \<in> set urls"
  then obtain i where i: "i < length urls" "urls ! i = path" by (auto simp: in_set_conv_nth)
  have e: "(i, urls ! i) \<in> set (enumerate 0 urls)"
    using nth_enumerate_eq [of i urls 0] i(1) by (metis add_0 length_enumerate nth_mem)
  have "new_feed_event (next_feed_event_id d + int i) path now \<in>
      set (map (\<lambda>(i, url). new_feed_event (next_feed_event_id d + int i) url now) (enumerate 0 urls))"
    unfolding set_map using imageI [OF e, of "\<lambda>(i, url). new_feed_event (next_feed_event_id d + int i) url now"] i(2)
    by simp
  then show "queued_since n path (fold (insert_feed_event now) urls d)"
    using assms unfolding queued_since_def insert_feed_events_eq
    by (intro bexI [of _ "new_feed_event (next_feed_event_id d + int i) path now"])
      (simp_all add: new_feed_event_def numbered_from_def)
next
  assume "queued_since n path d"
  then show "queued_since n path (fold (insert_feed_event now) urls d)"
    by (auto simp: queued_since_def insert_feed_events_eq)
qed

lemma enqueue_batches_queue:
  assumes "enqueue_batches W cs w = (Inr u, w')" and "numbered_from n (store w)"
    and "others_keep W (numbered_from n)" and "others_keep W (queued_since n path)"
    and "path \<in> set (concat cs) \<or> queued_since n path (store w)"
  shows "queued_since n path (store w')"
  using assms(1,2,5)
proof (induction cs arbitrary: w)
  case (Cons paths rest)
  obtain u1 w1 where w1: "write_store W (\<lambda>m. enqueue_many (w_backend W) (moment_now m) paths) w = (Inr u1, w1)"
    and rest: "enqueue_batches W rest w1 = (Inr u, w')"
    using Cons.prems(1) by (auto split: prod.splits sum.splits)
  from write_store_okD [OF w1] obtain c c' where c: "working c = seen_store W w"
    "enqueue_many (w_backend W) (moment_now (current_moment W w)) paths c = (Inr u1, c')"
    "w1 = w\<lparr>store := working c', step_no := step_no w + 1\<rparr>" by auto
  from enqueue_many_okD [OF c(2)] c(1,3)
  have s: "store w1 = fold (insert_feed_event (moment_now (current_moment W w))) paths (seen_store W w)" by simp
  have n: "numbered_from n (seen_store W w)" by (rule seen_store_keeps [OF assms(3) Cons.prems(2)])
  then have "numbered_from n (store w1)" by (simp add: s insert_feed_events_eq numbered_from_def)
  moreover have "path \<in> set (concat rest) \<or> queued_since n path (store w1)"
    using Cons.prems(3) queued_since_insert [OF n] seen_store_keeps [OF assms(4), of w] unfolding s by auto
  ultimately show ?case by (rule Cons.IH [OF rest])
qed simp

text \<open>A pass that succeeds has enqueued every path its read named.\<close>

lemma go_live_pass_queues:
  assumes "go_live_pass W now w = (Inr u, w')" and "numbered_from n (store w)"
    and "others_keep W (numbered_from n)" and "others_keep W (queued_since n path)"
    and "go_live_reading (last_tick w) now (reader Sqlite (seen_store W w)) = (Inr urls, reader Sqlite (seen_store W w))"
    and "path \<in> set urls"
  shows "queued_since n path (store w') \<and> last_tick w' = Some now"
proof -
  obtain urls' w1 w2 u2 where r: "read_store W (\<lambda>_. go_live_reading (last_tick w) now) w = (Inr urls', w1)"
    and e: "enqueue_batches W (chunks 256 (first_occurrences {} urls')) w1 = (Inr u2, w2)"
    and w': "w' = w2\<lparr>last_tick := Some now\<rparr>"
    using assms(1) by (auto simp: go_live_pass_def split: prod.splits sum.splits)
  from read_store_okD [OF r] obtain c c' where c: "committed c = seen_store W w"
    "go_live_reading (last_tick w) now c = (Inr urls', c')"
    "w1 = w\<lparr>store := seen_store W w, step_no := step_no w + 1\<rparr>" by blast
  with pool_reading_go_live [of "last_tick w" now] have
    "go_live_reading (last_tick w) now (reader Sqlite (seen_store W w)) = (Inr urls', reader Sqlite (seen_store W w))"
    unfolding pool_reading_def by metis
  with assms(5,6) have "path \<in> set (concat (chunks 256 (first_occurrences {} urls')))"
    by (simp add: concat_chunks set_first_occurrences)
  moreover have "numbered_from n (store w1)"
    using seen_store_keeps [OF assms(3,2)] c(3) by simp
  ultimately have "queued_since n path (store w2)"
    using enqueue_batches_queue [OF e _ assms(3,4)] by blast
  with w' show ?thesis by simp
qed

text \<open>
  A part of the state that no access to the store touches: no step of the worker touches it up to
  the publication.
\<close>

locale world_part =
  fixes part :: "world \<Rightarrow> 'a"
  assumes part_of_access: "part (w\<lparr>store := d, step_no := n\<rparr>) = part w"
begin

lemma access_part: "storage_access W f w = (r, w') \<Longrightarrow> part w' = part w"
  by (auto simp: storage_access_def Let_def part_of_access split: prod.splits)

lemma read_store_part: "read_store W q w = (r, w') \<Longrightarrow> part w' = part w"
  unfolding read_store_def by (rule access_part)

lemma storage_access_part [simp]: "part (snd (storage_access W f w)) = part w"
  by (simp add: storage_access_def Let_def part_of_access split: prod.split)

lemma status_part [simp]:
  "part (snd (write_event_status W t w)) = part w"
  "part (worker_mark_pinged W ids w) = part w"
  "part (worker_dead_letter_regeneration W ids message w) = part w"
  "part (worker_dead_letter_publication W ids message w) = part w"
  "part (retry_regeneration_bucket W message bucket w) = part w"
  "part (retry_publication_bucket W message delay bucket w) = part w"
  "part (worker_restart_regeneration W ids w) = part w"
  "part (worker_reset_regeneration W ids w) = part w"
  by (simp_all add: write_event_status_def write_store_def worker_mark_pinged_def
      worker_dead_letter_regeneration_def worker_dead_letter_publication_def retry_regeneration_bucket_def
      retry_publication_bucket_def worker_restart_regeneration_def worker_reset_regeneration_def)

lemma status_write_part: "write_event_status W t w = (r, w') \<Longrightarrow> part w' = part w"
  unfolding write_event_status_def write_store_def by (rule access_part)

lemma mark_regenerated_part [simp]: "part (snd (worker_mark_regenerated W ids w)) = part w"
  by (auto simp: worker_mark_regenerated_def split: prod.split sum.split dest: status_write_part)

lemma fold_part: "(\<And>x w. part (f x w) = part w) \<Longrightarrow> part (fold f xs w) = part w"
  by (induction xs arbitrary: w) simp_all

lemma buckets_part [simp]:
  "part (fold (retry_regeneration_bucket W message) bs w) = part w"
  "part (fold (retry_publication_bucket W message delay) bs w) = part w"
  by (rule fold_part, simp)+

lemma retry_part [simp]: "part (worker_retry_regeneration W ids rows message w) = part w"
  by (cases "partition_retry_attempts ids rows fr_regeneration_attempts (length regen_backoffs_secs) ([], [])")
    (simp add: worker_retry_regeneration_def)

lemma retry_publication_part [simp]:
  "part (worker_retry_publication W ids rows message delay w) = part w"
  by (cases "partition_retry_attempts ids rows fr_publication_attempts (length publication_backoffs_secs) ([], [])")
    (simp add: worker_retry_publication_def)



lemma snapshot_part: "snapshot_for_group W ids rows w = (r, w') \<Longrightarrow> part w' = part w"
  by (auto simp: snapshot_for_group_def split: prod.splits sum.splits dest: access_part)

lemma load_part: "load_feed_row W s path rids ids rows w = (r, w') \<Longrightarrow> part w' = part w"
  by (auto simp: load_feed_row_def split: prod.splits sum.splits option.splits if_splits dest: read_store_part)

lemma finalize_part: "part (snd (finalize_feed_group W s row rids ids rows w)) = part w"
  by (auto simp: finalize_feed_group_def split: prod.split sum.split bool.split cache_commit_outcome.split
      dest: read_store_part access_part)

end

interpretation tick_part: world_part last_tick
  by unfold_locales simp

interpretation ping_part: world_part pings
  by unfold_locales simp

interpretation gate_part: world_part gate_held
  by unfold_locales simp

text \<open>Only a pass that succeeds moves its instant.\<close>

lemma publish_tick: "last_tick (publish_feed W s path ids rows w) = last_tick w"
  by (auto simp: publish_feed_def send_ping_def Let_def split: prod.split sum.split option.split websub_error.split)

lemma finalize_and_publish_tick: "last_tick (finalize_and_publish W s path row rids ids rows w) = last_tick w"
  using tick_part.finalize_part [of W s row rids ids rows "w\<lparr>gate_held := True\<rparr>"]
  by (auto simp: finalize_and_publish_def publish_tick split: prod.split bool.split)

lemma group_tick: "last_tick (process_feed_group W g w) = last_tick w"
  by (cases g) (auto simp: process_feed_group_def Let_def finalize_and_publish_tick split: prod.split option.split
      dest!: tick_part.snapshot_part tick_part.load_part)

lemma worker_tick_tick:
  "last_tick (worker_tick W w) = last_tick (snd (go_live_pass W (moment_now (current_moment W w)) w))"
  by (auto simp: worker_tick_def Let_def worker_claim_def write_store_def tick_part.fold_part group_tick
      split: prod.split sum.split dest: tick_part.access_part)

lemma pass_ok_tick: "go_live_pass W now w = (Inr u, w') \<Longrightarrow> last_tick w' = Some now"
  by (auto simp: go_live_pass_def split: prod.splits sum.splits)

lemma failed_pass_tick:
  assumes "go_live_pass W now w = (Inl e, w')"
  shows "last_tick w' = last_tick w"
proof -
  have b: "last_tick w2 = last_tick w1" if "enqueue_batches W cs w1 = (r, w2)" for cs w1 w2 r
    using that
  proof (induction cs arbitrary: w1)
    case (Cons paths rest)
    then show ?case by (auto simp: write_store_def split: prod.splits sum.splits dest: tick_part.access_part)
  qed simp
  from assms show ?thesis
    by (auto simp: go_live_pass_def split: prod.splits sum.splits dest!: tick_part.read_store_part b)
qed

text \<open>A public post of a surface, published at some instant.\<close>

definition shows_post :: "post_row \<Rightarrow> feed_surface \<Rightarrow> database \<Rightarrow> bool" where
  "shows_post p s d \<longleftrightarrow> listing_ok d \<and> authors_known d \<and> p \<in> set (posts d) \<and>
     post_published_at p \<noteq> None \<and> post_deleted_at p = None \<and> Public \<in> targets_of (post_id p) d \<and> on_surface d s p"

lemma shows_post_gone_live:
  "shows_post p s d \<Longrightarrow> after < published_instant p \<Longrightarrow> published_instant p \<le> now \<Longrightarrow> gone_live after now d p"
  by (auto simp: shows_post_def gone_live_def publicly_live_def live_at_def published_instant_def published_key_def)

lemma listing_frame:
  "listing_ok (d\<lparr>feed_events := es, next_feed_event_id := n\<rparr>) = listing_ok d"
  "listing_ok (d\<lparr>feed_cache := rows, site_config := cfg, publisher_generation := g\<rparr>) = listing_ok d"
  by (simp_all add: listing_ok_def tags_wf_def license_column_def)

lemma authors_frame:
  "authors_known (d\<lparr>feed_events := es, next_feed_event_id := n\<rparr>) = authors_known d"
  "authors_known (d\<lparr>feed_cache := rows, site_config := cfg, publisher_generation := g\<rparr>) = authors_known d"
  by (simp_all add: authors_known_def find_user_def)

lemma targets_frame:
  "targets_of i (d\<lparr>feed_events := es, next_feed_event_id := n\<rparr>) = targets_of i d"
  "targets_of i (d\<lparr>feed_cache := rows, site_config := cfg, publisher_generation := g\<rparr>) = targets_of i d"
  by (simp_all add: targets_of_def)

lemma author_frame:
  "author_named (d\<lparr>feed_events := es, next_feed_event_id := n\<rparr>) u p = author_named d u p"
  "author_named (d\<lparr>feed_cache := rows, site_config := cfg, publisher_generation := g\<rparr>) u p = author_named d u p"
  by (simp_all add: author_named_def find_user_def)

lemma slugs_frame:
  "post_slugs i (d\<lparr>feed_events := es, next_feed_event_id := n\<rparr>) = post_slugs i d"
  "post_slugs i (d\<lparr>feed_cache := rows, site_config := cfg, publisher_generation := g\<rparr>) = post_slugs i d"
  by (simp_all add: post_slugs_def tag_slug_of_def)

lemma surface_frame:
  "on_surface (d\<lparr>feed_events := es, next_feed_event_id := n\<rparr>) s p = on_surface d s p"
  "on_surface (d\<lparr>feed_cache := rows, site_config := cfg, publisher_generation := g\<rparr>) s p = on_surface d s p"
  by (cases s; simp add: author_frame slugs_frame)+

lemma shows_post_frame:
  "shows_post p s (d\<lparr>feed_events := es, next_feed_event_id := n\<rparr>) = shows_post p s d"
  "shows_post p s (d\<lparr>feed_cache := rows, site_config := cfg, publisher_generation := g\<rparr>) = shows_post p s d"
  unfolding shows_post_def listing_frame authors_frame targets_frame surface_frame by simp_all

interpretation post_kept: worker_invariant "shows_post p s" for p s
proof
  fix c c' :: "database connection" and db q and u :: unit
  assume "shows_post p s (working c)" "feed_step db q c = (Inr u, c')"
  with feed_step_frame [of db q c u c'] show "shows_post p s (working c')" by (auto simp: shows_post_frame)
next
  fix c c' :: "database connection" and parse db q and u :: unit
  assume "shows_post p s (working c)" "publisher_step parse db q c = (Inr u, c')"
  with publisher_step_frame [of parse db q c u c'] show "shows_post p s (working c')" by (auto simp: shows_post_frame)
qed

lemma go_live_reading_names:
  assumes "shows_post p s d" and "after < published_instant p" and "published_instant p \<le> now"
  shows "\<exists>urls. go_live_reading (Some after) now (reader db d) = (Inr urls, reader db d) \<and> canonicalize s f \<in> set urls"
proof -
  from assms(1) have ok: "listing_ok d" "authors_known d" by (simp_all add: shows_post_def)
  from gone_live_reader [OF ok, of after now db] obtain gs where
    gs: "list_posts_gone_live_between after now (reader db d) = (Inr gs, reader db d)"
    and set: "(\<Union>g \<in> set gs. set (affected_feed_urls (gone_live_username g) (gone_live_slugs g))) = gone_live_paths after now d"
    by blast
  have "canonicalize s f \<in> gone_live_paths after now d"
    unfolding gone_live_paths_def using shows_post_gone_live [OF assms] assms(1)
    by (auto simp: shows_post_def)
  with set have "canonicalize s f \<in> set (gone_live_urls gs)" by (auto simp: gone_live_urls_def)
  with gs show ?thesis by (simp add: go_live_reading_def tx_bind_def tx_map_err_def tx_return_def)
qed

text \<open>
  C12: no post that goes live is lost. Once a pass has run, whichever later passes fail and however
  late they come: by the time the instant of the previous pass has reached the publication of a public
  post, one of the ticks has enqueued an event, newer than all those of the beginning, for every feed
  of every surface of that post. The other writers must leave the post and its author alone, count
  the event identifiers upwards and not delete such an event.
\<close>

theorem go_live_never_lost:
  assumes "others_keep W (shows_post p s)" and "others_keep W (numbered_from n)"
    and "others_keep W (queued_since n (canonicalize s f))"
    and "shows_post p s (store w)" and "numbered_from n (store w)"
    and "last_tick w = Some start" and "start < published_instant p"
    and "last_tick ((worker_tick W ^^ k) w) = Some instant" and "published_instant p \<le> instant"
  shows "\<exists>i < k. let wi = (worker_tick W ^^ i) w
    in queued_since n (canonicalize s f) (store (snd (go_live_pass W (moment_now (current_moment W wi)) wi)))"
  using assms(8,9)
proof (induction k arbitrary: instant)
  case 0
  with assms(6,7) show ?case by simp
next
  case (Suc k)
  let ?w = "(worker_tick W ^^ k) w"
  let ?now = "moment_now (current_moment W ?w)"
  obtain r w' where pass: "go_live_pass W ?now ?w = (r, w')" by fastforce
  have tick: "last_tick w' = Some instant" using Suc.prems(1) by (simp add: worker_tick_tick pass)
  have shown: "shows_post p s (store ?w)" and num: "numbered_from n (store ?w)"
    by (rule post_kept.ticks_keep [OF assms(1,4)], rule numbering.ticks_keep [OF assms(2,5)])
  show ?case
  proof (cases "\<exists>t. last_tick ?w = Some t \<and> published_instant p \<le> t")
    case True
    with Suc.IH show ?thesis by (meson less_Suc_eq)
  next
    case False
    have "last_tick ?w \<noteq> None"
    proof (induction k)
      case (Suc j)
      let ?v = "(worker_tick W ^^ j) w"
      obtain r v where v: "go_live_pass W (moment_now (current_moment W ?v)) ?v = (r, v)" by fastforce
      then have "last_tick v \<noteq> None"
        using Suc failed_pass_tick [of W _ ?v] by (cases r) (simp_all add: pass_ok_tick)
      then show ?case by (simp add: worker_tick_tick v)
    qed (simp add: assms(6))
    with False obtain a where a: "last_tick ?w = Some a" "a < published_instant p" by force
    have "r \<noteq> Inl e" for e using failed_pass_tick [of W ?now ?w e w'] pass tick a Suc.prems(2) by auto
    then obtain u where r: "r = Inr u" by (cases r) auto
    then have "last_tick w' = Some ?now" using pass by (simp add: pass_ok_tick)
    with tick Suc.prems(2) have "published_instant p \<le> ?now" by simp
    from go_live_reading_names [OF seen_store_keeps [OF assms(1) shown] a(2) this, of Sqlite f] obtain urls where
      "go_live_reading (last_tick ?w) ?now (reader Sqlite (seen_store W ?w)) = (Inr urls, reader Sqlite (seen_store W ?w))"
      "canonicalize s f \<in> set urls" unfolding a(1) by blast
    from go_live_pass_queues [OF pass [unfolded r] num assms(2,3) this] show ?thesis
      by (intro exI [of _ k]) (simp add: pass Let_def)
  qed
qed

subsection \<open>Publications\<close>

text \<open>
  Relative to a generation that was read: the generation does not go back, and while it is the same
  the configuration reads the same and a feed that was cached still is.
\<close>

definition fenced_reading :: "url_parser \<Rightarrow> int \<Rightarrow> sql_error + publisher_snapshot \<Rightarrow> database \<Rightarrow> bool" where
  "fenced_reading parse g r d \<longleftrightarrow> g \<le> publisher_generation d \<and>
     (publisher_generation d = g \<longrightarrow> snapshot_from_row parse (site_config d) g = r)"

definition served :: "int \<Rightarrow> ustr \<Rightarrow> database \<Rightarrow> bool" where
  "served g path d \<longleftrightarrow> g \<le> publisher_generation d \<and>
     (publisher_generation d = g \<longrightarrow> find_cached path d \<noteq> None)"

lemma find_cached_iff: "find_cached path d \<noteq> None \<longleftrightarrow> path \<in> fc_feed_url ` set (feed_cache d)"
  by (auto simp: find_cached_def find_None_iff)

lemma find_cached_upsert:
  assumes "upsert_on_connection row c = (Inr eff, c')"
  shows "find_cached (row_feed_path row) (working c') \<noteq> None"
    and "find_cached path (working c) \<noteq> None \<Longrightarrow> find_cached path (working c') \<noteq> None"
proof -
  obtain st where st: "upsert_stored (stored_of row) (working c) = (Inr st, working c')"
    using assms by (auto simp: upsert_on_connection_def tx_simps tx_of_result_def split: sum.splits)
  have path: "fc_feed_url (stored_of row) = row_feed_path row" by (simp add: stored_of_def)
  have keys: "fc_feed_url (merge_cached old new) = fc_feed_url old" for old new
    by (simp add: merge_cached_def Let_def)
  have "fc_feed_url ` set (feed_cache (working c')) =
      insert (row_feed_path row) (fc_feed_url ` set (feed_cache (working c)))"
  proof (cases "find_cached (row_feed_path row) (working c)")
    case None
    with st have "working c' = (working c)\<lparr>feed_cache := feed_cache (working c) @ [stored_of row]\<rparr>"
      by (auto simp: upsert_stored_def path)
    then show ?thesis by (simp add: path)
  next
    case (Some old)
    with st have "working c' = (working c)\<lparr>feed_cache := update_where (\<lambda>r. fc_feed_url r = row_feed_path row)
        (\<lambda>r. merge_cached r (stored_of row)) (feed_cache (working c))\<rparr>"
      by (simp add: upsert_stored_def path)
    then have "map fc_feed_url (feed_cache (working c')) = map fc_feed_url (feed_cache (working c))"
      by (simp add: map_update_where keys)
    moreover have "row_feed_path row \<in> fc_feed_url ` set (feed_cache (working c))"
      using Some by (auto simp: find_cached_def find_Some_iff) (metis image_eqI nth_mem)
    ultimately show ?thesis by (metis insert_absorb list.set_map)
  qed
  then show "find_cached (row_feed_path row) (working c') \<noteq> None"
    and "find_cached path (working c) \<noteq> None \<Longrightarrow> find_cached path (working c') \<noteq> None"
    by (simp_all only: find_cached_iff insert_iff simp_thms)
qed

interpretation fence: worker_invariant "fenced_reading parse g r" for parse g r
proof
  fix c c' :: "database connection" and db q and u :: unit
  assume "fenced_reading parse g r (working c)" "feed_step db q c = (Inr u, c')"
  with feed_step_frame [of db q c u c'] show "fenced_reading parse g r (working c')"
    by (auto simp: fenced_reading_def)
next
  fix c c' :: "database connection" and parse' db p and u :: unit
  assume f: "fenced_reading parse g r (working c)" and s: "publisher_step parse' db p c = (Inr u, c')"
  from publisher_step_effect [OF s] show "fenced_reading parse g r (working c')"
  proof (elim disjE exE conjE)
    fix row c0 eff
    assume "working c0 = working c" "upsert_on_connection row c0 = (Inr eff, c')"
    with upsert_on_connection_frame [of row c0 eff c'] obtain rows
      where "working c' = (working c)\<lparr>feed_cache := rows\<rparr>" by auto
    with f show ?thesis by (simp add: fenced_reading_def)
  qed (use f in \<open>auto simp: fenced_reading_def\<close>)
qed

interpretation cache_fence: worker_invariant "served g path" for g path
proof
  fix c c' :: "database connection" and db q and u :: unit
  assume "served g path (working c)" "feed_step db q c = (Inr u, c')"
  with feed_step_frame [of db q c u c'] show "served g path (working c')"
    by (auto simp: served_def find_cached_def)
next
  fix c c' :: "database connection" and parse' db p and u :: unit
  assume f: "served g path (working c)" and s: "publisher_step parse' db p c = (Inr u, c')"
  from publisher_step_effect [OF s] show "served g path (working c')"
  proof (elim disjE exE conjE)
    fix row c0 eff
    assume up: "working c0 = working c" "upsert_on_connection row c0 = (Inr eff, c')"
    with upsert_on_connection_frame [of row c0 eff c'] obtain rows
      where "working c' = (working c)\<lparr>feed_cache := rows\<rparr>" by auto
    with f find_cached_upsert(2) [OF up(2), of path] up(1) show ?thesis by (simp add: served_def)
  qed (use f in \<open>auto simp: served_def\<close>)
qed

text \<open>
  What is asked of the others: they respect the fence, and none of them moves the generation while
  the worker holds the gate.
\<close>

definition publisher_respected :: "worker \<Rightarrow> bool" where
  "publisher_respected W \<longleftrightarrow>
     (\<forall>g r. others_keep W (fenced_reading (w_url_parser W) g r)) \<and>
     (\<forall>g path. others_keep W (served g path)) \<and>
     (\<forall>n d. publisher_generation (interference (w_moments W n) True d) = publisher_generation d)"

definition current_ping :: "worker \<Rightarrow> ping \<Rightarrow> bool" where
  "current_ping W p \<longleftrightarrow> (\<exists>snapshot base.
     snapshot_from_row (w_url_parser W) (site_config (ping_store p)) (publisher_generation (ping_store p)) = Inr snapshot \<and>
     feeds_websub_hub_url (snapshot_feeds snapshot) = Some (ping_hub p) \<and>
     identity_base_url (snapshot_identity snapshot) = Some base \<and>
     ping_feed p = join_url (w_render_env W) base (ping_path p) \<and>
     find_cached (ping_path p) (ping_store p) \<noteq> None)"

lemma snapshot_from_row_generation:
  "snapshot_from_row parse cfg g = Inr s \<Longrightarrow> snapshot_generation s = g"
  by (auto simp: snapshot_from_row_def Let_def split: sum.splits)

lemma service_snapshot_reads:
  "service_snapshot parse db env meanwhile d = (Inr s, d') \<Longrightarrow>
     snapshot_from_row parse (site_config d') (publisher_generation d') = Inr s"
  by (auto simp: service_snapshot_def read_snapshot_def
      split: sum.splits option.splits prod.splits mutation_outcome.splits if_splits)

lemma snapshot_for_group_reads:
  assumes "snapshot_for_group W ids rows w = (Some s, w1)"
  shows "fenced_reading (w_url_parser W) (snapshot_generation s) (Inr s) (store w1)"
proof -
  from assms have "snapshot_from_row (w_url_parser W) (site_config (store w1)) (publisher_generation (store w1)) = Inr s"
    by (auto simp: snapshot_for_group_def storage_access_def Let_def split: prod.splits sum.splits dest: service_snapshot_reads)
  with snapshot_from_row_generation [OF this] show ?thesis by (simp add: fenced_reading_def)
qed

lemma render_path:
  assumes "render E C b s path now c = (Inr row, c')"
  shows "row_feed_path row = path"
proof -
  from assms obtain sf f records where "render_row E C s path sf f now records = Inr row"
    by (cases "parse_feed_path path") (auto simp: render_def tx_simps tx_of_result_apply)
  from render_row_Inr [OF this] show ?thesis by metis
qed

lemma load_feed_row_path:
  assumes "load_feed_row W s path rids ids rows w = (Some row, w1)"
  shows "if rids = [] then served (publisher_generation (store w1)) path (store w1) else row_feed_path row = path"
proof (cases "rids = []")
  case True
  with assms have "read_store W (\<lambda>_. get_cached path) w = (Inr (Some row), w1)"
    by (auto simp: load_feed_row_def split: prod.splits sum.splits option.splits)
  from read_store_okD [OF this] have "find_cached path (store w1) \<noteq> None"
    by (auto simp: get_cached_def tx_simps)
  with True show ?thesis by (simp add: served_def)
next
  case False
  with assms have "read_store W (\<lambda>m. render (w_render_env W) (w_calendar W) (w_range W) s path (moment_now m)) w =
      (Inr row, w1)"
    by (auto simp: load_feed_row_def split: prod.splits sum.splits)
  then obtain c c' where run: "render (w_render_env W) (w_calendar W) (w_range W) s path
      (moment_now (current_moment W w)) c = (Inr row, c')" by (blast dest: read_store_okD)
  from render_path [OF this] False show ?thesis by simp
qed

lemma load_feed_row_keeps:
  assumes "publisher_respected W" and "fenced_reading (w_url_parser W) g r (store w)"
    and "load_feed_row W s path rids ids rows w = (x, w1)"
  shows "fenced_reading (w_url_parser W) g r (store w1)"
proof -
  from assms(1) have "others_keep W (fenced_reading (w_url_parser W) g r)" by (simp add: publisher_respected_def)
  from fence.load_keeps [OF this assms(2), of s path rids ids rows] assms(3) show ?thesis by simp
qed

text \<open>While the gate is held, a write to the queue does not move the generation.\<close>

lemma mark_regenerated_generation:
  assumes "publisher_respected W" and "gate_held w" and "worker_mark_regenerated W ids w = (True, w1)"
  shows "publisher_generation (store w1) = publisher_generation (store w)"
proof -
  have "write_event_status W (\<lambda>m. mark_regenerated (w_backend W) ids (moment_now m)) w = (Inr (), w1)"
    using assms(3) by (auto simp: worker_mark_regenerated_def split: prod.splits sum.splits)
  then obtain c c' where c: "working c = seen_store W w"
    "mark_regenerated (w_backend W) ids (moment_now (current_moment W w)) c = (Inr (), c')"
    "w1 = w\<lparr>store := working c', step_no := step_no w + 1\<rparr>"
    unfolding write_event_status_def by (blast dest: write_store_okD)
  from outcome_okD(1) [OF c(2)] c(1,3) have "publisher_generation (store w1) = publisher_generation (seen_store W w)"
    by (simp add: events_updated_def)
  also have "\<dots> = publisher_generation (store w)"
    using assms(1,2) by (simp add: seen_store_def current_moment_def publisher_respected_def)
  finally show ?thesis .
qed

lemma finalize_feed_group_current:
  assumes "publisher_respected W" and "gate_held w"
    and "fenced_reading (w_url_parser W) (snapshot_generation s) (Inr s) (store w)"
    and "if rids = [] then served (publisher_generation (store w)) path (store w) else row_feed_path row = path"
    and "finalize_feed_group W s row rids ids rows w = (True, w1)"
  shows "publisher_generation (store w1) = snapshot_generation s \<and>
    served (snapshot_generation s) path (store w1) \<and>
    fenced_reading (w_url_parser W) (snapshot_generation s) (Inr s) (store w1) \<and> gate_held w1"
proof -
  let ?g = "snapshot_generation s"
  from assms(1) have others: "others_keep W (fenced_reading (w_url_parser W) ?g (Inr s))"
    "\<And>g. others_keep W (served g path)" by (simp_all add: publisher_respected_def)
  have "fenced_reading (w_url_parser W) ?g (Inr s) (store w1)"
    using fence.finalize_keeps [OF others(1) assms(3), of s row rids ids rows] assms(5) by simp
  moreover have "gate_held w1" using gate_part.finalize_part [of W s row rids ids rows w] assms(2,5) by simp
  moreover have "publisher_generation (store w1) = ?g \<and> served ?g path (store w1)"
  proof (cases "rids = []")
    case True
    with assms(5) have "read_store W (\<lambda>_. is_current_generation ?g) w = (Inr True, w1)"
      by (auto simp: finalize_feed_group_def split: prod.splits sum.splits bool.splits)
    from read_store_okD [OF this] have cur: "store w1 = seen_store W w" "publisher_generation (store w1) = ?g"
      by (auto simp: is_current_generation_def tx_simps)
    have "served (publisher_generation (store w)) path (store w1)"
      using seen_store_keeps [OF others(2)] assms(4) True cur(1) by simp
    moreover have "?g \<le> publisher_generation (store w)" using assms(3) by (simp add: fenced_reading_def)
    ultimately show ?thesis using cur(2) by (auto simp: served_def)
  next
    case False
    with assms(5) obtain eff w2 where commit: "storage_access W (\<lambda>m. finalize_commit_cache (w_backend W)
        (moment_scope m) ?g row) w = (Inr (Cache_Committed eff), w2)"
      and mark: "worker_mark_regenerated W rids w2 = (True, w1)"
      by (auto simp: finalize_feed_group_def split: prod.splits sum.splits cache_commit_outcome.splits)
    from commit obtain d where "finalize_commit_cache (w_backend W) (moment_scope (current_moment W w)) ?g row
        (seen_store W w) = (Inr (Cache_Committed eff), d)" and w2: "w2 = w\<lparr>store := d, step_no := step_no w + 1\<rparr>"
      by (auto simp: storage_access_def Let_def seen_store_def split: prod.splits)
    then obtain c where "commit_cache (w_backend W) ?g row
        (open_connection (w_backend W) (moment_scope (current_moment W w)) (seen_store W w)) = (Inr (Cache_Committed eff), c)"
      and d: "d = working c"
      by (auto simp: finalize_commit_cache_def split: prod.splits sum.splits write_scope_error.splits
          mutation_outcome.splits dest!: run_confirmedD)
    from commit_cache_okD [OF this(1)] obtain c0 where gen: "publisher_generation (seen_store W w) = ?g"
      and up: "working c0 = seen_store W w" "upsert_on_connection row c0 = (Inr eff, c)"
      by (auto split: if_splits)
    from upsert_on_connection_frame [OF up(2)] up(1) gen have "publisher_generation d = ?g"
      using d by (metis (no_types) database.select_convs(34) database.surjective database.update_convs(32))
    moreover have "find_cached path d \<noteq> None" using find_cached_upsert(1) [OF up(2)] assms(4) False d by simp
    ultimately have 2: "served ?g path (store w2)" "publisher_generation (store w2) = ?g"
      using w2 by (simp_all add: served_def)
    have "gate_held w2" using w2 assms(2) by simp
    from mark_regenerated_generation [OF assms(1) this mark] 2(2) have "publisher_generation (store w1) = ?g" by simp
    moreover have "served ?g path (store w1)"
      using cache_fence.status_keeps(1) [OF others(2) 2(1), of rids] mark by simp
    ultimately show ?thesis by blast
  qed
  ultimately show ?thesis by blast
qed

text \<open>The publications a step adds are all current.\<close>

definition sends_current :: "worker \<Rightarrow> world \<Rightarrow> world \<Rightarrow> bool" where
  "sends_current W w w' \<longleftrightarrow> (\<exists>sent. pings w' = pings w @ sent \<and> list_all (current_ping W) sent)"

lemma sends_current_same: "pings w' = pings w \<Longrightarrow> sends_current W w w'"
  by (simp add: sends_current_def)

lemma sends_current_trans: "sends_current W w w1 \<Longrightarrow> sends_current W w1 w2 \<Longrightarrow> sends_current W w w2"
  by (auto simp: sends_current_def)

lemma sends_current_fold:
  "(\<And>x w. sends_current W w (f x w)) \<Longrightarrow> sends_current W w (fold f xs w)"
  by (induction xs arbitrary: w) (auto simp: sends_current_same intro: sends_current_trans)

lemma publish_feed_sends:
  assumes "publisher_respected W" and "gate_held w"
    and "publisher_generation (store w) = snapshot_generation s"
    and "served (snapshot_generation s) path (store w)"
    and "fenced_reading (w_url_parser W) (snapshot_generation s) (Inr s) (store w)"
  shows "sends_current W w (publish_feed W s path ids rows w)"
proof (cases "feeds_websub_hub_url (snapshot_feeds s)")
  case None
  then show ?thesis by (simp add: publish_feed_def sends_current_same)
next
  case hub: (Some hub)
  show ?thesis
  proof (cases "identity_base_url (snapshot_identity s)")
    case None
    with hub show ?thesis by (simp add: publish_feed_def sends_current_same)
  next
    case base: (Some base)
    let ?d = "seen_store W w"
    let ?p = "\<lparr>ping_hub = hub, ping_feed = join_url (w_render_env W) base path, ping_path = path, ping_store = ?d\<rparr>"
    obtain r w1 where send: "send_ping W hub (join_url (w_render_env W) base path) path w = (r, w1)" by fastforce
    then have w1: "pings w1 = pings w @ [?p]" by (auto simp: send_ping_def seen_store_def Let_def)
    have "publisher_generation ?d = snapshot_generation s"
      using assms(1-3) by (simp add: seen_store_def current_moment_def publisher_respected_def)
    moreover have "served (snapshot_generation s) path ?d"
      "fenced_reading (w_url_parser W) (snapshot_generation s) (Inr s) ?d"
      using assms(1,4,5) seen_store_keeps [of W "served (snapshot_generation s) path" w]
        seen_store_keeps [of W "fenced_reading (w_url_parser W) (snapshot_generation s) (Inr s)" w]
      by (simp_all add: publisher_respected_def)
    ultimately have "current_ping W ?p"
      using hub base by (simp add: current_ping_def served_def fenced_reading_def)
    moreover have "pings (publish_feed W s path ids rows w) = pings w1"
      using hub base send by (simp add: publish_feed_def split: sum.split websub_error.split)
    ultimately show ?thesis using w1 by (simp add: sends_current_def)
  qed
qed

lemma process_feed_group_sends:
  assumes "publisher_respected W"
  shows "sends_current W w (process_feed_group W g w)"
proof -
  obtain path rows where g: "g = (path, rows)" by (cases g)
  let ?ids = "map fr_id rows"
  let ?rids = "map fr_id (filter (\<lambda>r. fr_phase r = Regeneration) rows)"
  obtain os w1 where snap: "snapshot_for_group W ?ids rows w = (os, w1)" by fastforce
  note p1 = ping_part.snapshot_part [OF snap]
  show ?thesis
  proof (cases os)
    case None
    with snap p1 g show ?thesis by (simp add: process_feed_group_def Let_def sends_current_same)
  next
    case (Some s)
    obtain orow w2 where load: "load_feed_row W s path ?rids ?ids rows w1 = (orow, w2)" by fastforce
    note p2 = ping_part.load_part [OF load]
    show ?thesis
    proof (cases orow)
      case None
      with snap load p1 p2 Some g show ?thesis by (simp add: process_feed_group_def Let_def sends_current_same)
    next
      case row: (Some row)
      have fin: "process_feed_group W g w = finalize_and_publish W s path row ?rids ?ids rows w2"
        using snap load Some row g by (simp add: process_feed_group_def Let_def)
      let ?held = "w2\<lparr>gate_held := True\<rparr>"
      have fenced: "fenced_reading (w_url_parser W) (snapshot_generation s) (Inr s) (store ?held)"
        using load_feed_row_keeps [OF assms snapshot_for_group_reads load] snap Some by simp
      have path: "if ?rids = [] then served (publisher_generation (store ?held)) path (store ?held) else row_feed_path row = path"
        using load_feed_row_path [of W s path ?rids ?ids rows w1 row w2] load row by simp
      obtain ok w3 where final: "finalize_feed_group W s row ?rids ?ids rows ?held = (ok, w3)" by fastforce
      have p3: "pings w3 = pings w2"
        using ping_part.finalize_part [of W s row ?rids ?ids rows ?held] final by simp
      show ?thesis
      proof (cases "moment_gate (current_moment W w2) \<and> ok")
        case False
        then show ?thesis
          unfolding fin finalize_and_publish_def using final p1 p2 p3
          by (auto simp: sends_current_same split: bool.split)
      next
        case True
        have "sends_current W w3 (publish_feed W s path ?ids rows w3)"
          using finalize_feed_group_current [OF assms _ fenced path, of ?ids rows w3] final True
          by (intro publish_feed_sends [OF assms]) simp_all
        then show ?thesis
          unfolding fin finalize_and_publish_def using final p1 p2 p3 True
          by (simp add: sends_current_def)
      qed
    qed
  qed
qed

lemma go_live_pass_pings: "pings (snd (go_live_pass W now w)) = pings w"
proof -
  have b: "pings w2 = pings w1" if "enqueue_batches W cs w1 = (r, w2)" for cs w1 w2 r
    using that
  proof (induction cs arbitrary: w1)
    case (Cons paths rest)
    then show ?case by (auto simp: write_store_def split: prod.splits sum.splits dest: ping_part.access_part)
  qed simp
  show ?thesis
    by (auto simp: go_live_pass_def split: prod.split sum.split dest!: ping_part.read_store_part b)
qed

lemma worker_tick_sends:
  assumes "publisher_respected W"
  shows "sends_current W w (worker_tick W w)"
proof -
  let ?w1 = "snd (go_live_pass W (moment_now (current_moment W w)) w)"
  obtain r w2 where claim: "worker_claim W ?w1 = (r, w2)" by fastforce
  then have "pings w2 = pings w"
    using go_live_pass_pings by (auto simp: worker_claim_def write_store_def dest: ping_part.access_part)
  then have "sends_current W w w2" by (rule sends_current_same)
  moreover have "sends_current W w2 (worker_tick W w)"
    using claim sends_current_fold [of W "process_feed_group W", OF process_feed_group_sends [OF assms]]
    by (simp add: worker_tick_def sends_current_same split: sum.split)
  ultimately show ?thesis by (rule sends_current_trans)
qed


subsection \<open>A quiet site\<close>

definition quiet_moment :: moment where
  "quiet_moment = \<lparr>interference = (\<lambda>_ d. d), moment_now = 5, moment_scope = clean_env, moment_locked = {},
     moment_snapshot = \<lparr>first_read_fails = False, gate_fails = False, repair_env = clean_env,
       second_read_fails = False\<rparr>, moment_repair = (\<lambda>d. d), moment_gate = True\<rparr>"

definition quiet_worker :: worker where
  "quiet_worker = \<lparr>w_backend = Sqlite, w_range = example_range, w_url_parser = example_url_parser,
     w_render_env = example_render_env, w_calendar = example_calendar,
     w_publish = (\<lambda>_. noop_send_publish), w_moments = (\<lambda>_. quiet_moment), w_group_order = id,
     w_bucket_order = id, w_cause_text = (\<lambda>_. [])\<rparr>"

definition ada_world :: world where
  "ada_world = (initial_world public_post)\<lparr>last_tick := Some 1\<rparr>"

lemma quiet_fields [simp]:
  "interference quiet_moment gate d = d" "moment_repair quiet_moment d = d" "moment_now quiet_moment = 5"
  "moment_scope quiet_moment = clean_env" "w_backend quiet_worker = Sqlite" "w_moments quiet_worker n = quiet_moment"
  "w_group_order quiet_worker gs = gs" "w_bucket_order quiet_worker bs = bs"
  by (simp_all add: quiet_worker_def quiet_moment_def)

lemma quiet_others: "others_keep quiet_worker I"
  by (simp add: others_keep_def)

lemma quiet_seen [simp]: "seen_store quiet_worker w = store w" "current_moment quiet_worker w = quiet_moment"
  by (simp_all add: seen_store_def current_moment_def)

lemma quiet_connection [simp]: "open_connection db clean_env d = reader db d"
  by (simp add: open_connection_def reader_def)

lemma quiet_access:
  "storage_access quiet_worker f w =
     (case f quiet_moment (store w) of (r, d) \<Rightarrow> (r, w\<lparr>store := d, step_no := step_no w + 1\<rparr>))"
  by (simp add: storage_access_def Let_def)

lemma enqueue_many_clean: "faults c = [] \<Longrightarrow> held c = db \<Longrightarrow> \<exists>c'. enqueue_many db now paths c = (Inr (), c')"
proof -
  assume c: "faults c = []" "held c = db"
  have "\<exists>c'. insert_chunks at cs c = (Inr (), c')" if "faults c = []" for at cs and c :: "database connection"
    using that by (induction cs arbitrary: c) (simp_all add: tx_eval)
  from this [OF c(1), of now "chunks 250 paths"] c show ?thesis
    by (auto simp: enqueue_many_def tx_map_err_def tx_bind_def write_connection_def)
qed

lemma quiet_enqueue: "\<exists>w'. enqueue_batches quiet_worker cs w = (Inr (), w')"
proof (induction cs arbitrary: w)
  case (Cons paths rest)
  obtain c' where "enqueue_many Sqlite 5 paths (reader Sqlite (store w)) = (Inr (), c')"
    using enqueue_many_clean [of "reader Sqlite (store w)" Sqlite 5 paths] by auto
  then have "\<exists>w1. write_store quiet_worker (\<lambda>m. enqueue_many (w_backend quiet_worker) (moment_now m) paths) w = (Inr (), w1)"
    by (simp add: write_store_def quiet_access run_def require_confirmed_mutation_def classify_commit_result_def)
  with Cons show ?case by (auto split: prod.split)
qed simp

lemma ada_shown: "shows_post (example_post 7 1 ''hello'' (Some 2)) Site (store ada_world)"
  using public_post_live public_post_listing_ok public_post_ok
  by (auto simp: shows_post_def ada_world_def initial_world_def publicly_live_def live_at_def
      public_post_def subscribers_post_def example_post_def)

lemma ada_tick: "last_tick (worker_tick quiet_worker ada_world) = Some 5"
proof -
  let ?p = "example_post 7 1 ''hello'' (Some 2)"
  have "published_instant ?p = 2" by (simp add: published_instant_def published_key_def example_post_def)
  then obtain urls where urls: "go_live_reading (Some 1) 5 (reader Sqlite (store ada_world)) = (Inr urls, reader Sqlite (store ada_world))"
    using go_live_reading_names [OF ada_shown, of 1 5 Sqlite Rss] by auto
  have read: "\<exists>w1. read_store quiet_worker (\<lambda>_. go_live_reading (last_tick ada_world) 5) ada_world = (Inr urls, w1)"
    using urls by (simp add: read_store_def quiet_access) (simp add: ada_world_def)
  then obtain w1 where w1: "read_store quiet_worker (\<lambda>_. go_live_reading (last_tick ada_world) 5) ada_world = (Inr urls, w1)"
    by blast
  obtain w2 where "enqueue_batches quiet_worker (chunks 256 (first_occurrences {} urls)) w1 = (Inr (), w2)"
    using quiet_enqueue by blast
  with w1 have "go_live_pass quiet_worker 5 ada_world = (Inr (), w2\<lparr>last_tick := Some 5\<rparr>)"
    by (simp add: go_live_pass_def)
  then show ?thesis by (simp add: worker_tick_tick)
qed

lemma go_live_never_lost_witness:
  "queued_since 1 (canonicalize Site Rss) (store (snd (go_live_pass quiet_worker 5 ada_world)))"
proof -
  let ?p = "example_post 7 1 ''hello'' (Some 2)"
  have "numbered_from 1 (store ada_world)"
    by (simp add: numbered_from_def ada_world_def initial_world_def public_post_defs empty_database_def)
  moreover have "last_tick ada_world = Some 1" "(1 :: int) < published_instant ?p" "published_instant ?p \<le> 5"
    by (simp_all add: ada_world_def published_instant_def published_key_def example_post_def)
  moreover have "last_tick ((worker_tick quiet_worker ^^ 1) ada_world) = Some 5" by (simp add: ada_tick)
  ultimately show ?thesis
    using go_live_never_lost [OF quiet_others quiet_others quiet_others ada_shown, of 1 1 1 5 Rss]
    by (simp add: Let_def)
qed

lemma worker_keeps_queue_witness: "events_ok (store ((worker_tick quiet_worker ^^ 2) ada_world))"
  by (rule worker_keeps_queue [OF quiet_others])
    (simp add: ada_world_def initial_world_def public_post_defs empty_database_def events_ok_def)


end
