(* ===== verification/Worker_Budget.thy ===== *)
theory Worker_Budget
  imports Worker_Runs "HOL-Library.Multiset"
begin

section \<open>The retry budgets of the feed worker\<close>

text \<open>
  How often the worker of \<^verbatim>\<open>server/src/feed/worker.rs\<close> tries one event: the partition into
  buckets, the status writes and the whole tick, followed row by row. The rows the worker has claimed
  are its own as long as the other writers leave claimed rows alone.
\<close>

subsection \<open>The partition\<close>

lemma add_to_bucket_entries:
  "(j, l) \<in> set (add_to_bucket i x bs) \<Longrightarrow> (j, l) \<in> set bs \<or>
     (j = i \<and> (\<exists>l0. l = l0 @ [x] \<and> (l0 = [] \<or> (j, l0) \<in> set bs)))"
  by (induction i x bs rule: add_to_bucket.induct) (auto split: if_splits)

lemma add_to_bucket_keys:
  "fst ` set (add_to_bucket i x bs) = insert i (fst ` set bs)"
  by (induction i x bs rule: add_to_bucket.induct) auto

lemma add_to_bucket_distinct:
  "distinct (map fst bs) \<Longrightarrow> distinct (map fst (add_to_bucket i x bs))"
proof (induction i x bs rule: add_to_bucket.induct)
  case (2 i x j xs bs)
  then show ?case using add_to_bucket_keys [of i x bs] by auto
qed simp

definition buckets_ok :: "(int \<Rightarrow> nat) \<Rightarrow> nat \<Rightarrow> int set \<Rightarrow> (nat \<times> int list) list \<times> int list \<Rightarrow> bool" where
  "buckets_ok idx budget ids acc \<longleftrightarrow> distinct (map fst (fst acc)) \<and>
     (\<forall>(j, l) \<in> set (fst acc). j < budget \<and> (\<forall>i \<in> set l. i \<in> ids \<and> idx i = j)) \<and>
     (\<forall>i \<in> set (snd acc). i \<in> ids \<and> budget \<le> idx i)"

lemma buckets_ok_bucket:
  assumes "buckets_ok idx budget all (buckets, exhausted)" and "i \<in> all" and "idx i < budget"
  shows "buckets_ok idx budget all (add_to_bucket (idx i) i buckets, exhausted)"
proof -
  have "j < budget \<and> (\<forall>k \<in> set l. k \<in> all \<and> idx k = j)" if jl: "(j, l) \<in> set (add_to_bucket (idx i) i buckets)" for j l
  proof -
    from add_to_bucket_entries [OF jl] show ?thesis
    proof (elim disjE conjE exE)
      assume "(j, l) \<in> set buckets"
      with assms(1) show ?thesis by (auto simp: buckets_ok_def)
    next
      fix l0
      assume "j = idx i" "l = l0 @ [i]" "l0 = []"
      with assms(2,3) show ?thesis by simp
    next
      fix l0
      assume "j = idx i" "l = l0 @ [i]" "(j, l0) \<in> set buckets"
      with assms show ?thesis by (auto simp: buckets_ok_def)
    qed
  qed
  then show ?thesis using assms(1) add_to_bucket_distinct by (auto simp: buckets_ok_def)
qed

lemma partition_buckets_ok:
  assumes "set ids \<subseteq> all" and "buckets_ok (attempt_index attempts rows) budget all acc"
  shows "buckets_ok (attempt_index attempts rows) budget all (partition_retry_attempts ids rows attempts budget acc)"
  using assms
proof (induction ids rows attempts budget acc rule: partition_retry_attempts.induct)
  case (2 i ids rows attempts budget buckets exhausted)
  let ?idx = "attempt_index attempts rows"
  have "buckets_ok ?idx budget all (if budget \<le> ?idx i then (buckets, exhausted @ [i])
      else (add_to_bucket (?idx i) i buckets, exhausted))"
    using 2(2,3) buckets_ok_bucket [of ?idx budget all buckets exhausted i] by (auto simp: buckets_ok_def)
  with 2(1,2) show ?case by (simp add: Let_def)
qed simp

lemma attempt_index_row:
  assumes "distinct (map fr_id rows)" and "rec \<in> set rows" and "0 \<le> attempts rec"
  shows "attempt_index attempts rows (fr_id rec) = nat (attempts rec)"
proof -
  have "map fst (rev (map (\<lambda>r. (fr_id r, attempts r)) rows)) = rev (map fr_id rows)"
    by (simp add: rev_map comp_def)
  with assms(1) have "distinct (map fst (rev (map (\<lambda>r. (fr_id r, attempts r)) rows)))" by simp
  moreover have "(fr_id rec, attempts rec) \<in> set (rev (map (\<lambda>r. (fr_id r, attempts r)) rows))"
    using assms(2) by auto
  ultimately have "map_of (rev (map (\<lambda>r. (fr_id r, attempts r)) rows)) (fr_id rec) = Some (attempts rec)"
    by (rule map_of_is_SomeI)
  with assms(3) show ?thesis by (simp add: attempt_index_def)
qed

subsection \<open>Rows and budgets\<close>

text \<open>
  The last attempt of a budget is the one that fails the event: seven regenerations, ten
  publications.
\<close>

definition within_budget :: "feed_event_row \<Rightarrow> bool" where
  "within_budget r \<longleftrightarrow>
     fe_regeneration_attempts r \<le> 7 \<and> fe_publication_attempts r \<le> 10 \<and>
     (fe_regeneration_attempts r = 7 \<longrightarrow> fe_status r = FE_Failed \<and> fe_phase r = Regeneration) \<and>
     (fe_publication_attempts r = 10 \<longrightarrow> fe_status r = FE_Failed \<and> fe_phase r = Publication)"

definition budgets_ok :: "database \<Rightarrow> bool" where
  "budgets_ok d \<longleftrightarrow> events_ok d \<and> list_all within_budget (feed_events d)"

text \<open>A claimed record and the row it is a copy of.\<close>

definition copies :: "feed_event_record \<Rightarrow> feed_event_row \<Rightarrow> bool" where
  "copies rec r \<longleftrightarrow> fe_id r = fr_id rec \<and> fe_status r = FE_Claimed \<and>
     fe_regeneration_attempts r = fr_regeneration_attempts rec \<and>
     fe_publication_attempts r = fr_publication_attempts rec"

definition claims :: "feed_event_record set \<Rightarrow> database \<Rightarrow> bool" where
  "claims R d \<longleftrightarrow> budgets_ok d \<and> (\<forall>rec \<in> R. \<exists>r \<in> set (feed_events d). copies rec r)"

text \<open>The other writers keep the budgets and leave claimed rows alone.\<close>

definition spares_claims :: "database \<Rightarrow> database \<Rightarrow> bool" where
  "spares_claims d d' \<longleftrightarrow> (\<forall>r \<in> set (feed_events d). fe_status r = FE_Claimed \<longrightarrow> r \<in> set (feed_events d'))"

definition claims_respected :: "worker \<Rightarrow> bool" where
  "claims_respected W \<longleftrightarrow> others_keep W budgets_ok \<and>
     (\<forall>n held d. spares_claims d (interference (w_moments W n) held d) \<and>
        spares_claims d (moment_repair (w_moments W n) d))"

text \<open>The two hash maps are iterated in some order.\<close>

definition orders_ok :: "worker \<Rightarrow> bool" where
  "orders_ok W \<longleftrightarrow> (\<forall>gs. mset (w_group_order W gs) = mset gs) \<and> (\<forall>bs. mset (w_bucket_order W bs) = mset bs)"

lemma claims_mono: "claims R d \<Longrightarrow> R' \<subseteq> R \<Longrightarrow> claims R' d"
  by (auto simp: claims_def)

lemma claims_spared:
  "claims R d \<Longrightarrow> budgets_ok d' \<Longrightarrow> spares_claims d d' \<Longrightarrow> claims R d'"
  unfolding claims_def spares_claims_def copies_def by metis

lemma claims_seen: "claims_respected W \<Longrightarrow> claims R (store w) \<Longrightarrow> claims R (seen_store W w)"
  by (rule claims_spared [of R "store w"])
    (auto simp: claims_respected_def claims_def seen_store_def current_moment_def others_keep_def)

lemma copied_row:
  assumes "claims R d" and "rec \<in> R" and "r \<in> set (feed_events d)" and "fe_id r = fr_id rec"
  shows "copies rec r"
proof -
  from assms(1,2) obtain r' where r': "r' \<in> set (feed_events d)" "copies rec r'" by (auto simp: claims_def)
  have "distinct (map fe_id (feed_events d))" using assms(1) by (simp add: claims_def budgets_ok_def events_ok_def)
  with r' assms(3,4) have "r' = r" by (metis copies_def distinct_map inj_onD)
  with r' show ?thesis by simp
qed

text \<open>An update of rows that are claimed.\<close>

lemma claims_updated:
  assumes "claims R d" and "set ids \<subseteq> fr_id ` R" and "R' \<subseteq> R"
    and "\<And>r. fe_id (f r) = fe_id r" and "\<And>r. row_ok r \<Longrightarrow> row_ok (f r)"
    and "\<And>rec r. rec \<in> R \<Longrightarrow> fr_id rec \<in> set ids \<Longrightarrow> copies rec r \<Longrightarrow> within_budget r \<Longrightarrow> within_budget (f r)"
    and "\<And>rec r. rec \<in> R' \<Longrightarrow> fr_id rec \<in> set ids \<Longrightarrow> copies rec r \<Longrightarrow> copies rec (f r)"
  shows "claims R' (events_updated ids f d)"
proof -
  have ok: "events_ok (events_updated ids f d)"
    by (rule events_ok_updated) (use assms(1,4,5) in \<open>auto simp: claims_def budgets_ok_def\<close>)
  have "within_budget r" if r: "r \<in> set (feed_events (events_updated ids f d))" for r
  proof -
    from r obtain r0 where r0: "r0 \<in> set (feed_events d)" "r = (if fe_id r0 \<in> set ids then f r0 else r0)"
      by (auto simp: events_updated_def update_where_def)
    have b: "within_budget r0" using assms(1) r0(1) by (simp add: claims_def budgets_ok_def list_all_iff)
    show ?thesis
    proof (cases "fe_id r0 \<in> set ids")
      case True
      with assms(2) obtain rec where "rec \<in> R" "fe_id r0 = fr_id rec" by auto
      with copied_row [OF assms(1) _ r0(1)] True assms(6) b r0(2) show ?thesis by auto
    qed (use b r0 in simp)
  qed
  moreover have "\<exists>r \<in> set (feed_events (events_updated ids f d)). copies rec r" if "rec \<in> R'" for rec
  proof -
    from that assms(1,3) obtain r where r: "r \<in> set (feed_events d)" "copies rec r" by (auto simp: claims_def)
    then have "fe_id r = fr_id rec" by (simp add: copies_def)
    moreover have "(if fe_id r \<in> set ids then f r else r) \<in> set (feed_events (events_updated ids f d))"
      using r(1) by (simp add: events_updated_def update_where_def)
    ultimately show ?thesis using assms(7) [OF that, of r] r(2) by (metis (full_types))
  qed
  ultimately show ?thesis using ok by (simp add: claims_def budgets_ok_def list_all_iff)
qed

lemma write_status_claims:
  assumes "claims_respected W" and "claims R (store w)" and "R' \<subseteq> R"
    and "\<And>m c u c'. t m c = (Inr u, c') \<Longrightarrow> claims R (working c) \<Longrightarrow> claims R' (working c')"
  shows "claims R' (store (snd (write_event_status W t w)))"
proof -
  let ?m = "current_moment W w"
  have seen: "claims R (seen_store W w)" by (rule claims_seen [OF assms(1,2)])
  obtain r d where run: "run (w_backend W) (moment_scope ?m) (t ?m) (seen_store W w) = (r, d)" by fastforce
  have "claims R' d"
    using run_preserves [OF run, of "\<lambda>d. claims R' d"] claims_mono [OF seen assms(3)] assms(4) seen
    by (metis open_connection_sel(3))
  with run show ?thesis
    by (simp add: write_event_status_def write_store_def storage_access_def Let_def seen_store_def)
qed

lemma budget_rows:
  assumes "copies rec r" and "within_budget r"
  shows "within_budget (mark_regenerated_row now r)" "within_budget (mark_pinged_row now r)"
    "within_budget (dead_letter_regeneration_row error now r)" "within_budget (dead_letter_publication_row error now r)"
    "within_budget (restart_regeneration_row now r)" "within_budget (reset_regeneration_row now r)"
    "fr_regeneration_attempts rec < 6 \<Longrightarrow> within_budget (retry_regeneration_row error now r)"
    "fr_publication_attempts rec < 9 \<Longrightarrow> within_budget (retry_publication_row error now r)"
  using assms by (auto simp: outcome_row_defs within_budget_def copies_def)

lemma copies_mark_regenerated: "copies rec (mark_regenerated_row now r) = copies rec r"
  by (simp add: copies_def mark_regenerated_row_def)

lemma settle_claims:
  assumes "claims_respected W" and "claims R (store w)" and "R' \<subseteq> R" and "set ids \<subseteq> fr_id ` R"
    and "\<And>rec. rec \<in> R' \<Longrightarrow> fr_id rec \<notin> set ids"
    and "\<And>m c u c'. t m c = (Inr u, c') \<Longrightarrow> working c' = events_updated ids (f m) (working c)"
    and "\<And>m r. fe_id (f m r) = fe_id r" and "\<And>m r. row_ok r \<Longrightarrow> row_ok (f m r)"
    and "\<And>m rec r. rec \<in> R \<Longrightarrow> fr_id rec \<in> set ids \<Longrightarrow> copies rec r \<Longrightarrow> within_budget r \<Longrightarrow> within_budget (f m r)"
  shows "claims R' (store (snd (write_event_status W t w)))"
proof (rule write_status_claims [OF assms(1-3)])
  fix m c u c'
  assume "t m c = (Inr u, c')" and c: "claims R (working c)"
  then have w: "working c' = events_updated ids (f m) (working c)" by (intro assms(6))
  show "claims R' (working c')"
    unfolding w by (rule claims_updated [OF c assms(4,3,7,8,9)]) (use assms(5) in auto)
qed

lemma terminal_claims:
  assumes "claims_respected W" and "claims R (store w)" and "R' \<subseteq> R" and "set ids \<subseteq> fr_id ` R"
    and "\<And>rec. rec \<in> R' \<Longrightarrow> fr_id rec \<notin> set ids"
  shows "claims R' (store (worker_mark_pinged W ids w))"
    "claims R' (store (worker_dead_letter_regeneration W ids message w))"
    "claims R' (store (worker_dead_letter_publication W ids message w))"
    "claims R' (store (worker_restart_regeneration W ids w))"
    "claims R' (store (worker_reset_regeneration W ids w))"
proof -
  note settle = settle_claims [OF assms(1-5)]
  show "claims R' (store (worker_mark_pinged W ids w))"
    unfolding worker_mark_pinged_def
    by (rule settle [where f = "\<lambda>m. mark_pinged_row (moment_now m)"])
      (auto dest: outcome_okD(2) intro: row_ok_outcome budget_rows)
  show "claims R' (store (worker_dead_letter_regeneration W ids message w))"
    unfolding worker_dead_letter_regeneration_def
    by (rule settle [where f = "\<lambda>m. dead_letter_regeneration_row (bounded_diagnostic message) (moment_now m)"])
      (auto dest: outcome_okD(4) intro: row_ok_outcome budget_rows)
  show "claims R' (store (worker_dead_letter_publication W ids message w))"
    unfolding worker_dead_letter_publication_def
    by (rule settle [where f = "\<lambda>m. dead_letter_publication_row (bounded_diagnostic message) (moment_now m)"])
      (auto dest: outcome_okD(6) intro: row_ok_outcome budget_rows)
  show "claims R' (store (worker_restart_regeneration W ids w))"
    unfolding worker_restart_regeneration_def
    by (rule settle [where f = "\<lambda>m. restart_regeneration_row (moment_now m)"])
      (auto dest: outcome_okD(7) intro: row_ok_outcome budget_rows)
  show "claims R' (store (worker_reset_regeneration W ids w))"
    unfolding worker_reset_regeneration_def
    by (rule settle [where f = "\<lambda>m. reset_regeneration_row (moment_now m)"])
      (auto dest: outcome_okD(8) intro: row_ok_outcome budget_rows)
qed

lemma bucket_claims:
  assumes "claims_respected W" and "claims R (store w)" and "R' \<subseteq> R" and "set ids \<subseteq> fr_id ` R"
    and "\<And>rec. rec \<in> R' \<Longrightarrow> fr_id rec \<notin> set ids"
  shows "(\<And>rec. rec \<in> R \<Longrightarrow> fr_id rec \<in> set ids \<Longrightarrow> fr_regeneration_attempts rec < 6) \<Longrightarrow>
      claims R' (store (retry_regeneration_bucket W message (i, ids) w))"
    and "(\<And>rec. rec \<in> R \<Longrightarrow> fr_id rec \<in> set ids \<Longrightarrow> fr_publication_attempts rec < 9) \<Longrightarrow>
      claims R' (store (retry_publication_bucket W message delay (i, ids) w))"
proof -
  note settle = settle_claims [OF assms(1-5)]
  assume few: "\<And>rec. rec \<in> R \<Longrightarrow> fr_id rec \<in> set ids \<Longrightarrow> fr_regeneration_attempts rec < 6"
  show "claims R' (store (retry_regeneration_bucket W message (i, ids) w))"
    unfolding retry_regeneration_bucket_def snd_conv
    by (rule settle [where f = "\<lambda>m. retry_regeneration_row (bounded_diagnostic message)
          (instant_after (w_range W) (moment_now m) (seconds (int (regen_backoffs_secs ! fst (i, ids)))))"])
      (auto dest: outcome_okD(3) intro: row_ok_outcome budget_rows few)
next
  note settle = settle_claims [OF assms(1-5)]
  assume few: "\<And>rec. rec \<in> R \<Longrightarrow> fr_id rec \<in> set ids \<Longrightarrow> fr_publication_attempts rec < 9"
  show "claims R' (store (retry_publication_bucket W message delay (i, ids) w))"
    unfolding retry_publication_bucket_def snd_conv
    by (rule settle [where f = "\<lambda>m. retry_publication_row (bounded_diagnostic message)
          (instant_after (w_range W) (moment_now m) (publication_delay delay (fst (i, ids))))"])
      (auto dest: outcome_okD(5) intro: row_ok_outcome budget_rows few)
qed

lemma mark_regenerated_claims:
  assumes "claims_respected W" and "claims R (store w)" and "set ids \<subseteq> fr_id ` R"
  shows "claims R (store (snd (worker_mark_regenerated W ids w)))"
proof -
  have "claims R (store (snd (write_event_status W (\<lambda>m. mark_regenerated (w_backend W) ids (moment_now m)) w)))"
  proof (rule write_status_claims [OF assms(1,2) subset_refl])
    fix m c u c'
    assume "mark_regenerated (w_backend W) ids (moment_now m) c = (Inr u, c')" and c: "claims R (working c)"
    then have w: "working c' = events_updated ids (mark_regenerated_row (moment_now m)) (working c)"
      by (intro outcome_okD(1))
    show "claims R (working c')"
      unfolding w by (rule claims_updated [OF c assms(3) subset_refl])
        (auto intro: row_ok_outcome budget_rows simp: copies_mark_regenerated)
  qed
  then show ?thesis
    by (cases "write_event_status W (\<lambda>m. mark_regenerated (w_backend W) ids (moment_now m)) w")
      (simp add: worker_mark_regenerated_def split: sum.split)
qed

subsection \<open>Retries\<close>

text \<open>The buckets that are left, one write after the other.\<close>

lemma fold_buckets_claims:
  assumes "claims_respected W" and "\<And>rec. rec \<in> R' \<Longrightarrow> fr_id rec \<notin> \<Union> (set ` snd ` set bs)"
    and "\<And>R R' w i ids. claims R (store w) \<Longrightarrow> R' \<subseteq> R \<Longrightarrow> set ids \<subseteq> fr_id ` R \<Longrightarrow>
      (\<And>rec. rec \<in> R' \<Longrightarrow> fr_id rec \<notin> set ids) \<Longrightarrow>
      (\<And>rec. rec \<in> R \<Longrightarrow> fr_id rec \<in> set ids \<Longrightarrow> few rec) \<Longrightarrow> claims R' (store (f (i, ids) w))"
    and "claims (R' \<union> {rec \<in> S. fr_id rec \<in> \<Union> (set ` snd ` set bs)}) (store w)"
    and "\<Union> (set ` snd ` set bs) \<subseteq> fr_id ` S"
    and "\<And>rec. rec \<in> S \<Longrightarrow> fr_id rec \<in> \<Union> (set ` snd ` set bs) \<Longrightarrow> few rec"
    and "distinct (map fst bs)" and "\<And>j l i. (j, l) \<in> set bs \<Longrightarrow> i \<in> set l \<Longrightarrow> idx i = j"
  shows "claims R' (store (fold f bs w))"
  using assms(2,4-)
proof (induction bs arbitrary: w)
  case (Cons b bs)
  obtain j ids where b: "b = (j, ids)" by (cases b)
  let ?left = "\<Union> (set ` snd ` set bs)"
  let ?all = "\<Union> (set ` snd ` set (b # bs))"
  have apart: "i \<notin> set ids" if "i \<in> ?left" for i
  proof
    assume "i \<in> set ids"
    from that obtain k l where kl: "(k, l) \<in> set bs" "i \<in> set l" by auto
    from kl Cons.prems(6) have "idx i = k" by (meson list.set_intros(2))
    moreover have "idx i = j" using \<open>i \<in> set ids\<close> Cons.prems(6) [of j ids i] b by simp
    ultimately show False using kl(1) Cons.prems(5) b by force
  qed
  have "claims (R' \<union> {rec \<in> S. fr_id rec \<in> ?left}) (store (f b w))"
    unfolding b
  proof (rule assms(3) [OF Cons.prems(2)])
    show "R' \<union> {rec \<in> S. fr_id rec \<in> ?left} \<subseteq> R' \<union> {rec \<in> S. fr_id rec \<in> ?all}" by auto
    show "set ids \<subseteq> fr_id ` (R' \<union> {rec \<in> S. fr_id rec \<in> ?all})" using Cons.prems(3) b by auto
  next
    fix rec
    assume "rec \<in> R' \<union> {rec \<in> S. fr_id rec \<in> ?left}"
    then show "fr_id rec \<notin> set ids" using Cons.prems(1) apart b by auto
  next
    fix rec
    assume "rec \<in> R' \<union> {rec \<in> S. fr_id rec \<in> ?all}" "fr_id rec \<in> set ids"
    then show "few rec" using Cons.prems(1,4) b by auto
  qed
  then have "claims R' (store (fold f bs (f b w)))"
    by (rule Cons.IH [rotated]) (use Cons.prems(1,3,4,5) Cons.prems(6) [OF list.set_intros(2)] in auto)
  then show ?case by simp
qed (simp add: claims_mono [OF _ Un_upper1])

lemma retry_claims_step:
  assumes "claims_respected W" and "orders_ok W" and "claims R (store w)"
    and "set rows \<subseteq> R" and "distinct (map fr_id rows)" and "set ids \<subseteq> fr_id ` set rows"
    and "R' \<subseteq> R" and "\<And>rec. rec \<in> R' \<Longrightarrow> fr_id rec \<notin> set ids"
    and "\<And>rec. rec \<in> set rows \<Longrightarrow> 0 \<le> attempts rec"
    and "\<And>R R' w i ids. claims R (store w) \<Longrightarrow> R' \<subseteq> R \<Longrightarrow> set ids \<subseteq> fr_id ` R \<Longrightarrow>
      (\<And>rec. rec \<in> R' \<Longrightarrow> fr_id rec \<notin> set ids) \<Longrightarrow>
      (\<And>rec. rec \<in> R \<Longrightarrow> fr_id rec \<in> set ids \<Longrightarrow> attempts rec < int budget) \<Longrightarrow> claims R' (store (f (i, ids) w))"
    and "\<And>R R' w ids. claims R (store w) \<Longrightarrow> R' \<subseteq> R \<Longrightarrow> set ids \<subseteq> fr_id ` R \<Longrightarrow>
      (\<And>rec. rec \<in> R' \<Longrightarrow> fr_id rec \<notin> set ids) \<Longrightarrow> claims R' (store (dead ids w))"
    and "partition_retry_attempts ids rows attempts budget ([], []) = (buckets, exhausted)"
  shows "claims R' (store (fold f (w_bucket_order W buckets)
    (if exhausted \<noteq> [] then dead exhausted w else w)))"
proof -
  let ?idx = "attempt_index attempts rows"
  let ?bs = "w_bucket_order W buckets"
  let ?left = "\<Union> (set ` snd ` set ?bs)"
  have ok: "buckets_ok ?idx budget (set ids) (buckets, exhausted)"
    using partition_buckets_ok [of ids "set ids" attempts rows budget "([], [])"] assms(12)
    by (simp add: buckets_ok_def)
  have bs: "set ?bs = set buckets" "mset (map fst ?bs) = mset (map fst buckets)"
    using assms(2) mset_eq_setD [of ?bs buckets] by (simp_all add: orders_ok_def)
  have entry: "j < budget \<and> i \<in> set ids \<and> ?idx i = j" if "(j, l) \<in> set ?bs" "i \<in> set l" for j l i
    using ok that bs(1) by (auto simp: buckets_ok_def)
  have left: "i \<in> set ids \<and> ?idx i < budget" if "i \<in> ?left" for i using that entry by fastforce
  have idx: "attempts rec < int budget" if "rec \<in> set rows" "?idx (fr_id rec) < budget" for rec
    using that attempt_index_row [where attempts = attempts, OF assms(5) that(1) assms(9) [OF that(1)]] assms(9) [OF that(1)] by simp
  have ex: "set exhausted \<subseteq> set ids" "\<And>i. i \<in> set exhausted \<Longrightarrow> budget \<le> ?idx i"
    using ok by (auto simp: buckets_ok_def)
  have start: "claims (R' \<union> {rec \<in> set rows. fr_id rec \<in> ?left}) (store (if exhausted \<noteq> [] then dead exhausted w else w))"
  proof (cases "exhausted = []")
    case True
    have "R' \<union> {rec \<in> set rows. fr_id rec \<in> ?left} \<subseteq> R" using assms(4,7) by auto
    with True show ?thesis using claims_mono [OF assms(3)] by simp
  next
    case False
    have "claims (R' \<union> {rec \<in> set rows. fr_id rec \<in> ?left}) (store (dead exhausted w))"
    proof (rule assms(11) [OF assms(3)])
      show "R' \<union> {rec \<in> set rows. fr_id rec \<in> ?left} \<subseteq> R" using assms(4,7) by auto
      show "set exhausted \<subseteq> fr_id ` R" using ex(1) assms(4,6) by blast
    next
      fix rec
      assume "rec \<in> R' \<union> {rec \<in> set rows. fr_id rec \<in> ?left}"
      then show "fr_id rec \<notin> set exhausted" using assms(8) [of rec] ex left [of "fr_id rec"] by fastforce
    qed
    with False show ?thesis by simp
  qed
  have out: "fr_id rec \<notin> ?left" if "rec \<in> R'" for rec using assms(8) [OF that] left by blast
  have sub: "?left \<subseteq> fr_id ` set rows" using left assms(6) by blast
  have few: "attempts rec < int budget" if "rec \<in> set rows" "fr_id rec \<in> ?left" for rec
    using idx [OF that(1)] left [OF that(2)] by blast
  have dist: "distinct (map fst ?bs)"
    using ok mset_eq_imp_distinct_iff [OF bs(2)] by (simp add: buckets_ok_def)
  show ?thesis
  proof (rule fold_buckets_claims [where few = "\<lambda>rec. attempts rec < int budget" and S = "set rows" and idx = ?idx])
    show "?idx i = j" if "(j, l) \<in> set ?bs" "i \<in> set l" for j l i using entry [OF that] by simp
  qed (fact assms(1) out assms(10) start sub few dist)+
qed

lemma copied_attempts:
  assumes "claims R d" and "rec \<in> R"
  shows "0 \<le> fr_regeneration_attempts rec \<and> 0 \<le> fr_publication_attempts rec"
proof -
  from assms obtain r where r: "r \<in> set (feed_events d)" "copies rec r" by (auto simp: claims_def)
  then have "row_ok r" using assms(1) by (simp add: claims_def budgets_ok_def events_ok_def list_all_iff)
  with r(2) show ?thesis by (simp add: row_ok_def copies_def)
qed

lemma retry_claims:
  assumes "claims_respected W" and "orders_ok W" and "claims R (store w)"
    and "set rows \<subseteq> R" and "distinct (map fr_id rows)" and "set ids \<subseteq> fr_id ` set rows"
    and "R' \<subseteq> R" and "\<And>rec. rec \<in> R' \<Longrightarrow> fr_id rec \<notin> set ids"
  shows "claims R' (store (worker_retry_regeneration W ids rows message w))"
    and "claims R' (store (worker_retry_publication W ids rows message delay w))"
proof -
  have nonneg: "0 \<le> fr_regeneration_attempts rec" "0 \<le> fr_publication_attempts rec" if "rec \<in> set rows" for rec
    using copied_attempts [OF assms(3)] that assms(4) by blast+
  have fold: "fold f (w_bucket_order W []) w = w" for f :: "nat \<times> int list \<Rightarrow> world \<Rightarrow> world" and w
    using assms(2) by (simp add: orders_ok_def) (metis fold_simps(1) mset_zero_iff id_apply)
  obtain buckets exhausted where part:
    "partition_retry_attempts ids rows fr_regeneration_attempts (length regen_backoffs_secs) ([], []) = (buckets, exhausted)"
    by fastforce
  have six: "length regen_backoffs_secs = 6" by (simp add: regen_backoffs_secs_def)
  have "claims R' (store (fold (retry_regeneration_bucket W message) (w_bucket_order W buckets)
      (if exhausted \<noteq> [] then worker_dead_letter_regeneration W exhausted message w else w)))"
    by (rule retry_claims_step [OF assms nonneg(1) _ _ part])
      (auto intro: bucket_claims(1) [OF assms(1)] terminal_claims(2) [OF assms(1)] simp: six)
  then show "claims R' (store (worker_retry_regeneration W ids rows message w))"
    using fold by (auto simp: worker_retry_regeneration_def part Let_def)
  obtain buckets exhausted where part:
    "partition_retry_attempts ids rows fr_publication_attempts (length publication_backoffs_secs) ([], []) = (buckets, exhausted)"
    by fastforce
  have nine: "length publication_backoffs_secs = 9" by (simp add: publication_backoffs_secs_def)
  have "claims R' (store (fold (retry_publication_bucket W message delay) (w_bucket_order W buckets)
      (if exhausted \<noteq> [] then worker_dead_letter_publication W exhausted message w else w)))"
    by (rule retry_claims_step [OF assms nonneg(2) _ _ part])
      (auto intro: bucket_claims(2) [OF assms(1)] terminal_claims(3) [OF assms(1)] simp: nine)
  then show "claims R' (store (worker_retry_publication W ids rows message delay w))"
    using fold by (auto simp: worker_retry_publication_def part Let_def)
qed

subsection \<open>A group\<close>

lemma others_keep_claims: "claims_respected W \<Longrightarrow> others_keep W (claims R)"
  unfolding others_keep_def
proof (intro allI impI conjI)
  fix n held d
  assume r: "claims_respected W" and c: "claims R d"
  then have b: "budgets_ok d" by (simp add: claims_def)
  show "claims R (interference (w_moments W n) held d)"
    by (rule claims_spared [OF c]) (use r b in \<open>auto simp: claims_respected_def others_keep_def\<close>)
  show "claims R (moment_repair (w_moments W n) d)"
    by (rule claims_spared [OF c]) (use r b in \<open>auto simp: claims_respected_def others_keep_def\<close>)
qed

lemma publisher_claims:
  "tx_keeps (claims R) (repair_malformed_hub db token)" "tx_keeps (claims R) (commit_cache db g row)"
proof -
  have e: "claims R (working c')" if "claims R (working c)" "publisher_step parse db q c = (Inr u, c')"
    for parse db q c c' u
    using publisher_step_frame [OF that(2)] that(1) by (auto simp: claims_def budgets_ok_def events_ok_def)
  show "tx_keeps (claims R) (repair_malformed_hub db token)"
    using e [of _ _ db "Repair_Hub token"] unfolding tx_keeps_def publisher_step_def by (auto simp: tx_simps)
  show "tx_keeps (claims R) (commit_cache db g row)"
    using e [of _ _ db "Commit_Cache g row"] unfolding tx_keeps_def publisher_step_def by (auto simp: tx_simps)
qed

lemma read_claims:
  assumes "claims_respected W" and "claims R (store w)" and "read_store W q w = (x, w1)"
  shows "claims R (store w1)"
  using read_store_keeps [OF others_keep_claims [OF assms(1)] assms(2), of q] assms(3) by simp

lemma group_claims:
  assumes "claims_respected W" and "orders_ok W" and "claims R (store w)"
    and "set rows \<subseteq> R" and "distinct (map fr_id rows)" and "R' \<subseteq> R"
    and "\<And>rec. rec \<in> R' \<Longrightarrow> fr_id rec \<notin> fr_id ` set rows"
  shows "claims R' (store (process_feed_group W (path, rows) w))"
proof -
  let ?ids = "map fr_id rows"
  let ?rids = "map fr_id (filter (\<lambda>r. fr_phase r = Regeneration) rows)"
  note others = others_keep_claims [OF assms(1)]
  have all: "set ?ids \<subseteq> fr_id ` set rows" "set ?ids \<subseteq> fr_id ` R" "set ?rids \<subseteq> fr_id ` set rows" "set ?rids \<subseteq> fr_id ` R"
    using assms(4) by auto
  have out: "fr_id rec \<notin> set ?ids" "fr_id rec \<notin> set ?rids" if "rec \<in> R'" for rec using assms(7) [OF that] by auto
  have sub: "claims R' (store w)" if "claims R (store w)" for w by (rule claims_mono [OF that assms(6)])
  have retry: "claims R' (store (worker_retry_regeneration W ?ids rows message w))"
    "claims R' (store (worker_retry_regeneration W ?rids rows message w))"
    "claims R' (store (worker_retry_publication W ?ids rows message delay w))" if "claims R (store w)" for w message delay
    using retry_claims [OF assms(1,2) that assms(4,5) all(1) assms(6) out(1)]
      retry_claims [OF assms(1,2) that assms(4,5) all(3) assms(6) out(2)] by simp_all
  have settle: "claims R' (store (worker_mark_pinged W ?ids w))"
    "claims R' (store (worker_dead_letter_publication W ?ids message w))"
    "claims R' (store (worker_restart_regeneration W ?ids w))"
    "claims R' (store (worker_reset_regeneration W ?ids w))" if "claims R (store w)" for w message
    using terminal_claims [OF assms(1) that assms(6) all(2) out(1)] by simp_all
  have snap: "claims R (store w1)" if "storage_access W (\<lambda>m. service_snapshot (w_url_parser W) (w_backend W)
      (moment_snapshot m) (moment_repair m)) w = (x, w1)" for x w1
  proof -
    have "claims R (store (snd (storage_access W (\<lambda>m. service_snapshot (w_url_parser W) (w_backend W)
      (moment_snapshot m) (moment_repair m)) w)))"
      by (rule storage_access_keeps [OF others _ assms(3)])
        (use others in \<open>auto simp: others_keep_def intro: service_snapshot_keeps [OF publisher_claims(1)]\<close>)
    with that show ?thesis by simp
  qed
  have commit: "claims R (store w1)" if "storage_access W (\<lambda>m. finalize_commit_cache (w_backend W) (moment_scope m) g row) w = (x, w1)"
    "claims R (store w)" for g row w x w1
    using storage_access_keeps [OF others _ that(2), of "\<lambda>m. finalize_commit_cache (w_backend W) (moment_scope m) g row"]
      finalize_commit_keeps [OF publisher_claims(2)] that by simp
  have ping: "claims R (store w1)" if "send_ping W hub feed path w = (x, w1)" "claims R (store w)" for hub feed path w x w1
    using claims_seen [OF assms(1) that(2)] that(1) by (auto simp: send_ping_def Let_def seen_store_def)
  have publish: "claims R' (store (publish_feed W s path ?ids rows w))" if "claims R (store w)" for s w
    using that by (auto simp: publish_feed_def split: prod.split sum.split option.split websub_error.split
        intro: settle retry dest: ping)
  have final: "claims R' (store (finalize_and_publish W s path row ?rids ?ids rows w))" if "claims R (store w)" for s row w
  proof (cases "moment_gate (current_moment W w)")
    case False
    with that show ?thesis by (simp add: finalize_and_publish_def retry)
  next
    case True
    let ?w = "w\<lparr>gate_held := True\<rparr>"
    obtain ok w1 where fin: "finalize_feed_group W s row ?rids ?ids rows ?w = (ok, w1)" by fastforce
    have held: "claims R (store ?w)" using that by simp
    have "claims (if ok then R else R') (store w1)"
      using fin commit [OF _ held] mark_regenerated_claims [OF assms(1) _ all(4)]
      by (auto simp: finalize_feed_group_def split: if_splits prod.splits sum.splits bool.splits
          cache_commit_outcome.splits intro: settle retry sub dest!: read_claims [OF assms(1) held]) (metis snd_conv sub)+
    with fin True show ?thesis
      by (cases ok) (auto simp: finalize_and_publish_def intro: publish)
  qed
  obtain os w1 where s1: "snapshot_for_group W ?ids rows w = (os, w1)" by fastforce
  have 1: "claims (if os = None then R' else R) (store w1)"
    using s1 by (auto simp: snapshot_for_group_def split: prod.splits sum.splits intro: retry dest: snap)
  show ?thesis
  proof (cases os)
    case None
    with s1 1 show ?thesis by (simp add: process_feed_group_def Let_def)
  next
    case (Some s)
    obtain orow w2 where s2: "load_feed_row W s path ?rids ?ids rows w1 = (orow, w2)" by fastforce
    from 1 Some have c1: "claims R (store w1)" by simp
    have 2: "claims (if orow = None then R' else R) (store w2)"
      using s2 by (auto simp: load_feed_row_def split: if_splits prod.splits sum.splits option.splits
          intro: retry settle dest!: read_claims [OF assms(1) c1])
    show ?thesis
      using s1 s2 2 Some by (cases orow) (simp_all add: process_feed_group_def Let_def final)
  qed
qed

subsection \<open>A tick\<close>

lemma add_to_group_rows: "mset (concat (map snd (add_to_group r gs))) = add_mset r (mset (concat (map snd gs)))"
  by (induction r gs rule: add_to_group.induct) auto

lemma mset_concat_cong:
  assumes "mset xs = mset ys"
  shows "mset (concat (map f xs)) = mset (concat (map f ys))"
proof -
  have "sum_list (map (mset \<circ> f) zs) = sum_mset (image_mset (mset \<circ> f) (mset zs))" for zs
    by (metis mset_map sum_mset_sum_list)
  with assms show ?thesis by (simp add: mset_concat)
qed

lemma group_by_path_rows: "mset (concat (map snd (group_by_path rows))) = mset rows"
proof -
  have "mset (concat (map snd (fold add_to_group rows gs))) = mset rows + mset (concat (map snd gs))" for gs
    by (induction rows arbitrary: gs) (simp_all add: add_to_group_rows del: mset_concat)
  from this [of "[]"] show ?thesis by (simp add: group_by_path_def)
qed

lemma fold_groups_claims:
  assumes "claims_respected W" and "orders_ok W"
  shows "claims (set (concat (map snd gs))) (store w) \<Longrightarrow> distinct (map fr_id (concat (map snd gs))) \<Longrightarrow>
    claims {} (store (fold (process_feed_group W) gs w))"
proof (induction gs arbitrary: w)
  case (Cons g gs)
  obtain path rows where g: "g = (path, rows)" by (cases g)
  have "claims (set (concat (map snd gs))) (store (process_feed_group W (path, rows) w))"
    by (rule group_claims [OF assms Cons.prems(1)]) (use Cons.prems(2) g in auto)
  with Cons.IH Cons.prems(2) show ?case by (simp add: g)
qed simp

lemma within_budget_claimed:
  "feed_event_claimable now cutoff r \<Longrightarrow> within_budget r \<Longrightarrow> within_budget (mark_claimed now r)"
  by (auto simp: feed_event_claimable_def within_budget_def mark_claimed_def)

lemma claim_parts_copies:
  assumes "rec \<in> set (fst (claim_parts now chosen d))"
  shows "\<exists>r \<in> set (feed_events d). fe_id r \<in> set (map fe_id chosen) \<and> copies rec (mark_claimed now r) \<and>
    claimed_row_of (mark_claimed now r) = Record rec"
proof -
  from assms obtain r where r: "r \<in> set (feed_events d)" "fe_id r \<in> set (map fe_id chosen)"
    "claimed_row_of (mark_claimed now r) = Record rec"
    by (auto simp: claim_parts_def partition_claimed_records)
  then have "copies rec (mark_claimed now r)"
    by (auto simp: claimed_row_of_def copies_def mark_claimed_def split: option.splits)
  with r show ?thesis by blast
qed

lemma claim_parts_corrupt:
  "i \<in> set (snd (claim_parts now chosen d)) \<Longrightarrow>
     \<exists>r \<in> set (feed_events d). fe_id r = i \<and> claimed_row_of (mark_claimed now r) = Corrupt i"
  by (auto simp: claim_parts_def partition_claimed_corrupt)
    (auto simp: claimed_row_of_def mark_claimed_def split: option.splits)

lemma claim_parts_distinct:
  assumes "distinct (map fe_id (feed_events d))"
  shows "distinct (map fr_id (fst (claim_parts now chosen d)))"
proof -
  have "distinct (map fr_id (fst (partition_claimed (map (\<lambda>r. claimed_row_of (mark_claimed now r)) rs)))) \<and>
      fr_id ` set (fst (partition_claimed (map (\<lambda>r. claimed_row_of (mark_claimed now r)) rs))) \<subseteq> fe_id ` set rs"
    if "distinct (map fe_id rs)" for rs
    using that
  proof (induction rs)
    case (Cons r rs)
    let ?rest = "map (\<lambda>r. claimed_row_of (mark_claimed now r)) rs"
    have IH: "distinct (map fr_id (fst (partition_claimed ?rest)))"
      "fr_id ` set (fst (partition_claimed ?rest)) \<subseteq> fe_id ` set rs" using Cons by simp_all
    show ?case
    proof (cases "claimed_row_of (mark_claimed now r)")
      case (Record rec)
      from claimed_row_of_Record [OF this] have "fr_id rec = fe_id r" by simp
      moreover have "fe_id r \<notin> fe_id ` set rs" using Cons.prems by simp
      ultimately show ?thesis using IH Record by (auto simp: case_prod_unfold)
    next
      case (Corrupt i)
      with IH show ?thesis by (auto simp: case_prod_unfold)
    qed
  qed simp
  from this [OF distinct_map_filter [OF assms]] show ?thesis unfolding claim_parts_def by blast
qed

lemma claim_budget:
  assumes "claim_pending_batch db b locked now limit lease c = (Inr records, c')" and "budgets_ok (working c)"
  shows "claims (set records) (working c') \<and> distinct (map fr_id records)"
proof -
  let ?d = "working c"
  obtain cutoff lk chosen where chosen: "chosen = claimed_set now cutoff (claim_limit_of limit) lk ?d"
    and records: "records = fst (claim_parts now chosen ?d)"
    and w: "working c' \<in> {claimed_database now chosen ?d,
      purged_database (snd (claim_parts now chosen ?d)) (claimed_database now chosen ?d)}"
    by (rule claim_pending_batch_okD [OF assms(1)])
  have ok: "events_ok ?d" "events_ok (working c')"
    using assms(2) claim_pending_batch_events_ok [OF assms(1)] by (simp_all add: budgets_ok_def)
  have dist: "distinct (map fe_id (feed_events ?d))" using ok(1) by (simp add: events_ok_def)
  have "within_budget r" if "r \<in> set (feed_events (claimed_database now chosen ?d))" for r
  proof -
    from that obtain r0 where r0: "r0 \<in> set (feed_events ?d)"
      "r = (if fe_id r0 \<in> set (map fe_id chosen) then mark_claimed now r0 else r0)"
      by (auto simp: claimed_database_def update_where_def)
    have "within_budget r0" using assms(2) r0(1) by (simp add: budgets_ok_def list_all_iff)
    show ?thesis
    proof (cases "fe_id r0 \<in> set (map fe_id chosen)")
      case True
      have "feed_event_claimable now cutoff r0"
        using chosen_claimable(1) [OF dist r0(1)] True chosen by blast
      with \<open>within_budget r0\<close> r0(2) True show ?thesis by (simp only: if_True within_budget_claimed)
    qed (use r0(2) \<open>within_budget r0\<close> in simp)
  qed
  then have "list_all within_budget (feed_events (working c'))"
    using w by (auto simp: list_all_iff purged_database_def delete_where_def)
  moreover have "\<exists>r \<in> set (feed_events (working c')). copies rec r" if rec: "rec \<in> set records" for rec
  proof -
    from claim_parts_copies rec records obtain r where r: "r \<in> set (feed_events ?d)"
      "fe_id r \<in> set (map fe_id chosen)" "copies rec (mark_claimed now r)" "claimed_row_of (mark_claimed now r) = Record rec"
      by blast
    then have "mark_claimed now r \<in> set (feed_events (claimed_database now chosen ?d))"
      by (auto simp: claimed_database_def update_where_def)
    moreover have "fe_id r \<notin> set (snd (claim_parts now chosen ?d))"
    proof
      assume "fe_id r \<in> set (snd (claim_parts now chosen ?d))"
      from claim_parts_corrupt [OF this] obtain r' where "r' \<in> set (feed_events ?d)" "fe_id r' = fe_id r"
        "claimed_row_of (mark_claimed now r') = Corrupt (fe_id r)" by blast
      moreover from this dist r(1) have "r' = r" by (metis distinct_map inj_onD)
      ultimately show False using r(4) by simp
    qed
    ultimately have "mark_claimed now r \<in> set (feed_events (working c'))"
      using w by (auto simp: purged_database_def delete_where_def)
    with r(3) show ?thesis by blast
  qed
  ultimately show ?thesis
    using ok(2) claim_parts_distinct [OF dist] records by (simp add: claims_def budgets_ok_def)
qed

lemma enqueue_budget: "tx_keeps budgets_ok (enqueue_many db now paths)"
  unfolding tx_keeps_def
proof (intro allI impI)
  fix c u c'
  assume ok: "budgets_ok (working c)" and "enqueue_many db now paths c = (Inr u, c')"
  then have w: "working c' = fold (insert_feed_event now) paths (working c)" by (intro enqueue_many_okD)
  have "list_all within_budget (feed_events (fold (insert_feed_event now) paths (working c)))"
    using ok by (auto simp: insert_feed_events_eq budgets_ok_def list_all_iff new_feed_event_def within_budget_def)
  with ok show "budgets_ok (working c')" by (simp add: w budgets_ok_def events_ok_insert_many)
qed

lemma pass_budget:
  assumes "claims_respected W" and "budgets_ok (store w)"
  shows "budgets_ok (store (snd (go_live_pass W now w)))"
proof -
  have others: "others_keep W budgets_ok" using assms(1) by (simp add: claims_respected_def)
  have e: "budgets_ok (store (snd (enqueue_batches W cs w)))" if "budgets_ok (store w)" for cs w
    using that
  proof (induction cs arbitrary: w)
    case (Cons paths rest)
    have "budgets_ok (store (snd (write_store W (\<lambda>m. enqueue_many (w_backend W) (moment_now m) paths) w)))"
      by (rule write_store_keeps [OF others enqueue_budget Cons.prems])
    with Cons show ?case by (auto split: prod.splits sum.splits)
  qed simp
  obtain r w1 where r: "read_store W (\<lambda>_. go_live_reading (last_tick w) now) w = (r, w1)" by fastforce
  from read_store_keeps [OF others assms(2), of "\<lambda>_. go_live_reading (last_tick w) now"] r
  have "budgets_ok (store w1)" by simp
  with e [of w1] r show ?thesis
    by (auto simp: go_live_pass_def split: sum.split prod.split) (metis snd_conv)+
qed

lemma worker_claim_budget:
  assumes "claims_respected W" and "budgets_ok (store w)" and "worker_claim W w = (r, w1)"
  shows "budgets_ok (store w1) \<and>
    (\<forall>rows. r = Inr rows \<longrightarrow> claims (set rows) (store w1) \<and> distinct (map fr_id rows))"
proof -
  have others: "others_keep W budgets_ok" using assms(1) by (simp add: claims_respected_def)
  have keep: "tx_keeps budgets_ok (claim_pending_batch db b locked now limit lease)" for db b locked now limit lease
    unfolding tx_keeps_def using claim_budget unfolding claims_def by blast
  have "budgets_ok (store (snd (worker_claim W w)))"
    unfolding worker_claim_def by (rule write_store_keeps [OF others keep assms(2)])
  then have "budgets_ok (store w1)" by (simp add: assms(3))
  moreover have "claims (set rows) (store w1) \<and> distinct (map fr_id rows)" if "r = Inr rows" for rows
  proof -
    from assms(3) that obtain c c' where c: "working c = seen_store W w" "w1 = w\<lparr>store := working c', step_no := step_no w + 1\<rparr>"
      "claim_pending_batch (w_backend W) (w_range W) (moment_locked (current_moment W w)) (moment_now (current_moment W w))
         200 (seconds (5 * 60)) c = (Inr rows, c')"
      unfolding worker_claim_def by (blast dest: write_store_okD)
    have "budgets_ok (working c)" using seen_store_keeps [of W budgets_ok w, OF others assms(2)] c(1) by simp
    from claim_budget [OF c(3) this] c(2) show ?thesis by simp
  qed
  ultimately show ?thesis by blast
qed

lemma tick_budget:
  assumes "claims_respected W" and "orders_ok W" and "budgets_ok (store w)"
  shows "budgets_ok (store (worker_tick W w))"
proof -
  let ?w1 = "snd (go_live_pass W (moment_now (current_moment W w)) w)"
  obtain r w2 where claim: "worker_claim W ?w1 = (r, w2)" by fastforce
  note c = worker_claim_budget [OF assms(1) pass_budget [OF assms(1,3)] claim]
  show ?thesis
  proof (cases r)
    case (Inl e)
    with claim c show ?thesis by (simp add: worker_tick_def)
  next
    case (Inr rows)
    let ?gs = "w_group_order W (group_by_path rows)"
    have "mset ?gs = mset (group_by_path rows)" using assms(2) by (simp add: orders_ok_def)
    then have "mset (concat (map snd ?gs)) = mset (concat (map snd (group_by_path rows)))"
      by (rule mset_concat_cong)
    then have m: "mset (concat (map snd ?gs)) = mset rows" by (simp only: group_by_path_rows)
    then have "mset (map fr_id (concat (map snd ?gs))) = mset (map fr_id rows)" by (simp only: mset_map)
    then have d: "distinct (map fr_id (concat (map snd ?gs)))"
      using c Inr mset_eq_imp_distinct_iff by blast
    have "set (concat (map snd ?gs)) = set rows" using m by (rule mset_eq_setD)
    then have "claims (set (concat (map snd ?gs))) (store w2)" using c Inr by (simp only:)
    from fold_groups_claims [OF assms(1,2) this d] claim Inr show ?thesis
      by (simp add: worker_tick_def claims_def)
  qed
qed



end
