(* ===== verification/Feed_Requests.thy ===== *)
theory Feed_Requests
  imports Worker_Runs
begin

section \<open>Requests for feeds\<close>

text \<open>
  \<^verbatim>\<open>server/src/feed/conditional.rs\<close>, \<^verbatim>\<open>server/src/feed/handlers.rs\<close> and
  \<^verbatim>\<open>server/src/soft_path.rs\<close>. A header is the list of its field lines, a field line a list of
  bytes. The scanner of \<^verbatim>\<open>If-None-Match\<close> walks over each line once; here its cursor is the
  rest of the line. What it accepts is compared with the grammar of the field. A request for a feed
  that is not cached renders it inline, as often as the configuration moves under it.
\<close>

subsection \<open>The If-None-Match scanner\<close>

definition max_ignored_empty_elements :: nat where
  "max_ignored_empty_elements = 16"

record entity_tag_condition =
  saw_wildcard :: bool
  saw_entity_tag :: bool
  matched :: bool
  ignored_empty_elements :: nat

definition no_condition :: entity_tag_condition where
  "no_condition = \<lparr>saw_wildcard = False, saw_entity_tag = False, matched = False, ignored_empty_elements = 0\<rparr>"

definition empty_element :: "entity_tag_condition \<Rightarrow> entity_tag_condition option" where
  "empty_element c =
     (if saw_wildcard c then None
      else
        (let n = ignored_empty_elements c + 1
         in if n \<le> max_ignored_empty_elements then Some (c\<lparr>ignored_empty_elements := n\<rparr>) else None))"

definition wildcard :: "entity_tag_condition \<Rightarrow> entity_tag_condition option" where
  "wildcard c =
     (if saw_wildcard c \<or> saw_entity_tag c \<or> ignored_empty_elements c \<noteq> 0 then None
      else Some (c\<lparr>saw_wildcard := True\<rparr>))"

definition entity_tag :: "nat list \<Rightarrow> nat list \<Rightarrow> entity_tag_condition \<Rightarrow> entity_tag_condition option" where
  "entity_tag opaque_tag current_etag c =
     (if saw_wildcard c then None
      else Some (c\<lparr>saw_entity_tag := True, matched := matched c \<or> opaque_tag = current_etag\<rparr>))"

definition condition_matches :: "entity_tag_condition \<Rightarrow> bool" where
  "condition_matches c \<longleftrightarrow> saw_wildcard c \<or> matched c"

definition is_ows :: "nat \<Rightarrow> bool" where
  "is_ows b \<longleftrightarrow> b = 32 \<or> b = 9"

definition skip_ows :: "nat list \<Rightarrow> nat list" where
  "skip_ows line = dropWhile is_ows line"

definition is_etagc :: "nat \<Rightarrow> bool" where
  "is_etagc b \<longleftrightarrow> b = 0x21 \<or> (0x23 \<le> b \<and> b \<le> 0x7e) \<or> 0x80 \<le> b"

text \<open>The opaque tag up to its closing quote; \<open>None\<close> when a byte may not stand there.\<close>

fun scan_etagc :: "nat list \<Rightarrow> (nat list \<times> nat list) option" where
  "scan_etagc [] = None"
| "scan_etagc (b # rest) =
     (if b = 34 then Some ([34], rest)
      else if \<not> is_etagc b then None
      else map_option (\<lambda>(tag, after). (b # tag, after)) (scan_etagc rest))"

definition parse_entity_tag :: "nat list \<Rightarrow> (nat list \<times> nat list) option" where
  "parse_entity_tag line =
     (let strong = (if take 2 line = [87, 47] then drop 2 line else line)
      in case strong of
           [] \<Rightarrow> None
         | b # rest \<Rightarrow> if b \<noteq> 34 then None else map_option (\<lambda>(tag, after). (34 # tag, after)) (scan_etagc rest))"

lemma length_skip_ows: "length (skip_ows line) \<le> length line"
  by (simp add: skip_ows_def length_dropWhile_le)

lemma scan_etagc_shorter: "scan_etagc line = Some (tag, after) \<Longrightarrow> length after < length line"
  by (induction line arbitrary: tag) (auto split: if_splits)

lemma parse_entity_tag_shorter: "parse_entity_tag line = Some (tag, after) \<Longrightarrow> length after < length line"
proof -
  assume parsed: "parse_entity_tag line = Some (tag, after)"
  let ?strong = "if take 2 line = [87, 47] then drop 2 line else line"
  from parsed obtain rest t where "?strong = 34 # rest" "scan_etagc rest = Some (t, after)"
    by (auto simp: parse_entity_tag_def Let_def split: list.splits if_split_asm)
  then have "length after < length ?strong" using scan_etagc_shorter by fastforce
  also have "\<dots> \<le> length line" by simp
  finally show ?thesis .
qed

function parse_field_value :: "nat list \<Rightarrow> nat list \<Rightarrow> entity_tag_condition \<Rightarrow> entity_tag_condition option" where
  "parse_field_value line current_etag c =
     (case skip_ows line of
        [] \<Rightarrow> empty_element c
      | b # rest \<Rightarrow>
          if b = 44 then
            (case empty_element c of None \<Rightarrow> None | Some c' \<Rightarrow> parse_field_value rest current_etag c')
          else if b = 42 then
            (if skip_ows rest \<noteq> [] then None else wildcard c)
          else
            (case parse_entity_tag (b # rest) of
               None \<Rightarrow> None
             | Some (opaque_tag, after) \<Rightarrow>
                 (case entity_tag opaque_tag current_etag c of
                    None \<Rightarrow> None
                  | Some c' \<Rightarrow>
                      (case skip_ows after of
                         [] \<Rightarrow> Some c'
                       | b' # rest' \<Rightarrow> if b' \<noteq> 44 then None else parse_field_value rest' current_etag c'))))"
  by pat_completeness auto
termination
proof (relation "measure (\<lambda>(line, _, _). length line)", goal_cases)
  case (2 line current_etag c b rest c')
  then show ?case using length_skip_ows [of line] by simp
next
  case (3 line current_etag c b rest p tag after c' b' rest')
  then have "length after < length (b # rest)" using parse_entity_tag_shorter by metis
  with 3 length_skip_ows [of line] length_skip_ows [of after] show ?case by simp
qed simp

declare parse_field_value.simps [simp del]

fun parse_field_lines :: "nat list list \<Rightarrow> nat list \<Rightarrow> entity_tag_condition \<Rightarrow> entity_tag_condition option" where
  "parse_field_lines [] current_etag c = Some c"
| "parse_field_lines (line # lines) current_etag c =
     (case parse_field_value line current_etag c of
        None \<Rightarrow> None
      | Some c' \<Rightarrow> parse_field_lines lines current_etag c')"

definition if_none_match_matches :: "nat list list \<Rightarrow> nat list \<Rightarrow> bool" where
  "if_none_match_matches lines current_etag =
     (case parse_field_lines lines current_etag no_condition of
        None \<Rightarrow> False
      | Some c \<Rightarrow> condition_matches c)"

subsection \<open>The grammar of the field\<close>

text \<open>
  A field line is a list of members separated by commas, each surrounded by optional white space: an
  entity tag, weak or strong, or nothing; or it is a single asterisk.
\<close>

datatype member = Empty_Member | Wildcard_Member | Tag_Member "nat list"

definition is_opaque_tag :: "nat list \<Rightarrow> bool" where
  "is_opaque_tag tag \<longleftrightarrow> (\<exists>body. tag = [34] @ body @ [34] \<and> list_all is_etagc body)"

definition member_text :: "nat list \<Rightarrow> member \<Rightarrow> bool" where
  "member_text s m \<longleftrightarrow> (\<exists>before after core. s = before @ core @ after \<and> list_all is_ows before \<and> list_all is_ows after \<and>
     (case m of
        Empty_Member \<Rightarrow> core = []
      | Wildcard_Member \<Rightarrow> core = [42]
      | Tag_Member tag \<Rightarrow> is_opaque_tag tag \<and> (core = tag \<or> core = [87, 47] @ tag)))"

inductive field_text :: "nat list \<Rightarrow> member list \<Rightarrow> bool" where
  field_last: "member_text s m \<Longrightarrow> field_text s [m]"
| field_more: "member_text s m \<Longrightarrow> m \<noteq> Wildcard_Member \<Longrightarrow> field_text line ms \<Longrightarrow>
    field_text (s @ [44] @ line) (m # ms)"

text \<open>What the members together mean.\<close>

definition members_match :: "nat list \<Rightarrow> member list \<Rightarrow> bool" where
  "members_match current_etag ms \<longleftrightarrow> ms = [Wildcard_Member] \<or>
     (Wildcard_Member \<notin> set ms \<and> length (filter ((=) Empty_Member) ms) \<le> max_ignored_empty_elements \<and>
      Tag_Member current_etag \<in> set ms)"

subsection \<open>The scanner reads the grammar\<close>

fun run_member :: "nat list \<Rightarrow> member \<Rightarrow> entity_tag_condition \<Rightarrow> entity_tag_condition option" where
  "run_member etag Empty_Member c = empty_element c"
| "run_member etag Wildcard_Member c = wildcard c"
| "run_member etag (Tag_Member tag) c = entity_tag tag etag c"

fun run_members :: "nat list \<Rightarrow> member list \<Rightarrow> entity_tag_condition \<Rightarrow> entity_tag_condition option" where
  "run_members etag [] c = Some c"
| "run_members etag (m # ms) c = (case run_member etag m c of None \<Rightarrow> None | Some c' \<Rightarrow> run_members etag ms c')"

lemma run_members_append:
  "run_members etag (ms @ ns) c = (case run_members etag ms c of None \<Rightarrow> None | Some c' \<Rightarrow> run_members etag ns c')"
  by (induction ms arbitrary: c) (simp_all split: option.split)

lemma run_after_wildcard: "saw_wildcard c \<Longrightarrow> ms \<noteq> [] \<Longrightarrow> run_members etag ms c = None"
  by (cases "(etag, hd ms, c)" rule: run_member.cases; cases ms)
    (auto simp: empty_element_def wildcard_def entity_tag_def)

lemma run_members_match:
  assumes "\<not> saw_wildcard c" and "ignored_empty_elements c \<le> max_ignored_empty_elements"
  shows "(\<exists>c'. run_members etag ms c = Some c' \<and> condition_matches c') \<longleftrightarrow>
    (ms = [Wildcard_Member] \<and> \<not> saw_entity_tag c \<and> ignored_empty_elements c = 0) \<or>
    (Wildcard_Member \<notin> set ms \<and>
     ignored_empty_elements c + length (filter ((=) Empty_Member) ms) \<le> max_ignored_empty_elements \<and>
     (matched c \<or> Tag_Member etag \<in> set ms))"
  using assms
proof (induction ms arbitrary: c)
  case Nil
  then show ?case by (auto simp: condition_matches_def)
next
  case (Cons m ms)
  show ?case
  proof (cases m)
    case Empty_Member
    show ?thesis
    proof (cases "ignored_empty_elements c + 1 \<le> max_ignored_empty_elements")
      case True
      let ?c = "c\<lparr>ignored_empty_elements := ignored_empty_elements c + 1\<rparr>"
      have "run_members etag (m # ms) c = run_members etag ms ?c"
        using True Cons.prems(1) Empty_Member by (simp add: empty_element_def Let_def)
      moreover have "\<not> saw_wildcard ?c" "ignored_empty_elements ?c \<le> max_ignored_empty_elements"
        using True Cons.prems(1) by simp_all
      ultimately show ?thesis using Cons.IH [of ?c] Empty_Member by simp
    next
      case False
      with Cons.prems(1) Empty_Member show ?thesis by (simp add: empty_element_def Let_def)
    qed
  next
    case Wildcard_Member
    then show ?thesis
      using Cons.prems(1) run_after_wildcard [of "c\<lparr>saw_wildcard := True\<rparr>" ms etag]
      by (cases "ms = []") (auto simp: wildcard_def condition_matches_def)
  next
    case (Tag_Member tag)
    let ?c = "c\<lparr>saw_entity_tag := True, matched := matched c \<or> tag = etag\<rparr>"
    have "run_members etag (m # ms) c = run_members etag ms ?c"
      using Cons.prems(1) Tag_Member by (simp add: entity_tag_def)
    with Cons.IH [of ?c] Cons.prems Tag_Member show ?thesis by auto
  qed
qed

lemma skip_ows_append: "list_all is_ows before \<Longrightarrow> skip_ows (before @ s) = skip_ows s"
  by (simp add: skip_ows_def dropWhile_append1 list_all_iff dropWhile_append2)

lemma skip_ows_stop: "s = [] \<or> \<not> is_ows (hd s) \<Longrightarrow> skip_ows s = s"
  by (cases s) (auto simp: skip_ows_def)

lemma skip_ows_split: "\<exists>before. line = before @ skip_ows line \<and> list_all is_ows before"
  by (intro exI [of _ "takeWhile is_ows line"]) (auto simp: skip_ows_def list_all_iff dest: set_takeWhileD)

lemma scan_etagc_body: "list_all is_etagc body \<Longrightarrow> scan_etagc (body @ 34 # rest) = Some (body @ [34], rest)"
  by (induction body) (auto simp: is_etagc_def)

lemma scan_etagc_SomeD:
  "scan_etagc line = Some (tag, after) \<Longrightarrow> \<exists>body. tag = body @ [34] \<and> list_all is_etagc body \<and> line = tag @ after"
proof (induction line arbitrary: tag)
  case (Cons b rest)
  show ?case
  proof (cases "b = 34")
    case True
    with Cons.prems show ?thesis by auto
  next
    case False
    with Cons.prems obtain t where t: "scan_etagc rest = Some (t, after)" "tag = b # t" "is_etagc b"
      by (auto split: if_splits)
    from Cons.IH [OF t(1)] obtain body where "t = body @ [34]" "list_all is_etagc body" "rest = t @ after" by blast
    with t(2,3) show ?thesis by (intro exI [of _ "b # body"]) simp
  qed
qed simp

lemma parse_entity_tag_text:
  assumes "is_opaque_tag tag" and "core = tag \<or> core = [87, 47] @ tag"
  shows "parse_entity_tag (core @ rest) = Some (tag, rest)"
proof -
  from assms(1) obtain body where tag: "tag = 34 # body @ [34]" "list_all is_etagc body" by (auto simp: is_opaque_tag_def)
  from scan_etagc_body [OF tag(2)] have "scan_etagc (body @ 34 # rest) = Some (body @ [34], rest)" .
  with assms(2) tag(1) show ?thesis by (auto simp: parse_entity_tag_def)
qed

lemma parse_entity_tag_SomeD:
  assumes "parse_entity_tag line = Some (tag, after)"
  shows "is_opaque_tag tag \<and> (\<exists>core. line = core @ after \<and> (core = tag \<or> core = [87, 47] @ tag))"
proof -
  let ?strong = "if take 2 line = [87, 47] then drop 2 line else line"
  from assms obtain rest t where s: "?strong = 34 # rest" "scan_etagc rest = Some (t, after)" "tag = 34 # t"
    by (auto simp: parse_entity_tag_def Let_def split: list.splits if_split_asm)
  from scan_etagc_SomeD [OF s(2)] obtain body where b: "t = body @ [34]" "list_all is_etagc body" "rest = t @ after" by blast
  have line: "line = (if take 2 line = [87, 47] then [87, 47] else []) @ ?strong"
    using append_take_drop_id [of 2 line] by (cases "take 2 line = [87, 47]") auto
  show ?thesis
    using b s(1,3) line by (auto simp: is_opaque_tag_def split: if_splits)
qed

lemma core_starts:
  assumes "is_opaque_tag tag" and "core = tag \<or> core = [87, 47] @ tag"
  shows "\<exists>b rest. core = b # rest \<and> b \<noteq> 44 \<and> b \<noteq> 42 \<and> \<not> is_ows b"
  using assms by (auto simp: is_opaque_tag_def is_ows_def)

lemma parse_member:
  assumes "member_text s m" and "m \<noteq> Wildcard_Member" and "t = [] \<or> hd t = 44"
  shows "parse_field_value (s @ t) etag c =
    (case run_member etag m c of
       None \<Rightarrow> None
     | Some c' \<Rightarrow> (case t of [] \<Rightarrow> Some c' | _ # rest \<Rightarrow> parse_field_value rest etag c'))"
proof -
  have t: "skip_ows t = t" using assms(3) by (intro skip_ows_stop) (auto simp: is_ows_def)
  show ?thesis
  proof (cases m)
    case Empty_Member
    with assms(1) have "list_all is_ows s" by (auto simp: member_text_def)
    then have "skip_ows (s @ t) = t" by (simp add: skip_ows_append t)
    with assms(3) have "parse_field_value (s @ t) etag c = (case t of [] \<Rightarrow> empty_element c
        | _ # rest \<Rightarrow> (case empty_element c of None \<Rightarrow> None | Some c' \<Rightarrow> parse_field_value rest etag c'))"
      by (subst parse_field_value.simps) (auto split: list.split)
    with Empty_Member show ?thesis by (simp split: list.split option.split)
  next
    case (Tag_Member tag)
    with assms(1) obtain before after core where s: "s = before @ core @ after" "list_all is_ows before"
      "list_all is_ows after" "is_opaque_tag tag" "core = tag \<or> core = [87, 47] @ tag"
      by (auto simp: member_text_def)
    from core_starts [OF s(4,5)] obtain b rest where core: "core = b # rest" "b \<noteq> 44" "b \<noteq> 42" "\<not> is_ows b" by blast
    have 1: "skip_ows (s @ t) = b # rest @ after @ t"
      using s(1,2) core by (simp add: skip_ows_append skip_ows_stop)
    have 2: "parse_entity_tag (b # rest @ after @ t) = Some (tag, after @ t)"
      using parse_entity_tag_text [OF s(4,5), of "after @ t"] core(1) by simp
    have 3: "skip_ows (after @ t) = t" using s(3) by (simp add: skip_ows_append t)
    have "parse_field_value (s @ t) etag c = (case entity_tag tag etag c of None \<Rightarrow> None
        | Some c' \<Rightarrow> (case t of [] \<Rightarrow> Some c' | _ # rest \<Rightarrow> parse_field_value rest etag c'))"
      using 1 2 3 core(2,3) assms(3)
      by (subst parse_field_value.simps) (auto split: list.split option.split)
    with Tag_Member show ?thesis by simp
  qed (use assms(2) in simp)
qed

lemma parse_field_text:
  "field_text line ms \<Longrightarrow> parse_field_value line etag c = run_members etag ms c"
proof (induction line ms arbitrary: c rule: field_text.induct)
  case (field_last s m)
  show ?case
  proof (cases "m = Wildcard_Member")
    case True
    with field_last obtain before after where s: "s = before @ 42 # after" "list_all is_ows before" "list_all is_ows after"
      by (auto simp: member_text_def)
    then have "skip_ows s = 42 # after" by (simp add: skip_ows_append skip_ows_stop is_ows_def)
    moreover have "skip_ows after = []" using s(3) skip_ows_append [of after "[]"] by (simp add: skip_ows_def)
    ultimately show ?thesis using True by (simp add: parse_field_value.simps [of s] split: option.split)
  next
    case False
    with parse_member [OF field_last False, of "[]" etag c] show ?thesis by (simp split: option.split)
  qed
next
  case (field_more s m line ms)
  from parse_member [OF field_more.hyps(1,2), of "44 # line" etag c] field_more.IH show ?case
    by (simp split: option.split)
qed

lemma parse_field_value_SomeD:
  "parse_field_value line etag c = Some c' \<Longrightarrow> \<exists>ms. field_text line ms"
proof (induction line etag c rule: parse_field_value.induct)
  case (1 line etag c)
  obtain before where line: "line = before @ skip_ows line" "list_all is_ows before" using skip_ows_split by blast
  have empty: "member_text s Empty_Member" if "list_all is_ows s" for s
    using that unfolding member_text_def by (intro exI [of _ s] exI [of _ "[]"]) simp
  show ?case
  proof (cases "skip_ows line")
    case Nil
    with line empty [OF line(2)] show ?thesis by (auto intro: field_last)
  next
    case (Cons b rest)
    consider (comma) "b = 44" | (star) "b = 42" | (tag) "b \<noteq> 44" "b \<noteq> 42" by blast
    then show ?thesis
    proof cases
      case comma
      with 1(3) Cons obtain c1 where "empty_element c = Some c1" "parse_field_value rest etag c1 = Some c'"
        by (auto simp: parse_field_value.simps [of line] split: option.splits)
      with 1(1) [OF Cons comma] obtain ms where "field_text rest ms" by blast
      from field_more [OF empty [OF line(2)] _ this] line Cons comma show ?thesis by auto
    next
      case star
      with 1(3) Cons have "skip_ows rest = []" by (auto simp: parse_field_value.simps [of line] split: if_splits)
      then have "list_all is_ows rest" using skip_ows_split [of rest] by auto
      then have "member_text line Wildcard_Member"
        unfolding member_text_def using line Cons star by (intro exI [of _ before] exI [of _ rest] exI [of _ "[42]"]) simp
      then show ?thesis by (auto intro: field_last)
    next
      case tag
      with 1(3) Cons obtain t after where p: "parse_entity_tag (b # rest) = Some (t, after)"
        by (auto simp: parse_field_value.simps [of line] split: option.splits)
      from parse_entity_tag_SomeD [OF p] obtain core where core: "is_opaque_tag t" "b # rest = core @ after"
        "core = t \<or> core = [87, 47] @ t" by blast
      obtain gap where gap: "after = gap @ skip_ows after" "list_all is_ows gap" using skip_ows_split by blast
      have m: "member_text (before @ core @ gap) (Tag_Member t)"
        unfolding member_text_def using line(2) gap(2) core(1,3)
        by (intro exI [of _ before] exI [of _ gap] exI [of _ core]) simp
      show ?thesis
      proof (cases "skip_ows after")
        case Nil
        then have "line = before @ core @ gap" using line(1) Cons core(2) gap(1) by simp
        with m show ?thesis by (auto intro: field_last)
      next
        case (Cons b' rest')
        with 1(3) tag p \<open>skip_ows line = b # rest\<close> obtain c1 where c1: "entity_tag t etag c = Some c1" "b' = 44"
          "parse_field_value rest' etag c1 = Some c'"
          by (auto simp: parse_field_value.simps [of line] split: option.splits if_splits)
        from 1(2) [OF \<open>skip_ows line = b # rest\<close> tag p refl c1(1) Cons] c1 obtain ms where "field_text rest' ms" by auto
        from field_more [OF m _ this] have "field_text ((before @ core @ gap) @ [44] @ rest') (Tag_Member t # ms)" by simp
        moreover have "line = (before @ core @ gap) @ [44] @ rest'"
          using line(1) \<open>skip_ows line = b # rest\<close> core(2) gap(1) Cons c1(2) by simp
        ultimately show ?thesis by auto
      qed
    qed
  qed
qed

lemma parse_field_lines_members:
  "parse_field_lines lines etag c = Some c' \<longleftrightarrow>
     (\<exists>mss. list_all2 field_text lines mss \<and> run_members etag (concat mss) c = Some c')"
proof (induction lines arbitrary: c)
  case (Cons line lines)
  show ?case
  proof
    assume "parse_field_lines (line # lines) etag c = Some c'"
    then obtain c1 where c1: "parse_field_value line etag c = Some c1" "parse_field_lines lines etag c1 = Some c'"
      by (auto split: option.splits)
    from parse_field_value_SomeD [OF c1(1)] obtain ms where ms: "field_text line ms" by blast
    from Cons.IH c1(2) obtain mss where mss: "list_all2 field_text lines mss" "run_members etag (concat mss) c1 = Some c'" by blast
    show "\<exists>mss. list_all2 field_text (line # lines) mss \<and> run_members etag (concat mss) c = Some c'"
      using ms mss c1(1) parse_field_text [OF ms, of etag c]
      by (intro exI [of _ "ms # mss"]) (simp add: run_members_append)
  next
    assume "\<exists>mss. list_all2 field_text (line # lines) mss \<and> run_members etag (concat mss) c = Some c'"
    then obtain ms mss where m: "field_text line ms" "list_all2 field_text lines mss"
      "run_members etag (ms @ concat mss) c = Some c'"
      by (auto simp: list_all2_Cons1)
    then obtain c1 where "run_members etag ms c = Some c1" "run_members etag (concat mss) c1 = Some c'"
      by (auto simp: run_members_append split: option.splits)
    with m Cons.IH [of c1] parse_field_text [OF m(1), of etag c] show "parse_field_lines (line # lines) etag c = Some c'"
      by auto
  qed
qed simp

text \<open>
  C16: the scanner decides the field. Whatever bytes the field lines hold, the one-pass scanner
  accepts exactly when every line can be read by the grammar of entity-tag lists and all the members
  together are a single asterisk, or hold no asterisk, at most sixteen empty members, and the current
  entity tag, be it marked as weak or not.
\<close>

theorem if_none_match_decides:
  "if_none_match_matches lines current_etag \<longleftrightarrow>
     (\<exists>mss. list_all2 field_text lines mss \<and> members_match current_etag (concat mss))"
proof -
  have "if_none_match_matches lines current_etag \<longleftrightarrow>
      (\<exists>c. parse_field_lines lines current_etag no_condition = Some c \<and> condition_matches c)"
    by (simp add: if_none_match_matches_def split: option.split)
  also have "\<dots> \<longleftrightarrow> (\<exists>mss. list_all2 field_text lines mss \<and>
      (\<exists>c. run_members current_etag (concat mss) no_condition = Some c \<and> condition_matches c))"
    unfolding parse_field_lines_members by blast
  also have "\<dots> \<longleftrightarrow> (\<exists>mss. list_all2 field_text lines mss \<and> members_match current_etag (concat mss))"
    by (subst run_members_match) (simp_all add: no_condition_def members_match_def)
  finally show ?thesis .
qed

subsection \<open>Conditional requests\<close>

text \<open>\<^verbatim>\<open>str::from_utf8\<close>: the shortest encodings of scalar values only.\<close>

definition is_continuation :: "nat \<Rightarrow> bool" where
  "is_continuation b \<longleftrightarrow> 0x80 \<le> b \<and> b < 0xc0"

definition scalar_between :: "nat \<Rightarrow> nat \<Rightarrow> nat \<Rightarrow> nat option" where
  "scalar_between low high c = (if low \<le> c \<and> c \<le> high \<and> \<not> (0xd800 \<le> c \<and> c \<le> 0xdfff) then Some c else None)"

fun utf8_next :: "nat list \<Rightarrow> (nat \<times> nat list) option" where
  "utf8_next [] = None"
| "utf8_next (a # rest) =
     (if a < 0x80 then Some (a, rest)
      else if a < 0xe0 then
        (case rest of
           b # rest' \<Rightarrow>
             if 0xc0 \<le> a \<and> is_continuation b then
               map_option (\<lambda>c. (c, rest')) (scalar_between 0x80 0x7ff ((a - 0xc0) * 64 + (b - 0x80)))
             else None
         | _ \<Rightarrow> None)
      else if a < 0xf0 then
        (case rest of
           b # c # rest' \<Rightarrow>
             if is_continuation b \<and> is_continuation c then
               map_option (\<lambda>c. (c, rest'))
                 (scalar_between 0x800 0xffff ((a - 0xe0) * 4096 + (b - 0x80) * 64 + (c - 0x80)))
             else None
         | _ \<Rightarrow> None)
      else
        (case rest of
           b # c # e # rest' \<Rightarrow>
             if a < 0xf8 \<and> is_continuation b \<and> is_continuation c \<and> is_continuation e then
               map_option (\<lambda>c. (c, rest')) (scalar_between 0x10000 0x10ffff
                 ((a - 0xf0) * 262144 + (b - 0x80) * 4096 + (c - 0x80) * 64 + (e - 0x80)))
             else None
         | _ \<Rightarrow> None))"

lemma utf8_next_shorter: "utf8_next s = Some (c, rest) \<Longrightarrow> length rest < length s"
  by (cases s) (auto split: if_splits list.splits)

function from_utf8 :: "nat list \<Rightarrow> ustr option" where
  "from_utf8 s =
     (if s = [] then Some []
      else
        (case utf8_next s of
           None \<Rightarrow> None
         | Some (c, rest) \<Rightarrow> map_option ((#) c) (from_utf8 rest)))"
  by pat_completeness auto
termination
  by (relation "measure length") (auto dest: utf8_next_shorter)

declare from_utf8.simps [simp del]

lemma utf8_next_char:
  assumes "c < 0x110000" and "\<not> (0xd800 \<le> c \<and> c \<le> 0xdfff)"
  shows "utf8_next (utf8_char c @ rest) = Some (c, rest)"
proof -
  have m: "128 + n mod 64 - 128 = n mod 64" "is_continuation (128 + n mod 64)" for n :: nat
    by (simp_all add: is_continuation_def)
  have d2: "c div 64 * 64 + c mod 64 = c" by simp
  have q: "c div 4096 = c div 64 div 64" "c div 262144 = c div 64 div 64 div 64"
    by (simp_all add: div_mult2_eq [symmetric])
  have step: "n div 64 * 64 + n mod 64 = n" for n :: nat by simp
  have d3: "c div 4096 * 4096 + c div 64 mod 64 * 64 + c mod 64 = c"
    unfolding q using step [of c] step [of "c div 64"] by linarith
  have d4: "c div 262144 * 262144 + c div 4096 mod 64 * 4096 + c div 64 mod 64 * 64 + c mod 64 = c"
    unfolding q using step [of c] step [of "c div 64"] step [of "c div 64 div 64"] by linarith
  consider "c < 0x80" | "0x80 \<le> c" "c < 0x800" | "0x800 \<le> c" "c < 0x10000" | "0x10000 \<le> c" by linarith
  then show ?thesis
  proof cases
    case 1
    then show ?thesis by (simp add: utf8_char_def)
  next
    case 2
    then have "c div 64 < 32" by simp
    with 2 show ?thesis by (simp add: utf8_char_def m d2 scalar_between_def)
  next
    case 3
    then have "c div 4096 < 16" by simp
    with 3 assms(2) show ?thesis by (simp add: utf8_char_def m d3 scalar_between_def)
  next
    case 4
    then have "c div 262144 < 8" using assms(1) by simp
    with 4 assms show ?thesis by (simp add: utf8_char_def m d4 scalar_between_def)
  qed
qed

record feed_request_headers =
  if_none_match :: "nat list list"
  if_modified_since :: "nat list list"

text \<open>The HTTP libraries: their dates, and the bytes a header value may hold.\<close>

record http_library =
  read_http_date :: "ustr \<Rightarrow> instant option"
  write_http_date :: "instant \<Rightarrow> ustr"
  valid_header_value :: "nat list \<Rightarrow> bool"

definition if_modified_since_date :: "http_library \<Rightarrow> feed_request_headers \<Rightarrow> instant option" where
  "if_modified_since_date H headers =
     (case if_modified_since headers of
        [line] \<Rightarrow> Option.bind (from_utf8 line) (read_http_date H)
      | _ \<Rightarrow> None)"

definition is_not_modified :: "http_library \<Rightarrow> feed_request_headers \<Rightarrow> nat list \<Rightarrow> instant \<Rightarrow> bool" where
  "is_not_modified H headers current_etag last_modified =
     (if if_none_match headers \<noteq> [] then if_none_match_matches (if_none_match headers) current_etag
      else
        (case if_modified_since_date H headers of
           None \<Rightarrow> False
         | Some date \<Rightarrow> last_modified \<le> date))"

lemma from_utf8_chars:
  assumes "list_all (\<lambda>c. c < 0x110000 \<and> \<not> (0xd800 \<le> c \<and> c \<le> 0xdfff)) s"
  shows "from_utf8 (concat (map utf8_char s)) = Some s"
  using assms
proof (induction s)
  case (Cons c s)
  have "utf8_char c \<noteq> []" by (simp add: utf8_char_def)
  with Cons utf8_next_char [of c "concat (map utf8_char s)"] show ?case
    by (subst from_utf8.simps) simp
qed (simp add: from_utf8.simps)

subsection \<open>A feed that is not cached\<close>

text \<open>
  The errors of \<^verbatim>\<open>RegenerateError\<close> with what they box. The environment of a request is that
  of the worker: the same store, the same gate, the same other writers.
\<close>

datatype cache_miss_error =
    Miss_Publisher publisher_service_error
  | Miss_Render regenerate_error
  | Miss_Gate
  | Miss_Commit publisher_storage_error

text \<open>One turn of the loop: \<open>Inl\<close> when the generation has moved in the meantime.\<close>

definition cache_miss_turn :: "worker \<Rightarrow> ustr \<Rightarrow> world \<Rightarrow> world + (cache_miss_error + feed_cache_row) \<times> world" where
  "cache_miss_turn W path w =
     (case storage_access W (\<lambda>m. service_snapshot (w_url_parser W) (w_backend W) (moment_snapshot m) (moment_repair m)) w of
        (Inl e, w1) \<Rightarrow> Inr (Inl (Miss_Publisher e), w1)
      | (Inr snapshot, w1) \<Rightarrow>
          (case read_store W (\<lambda>m. render (w_render_env W) (w_calendar W) (w_range W) snapshot path (moment_now m)) w1 of
             (Inl e, w2) \<Rightarrow> Inr (Inl (Miss_Render e), w2)
           | (Inr row, w2) \<Rightarrow>
               if \<not> moment_gate (current_moment W w2) then Inr (Inl Miss_Gate, w2)
               else
                 (case storage_access W (\<lambda>m. finalize_commit_cache (w_backend W) (moment_scope m)
                      (snapshot_generation snapshot) row) (w2\<lparr>gate_held := True\<rparr>) of
                    (Inr (Cache_Committed effective), w3) \<Rightarrow> Inr (Inr effective, w3\<lparr>gate_held := False\<rparr>)
                  | (Inr StaleGeneration, w3) \<Rightarrow> Inl (w3\<lparr>gate_held := False\<rparr>)
                  | (Inl e, w3) \<Rightarrow> Inr (Inl (Miss_Commit e), w3\<lparr>gate_held := False\<rparr>))))"

partial_function (option) regenerate_cache_miss ::
  "worker \<Rightarrow> ustr \<Rightarrow> world \<Rightarrow> ((cache_miss_error + feed_cache_row) \<times> world) option" where
  "regenerate_cache_miss W path w =
     (case cache_miss_turn W path w of
        Inl w' \<Rightarrow> regenerate_cache_miss W path w'
      | Inr result \<Rightarrow> Some result)"

subsection \<open>The response\<close>

record feed_response =
  response_status :: nat
  response_headers :: "(ustr \<times> nat list) list"
  response_body :: ustr

definition bare_response :: "nat \<Rightarrow> feed_response" where
  "bare_response status = \<lparr>response_status = status, response_headers = [], response_body = []\<rparr>"

definition header_value :: "http_library \<Rightarrow> nat list \<Rightarrow> nat list option" where
  "header_value H bytes = (if valid_header_value H bytes then Some bytes else None)"

definition utf8_bytes :: "ustr \<Rightarrow> nat list" where
  "utf8_bytes s = concat (map utf8_char s)"

definition cache_headers :: "http_library \<Rightarrow> feed_cache_row \<Rightarrow> (ustr \<times> nat list) list option" where
  "cache_headers H row =
     Option.bind (header_value H (utf8_bytes (row_etag row))) (\<lambda>etag.
     Option.bind (header_value H (utf8_bytes (write_http_date H (row_representation_modified_at row)))) (\<lambda>last_modified.
     Some [(lit ''etag'', etag), (lit ''last-modified'', last_modified),
       (lit ''cache-control'', lit ''public, max-age=300'')]))"

definition cached_response :: "http_library \<Rightarrow> feed_cache_row \<Rightarrow> nat \<Rightarrow> feed_response option" where
  "cached_response H row status =
     Option.bind (cache_headers H row) (\<lambda>headers.
       if status = 200 then
         Option.bind (header_value H (utf8_bytes (representation_content_type (row_representation row)))) (\<lambda>content_type.
         Some \<lparr>response_status = status, response_headers = headers @ [(lit ''content-type'', content_type)],
           response_body = representation_body (row_representation row)\<rparr>)
       else Some \<lparr>response_status = status, response_headers = headers, response_body = []\<rparr>)"

definition finish_cached_response :: "feed_response option \<Rightarrow> feed_response" where
  "finish_cached_response r = (case r of None \<Rightarrow> bare_response 500 | Some response \<Rightarrow> response)"

definition answer_row :: "http_library \<Rightarrow> feed_request_headers \<Rightarrow> feed_cache_row \<Rightarrow> feed_response" where
  "answer_row H headers row =
     (let status = (if is_not_modified H headers (utf8_bytes (row_etag row)) (row_representation_modified_at row)
        then 304 else 200)
      in finish_cached_response (cached_response H row status))"

definition serve :: "worker \<Rightarrow> http_library \<Rightarrow> feed_request_headers \<Rightarrow> feed_surface \<Rightarrow> feed_format \<Rightarrow> world \<Rightarrow>
    (feed_response \<times> world) option" where
  "serve W H headers surface format w =
     (let path = canonicalize surface format
      in case read_store W (\<lambda>_. get_cached path) w of
           (Inr (Some row), w1) \<Rightarrow> Some (answer_row H headers row, w1)
         | (Inr None, w1) \<Rightarrow>
             (case regenerate_cache_miss W path w1 of
                None \<Rightarrow> None
              | Some (Inr row, w2) \<Rightarrow> Some (answer_row H headers row, w2)
              | Some (Inl _, w2) \<Rightarrow> Some (bare_response 500, w2))
         | (Inl _, w1) \<Rightarrow> Some (bare_response 500, w1))"

text \<open>The four routes; a segment that does not parse is not found.\<close>

definition feed_site :: "worker \<Rightarrow> http_library \<Rightarrow> feed_request_headers \<Rightarrow> ustr \<Rightarrow> world \<Rightarrow> (feed_response \<times> world) option" where
  "feed_site W H headers format w =
     (case parse_feed_format format of
        None \<Rightarrow> Some (bare_response 404, w)
      | Some f \<Rightarrow> serve W H headers Site f w)"

definition feed_site_tag :: "worker \<Rightarrow> http_library \<Rightarrow> feed_request_headers \<Rightarrow> ustr \<Rightarrow> ustr \<Rightarrow> world \<Rightarrow>
    (feed_response \<times> world) option" where
  "feed_site_tag W H headers tag format w =
     (case parse_feed_format format of
        None \<Rightarrow> Some (bare_response 404, w)
      | Some f \<Rightarrow>
          (case parse_tag tag of
             None \<Rightarrow> Some (bare_response 404, w)
           | Some t \<Rightarrow> serve W H headers (SiteTag t) f w))"

definition feed_user :: "worker \<Rightarrow> http_library \<Rightarrow> feed_request_headers \<Rightarrow> ustr \<Rightarrow> ustr \<Rightarrow> world \<Rightarrow>
    (feed_response \<times> world) option" where
  "feed_user W H headers username format w =
     (case parse_feed_format format of
        None \<Rightarrow> Some (bare_response 404, w)
      | Some f \<Rightarrow>
          (case parse_username username of
             None \<Rightarrow> Some (bare_response 404, w)
           | Some u \<Rightarrow> serve W H headers (User u) f w))"

definition feed_user_tag :: "worker \<Rightarrow> http_library \<Rightarrow> feed_request_headers \<Rightarrow> ustr \<Rightarrow> ustr \<Rightarrow> ustr \<Rightarrow> world \<Rightarrow>
    (feed_response \<times> world) option" where
  "feed_user_tag W H headers username tag format w =
     (case parse_feed_format format of
        None \<Rightarrow> Some (bare_response 404, w)
      | Some f \<Rightarrow>
          (case (parse_username username, parse_tag tag) of
             (Some u, Some t) \<Rightarrow> serve W H headers (UserTag u t) f w
           | _ \<Rightarrow> Some (bare_response 404, w)))"

subsection \<open>A request is answered\<close>

text \<open>
  The loop behind a cache miss starts over whenever the generation has moved between its snapshot
  and its commit. It ends once the others have come to rest: no bound on the number of turns is
  part of the code.
\<close>

definition quiet_from :: "worker \<Rightarrow> nat \<Rightarrow> bool" where
  "quiet_from W k \<longleftrightarrow>
     (\<forall>n gate d. k \<le> n \<longrightarrow> publisher_generation (interference (w_moments W n) gate d) = publisher_generation d)"

lemma access_ok:
  assumes "storage_access W f w = (r, w')"
  shows "\<exists>d. f (current_moment W w) (seen_store W w) = (r, d) \<and> w' = w\<lparr>store := d, step_no := step_no w + 1\<rparr>"
  using assms by (auto simp: storage_access_def Let_def seen_store_def split: prod.splits)

lemma finalize_commit_okD:
  assumes "finalize_commit_cache b env g row d = (Inr outcome, d')"
  shows "\<exists>c. commit_cache b g row (open_connection b env d) = (Inr outcome, c) \<and> d' = working c"
  using assms
  by (auto simp: finalize_commit_cache_def split: prod.splits sum.splits write_scope_error.splits
      mutation_outcome.splits dest!: run_confirmedD)

lemma find_merged:
  "find (\<lambda>r. fc_feed_url r = x) (update_where (\<lambda>r. fc_feed_url r = x) (\<lambda>r. merge_cached r new) rs) =
     map_option (\<lambda>r. merge_cached r new) (find (\<lambda>r. fc_feed_url r = x) rs)"
proof -
  have "fc_feed_url (merge_cached old new) = fc_feed_url old" for old
    by (simp add: merge_cached_def Let_def)
  then show ?thesis by (induction rs) (auto simp: update_where_def)
qed

lemma upsert_returns_stored:
  assumes "upsert_on_connection row c = (Inr eff, c')"
  shows "\<exists>st. find_cached (row_feed_path row) (working c') = Some st \<and> load_stored st = Inr eff"
proof -
  obtain st where st: "upsert_stored (stored_of row) (working c) = (Inr st, working c')" "load_stored st = Inr eff"
    using assms by (auto simp: upsert_on_connection_def tx_simps tx_of_result_def split: sum.splits)
  have path: "fc_feed_url (stored_of row) = row_feed_path row" by (simp add: stored_of_def)
  have "find_cached (row_feed_path row) (working c') = Some st"
  proof (cases "find_cached (row_feed_path row) (working c)")
    case None
    then have "find (\<lambda>r. fc_feed_url r = row_feed_path row) (feed_cache (working c)) = None" by (simp add: find_cached_def)
    moreover have "st = stored_of row" and "working c' = (working c)\<lparr>feed_cache := feed_cache (working c) @ [stored_of row]\<rparr>"
      using st(1) None by (auto simp: upsert_stored_def path)
    ultimately show ?thesis by (simp add: find_cached_def find_append path)
  next
    case (Some old)
    with st(1) have "st = merge_cached old (stored_of row)"
      and "working c' = (working c)\<lparr>feed_cache := update_where (\<lambda>r. fc_feed_url r = row_feed_path row)
        (\<lambda>r. merge_cached r (stored_of row)) (feed_cache (working c))\<rparr>"
      by (auto simp: upsert_stored_def path)
    with Some show ?thesis by (simp add: find_cached_def find_merged)
  qed
  with st(2) show ?thesis by blast
qed

text \<open>What a turn can end in.\<close>

lemma turn_steps:
  assumes "cache_miss_turn W path w = Inl w'"
  shows "\<exists>w1 w2. step_no w1 = step_no w + 1 \<and> step_no w2 = step_no w + 2 \<and> store w2 = seen_store W w1 \<and>
    step_no w' = step_no w + 3 \<and>
    publisher_generation (seen_store W (w2\<lparr>gate_held := True\<rparr>)) \<noteq> publisher_generation (store w1)"
proof -
  from assms obtain s w1 row w2 w3 where
    1: "storage_access W (\<lambda>m. service_snapshot (w_url_parser W) (w_backend W) (moment_snapshot m) (moment_repair m)) w = (Inr s, w1)"
    and 2: "read_store W (\<lambda>m. render (w_render_env W) (w_calendar W) (w_range W) s path (moment_now m)) w1 = (Inr row, w2)"
    and 3: "storage_access W (\<lambda>m. finalize_commit_cache (w_backend W) (moment_scope m) (snapshot_generation s) row)
        (w2\<lparr>gate_held := True\<rparr>) = (Inr StaleGeneration, w3)"
    and w': "w' = w3\<lparr>gate_held := False\<rparr>"
    by (auto simp: cache_miss_turn_def split: prod.splits sum.splits if_splits cache_commit_outcome.splits)
  from access_ok [OF 1] obtain d where "service_snapshot (w_url_parser W) (w_backend W)
      (moment_snapshot (current_moment W w)) (moment_repair (current_moment W w)) (seen_store W w) = (Inr s, d)"
    and w1: "w1 = w\<lparr>store := d, step_no := step_no w + 1\<rparr>" by blast
  from snapshot_from_row_generation [OF service_snapshot_reads [OF this(1)]] w1
  have "snapshot_generation s = publisher_generation (store w1)" "step_no w1 = step_no w + 1" by simp_all
  moreover from read_store_okD [OF 2] have "store w2 = seen_store W w1" "step_no w2 = step_no w1 + 1" by auto
  moreover from access_ok [OF 3] obtain d3 where
    "finalize_commit_cache (w_backend W) (moment_scope (current_moment W (w2\<lparr>gate_held := True\<rparr>))) (snapshot_generation s) row
      (seen_store W (w2\<lparr>gate_held := True\<rparr>)) = (Inr StaleGeneration, d3)"
    and "step_no w3 = step_no w2 + 1" by auto
  moreover from finalize_commit_okD [OF this(1)] obtain c where
    "commit_cache (w_backend W) (snapshot_generation s) row (open_connection (w_backend W)
      (moment_scope (current_moment W (w2\<lparr>gate_held := True\<rparr>))) (seen_store W (w2\<lparr>gate_held := True\<rparr>))) = (Inr StaleGeneration, c)"
    by blast
  from commit_cache_okD [OF this] have "publisher_generation (seen_store W (w2\<lparr>gate_held := True\<rparr>)) \<noteq> snapshot_generation s"
    by (auto split: if_split_asm)
  moreover from w' have "step_no w' = step_no w3" by simp
  ultimately have "step_no w1 = step_no w + 1 \<and> step_no w2 = step_no w + 2 \<and> store w2 = seen_store W w1 \<and>
    step_no w' = step_no w + 3 \<and>
    publisher_generation (seen_store W (w2\<lparr>gate_held := True\<rparr>)) \<noteq> publisher_generation (store w1)" by simp
  then show ?thesis by blast
qed

lemma turn_returns_cached:
  assumes "cache_miss_turn W path w = Inr (Inr eff, w')"
  shows "\<exists>st. find_cached path (store w') = Some st \<and> load_stored st = Inr eff"
proof -
  from assms obtain s w1 row w2 w3 where
    2: "read_store W (\<lambda>m. render (w_render_env W) (w_calendar W) (w_range W) s path (moment_now m)) w1 = (Inr row, w2)"
    and 3: "storage_access W (\<lambda>m. finalize_commit_cache (w_backend W) (moment_scope m) (snapshot_generation s) row)
        (w2\<lparr>gate_held := True\<rparr>) = (Inr (Cache_Committed eff), w3)"
    and w': "w' = w3\<lparr>gate_held := False\<rparr>"
    by (auto simp: cache_miss_turn_def split: prod.splits sum.splits if_splits cache_commit_outcome.splits)
  from read_store_okD [OF 2] render_path have path: "row_feed_path row = path" by blast
  from access_ok [OF 3] obtain d3 where
    "finalize_commit_cache (w_backend W) (moment_scope (current_moment W (w2\<lparr>gate_held := True\<rparr>))) (snapshot_generation s) row
      (seen_store W (w2\<lparr>gate_held := True\<rparr>)) = (Inr (Cache_Committed eff), d3)"
    and w3: "store w3 = d3" by auto
  from finalize_commit_okD [OF this(1)] obtain c where c:
    "commit_cache (w_backend W) (snapshot_generation s) row (open_connection (w_backend W)
      (moment_scope (current_moment W (w2\<lparr>gate_held := True\<rparr>))) (seen_store W (w2\<lparr>gate_held := True\<rparr>))) = (Inr (Cache_Committed eff), c)"
    "d3 = working c" by blast
  from commit_cache_okD [OF c(1)] obtain c0 where "upsert_on_connection row c0 = (Inr eff, c)" by (auto split: if_split_asm)
  from upsert_returns_stored [OF this] path w3 c(2) w' show ?thesis by simp
qed

lemma quiet_turn:
  assumes "quiet_from W k" and "k \<le> step_no w + 1"
  shows "cache_miss_turn W path w \<noteq> Inl w'"
proof
  assume "cache_miss_turn W path w = Inl w'"
  from turn_steps [OF this] obtain w1 w2 where t: "step_no w1 = step_no w + 1" "step_no w2 = step_no w + 2"
    "store w2 = seen_store W w1"
    "publisher_generation (seen_store W (w2\<lparr>gate_held := True\<rparr>)) \<noteq> publisher_generation (store w1)" by blast
  have "publisher_generation (seen_store W w1) = publisher_generation (store w1)"
    using assms t(1) by (simp add: seen_store_def current_moment_def quiet_from_def)
  moreover have "publisher_generation (seen_store W (w2\<lparr>gate_held := True\<rparr>)) = publisher_generation (store w2)"
    using assms t(2) by (simp add: seen_store_def current_moment_def quiet_from_def)
  ultimately show False using t(3,4) by simp
qed

text \<open>The loop comes to an end, and the row it returns is the one that is in the cache.\<close>

lemma regenerate_cache_miss_returns:
  assumes "quiet_from W k"
  shows "\<exists>r w'. regenerate_cache_miss W path w = Some (r, w') \<and>
    (\<forall>eff. r = Inr eff \<longrightarrow> (\<exists>st. find_cached path (store w') = Some st \<and> load_stored st = Inr eff))"
proof (induction "k - step_no w" arbitrary: w rule: less_induct)
  case less
  show ?case
  proof (cases "cache_miss_turn W path w")
    case (Inl w')
    with quiet_turn [OF assms] have "step_no w + 1 < k" by (meson not_le_imp_less)
    moreover from turn_steps [OF Inl] have "step_no w' = step_no w + 3" by blast
    ultimately have "k - step_no w' < k - step_no w" by simp
    from less.hyps [OF this] Inl show ?thesis by (subst regenerate_cache_miss.simps) simp
  next
    case (Inr result)
    obtain r w' where result: "result = (r, w')" by fastforce
    have "\<exists>st. find_cached path (store w') = Some st \<and> load_stored st = Inr eff" if "r = Inr eff" for eff
      using turn_returns_cached that Inr result by blast
    then show ?thesis using Inr result by (subst regenerate_cache_miss.simps) simp
  qed
qed



end
