(* ===== verification/Spec2Isabelle.thy ===== *)
theory Spec2Isabelle
  imports Accounts Feed_Events Publisher Passkey_Flows Post_History Author_Reads Worker_Budget Feed_Requests
begin

text \<open>
  \<^bold>\<open>The program.\<close> Jaunder is a self-hosted publishing server: accounts and sessions, posts with
  tags and audiences, syndication feeds rendered in the background and announced to a WebSub hub,
  all stored in SQLite or PostgreSQL. The crate \<^verbatim>\<open>storage\<close> owns the state; every change
  runs in a write scope, one database transaction around a callback. \<^verbatim>\<open>common\<close> holds the
  validated value types, \<^verbatim>\<open>host\<close> what needs the host's libraries, \<^verbatim>\<open>server\<close> the
  background workers and the publisher service, \<^verbatim>\<open>web\<close> the server functions.

  \<^bold>\<open>The model.\<close> The database is one record (\<^verbatim>\<open>Schema\<close>), a table is a list of row
  records, a statement a function of the database. A storage operation is a function of a
  connection (\<^verbatim>\<open>Write_Scope\<close>): the committed database, what the open transaction has written,
  and for every further statement whether the driver fails it; it returns an error or a result.
  So an operation is a composition in the order of the code, with every early return and every
  \<^verbatim>\<open>?\<close>; a read on the pool sees the committed database, not the transaction's own writes. The
  two dialects are modelled apart where their SQL differs. Instants are integers (nanoseconds)
  inside the bounds of the time library, whose saturating and checked arithmetic is written out;
  strings are lists of code points; stored counters are integers.

  \<^bold>\<open>The theories.\<close>
  \<^item> \<^verbatim>\<open>Jaunder_Prelude\<close>: collections of facts, strings, instants, tables.
  \<^item> \<^verbatim>\<open>Write_Scope\<close>: \<^verbatim>\<open>storage/src/write_scope.rs\<close>, \<^verbatim>\<open>storage/src/backend.rs\<close>,
    \<^verbatim>\<open>common/src/mutation.rs\<close>. The scope is atomic; sequences of scopes keep what their
    operations keep (\<open>invariant_store\<close>) and grant a single-use key once (\<open>single_grant\<close>,
    \<open>single_use\<close>).
  \<^item> \<^verbatim>\<open>Schema\<close>: the tables, with the cascades the operations rely on.
  \<^item> \<^verbatim>\<open>Retention\<close>: the batch deletions every pruning shares; a drain of an eligible set ends
    with exactly the rows that are not eligible.
  \<^item> \<^verbatim>\<open>Credentials\<close>: \<^verbatim>\<open>storage/src/invites.rs\<close>, \<^verbatim>\<open>password.rs\<close>, \<^verbatim>\<open>email.rs\<close>.
    Every credential is consumed at most once, and a refusal says why.
  \<^item> \<^verbatim>\<open>Sessions\<close>: \<^verbatim>\<open>storage/src/sessions.rs\<close> and its dialects. Authentication, idle
    expiry, revocation.
  \<^item> \<^verbatim>\<open>Accounts\<close>: \<^verbatim>\<open>storage/src/users.rs\<close>, \<^verbatim>\<open>account_mutations.rs\<close>. Registration
    and password reset are all or nothing.
  \<^item> \<^verbatim>\<open>Text_Values\<close>, \<^verbatim>\<open>Feed_Paths\<close>, \<^verbatim>\<open>Pagination\<close>: the validated values of
    \<^verbatim>\<open>common/src\<close>, the tag and feed-path grammars, page arithmetic. A stored value parses to
    itself (\<open>stable_parser\<close>).
  \<^item> \<^verbatim>\<open>Feed_Events\<close>: \<^verbatim>\<open>storage/src/feed_events.rs\<close> and its dialects. The life cycle of an
    event, exclusive leases, retry budgets, dead letters.
  \<^item> \<^verbatim>\<open>Site_Config\<close>: \<^verbatim>\<open>storage/src/site_config.rs\<close>, with the values of identity, feed
    window and SMTP.
  \<^item> \<^verbatim>\<open>Feed_Cache\<close>: \<^verbatim>\<open>storage/src/feed_cache.rs\<close>, \<^verbatim>\<open>host/src/feed/representation.rs\<close>.
  \<^item> \<^verbatim>\<open>Publisher\<close>: \<^verbatim>\<open>storage/src/publisher.rs\<close>, \<^verbatim>\<open>server/src/publisher.rs\<close>. The
    generation fences every configuration the feeds are rendered from.
  \<^item> \<^verbatim>\<open>Passkeys\<close>, \<^verbatim>\<open>Passkey_Flows\<close>: \<^verbatim>\<open>storage/src/passkeys.rs\<close>,
    \<^verbatim>\<open>host/src/passkey.rs\<close>, \<^verbatim>\<open>web/src/passkeys/api.rs\<close>. A ceremony is claimed once;
    registering and logging in need everything they should.
  \<^item> \<^verbatim>\<open>Audiences\<close>: \<^verbatim>\<open>storage/src/subscriptions.rs\<close>, \<^verbatim>\<open>audiences.rs\<close>,
    \<^verbatim>\<open>common/src/visibility.rs\<close>, \<^verbatim>\<open>web/src/subscriptions\<close>. The references between
    subscriptions, audiences, memberships and the targets of posts.
  \<^item> \<^verbatim>\<open>Visibility\<close>: \<^verbatim>\<open>storage/src/posts/visibility.rs\<close>. The predicate every read folds
    into its query, with the three values of SQL, admits exactly whom the targets of a post admit.
  \<^item> \<^verbatim>\<open>Post_Store\<close>: the writes of \<^verbatim>\<open>storage/src/posts\<close>. \<^verbatim>\<open>Post_History\<close>
    specifies posts as versioned documents and proves that the writes refine it
    (\<open>refining_store\<close>): no version is ever lost, and a key creates one post.
  \<^item> \<^verbatim>\<open>User_Config\<close>: \<^verbatim>\<open>storage/src/user_config.rs\<close>,
    \<^verbatim>\<open>common/src/content_license.rs\<close>. Licence, default format and default audience.
  \<^item> \<^verbatim>\<open>Permalinks\<close>: \<^verbatim>\<open>common/src/time.rs\<close>, \<^verbatim>\<open>permalink_route.rs\<close>.
    Dates and routes read back as what they were written from.
  \<^item> \<^verbatim>\<open>Keyset\<close>: what every paged list promises (\<open>keyset_listing\<close>): turning the pages ends
    with every row shown once, also while the table changes between the pages.
  \<^item> \<^verbatim>\<open>Post_Listings\<close>, \<^verbatim>\<open>Timelines\<close>, \<^verbatim>\<open>Author_Reads\<close>: the reads of
    \<^verbatim>\<open>storage/src/posts\<close>, \<^verbatim>\<open>web/src/timeline\<close> and
    \<^verbatim>\<open>web/src/posts\<close>. Every list keeps the contract of \<open>keyset_listing\<close>, and nothing
    is shown to whom it does not resolve for.
  \<^item> \<^verbatim>\<open>Syndication\<close>: \<^verbatim>\<open>storage/src/posts/syndication.rs\<close>,
    \<^verbatim>\<open>host/src/feed/window.rs\<close> and the user-wide fan-out of \<^verbatim>\<open>account_mutations.rs\<close>.
    The window query selects the window; a change of a user reaches exactly the feeds that show it.
  \<^item> \<^verbatim>\<open>Feed_Identity\<close>, \<^verbatim>\<open>Feed_Render\<close>:
    \<^verbatim>\<open>host/src/feed\<close>, \<^verbatim>\<open>host/src/etag.rs\<close>,
    \<^verbatim>\<open>server/src/feed/regenerate.rs\<close>. What is hashed determines the feed (\<open>prefix_code\<close>);
    a rendered feed shows public posts only, and the whole window.
  \<^item> \<^verbatim>\<open>Websub\<close>: \<^verbatim>\<open>server/src/websub\<close>. A publication comes to a verdict in four
    requests.
  \<^item> \<^verbatim>\<open>Feed_Worker\<close>, \<^verbatim>\<open>Worker_Runs\<close>, \<^verbatim>\<open>Worker_Budget\<close>:
    \<^verbatim>\<open>server/src/feed/worker.rs\<close>. The worker among other writers and failing accesses; what
    queue and publisher keep, every tick keeps (\<open>worker_invariant\<close>). No post that goes live is lost,
    every publication is current, retries are bounded.
  \<^item> \<^verbatim>\<open>Feed_Requests\<close>: \<^verbatim>\<open>server/src/feed/handlers.rs\<close>,
    \<^verbatim>\<open>conditional.rs\<close>. The one-pass scanner of \<^verbatim>\<open>If-None-Match\<close> decides the
    grammar of the field; a request is answered once the configuration has come to rest, with what the
    cache holds.

  \<^bold>\<open>Parameters.\<close> Token generation, hashing, Argon2, the URL parser, the mailbox grammar, the
  WebAuthn library, the calendar and the JSON codec are arguments; what is assumed of them is a named
  hypothesis with an instance (\<open>url_parser_ok\<close>, \<open>calendar_ok\<close>).

  \<^bold>\<open>Concurrency.\<close> Scopes are serialized: SQLite has one writer, and on PostgreSQL the operations
  lock the rows or the advisory key they decide on. Where an operation spans several scopes, or
  reads before its scope, what other writers commit in between is an arbitrary function. In front of
  every access of the feed worker the other writers commit what they like; its theorems name what they
  ask of them.

  \<^bold>\<open>Bounds and fuel.\<close> Every recursion is structural or on a measure. Pruning takes one statement
  per batch and stops at the first short batch; the theorems on it hold for every batch size of
  the code. The limits of 64-bit row counters and of the publisher generation are not modelled.

  \<^bold>\<open>Not modelled.\<close> The bulk operations of posts, the post service and the
  scheduler of the feed worker are left out. Media files, themes, AtomPub, backup and the command line are mostly
  file-system, HTTP and XML adapters; markup rendering, image decoding, mail transport and
  telemetry are thin layers over third-party libraries; the user interface holds no state of its
  own.
\<close>

end
